(* ===== verification/Hive_Prelude.thy ===== *)
theory Hive_Prelude
  imports
    Complex_Main
    "HOL-Library.AList"
    "HOL-Library.Char_ord"
    "HOL-Library.List_Lexorder"
    "HOL-Library.Word"
begin

text \<open>
  Shared vocabulary of the development.

  A Rust \<open>HashMap\<close> is an association list with distinct keys (\<open>hmap\<close>, invariant \<open>hmap_ok\<close>):
  the list order stands for the map's unspecified iteration order, so a theorem about every
  \<open>hmap\<close> holds for every iteration order.  \<open>Instant\<close>s and \<open>Duration\<close>s are natural numbers of
  milliseconds.  \<open>usize\<close> and \<open>u64\<close> counters are natural numbers (subtraction on \<open>nat\<close> is Rust's
  \<open>saturating_sub\<close>; where the source uses a plain \<open>-\<close> the model returns an option).  Strings are
  HOL strings.
\<close>

named_theorems hmap_simps "lookup after an operation on a hash map"
named_theorems hmap_inv "preservation of the hash map invariant"
named_theorems cfg_simps "the numeric constants of the program"

section \<open>Hash maps\<close>

type_synonym ('k, 'v) hmap = "('k \<times> 'v) list"

type_synonym millis = nat

definition hmap_ok :: "('k, 'v) hmap \<Rightarrow> bool" where
  "hmap_ok m \<longleftrightarrow> distinct (map fst m)"

abbreviation (input) hempty :: "('k, 'v) hmap" where
  "hempty \<equiv> []"

definition hget :: "('k, 'v) hmap \<Rightarrow> 'k \<Rightarrow> 'v option" where
  "hget m k = map_of m k"

definition hput :: "'k \<Rightarrow> 'v \<Rightarrow> ('k, 'v) hmap \<Rightarrow> ('k, 'v) hmap" where
  "hput k v m = AList.update k v m"

definition hdel :: "'k \<Rightarrow> ('k, 'v) hmap \<Rightarrow> ('k, 'v) hmap" where
  "hdel k m = AList.delete k m"

definition hretain :: "('k \<Rightarrow> 'v \<Rightarrow> bool) \<Rightarrow> ('k, 'v) hmap \<Rightarrow> ('k, 'v) hmap" where
  "hretain P m = filter (\<lambda>kv. P (fst kv) (snd kv)) m"

definition hkeys :: "('k, 'v) hmap \<Rightarrow> 'k set" where
  "hkeys m = fst ` set m"

text \<open>\<open>*map.entry(k).or_insert(0) += 1\<close> and \<open>map.get(k).copied().unwrap_or(0)\<close>.\<close>

definition hcount :: "('k, nat) hmap \<Rightarrow> 'k \<Rightarrow> nat" where
  "hcount m k = (case hget m k of None \<Rightarrow> 0 | Some n \<Rightarrow> n)"

definition hbump :: "'k \<Rightarrow> ('k, nat) hmap \<Rightarrow> ('k, nat) hmap" where
  "hbump k m = hput k (Suc (hcount m k)) m"

lemma hmap_ok_empty [simp, hmap_inv]: "hmap_ok []"
  by (simp add: hmap_ok_def)

lemma hmap_ok_hput [simp, hmap_inv]: "hmap_ok m \<Longrightarrow> hmap_ok (hput k v m)"
  by (simp add: hmap_ok_def hput_def distinct_update)

lemma hmap_ok_hdel [simp, hmap_inv]: "hmap_ok m \<Longrightarrow> hmap_ok (hdel k m)"
  by (simp add: hmap_ok_def hdel_def distinct_delete)

lemma hmap_ok_hretain [simp, hmap_inv]: "hmap_ok m \<Longrightarrow> hmap_ok (hretain P m)"
  by (simp add: hmap_ok_def hretain_def distinct_map_filter)

lemma hmap_ok_hbump [simp, hmap_inv]: "hmap_ok m \<Longrightarrow> hmap_ok (hbump k m)"
  by (simp add: hbump_def)

lemma hget_empty [simp, hmap_simps]: "hget [] k = None"
  by (simp add: hget_def)

lemma hget_hput [simp, hmap_simps]:
  "hget (hput k v m) k' = (if k' = k then Some v else hget m k')"
  by (simp add: hget_def hput_def update_conv)

lemma hget_hdel [simp, hmap_simps]:
  "hget (hdel k m) k' = (if k' = k then None else hget m k')"
  by (simp add: hget_def hdel_def delete_conv)

lemma hget_hretain [hmap_simps]:
  assumes "hmap_ok m"
  shows "hget (hretain P m) k =
    (case hget m k of None \<Rightarrow> None | Some v \<Rightarrow> if P k v then Some v else None)"
  using assms
proof (induction m)
  case Nil
  then show ?case by (simp add: hretain_def)
next
  case (Cons kv m)
  have *: "map_of m (fst kv) = None" "fst kv \<notin> fst ` set (filter (\<lambda>kv. P (fst kv) (snd kv)) m)"
    using Cons.prems by (auto simp: hmap_ok_def map_of_eq_None_iff)
  then show ?case
    using Cons by (cases kv) (auto simp: hretain_def hget_def hmap_ok_def map_of_eq_None_iff
      split: option.splits)
qed

lemma hget_Some_iff: "hmap_ok m \<Longrightarrow> hget m k = Some v \<longleftrightarrow> (k, v) \<in> set m"
  by (simp add: hmap_ok_def hget_def)

lemma hget_SomeD: "hget m k = Some v \<Longrightarrow> (k, v) \<in> set m"
  by (simp add: hget_def map_of_SomeD)

lemma hget_None_iff: "hget m k = None \<longleftrightarrow> k \<notin> hkeys m"
  by (simp add: hget_def hkeys_def map_of_eq_None_iff)

lemma hkeys_iff: "k \<in> hkeys m \<longleftrightarrow> hget m k \<noteq> None"
  using hget_None_iff by metis

lemma hcount_empty [simp]: "hcount [] k = 0"
  by (simp add: hcount_def)

lemma hcount_hput [simp]: "hcount (hput k n m) k' = (if k' = k then n else hcount m k')"
  by (simp add: hcount_def)

lemma hcount_hdel [simp]: "hcount (hdel k m) k' = (if k' = k then 0 else hcount m k')"
  by (simp add: hcount_def)

lemma hcount_hbump [simp]:
  "hcount (hbump k m) k' = (if k' = k then Suc (hcount m k) else hcount m k')"
  by (simp add: hbump_def)

lemma hput_fresh: "k \<notin> hkeys m \<Longrightarrow> hput k v m = m @ [(k, v)]"
  unfolding hput_def hkeys_def by (induction m) auto

lemma length_hput: "length (hput k v m) = (if k \<in> hkeys m then length m else Suc (length m))"
  unfolding hput_def hkeys_def by (induction m) auto

lemma length_hdel_le: "length (hdel k m) \<le> length m"
  by (simp add: hdel_def length_delete_le)

lemma length_hdel:
  "hmap_ok m \<Longrightarrow> length (hdel k m) = (if k \<in> hkeys m then length m - 1 else length m)"
proof (induction m)
  case Nil
  then show ?case by (simp add: hdel_def hkeys_def)
next
  case (Cons kv m)
  have IH: "length (hdel k m) = (if k \<in> hkeys m then length m - 1 else length m)"
    using Cons by (simp add: hmap_ok_def)
  show ?case
  proof (cases "fst kv = k")
    case True
    then have "k \<notin> hkeys m"
      using Cons.prems by (auto simp: hmap_ok_def hkeys_def)
    then show ?thesis
      using True IH by (cases kv) (simp add: hdel_def hkeys_def)
  next
    case False
    then show ?thesis
      using IH by (cases kv; cases m) (auto simp: hdel_def hkeys_def)
  qed
qed

lemma length_hretain_le: "length (hretain P m) \<le> length m"
  by (simp add: hretain_def)

lemma set_hput:
  assumes "hmap_ok m"
  shows "set (hput k v m) = insert (k, v) {kv \<in> set m. fst kv \<noteq> k}"
  using assms
proof (induction m)
  case Nil
  then show ?case by (simp add: hput_def)
next
  case (Cons kv m)
  have ok: "hmap_ok m" "fst kv \<notin> fst ` set m"
    using Cons.prems by (auto simp: hmap_ok_def)
  show ?case
  proof (cases "fst kv = k")
    case True
    obtain w where kv: "kv = (k, w)"
      using True by (cases kv) auto
    have "x \<in> set m \<Longrightarrow> fst x \<noteq> k" for x
      using ok(2) True by (auto simp: image_iff)
    then have "{x \<in> set (kv # m). fst x \<noteq> k} = set m"
      using kv by auto
    moreover have "set (hput k v (kv # m)) = insert (k, v) (set m)"
      by (simp add: kv hput_def)
    ultimately show ?thesis by (simp only:)
  next
    case False
    then show ?thesis
      using Cons.IH ok by (cases kv) (auto simp: hput_def)
  qed
qed

lemma set_hdel: "set (hdel k m) = {kv \<in> set m. fst kv \<noteq> k}"
  by (auto simp: hdel_def AList.delete_eq)

lemma hkeys_hput [simp]: "hkeys (hput k v m) = insert k (hkeys m)"
  by (simp add: hkeys_def hput_def dom_update)

lemma hkeys_hdel [simp]: "hkeys (hdel k m) = hkeys m - {k}"
  by (auto simp: hkeys_def set_hdel)

section \<open>Splitting strings\<close>

text \<open>\<open>str::split(c)\<close>: the parts between the occurrences of \<open>c\<close>; never an empty list.\<close>

fun split_on :: "'a \<Rightarrow> 'a list \<Rightarrow> 'a list list" where
  "split_on c [] = [[]]"
| "split_on c (x # xs) =
     (if x = c then [] # split_on c xs
      else (case split_on c xs of [] \<Rightarrow> [[x]] | p # ps \<Rightarrow> (x # p) # ps))"

lemma split_on_not_Nil [simp]: "split_on c xs \<noteq> []"
  by (cases xs) (auto split: list.splits)

lemma length_split_on: "length (split_on c xs) = Suc (count_list xs c)"
  by (induction xs) (auto split: list.splits)

lemma split_on_no_sep [simp]: "c \<notin> set xs \<Longrightarrow> split_on c xs = [xs]"
  by (induction xs) auto

lemma split_on_append_sep:
  "c \<notin> set xs \<Longrightarrow> split_on c (xs @ c # ys) = xs # split_on c ys"
  by (induction xs) auto

lemma set_split_on: "p \<in> set (split_on c xs) \<Longrightarrow> c \<notin> set p"
  by (induction xs arbitrary: p) (auto split: list.splits if_splits)

fun join_with :: "'a list \<Rightarrow> 'a list list \<Rightarrow> 'a list" where
  "join_with s [] = []"
| "join_with s [x] = x"
| "join_with s (x # y # ys) = x @ s @ join_with s (y # ys)"

lemma join_split [simp]: "join_with [c] (split_on c xs) = xs"
proof (induction xs)
  case (Cons x xs)
  obtain p ps where "split_on c xs = p # ps"
    by (cases "split_on c xs") auto
  with Cons show ?case by (cases ps) auto
qed simp

lemma split_join:
  "ps \<noteq> [] \<Longrightarrow> \<forall>p \<in> set ps. c \<notin> set p \<Longrightarrow> split_on c (join_with [c] ps) = ps"
proof (induction ps rule: induct_list012)
  case (3 x y zs)
  then show ?case using split_on_append_sep [of c x] by auto
qed auto

text \<open>\<open>str::find(char)\<close>, \<open>str::find(&str)\<close> and \<open>str::contains\<close> give the first match position.\<close>

fun find_sub :: "'a list \<Rightarrow> 'a list \<Rightarrow> nat option" where
  "find_sub pat [] = (if pat = [] then Some 0 else None)"
| "find_sub pat (x # xs) =
     (if take (length pat) (x # xs) = pat then Some 0
      else map_option Suc (find_sub pat xs))"

lemma find_sub_Some:
  "find_sub pat xs = Some i \<Longrightarrow> take (length pat) (drop i xs) = pat \<and> i \<le> length xs"
  by (induction xs arbitrary: i) (auto split: if_splits)

lemma find_sub_first:
  "find_sub pat xs = Some i \<Longrightarrow> j < i \<Longrightarrow> take (length pat) (drop j xs) \<noteq> pat"
proof (induction xs arbitrary: i j)
  case (Cons x xs)
  then show ?case by (cases j) (auto split: if_splits)
qed (auto split: if_splits)

definition contains_sub :: "'a list \<Rightarrow> 'a list \<Rightarrow> bool" where
  "contains_sub pat xs \<longleftrightarrow> find_sub pat xs \<noteq> None"

text \<open>ASCII case folding and trimming (\<open>to_lowercase\<close>, \<open>eq_ignore_ascii_case\<close>, \<open>trim\<close>).\<close>

definition ascii_lower :: "char \<Rightarrow> char" where
  "ascii_lower c = (let n = (of_char c :: nat) in if 65 \<le> n \<and> n \<le> 90 then char_of (n + 32) else c)"

definition to_lower :: "string \<Rightarrow> string" where
  "to_lower = map ascii_lower"

definition is_space :: "char \<Rightarrow> bool" where
  "is_space c \<longleftrightarrow> (let n = (of_char c :: nat) in n = 32 \<or> (9 \<le> n \<and> n \<le> 13))"

definition trim :: "string \<Rightarrow> string" where
  "trim s = rev (dropWhile is_space (rev (dropWhile is_space s)))"

lemma trim_trim: "trim (trim s) = trim s"
proof -
  have dw: "dropWhile P (rev (dropWhile P (rev (dropWhile P xs)))) = rev (dropWhile P (rev (dropWhile P xs)))"
    for P :: "char \<Rightarrow> bool" and xs
  proof (cases "dropWhile P xs")
    case (Cons y ys)
    then have "\<not> P y" by (metis hd_dropWhile list.distinct(1) list.sel(1))
    then have "dropWhile P (rev (y # ys)) = dropWhile P (rev ys) @ [y] \<or> dropWhile P (rev (y # ys)) = [y]"
      by (cases "\<forall>x\<in>set (rev ys). P x") (auto simp: dropWhile_append)
    with Cons \<open>\<not> P y\<close> show ?thesis by auto
  next
    case Nil
    then show ?thesis by (simp only: dropWhile.simps rev.simps)
  qed
  show ?thesis by (simp add: trim_def dw)
qed

definition starts_with :: "'a list \<Rightarrow> 'a list \<Rightarrow> bool" where
  "starts_with pre xs \<longleftrightarrow> take (length pre) xs = pre"

definition ends_with :: "'a list \<Rightarrow> 'a list \<Rightarrow> bool" where
  "ends_with suf xs \<longleftrightarrow> starts_with (rev suf) (rev xs)"

lemma length_to_lower [simp]: "length (to_lower s) = length s"
  by (simp add: to_lower_def)

lemma to_lower_append [simp]: "to_lower (s @ t) = to_lower s @ to_lower t"
  by (simp add: to_lower_def)

lemma ascii_lower_idem [simp]: "ascii_lower (ascii_lower c) = ascii_lower c"
proof (cases "65 \<le> (of_char c :: nat) \<and> (of_char c :: nat) \<le> 90")
  case True
  then have "(of_char (char_of ((of_char c :: nat) + 32)) :: nat) = of_char c + 32"
    by (simp add: take_bit_nat_eq_self)
  with True show ?thesis by (simp add: ascii_lower_def)
next
  case False
  then show ?thesis by (auto simp: ascii_lower_def Let_def)
qed

lemma to_lower_idem [simp]: "to_lower (to_lower s) = to_lower s"
  by (simp add: to_lower_def)

text \<open>Decimal printing and parsing of unsigned numbers.\<close>

definition is_digit :: "char \<Rightarrow> bool" where
  "is_digit c \<longleftrightarrow> (let n = (of_char c :: nat) in 48 \<le> n \<and> n \<le> 57)"

fun digits_val :: "nat \<Rightarrow> string \<Rightarrow> nat option" where
  "digits_val acc [] = Some acc"
| "digits_val acc (c # cs) =
     (if is_digit c then digits_val (10 * acc + (of_char c - 48)) cs else None)"

text \<open>\<open>str::parse::<uN>()\<close>: an optional \<open>+\<close>, at least one digit, no overflow of the width.\<close>

definition parse_unsigned :: "nat \<Rightarrow> string \<Rightarrow> nat option" where
  "parse_unsigned bits s =
     (let ds = (case s of c # cs \<Rightarrow> if c = CHR ''+'' then cs else s | [] \<Rightarrow> []) in
      if ds = [] then None
      else case digits_val 0 ds of
          None \<Rightarrow> None
        | Some n \<Rightarrow> if n < 2 ^ bits then Some n else None)"

lemma parse_unsigned_bound: "parse_unsigned bits s = Some n \<Longrightarrow> n < 2 ^ bits"
  by (auto simp: parse_unsigned_def Let_def split: if_splits option.splits)

fun show_nat :: "nat \<Rightarrow> string" where
  "show_nat n =
     (if n < 10 then [''0123456789'' ! n] else show_nat (n div 10) @ [''0123456789'' ! (n mod 10)])"

declare show_nat.simps [simp del]

section \<open>Selection from lists\<close>

lemma Max_map_list: "xs \<noteq> [] \<Longrightarrow> x \<in> set xs \<Longrightarrow> f x \<le> Max (f ` set xs)"
  by simp

lemma sort_key_hd_min:
  assumes "sort_key f xs = y # ys"
  shows "y \<in> set xs" "\<And>x. x \<in> set xs \<Longrightarrow> f y \<le> f x"
proof -
  have s: "set (y # ys) = set xs"
    using assms set_sort by metis
  then show "y \<in> set xs" by auto
  have "sorted (map f (y # ys))"
    using assms sorted_sort_key by metis
  then show "\<And>x. x \<in> set xs \<Longrightarrow> f y \<le> f x"
    using s by auto
qed

lemma sort_key_Nil_iff [simp]: "sort_key f xs = [] \<longleftrightarrow> xs = []"
  by (metis length_0_conv length_sort)

end
