(* ===== verification/Hive_Types.thy ===== *)
theory Hive_Types
  imports Hive_Prelude
begin

text \<open>
  The data that crosses component boundaries: the numeric error codes of \<open>proto/*.proto\<close>,
  \<open>WorkerStats\<close>, \<open>WorkerEndpoint\<close> and \<open>BrowserContextMetadata\<close> with its per-origin quarantine
  (\<open>common/src/types.rs\<close>).

  Rust keeps \<open>success_rate\<close> in an \<open>f64\<close>; here it is the exact quotient in \<open>rat\<close>.  The interior
  mutability of \<open>BrowserContextMetadata\<close> (\<open>Arc<AtomicBool>\<close> and friends) is plain record fields; which
  reads and writes are atomic is a matter of the step relations that use them.  The clock is an
  argument \<open>now\<close>.
\<close>

section \<open>Error codes\<close>

datatype error_code =
    EC_None | EC_TimeoutGrpc
  | EC_NoWorkersAvailable | EC_WorkerUnreachable | EC_BrowserError | EC_NetworkError
  | EC_ContextCreationFailed | EC_Terminating | EC_ProxyError | EC_CapacityExhausted
  | EC_PageLoadIncomplete
  | EC_InvalidUrl | EC_SessionNotFound | EC_ScopeNotFound | EC_SessionBusy
  | EC_TimeoutBrowser | EC_SelectorNotFound | EC_SkipSelectorFound
  | EC_RedirectToAnotherDomain | EC_Unknown

primrec code_num :: "error_code \<Rightarrow> int" where
  "code_num EC_None = 0"
| "code_num EC_TimeoutGrpc = 1"
| "code_num EC_NoWorkersAvailable = 5001"
| "code_num EC_WorkerUnreachable = 5002"
| "code_num EC_BrowserError = 5003"
| "code_num EC_NetworkError = 5004"
| "code_num EC_ContextCreationFailed = 5005"
| "code_num EC_Terminating = 5006"
| "code_num EC_ProxyError = 5007"
| "code_num EC_CapacityExhausted = 5008"
| "code_num EC_PageLoadIncomplete = 5009"
| "code_num EC_InvalidUrl = 4001"
| "code_num EC_SessionNotFound = 4002"
| "code_num EC_ScopeNotFound = 4003"
| "code_num EC_SessionBusy = 4004"
| "code_num EC_TimeoutBrowser = 4041"
| "code_num EC_SelectorNotFound = 4042"
| "code_num EC_SkipSelectorFound = 4043"
| "code_num EC_RedirectToAnotherDomain = 4050"
| "code_num EC_Unknown = 9999"

lemma code_num_inject [simp]: "code_num a = code_num b \<longleftrightarrow> a = b"
  by (cases a; cases b) simp_all

section \<open>Workers as the coordinator sees them\<close>

record worker_stats =
  ws_scope_name :: string
  ws_pod_name :: string
  ws_pod_ip :: string
  ws_total_contexts :: nat
  ws_available_slots :: nat
  ws_active_requests :: nat
  ws_total_requests :: nat
  ws_total_contexts_created :: nat
  ws_total_contexts_recycled :: nat
  ws_success_rate :: rat

record worker_endpoint =
  pod_name :: string
  pod_ip :: string
  ep_port :: nat
  ep_scope_name :: string
  stats :: worker_stats
  in_flight_at_snapshot :: nat
  is_terminating :: bool

definition worker_stats_default :: worker_stats where
  "worker_stats_default =
     \<lparr>ws_scope_name = '''', ws_pod_name = '''', ws_pod_ip = '''', ws_total_contexts = 0,
      ws_available_slots = 0, ws_active_requests = 0, ws_total_requests = 0,
      ws_total_contexts_created = 0, ws_total_contexts_recycled = 0, ws_success_rate = 0\<rparr>"

section \<open>Browser contexts\<close>

text \<open>
  \<open>id\<close> is a UUID; only its printed form is ever compared, so it is that string.
  \<open>assigned_proxy_config\<close> is a type parameter of the record.
\<close>

record 'proxy context_meta =
  ctx_id :: string
  created_at :: millis
  last_used_at :: millis
  total_requests :: nat
  cache_size_mb :: nat
  is_busy :: bool
  assigned_proxy_config :: "'proxy option"
  blocked_origins :: "(string, millis) hmap"

definition MAX_BLOCKED_ORIGINS :: nat where [cfg_simps]:
  "MAX_BLOCKED_ORIGINS = 32"

definition context_meta_new :: "string \<Rightarrow> millis \<Rightarrow> 'proxy context_meta" where
  "context_meta_new i now =
     \<lparr>ctx_id = i, created_at = now, last_used_at = now, total_requests = 0, cache_size_mb = 0,
      is_busy = False, assigned_proxy_config = None, blocked_origins = []\<rparr>"

text \<open>The map operations of \<open>quarantine_origin\<close>, on the locked map.\<close>

definition evict_earliest :: "(string, millis) hmap \<Rightarrow> (string, millis) hmap" where
  "evict_earliest m =
     (if m = [] then m else hdel (fst (arg_min_list snd m)) m)"

definition quarantine_make_room ::
  "millis \<Rightarrow> string \<Rightarrow> (string, millis) hmap \<Rightarrow> (string, millis) hmap" where
  "quarantine_make_room now origin m =
     (if hget m origin = None \<and> MAX_BLOCKED_ORIGINS \<le> length m then
        (let m' = hretain (\<lambda>_ deadline. now < deadline) m in
         if MAX_BLOCKED_ORIGINS \<le> length m' then evict_earliest m' else m')
      else m)"

definition quarantine_origin ::
  "millis \<Rightarrow> string \<Rightarrow> millis \<Rightarrow> 'p context_meta \<Rightarrow> 'p context_meta" where
  "quarantine_origin now origin cooldown c =
     c\<lparr>blocked_origins :=
         hput origin (now + cooldown) (quarantine_make_room now origin (blocked_origins c))\<rparr>"

text \<open>\<open>quarantined_until\<close>: the answer, and the context after an expired entry was pruned.\<close>

definition quarantined_until ::
  "millis \<Rightarrow> string \<Rightarrow> 'p context_meta \<Rightarrow> millis option \<times> 'p context_meta" where
  "quarantined_until now origin c =
     (case hget (blocked_origins c) origin of
        Some deadline \<Rightarrow>
          (if now < deadline then (Some deadline, c)
           else (None, c\<lparr>blocked_origins := hdel origin (blocked_origins c)\<rparr>))
      | None \<Rightarrow> (None, c))"

definition quarantine_ok :: "'p context_meta \<Rightarrow> bool" where
  "quarantine_ok c \<longleftrightarrow>
     hmap_ok (blocked_origins c) \<and> length (blocked_origins c) \<le> MAX_BLOCKED_ORIGINS"

text \<open>What the pool asks: is the context kept away from this origin now?\<close>

definition blocked_for :: "millis \<Rightarrow> 'p context_meta \<Rightarrow> string \<Rightarrow> bool" where
  "blocked_for now c origin \<longleftrightarrow> fst (quarantined_until now origin c) \<noteq> None"

lemma quarantine_ok_new [simp]: "quarantine_ok (context_meta_new i now)"
  by (simp add: quarantine_ok_def context_meta_new_def)

lemma arg_min_list_snd:
  assumes "(m :: ('k \<times> 'v::linorder) list) \<noteq> []"
  shows "arg_min_list snd m \<in> set m" "x \<in> set m \<Longrightarrow> snd (arg_min_list snd m) \<le> snd x"
proof -
  show "arg_min_list snd m \<in> set m"
    by (rule arg_min_list_in [OF assms])
  show "x \<in> set m \<Longrightarrow> snd (arg_min_list snd m) \<le> snd x"
    using f_arg_min_list_f [OF assms, of snd] by simp
qed

lemma evict_earliest_ok [simp]: "hmap_ok m \<Longrightarrow> hmap_ok (evict_earliest m)"
  by (simp add: evict_earliest_def)

lemma length_evict_earliest:
  assumes "hmap_ok m"
  shows "length (evict_earliest m) = length m - 1"
proof (cases "m = []")
  case False
  then have "fst (arg_min_list snd m) \<in> hkeys m"
    using arg_min_list_snd(1) [OF False] by (auto simp: hkeys_def)
  then show ?thesis
    using False assms by (simp add: evict_earliest_def length_hdel)
qed (simp add: evict_earliest_def)

lemma hget_evict_earliest:
  assumes "hmap_ok m" "hget m k = Some d" "hget (evict_earliest m) k \<noteq> Some d" "hget m k' = Some d'"
  shows "d \<le> d'"
proof -
  have ne: "m \<noteq> []"
    using assms(2) by auto
  then have k: "k = fst (arg_min_list snd m)"
    using assms(2,3) by (auto simp: evict_earliest_def split: if_splits)
  have "arg_min_list snd m = (k, d)"
    using assms(1,2) arg_min_list_snd(1) [OF ne] k
    by (metis hget_Some_iff option.inject prod.collapse)
  then show ?thesis
    using arg_min_list_snd(2) [OF ne, of "(k', d')"] hget_SomeD [OF assms(4)] by simp
qed

lemma hmap_ok_make_room [simp]: "hmap_ok m \<Longrightarrow> hmap_ok (quarantine_make_room now origin m)"
  by (simp add: quarantine_make_room_def Let_def)

lemma length_make_room:
  assumes "hmap_ok m" "length m \<le> MAX_BLOCKED_ORIGINS" "hget m origin = None"
  shows "length (quarantine_make_room now origin m) < MAX_BLOCKED_ORIGINS"
proof -
  have "length (evict_earliest (hretain P m)) < MAX_BLOCKED_ORIGINS" for P
    using assms length_hretain_le [of P m]
    by (simp add: length_evict_earliest MAX_BLOCKED_ORIGINS_def)
  then show ?thesis
    using assms by (auto simp: quarantine_make_room_def Let_def)
qed

lemma quarantine_origin_ok:
  assumes "quarantine_ok c"
  shows "quarantine_ok (quarantine_origin now origin cooldown c)"
proof -
  let ?m = "blocked_origins c"
  have ok: "hmap_ok ?m" "length ?m \<le> MAX_BLOCKED_ORIGINS"
    using assms by (auto simp: quarantine_ok_def)
  have "length (hput origin v (quarantine_make_room now origin ?m)) \<le> MAX_BLOCKED_ORIGINS" for v
  proof (cases "hget ?m origin")
    case None
    then show ?thesis
      using length_make_room [OF ok None, of now] by (simp add: length_hput)
  next
    case (Some d)
    then have "quarantine_make_room now origin ?m = ?m" "origin \<in> hkeys ?m"
      by (auto simp: quarantine_make_room_def hkeys_iff)
    then show ?thesis using ok by (simp add: length_hput)
  qed
  then show ?thesis
    using ok by (simp add: quarantine_ok_def quarantine_origin_def)
qed

lemma quarantined_until_ok:
  "quarantine_ok c \<Longrightarrow> quarantine_ok (snd (quarantined_until now origin c))"
  using length_hdel_le [of origin "blocked_origins c"]
  by (auto simp: quarantine_ok_def quarantined_until_def split: option.splits)

lemma blocked_for_iff:
  "blocked_for now c origin \<longleftrightarrow> (\<exists>d. hget (blocked_origins c) origin = Some d \<and> now < d)"
  by (auto simp: blocked_for_def quarantined_until_def split: option.splits)

text \<open>Pruning on the read path never changes an answer.\<close>

lemma blocked_for_after_read:
  "blocked_for now' (snd (quarantined_until now origin c)) o' \<longleftrightarrow>
     (if o' = origin \<and> \<not> blocked_for now c origin then False else blocked_for now' c o')"
  by (auto simp: blocked_for_iff quarantined_until_def split: option.splits)

lemma hget_evict_other:
  assumes "hget (evict_earliest m) k \<noteq> hget m k" "k' \<noteq> k"
  shows "hget (evict_earliest m) k = None" "hget (evict_earliest m) k' = hget m k'"
  using assms by (auto simp: evict_earliest_def split: if_splits)

lemma hretain_same_length: "length (hretain P m) = length m \<Longrightarrow> (k, v) \<in> set m \<Longrightarrow> P k v"
  using length_filter_less [of "(k, v)" m "\<lambda>kv. P (fst kv) (snd kv)"] by (auto simp: hretain_def)

text \<open>What making room does to the entry of another origin: only at the cap, an expired one or the soonest.\<close>

lemma make_room_changes:
  assumes ok: "hmap_ok m" "length m \<le> MAX_BLOCKED_ORIGINS"
    and changed: "hget (quarantine_make_room now origin m) o' \<noteq> hget m o'"
  obtains d where "hget m origin = None" "length m = MAX_BLOCKED_ORIGINS"
    "hget (quarantine_make_room now origin m) o' = None" "hget m o' = Some d"
    "d \<le> now \<or>
      (\<forall>o'' d''. hget m o'' = Some d'' \<longrightarrow> now < d'' \<and> d \<le> d'') \<and>
      (\<forall>o''. o'' \<noteq> o' \<longrightarrow> hget (quarantine_make_room now origin m) o'' = hget m o'')"
proof -
  let ?r = "hretain (\<lambda>_ deadline. now < deadline) m"
  have cap: "hget m origin = None" "length m = MAX_BLOCKED_ORIGINS"
    using changed ok(2) by (auto simp: quarantine_make_room_def split: if_splits)
  then have room: "quarantine_make_room now origin m = (if MAX_BLOCKED_ORIGINS \<le> length ?r then evict_earliest ?r else ?r)"
    by (simp add: quarantine_make_room_def Let_def)
  obtain d where d: "hget m o' = Some d"
  proof (cases "hget m o'")
    case None
    then have "hget ?r o' = None" by (simp add: hget_hretain ok(1))
    moreover from this have "hget (evict_earliest ?r) o' = None" by (auto simp: evict_earliest_def)
    ultimately show ?thesis using changed None room by (simp split: if_splits)
  qed (rule that)
  show thesis
  proof (cases "MAX_BLOCKED_ORIGINS \<le> length ?r")
    case False
    then show ?thesis
      using changed d room by (intro that [OF cap _ d]) (auto simp: hget_hretain ok(1) split: if_splits)
  next
    case True
    then have "length ?r = length m" using cap(2) length_hretain_le [of _ m] by (simp add: le_antisym)
    then have live: "now < d''" if "hget m o'' = Some d''" for o'' d''
      using hretain_same_length [of "\<lambda>_ deadline. now < deadline" m o'' d''] hget_SomeD [OF that] by simp
    then have same: "hget ?r o'' = hget m o''" for o''
      by (cases "hget m o''") (simp_all add: hget_hretain ok(1))
    have ev: "hget (evict_earliest ?r) o' \<noteq> hget ?r o'" using changed room True same by simp
    have "d \<le> d''" if "hget m o'' = Some d''" for o'' d''
      using hget_evict_earliest [of ?r o' d o'' d''] ev same d that ok(1) by simp
    moreover have "hget (evict_earliest ?r) o' = None"
      using hget_evict_other(1) [OF ev, of "CHR 0x41 # o'"] by simp
    moreover have "hget (evict_earliest ?r) o'' = hget m o''" if "o'' \<noteq> o'" for o''
      using hget_evict_other(2) [OF ev that] same by simp
    ultimately show ?thesis
      using room True live by (intro that [OF cap _ d]) simp_all
  qed
qed



end
