(* ===== verification/Session_Store.thy ===== *)
theory Session_Store
  imports Hive_Types
begin

text \<open>
  \<open>common/src/session.rs\<close>: session ids and the coordinator's \<open>SessionManager\<close>.

  The sessions map sits behind one \<open>RwLock\<close>, so each operation is one atomic step on
  \<open>session_manager\<close>; \<open>Instant::now()\<close> is the argument \<open>now\<close>, and the body of the cleanup task's loop
  (run every 60 s) is \<open>cleanup_sessions\<close>.
\<close>

section \<open>Session ids\<close>

record session_id =
  sid_worker_id :: string
  sid_context_id :: string

definition session_id_new :: "string \<Rightarrow> string \<Rightarrow> session_id" where
  "session_id_new worker context = \<lparr>sid_worker_id = worker, sid_context_id = context\<rparr>"

definition session_id_from_string :: "string \<Rightarrow> session_id option" where
  "session_id_from_string s =
     (case split_on (CHR '':'') s of
        [w, c] \<Rightarrow> Some \<lparr>sid_worker_id = w, sid_context_id = c\<rparr>
      | _ \<Rightarrow> None)"

definition session_id_to_string :: "session_id \<Rightarrow> string" where
  "session_id_to_string sid = sid_worker_id sid @ '':'' @ sid_context_id sid"

definition plain_id :: "session_id \<Rightarrow> bool" where
  "plain_id sid \<longleftrightarrow> CHR '':'' \<notin> set (sid_worker_id sid) \<and> CHR '':'' \<notin> set (sid_context_id sid)"

lemma split_session_id:
  "split_on (CHR '':'') (session_id_to_string sid) =
     split_on (CHR '':'') (sid_worker_id sid @ CHR '':'' # sid_context_id sid)"
  by (simp add: session_id_to_string_def)

lemma count_list_0_iff: "count_list xs x = 0 \<longleftrightarrow> x \<notin> set xs"
  by (induction xs) auto

lemma session_id_from_string_None:
  "session_id_from_string s = None \<longleftrightarrow> count_list s (CHR '':'') \<noteq> 1"
proof -
  have "length (split_on (CHR '':'') s) = Suc (count_list s (CHR '':''))"
    by (rule length_split_on)
  then show ?thesis
    unfolding session_id_from_string_def by (auto split: list.splits)
qed

lemma session_id_from_string_plain:
  "session_id_from_string s = Some sid \<Longrightarrow> plain_id sid \<and> session_id_to_string sid = s"
proof -
  assume "session_id_from_string s = Some sid"
  then have sp: "split_on (CHR '':'') s = [sid_worker_id sid, sid_context_id sid]"
    by (auto simp: session_id_from_string_def split: list.splits)
  then have "CHR '':'' \<notin> set (sid_worker_id sid)" "CHR '':'' \<notin> set (sid_context_id sid)"
    using set_split_on [of _ "CHR '':''" s] by auto
  moreover have "join_with '':'' [sid_worker_id sid, sid_context_id sid] = s"
    using join_split [of "CHR '':''" s] sp by simp
  ultimately show ?thesis
    by (simp add: plain_id_def session_id_to_string_def)
qed

lemma session_id_from_to_string:
  "plain_id sid \<Longrightarrow> session_id_from_string (session_id_to_string sid) = Some sid"
  by (simp add: session_id_from_string_def split_session_id split_on_append_sep plain_id_def)

section \<open>The session manager\<close>

record session_info =
  si_session_id :: session_id
  si_scope_name :: string
  si_worker_endpoint :: string
  si_created_at :: millis
  si_last_used_at :: millis
  si_request_count :: nat

record session_manager =
  sm_sessions :: "(string, session_info) hmap"
  sm_session_ttl :: millis

definition session_manager_new :: "millis \<Rightarrow> session_manager" where
  "session_manager_new ttl = \<lparr>sm_sessions = hempty, sm_session_ttl = ttl\<rparr>"

definition session_manager_default :: session_manager where
  "session_manager_default = session_manager_new (30 * 60 * 1000)"

definition create_session ::
  "millis \<Rightarrow> string \<Rightarrow> string \<Rightarrow> string \<Rightarrow> string \<Rightarrow> session_manager \<Rightarrow> session_id \<times> session_manager" where
  "create_session now scope_name worker_id context_id worker_endpoint sm =
     (let sid = session_id_new worker_id context_id;
          info = \<lparr>si_session_id = sid, si_scope_name = scope_name,
                  si_worker_endpoint = worker_endpoint, si_created_at = now,
                  si_last_used_at = now, si_request_count = 1\<rparr>
      in (sid, sm\<lparr>sm_sessions := hput (session_id_to_string sid) info (sm_sessions sm)\<rparr>))"

definition get_session ::
  "millis \<Rightarrow> string \<Rightarrow> session_manager \<Rightarrow> session_info option \<times> session_manager" where
  "get_session now sid sm =
     (case hget (sm_sessions sm) sid of
        Some s \<Rightarrow>
          (let s' = s\<lparr>si_last_used_at := now, si_request_count := si_request_count s + 1\<rparr>
           in (Some s', sm\<lparr>sm_sessions := hput sid s' (sm_sessions sm)\<rparr>))
      | None \<Rightarrow> (None, sm))"

definition remove_session :: "string \<Rightarrow> session_manager \<Rightarrow> session_manager" where
  "remove_session sid sm = sm\<lparr>sm_sessions := hdel sid (sm_sessions sm)\<rparr>"

definition cleanup_sessions :: "millis \<Rightarrow> session_manager \<Rightarrow> session_manager" where
  "cleanup_sessions now sm =
     sm\<lparr>sm_sessions :=
          hretain (\<lambda>_ info. now - si_last_used_at info < sm_session_ttl sm) (sm_sessions sm)\<rparr>"

record session_stats =
  st_total_sessions :: nat
  st_sessions_by_scope :: "(string, nat) hmap"

definition session_get_stats :: "session_manager \<Rightarrow> session_stats" where
  "session_get_stats sm =
     \<lparr>st_total_sessions = length (sm_sessions sm),
      st_sessions_by_scope =
        foldl (\<lambda>acc s. hbump (si_scope_name s) acc) hempty (map snd (sm_sessions sm))\<rparr>"

text \<open>The invariant: distinct keys, each the printed form of the id stored under it.\<close>

definition sessions_ok :: "session_manager \<Rightarrow> bool" where
  "sessions_ok sm \<longleftrightarrow>
     hmap_ok (sm_sessions sm) \<and>
     (\<forall>k i. hget (sm_sessions sm) k = Some i \<longrightarrow>
        session_id_to_string (si_session_id i) = k \<and> 1 \<le> si_request_count i)"

abbreviation session_lookup :: "session_manager \<Rightarrow> string \<Rightarrow> session_info option" where
  "session_lookup sm \<equiv> hget (sm_sessions sm)"

lemma sessions_ok_new [simp]: "sessions_ok (session_manager_new ttl)"
  by (simp add: sessions_ok_def session_manager_new_def)

lemma sessions_ok_create:
  "sessions_ok sm \<Longrightarrow> sessions_ok (snd (create_session now sc w c e sm))"
  by (auto simp: sessions_ok_def create_session_def Let_def)

lemma sessions_ok_get: "sessions_ok sm \<Longrightarrow> sessions_ok (snd (get_session now k sm))"
  by (auto simp: sessions_ok_def get_session_def Let_def split: option.splits)

lemma sessions_ok_remove: "sessions_ok sm \<Longrightarrow> sessions_ok (remove_session k sm)"
  by (auto simp: sessions_ok_def remove_session_def)

lemma sessions_ok_cleanup: "sessions_ok sm \<Longrightarrow> sessions_ok (cleanup_sessions now sm)"
  by (auto simp: sessions_ok_def cleanup_sessions_def hget_hretain split: option.splits if_splits)

lemma session_lookup_create:
  "session_lookup (snd (create_session now sc w c e sm)) k =
     (if k = w @ '':'' @ c
      then Some \<lparr>si_session_id = session_id_new w c, si_scope_name = sc, si_worker_endpoint = e,
                 si_created_at = now, si_last_used_at = now, si_request_count = 1\<rparr>
      else session_lookup sm k)"
  by (simp add: create_session_def Let_def session_id_new_def session_id_to_string_def)

lemma session_lookup_get:
  "session_lookup (snd (get_session now k sm)) k' =
     (if k' = k
      then map_option (\<lambda>s. s\<lparr>si_last_used_at := now, si_request_count := si_request_count s + 1\<rparr>)
             (session_lookup sm k)
      else session_lookup sm k')"
  by (auto simp: get_session_def Let_def split: option.splits)

lemma get_session_result:
  "fst (get_session now k sm) = session_lookup (snd (get_session now k sm)) k"
  by (auto simp: get_session_def Let_def split: option.splits)

lemma session_lookup_remove:
  "session_lookup (remove_session k sm) k' = (if k' = k then None else session_lookup sm k')"
  by (simp add: remove_session_def)

lemma session_lookup_cleanup:
  "sessions_ok sm \<Longrightarrow>
   session_lookup (cleanup_sessions now sm) k =
     (case session_lookup sm k of None \<Rightarrow> None
      | Some s \<Rightarrow> if now - si_last_used_at s < sm_session_ttl sm then Some s else None)"
  by (simp add: cleanup_sessions_def hget_hretain sessions_ok_def)

lemma session_ttl_const [simp]:
  "sm_session_ttl (snd (create_session now sc w c e sm)) = sm_session_ttl sm"
  "sm_session_ttl (snd (get_session now k sm)) = sm_session_ttl sm"
  "sm_session_ttl (remove_session k sm) = sm_session_ttl sm"
  "sm_session_ttl (cleanup_sessions now sm) = sm_session_ttl sm"
  by (simp_all add: create_session_def get_session_def remove_session_def cleanup_sessions_def
      Let_def split: option.splits)

section \<open>Interface: a table of sessions\<close>

text \<open>
  What the request handler relies on: the operations, and what a lookup returns after each.
\<close>

locale session_table =
  fixes lookup :: "'s \<Rightarrow> string \<Rightarrow> session_info option"
    and create :: "millis \<Rightarrow> string \<Rightarrow> string \<Rightarrow> string \<Rightarrow> string \<Rightarrow> 's \<Rightarrow> session_id \<times> 's"
    and access :: "millis \<Rightarrow> string \<Rightarrow> 's \<Rightarrow> session_info option \<times> 's"
    and discard :: "string \<Rightarrow> 's \<Rightarrow> 's"
    and valid :: "'s \<Rightarrow> bool"
  assumes create_id: "fst (create now sc w c e s) = \<lparr>sid_worker_id = w, sid_context_id = c\<rparr>"
    and lookup_create: "lookup (snd (create now sc w c e s)) k =
      (if k = w @ '':'' @ c
       then Some \<lparr>si_session_id = \<lparr>sid_worker_id = w, sid_context_id = c\<rparr>, si_scope_name = sc,
                  si_worker_endpoint = e, si_created_at = now, si_last_used_at = now,
                  si_request_count = 1\<rparr>
       else lookup s k)"
    and access_result: "fst (access now k s) = lookup (snd (access now k s)) k"
    and lookup_access: "lookup (snd (access now k s)) k' =
      (if k' = k
       then map_option (\<lambda>i. i\<lparr>si_last_used_at := now, si_request_count := si_request_count i + 1\<rparr>)
              (lookup s k)
       else lookup s k')"
    and lookup_discard: "lookup (discard k s) k' = (if k' = k then None else lookup s k')"
    and valid_key: "valid s \<Longrightarrow> lookup s k = Some i \<Longrightarrow>
      sid_worker_id (si_session_id i) @ '':'' @ sid_context_id (si_session_id i) = k"
    and valid_create: "valid s \<Longrightarrow> valid (snd (create now sc w c e s))"
    and valid_access: "valid s \<Longrightarrow> valid (snd (access now k s))"
    and valid_discard: "valid s \<Longrightarrow> valid (discard k s)"
begin

lemma access_None [simp]: "fst (access now k s) = None \<longleftrightarrow> lookup s k = None"
  by (simp add: access_result lookup_access)

lemma access_Some:
  "fst (access now k s) = Some i \<longleftrightarrow>
   (\<exists>j. lookup s k = Some j \<and>
        i = j\<lparr>si_last_used_at := now, si_request_count := si_request_count j + 1\<rparr>)"
  by (auto simp: access_result lookup_access)

lemma access_after_discard: "fst (access now k (discard k s)) = None"
  by (simp add: lookup_discard)

lemma access_after_create:
  assumes "create t sc w c e s = (sid, s')"
  shows "fst (access now (session_id_to_string sid) s') =
    Some \<lparr>si_session_id = sid, si_scope_name = sc, si_worker_endpoint = e, si_created_at = t,
          si_last_used_at = now, si_request_count = 2\<rparr>"
proof -
  have sid: "sid = \<lparr>sid_worker_id = w, sid_context_id = c\<rparr>"
    using create_id [of t sc w c e s] assms by simp
  have "lookup s' (w @ '':'' @ c) =
      Some \<lparr>si_session_id = sid, si_scope_name = sc, si_worker_endpoint = e, si_created_at = t,
            si_last_used_at = t, si_request_count = 1\<rparr>"
    using lookup_create [of t sc w c e s "w @ '':'' @ c"] assms sid by simp
  then show ?thesis
    by (simp add: access_Some sid session_id_to_string_def)
qed

end

interpretation sessions: session_table session_lookup create_session get_session remove_session
  sessions_ok
proof unfold_locales
  show "fst (create_session now sc w c e s) = \<lparr>sid_worker_id = w, sid_context_id = c\<rparr>"
    for now sc w c e s by (simp add: create_session_def session_id_new_def Let_def)
  show "session_lookup (snd (create_session now sc w c e s)) k =
      (if k = w @ '':'' @ c
       then Some \<lparr>si_session_id = \<lparr>sid_worker_id = w, sid_context_id = c\<rparr>, si_scope_name = sc,
                  si_worker_endpoint = e, si_created_at = now, si_last_used_at = now,
                  si_request_count = 1\<rparr>
       else session_lookup s k)" for now sc w c e s k
    by (simp add: session_lookup_create session_id_new_def)
  show "sessions_ok s \<Longrightarrow> session_lookup s k = Some i \<Longrightarrow>
      sid_worker_id (si_session_id i) @ '':'' @ sid_context_id (si_session_id i) = k" for s k i
    by (auto simp: sessions_ok_def session_id_to_string_def)
qed (simp_all add: get_session_result session_lookup_get session_lookup_remove
  sessions_ok_create sessions_ok_get sessions_ok_remove)

section \<open>Histories of a session\<close>

text \<open>
  The operations as timed events, and the abstract machine that follows one key: the session's
  scope, its request count and the time it was last touched.
\<close>

datatype session_op =
    Op_Create string string string string
  | Op_Get string
  | Op_Remove string
  | Op_Cleanup

fun session_apply :: "millis \<Rightarrow> session_op \<Rightarrow> session_manager \<Rightarrow> session_manager" where
  "session_apply now (Op_Create sc w c e) sm = snd (create_session now sc w c e sm)"
| "session_apply now (Op_Get k) sm = snd (get_session now k sm)"
| "session_apply now (Op_Remove k) sm = remove_session k sm"
| "session_apply now Op_Cleanup sm = cleanup_sessions now sm"

fun session_run :: "(millis \<times> session_op) list \<Rightarrow> session_manager \<Rightarrow> session_manager" where
  "session_run [] sm = sm"
| "session_run ((now, op) # ops) sm = session_run ops (session_apply now op sm)"

type_synonym session_view = "(string \<times> nat \<times> millis) option"

fun view_step :: "millis \<Rightarrow> string \<Rightarrow> millis \<Rightarrow> session_op \<Rightarrow> session_view \<Rightarrow> session_view" where
  "view_step ttl k now (Op_Create sc w c e) v = (if w @ '':'' @ c = k then Some (sc, 1, now) else v)"
| "view_step ttl k now (Op_Get k') v =
     (if k' = k then map_option (\<lambda>(sc, n, _). (sc, n + 1, now)) v else v)"
| "view_step ttl k now (Op_Remove k') v = (if k' = k then None else v)"
| "view_step ttl k now Op_Cleanup v =
     (case v of Some (sc, n, t) \<Rightarrow> if now - t < ttl then v else None | None \<Rightarrow> None)"

fun view_run :: "millis \<Rightarrow> string \<Rightarrow> (millis \<times> session_op) list \<Rightarrow> session_view \<Rightarrow> session_view" where
  "view_run ttl k [] v = v"
| "view_run ttl k ((now, op) # ops) v = view_run ttl k ops (view_step ttl k now op v)"

definition session_view :: "session_manager \<Rightarrow> string \<Rightarrow> session_view" where
  "session_view sm k =
     map_option (\<lambda>i. (si_scope_name i, si_request_count i, si_last_used_at i)) (session_lookup sm k)"

lemma sessions_ok_apply: "sessions_ok sm \<Longrightarrow> sessions_ok (session_apply now op sm)"
  by (cases op) (simp_all add: sessions_ok_create sessions_ok_get sessions_ok_remove
      sessions_ok_cleanup)

lemma session_ttl_apply [simp]: "sm_session_ttl (session_apply now op sm) = sm_session_ttl sm"
  by (cases op) simp_all

lemma session_view_apply:
  "sessions_ok sm \<Longrightarrow>
   session_view (session_apply now op sm) k =
     view_step (sm_session_ttl sm) k now op (session_view sm k)"
  by (cases op) (auto simp: session_view_def session_lookup_create session_lookup_get
      session_lookup_remove session_lookup_cleanup option.map_comp comp_def split: option.splits)

lemma sessions_ok_run: "sessions_ok sm \<Longrightarrow> sessions_ok (session_run ops sm)"
  by (induction ops sm rule: session_run.induct) (simp_all add: sessions_ok_apply)

lemma session_run_view:
  "sessions_ok sm \<Longrightarrow>
   session_view (session_run ops sm) k = view_run (sm_session_ttl sm) k ops (session_view sm k)"
  by (induction ops sm rule: session_run.induct) (simp_all add: sessions_ok_apply session_view_apply)

lemma fold_bump_sum:
  "hmap_ok m \<Longrightarrow> hmap_ok (foldl (\<lambda>acc x. hbump (f x) acc) m xs) \<and>
   hcount (foldl (\<lambda>acc x. hbump (f x) acc) m xs) k = hcount m k + length (filter (\<lambda>x. f x = k) xs)"
  by (induction xs arbitrary: m) auto

lemma session_stats_by_scope:
  "hcount (st_sessions_by_scope (session_get_stats sm)) sc =
     length (filter (\<lambda>kv. si_scope_name (snd kv) = sc) (sm_sessions sm))"
  by (simp add: session_get_stats_def fold_bump_sum filter_map comp_def)

section \<open>Properties\<close>

text \<open>
  a session id survives the trip to the client and back, and only well-formed ids are accepted.
  Printing and then parsing gives the id back exactly when neither part holds a colon (the pod names
  and context UUIDs the program builds ids from hold none); and whatever parses prints back to the
  string it was parsed from, with two colon-free parts.
\<close>
theorem session_id_roundtrip:
  "(session_id_from_string (session_id_to_string sid) = Some sid \<longleftrightarrow> plain_id sid) \<and>
   (session_id_from_string str = Some sid \<longleftrightarrow> plain_id sid \<and> str = session_id_to_string sid)"
  using session_id_from_string_plain session_id_from_to_string by metis

text \<open>
  C6: the session manager refines one abstract machine per session key.  From any state that
  satisfies the invariant, over any history of creates, lookups, removals and cleanup rounds of any
  sessions at any times, what the table holds under a key (scope, request count, last use) is what
  the machine that only follows that key computes: a create resets it, a lookup bumps the count and
  restarts the idle timer, a removal ends it, and a cleanup ends it exactly when it has been idle for
  the TTL.  The invariant (distinct keys, each the printed id of its session) holds throughout.
\<close>
theorem session_manager_refines_view:
  assumes "sessions_ok sm"
  shows "sessions_ok (session_run ops sm) \<and>
    session_view (session_run ops sm) k = view_run (sm_session_ttl sm) k ops (session_view sm k)"
  using assms sessions_ok_run session_run_view by blast

definition sample_history :: "(millis \<times> session_op) list" where
  "sample_history = [(0, Op_Create ''s'' ''w'' ''c'' ''e''), (900000, Op_Get ''w:c''),
     (1000000, Op_Cleanup), (2699999, Op_Cleanup)]"

lemma session_manager_refines_view_witness:
  "session_view (session_run sample_history session_manager_default) ''w:c'' = Some (''s'', 2, 900000) \<and>
   session_view (session_run (sample_history @ [(2700000, Op_Cleanup)]) session_manager_default)
     ''w:c'' = None"
proof -
  have ok: "sessions_ok session_manager_default"
    by (simp add: session_manager_default_def)
  have "view_run (sm_session_ttl session_manager_default) ''w:c'' sample_history
      (session_view session_manager_default ''w:c'') = Some (''s'', 2, 900000)"
    by (simp add: session_manager_default_def session_manager_new_def session_view_def sample_history_def)
  moreover have "view_run (sm_session_ttl session_manager_default) ''w:c''
      (sample_history @ [(2700000, Op_Cleanup)]) (session_view session_manager_default ''w:c'') = None"
    by (simp add: session_manager_default_def session_manager_new_def session_view_def sample_history_def)
  ultimately show ?thesis
    using session_manager_refines_view [OF ok, of _ "''w:c''"] by simp
qed

end
