(* ===== verification/In_Flight.thy ===== *)
theory In_Flight
  imports Hive_Types
begin

text \<open>
  \<open>coordinator/src/in_flight.rs\<close>: how many requests the coordinator has sent to each pod and not
  seen answered.  The tracker is one map behind a mutex, so \<open>start\<close> and \<open>finish\<close> are atomic steps.
  An RAII guard is an entry of the list of live guards: it is created by \<open>start\<close> and its drop runs
  \<open>finish\<close> once, on whichever path the request future ends.  The discipline is shared with the other
  counters of the program that a guard maintains (the active-request counter of the coordinator, the
  pool's slot reservations), so it is a locale.
\<close>

section \<open>Counters kept by guards\<close>

datatype 'k guard_event = Guard_New nat 'k | Guard_Drop nat

text \<open>
  A trace of guard events over any counter state: \<open>None\<close> for a trace no program can produce (a guard
  created under a live name, a guard dropped that does not live).
\<close>

fun guard_run ::
  "('k \<Rightarrow> 's \<Rightarrow> 's) \<Rightarrow> ('k \<Rightarrow> 's \<Rightarrow> 's) \<Rightarrow> 'k guard_event list \<Rightarrow> 's \<times> (nat, 'k) hmap \<Rightarrow>
   ('s \<times> (nat, 'k) hmap) option" where
  "guard_run enter leave [] (s, live) = Some (s, live)"
| "guard_run enter leave (Guard_New g k # evs) (s, live) =
     (if hget live g \<noteq> None then None
      else guard_run enter leave evs (enter k s, hput g k live))"
| "guard_run enter leave (Guard_Drop g # evs) (s, live) =
     (case hget live g of
        None \<Rightarrow> None
      | Some k \<Rightarrow> guard_run enter leave evs (leave k s, hdel g live))"

definition live_for :: "'k \<Rightarrow> (nat, 'k) hmap \<Rightarrow> nat" where
  "live_for k live = length (filter (\<lambda>gk. snd gk = k) live)"

lemma live_for_empty [simp]: "live_for k [] = 0"
  by (simp add: live_for_def)

lemma live_for_put:
  "hget live g = None \<Longrightarrow>
   live_for k (hput g k' live) = (if k' = k then Suc (live_for k live) else live_for k live)"
  by (simp add: live_for_def hput_fresh hget_None_iff)

lemma live_for_del:
  assumes "hmap_ok live" "hget live g = Some k'"
  shows "live_for k live = (if k' = k then Suc (live_for k (hdel g live)) else live_for k (hdel g live))"
  using assms
proof (induction live)
  case Nil
  then show ?case by simp
next
  case (Cons gk live)
  have ok: "hmap_ok live" "fst gk \<notin> fst ` set live"
    using Cons.prems by (auto simp: hmap_ok_def)
  show ?case
  proof (cases "fst gk = g")
    case True
    then have del: "hdel g live = live"
      using ok by (simp add: hdel_def delete_idem)
    have "snd gk = k'" "hdel g (gk # live) = hdel g live"
      using True Cons.prems by (cases gk; simp add: hget_def hdel_def)+
    then show ?thesis
      using del by (simp add: live_for_def)
  next
    case False
    then have "hget live g = Some k'" "hdel g (gk # live) = gk # hdel g live"
      using Cons.prems by (cases gk; auto simp: hget_def hdel_def)+
    then show ?thesis
      using Cons.IH ok by (auto simp: live_for_def)
  qed
qed

locale guarded_counter =
  fixes count :: "'s \<Rightarrow> 'k \<Rightarrow> nat"
    and enter :: "'k \<Rightarrow> 's \<Rightarrow> 's"
    and leave :: "'k \<Rightarrow> 's \<Rightarrow> 's"
    and valid :: "'s \<Rightarrow> bool"
  assumes valid_enter: "valid s \<Longrightarrow> valid (enter k s)"
    and valid_leave: "valid s \<Longrightarrow> 0 < count s k \<Longrightarrow> valid (leave k s)"
    and count_enter: "valid s \<Longrightarrow>
      count (enter k s) k' = (if k' = k then Suc (count s k) else count s k')"
    and count_leave: "valid s \<Longrightarrow> 0 < count s k \<Longrightarrow>
      count (leave k s) k' = (if k' = k then count s k - 1 else count s k')"
begin

text \<open>
  Whatever the interleaving, the counter of a key moves with the number of its live guards.
\<close>

lemma run_counts:
  assumes "guard_run enter leave evs (s, live) = Some (s', live')"
    and "valid s" "hmap_ok live" "\<And>k. count s k = base k + live_for k live"
  shows "valid s' \<and> hmap_ok live' \<and> (\<forall>k. count s' k = base k + live_for k live')"
  using assms
proof (induction evs arbitrary: s live)
  case Nil
  then show ?case by simp
next
  case (Cons ev evs)
  show ?case
  proof (cases ev)
    case (Guard_New g k)
    with Cons.prems have free: "hget live g = None"
      and run: "guard_run enter leave evs (enter k s, hput g k live) = Some (s', live')"
      by (auto split: if_splits)
    show ?thesis
      by (rule Cons.IH [OF run]) (use Cons.prems free in
          \<open>auto simp: valid_enter count_enter live_for_put\<close>)
  next
    case (Guard_Drop g)
    with Cons.prems obtain k where k: "hget live g = Some k"
      and run: "guard_run enter leave evs (leave k s, hdel g live) = Some (s', live')"
      by (auto split: option.splits)
    have live: "live_for k' live =
        (if k = k' then Suc (live_for k' (hdel g live)) else live_for k' (hdel g live))" for k'
      by (rule live_for_del [OF Cons.prems(3) k])
    then have pos: "0 < count s k"
      using Cons.prems(4) by simp
    show ?thesis
      by (rule Cons.IH [OF run]) (use Cons.prems pos live in
          \<open>auto simp: valid_leave count_leave\<close>)
  qed
qed

lemma run_drop_all:
  assumes "valid s" "hmap_ok live" "\<And>k. count s k = base k + live_for k live"
  shows "\<exists>s'. guard_run enter leave (map (\<lambda>gk. Guard_Drop (fst gk)) live) (s, live) = Some (s', []) \<and>
    valid s' \<and> (\<forall>k. count s' k = base k)"
  using assms
proof (induction live arbitrary: s)
  case Nil
  then show ?case by simp
next
  case (Cons gk live)
  obtain g k where gk: "gk = (g, k)" by (cases gk)
  have ok: "hmap_ok live" "hdel g ((g, k) # live) = live"
    using Cons.prems(2) by (auto simp: gk hmap_ok_def hdel_def delete_idem)
  have "0 < count s k"
    using Cons.prems(3) [of k] by (simp add: gk live_for_def)
  then have "valid (leave k s)" "count (leave k s) k' = base k' + live_for k' live" for k'
    using Cons.prems(1) Cons.prems(3) [of k'] by (auto simp: valid_leave count_leave gk live_for_def)
  from Cons.IH [OF this(1) ok(1) this(2)] show ?case
    using ok(2) by (simp add: gk hget_def)
qed

lemma run_balanced:
  assumes "guard_run enter leave evs (s, []) = Some (s', [])" "valid s"
  shows "count s' k = count s k"
  using run_counts [OF assms(1) assms(2), of "count s"] by simp

end

section \<open>The tracker\<close>

type_synonym in_flight_tracker = "(string, nat) hmap"

definition tracker_new :: in_flight_tracker where
  "tracker_new = hempty"

definition tracker_current :: "in_flight_tracker \<Rightarrow> string \<Rightarrow> nat" where
  "tracker_current t pod = (case hget t pod of Some n \<Rightarrow> n | None \<Rightarrow> 0)"

definition tracker_start :: "string \<Rightarrow> in_flight_tracker \<Rightarrow> in_flight_tracker" where
  "tracker_start pod t = hput pod ((case hget t pod of Some n \<Rightarrow> n | None \<Rightarrow> 0) + 1) t"

definition tracker_finish :: "string \<Rightarrow> in_flight_tracker \<Rightarrow> in_flight_tracker" where
  "tracker_finish pod t =
     (case hget t pod of
        Some n \<Rightarrow> (let n' = n - 1 in if n' = 0 then hdel pod t else hput pod n' t)
      | None \<Rightarrow> t)"

definition effective_free_slots :: "worker_endpoint \<Rightarrow> nat \<Rightarrow> nat" where
  "effective_free_slots w in_flight_now =
     ws_available_slots (stats w) + in_flight_at_snapshot w - in_flight_now"

definition tracker_free_slots :: "in_flight_tracker \<Rightarrow> worker_endpoint \<Rightarrow> nat" where
  "tracker_free_slots t w = effective_free_slots w (tracker_current t (pod_name w))"

text \<open>An entry is only kept while it is not zero.\<close>

definition tracker_ok :: "in_flight_tracker \<Rightarrow> bool" where
  "tracker_ok t \<longleftrightarrow> hmap_ok t \<and> (\<forall>pod n. hget t pod = Some n \<longrightarrow> 0 < n)"

lemma tracker_ok_new [simp]: "tracker_ok tracker_new"
  by (simp add: tracker_ok_def tracker_new_def)

lemma tracker_current_new [simp]: "tracker_current tracker_new pod = 0"
  by (simp add: tracker_current_def tracker_new_def)

lemma tracker_current_start [simp]:
  "tracker_current (tracker_start pod t) pod' =
     (if pod' = pod then Suc (tracker_current t pod) else tracker_current t pod')"
  by (simp add: tracker_current_def tracker_start_def split: option.splits)

lemma tracker_current_finish [simp]:
  "tracker_current (tracker_finish pod t) pod' =
     (if pod' = pod then tracker_current t pod - 1 else tracker_current t pod')"
  by (auto simp: tracker_current_def tracker_finish_def Let_def split: option.splits)

lemma tracker_ok_start: "tracker_ok t \<Longrightarrow> tracker_ok (tracker_start pod t)"
  by (auto simp: tracker_ok_def tracker_start_def)

lemma tracker_ok_finish: "tracker_ok t \<Longrightarrow> tracker_ok (tracker_finish pod t)"
  by (auto simp: tracker_ok_def tracker_finish_def Let_def split: option.splits)

interpretation in_flight: guarded_counter tracker_current tracker_start tracker_finish tracker_ok
  by unfold_locales (simp_all add: tracker_ok_start tracker_ok_finish)

lemma tracker_finish_start: "tracker_current (tracker_finish pod (tracker_start pod t)) = tracker_current t"
  by (rule ext) simp

section \<open>Properties\<close>

text \<open>
  C22: the correction to the discovery cache is exact.  Over any interleaving of dispatches and
  answers (guards created and dropped in any order, for any pods) the tracker of a pod counts its
  live guards and keeps no zero entry, so for a worker whose baseline was taken at the snapshot, the
  free slots routing sees are the cached slots minus (in flight now - in flight at the snapshot),
  and 0 when that is negative.
\<close>
theorem in_flight_correction_exact:
  assumes "guard_run tracker_start tracker_finish evs (tracker_new, []) = Some (t\<^sub>0, live\<^sub>0)"
    and "guard_run tracker_start tracker_finish evs' (t\<^sub>0, live\<^sub>0) = Some (t, live)"
    and "in_flight_at_snapshot w = tracker_current t\<^sub>0 (pod_name w)"
  shows "tracker_ok t \<and> (\<forall>pod. tracker_current t pod = live_for pod live) \<and>
    int (tracker_free_slots t w) =
      max 0 (int (ws_available_slots (stats w)) -
             (int (live_for (pod_name w) live) - int (live_for (pod_name w) live\<^sub>0)))"
proof -
  have 0: "tracker_ok t\<^sub>0 \<and> hmap_ok live\<^sub>0 \<and> (\<forall>pod. tracker_current t\<^sub>0 pod = 0 + live_for pod live\<^sub>0)"
    by (rule in_flight.run_counts [OF assms(1)]) simp_all
  have 1: "tracker_ok t \<and> hmap_ok live \<and> (\<forall>pod. tracker_current t pod = 0 + live_for pod live)"
    by (rule in_flight.run_counts [OF assms(2)]) (use 0 in simp_all)
  show ?thesis
    using 0 1 assms(3) by (auto simp: tracker_free_slots_def effective_free_slots_def)
qed

definition sample_worker :: "string \<Rightarrow> nat \<Rightarrow> nat \<Rightarrow> worker_endpoint" where
  "sample_worker pod slots baseline =
     \<lparr>pod_name = pod, pod_ip = ''10.0.0.1'', ep_port = 50052, ep_scope_name = ''s'',
      stats = worker_stats_default\<lparr>ws_available_slots := slots\<rparr>,
      in_flight_at_snapshot = baseline, is_terminating = False\<rparr>"

lemmas tracker_eval = tracker_new_def tracker_start_def tracker_finish_def tracker_current_def
  tracker_free_slots_def effective_free_slots_def sample_worker_def worker_stats_default_def
  hput_def hdel_def hget_def Let_def

lemma in_flight_correction_exact_witness:
  "\<exists>t live. tracker_ok t \<and> (\<forall>pod. tracker_current t pod = live_for pod live) \<and>
     int (tracker_free_slots t (sample_worker ''a'' 2 1)) =
       max 0 (int (ws_available_slots (stats (sample_worker ''a'' 2 1))) -
         (int (live_for (pod_name (sample_worker ''a'' 2 1)) live) -
          int (live_for (pod_name (sample_worker ''a'' 2 1)) [(0, ''a'')]))) \<and>
     tracker_free_slots t (sample_worker ''a'' 2 1) = 1"
proof -
  have a: "guard_run tracker_start tracker_finish [Guard_New 0 ''a''] (tracker_new, []) =
      Some ([(''a'', 1)], [(0, ''a'')])"
    by (simp add: tracker_eval)
  have b: "guard_run tracker_start tracker_finish
      [Guard_New 1 ''a'', Guard_New 2 ''b'', Guard_Drop 0, Guard_New 3 ''a''] ([(''a'', 1)], [(0, ''a'')]) =
      Some ([(''a'', 2), (''b'', 1)], [(1, ''a''), (2, ''b''), (3, ''a'')])"
    by (simp add: tracker_eval)
  have c: "in_flight_at_snapshot (sample_worker ''a'' 2 1) =
      tracker_current [(''a'', 1)] (pod_name (sample_worker ''a'' 2 1))"
    by (simp add: tracker_eval)
  have d: "tracker_free_slots [(''a'', 2), (''b'', 1)] (sample_worker ''a'' 2 1) = 1"
    by (simp add: tracker_eval)
  show ?thesis
    using in_flight_correction_exact [OF a b c] d by blast
qed

end
