(* ===== verification/Wait_Params.thy ===== *)
theory Wait_Params
  imports Hive_Types
begin

text \<open>
  \<open>proto/src/wait.rs\<close>: the wait parameters of a request, merged from \<open>WaitOptions\<close> (every field
  optional) over the deprecated flat fields, where \<open>0\<close> and the empty string mean "not set".  The two
  request messages are generated from \<open>proto/coordinator.proto\<close> and \<open>proto/worker.proto\<close>.
\<close>

record wait_options =
  wo_strategy :: "string option"
  wo_timeout_ms :: "nat option"
  wo_wait_selector :: "string option"
  wo_skip_selector :: "string option"
  wo_challenge_timeout_ms :: "nat option"

record coord_request =
  cq_scope_name :: string
  cq_url :: string
  cq_timeout_seconds :: nat
  cq_session_id :: string
  cq_wait_strategy :: string
  cq_wait_timeout_ms :: nat
  cq_wait_selector :: string
  cq_skip_selector :: string
  cq_ray_id :: string
  cq_country_code :: string
  cq_wait :: "wait_options option"

record worker_request =
  wq_url :: string
  wq_timeout_seconds :: nat
  wq_context_id :: string
  wq_wait_strategy :: string
  wq_wait_timeout_ms :: nat
  wq_wait_selector :: string
  wq_skip_selector :: string
  wq_ray_id :: string
  wq_country_code :: string
  wq_wait :: "wait_options option"

record resolved_wait =
  rw_strategy :: string
  rw_timeout_ms :: nat
  rw_wait_selector :: string
  rw_skip_selector :: string
  rw_challenge_timeout_ms :: nat

definition pick :: "'a option \<Rightarrow> 'a \<Rightarrow> 'a" where
  "pick set_value flat = (case set_value of Some v \<Rightarrow> v | None \<Rightarrow> flat)"

text \<open>The body the macro expands to, for either request type.\<close>

definition resolve_wait ::
  "wait_options option \<Rightarrow> string \<Rightarrow> nat \<Rightarrow> string \<Rightarrow> string \<Rightarrow> resolved_wait" where
  "resolve_wait w strategy timeout_ms wait_selector skip_selector =
     \<lparr>rw_strategy = pick (Option.bind w wo_strategy) strategy,
      rw_timeout_ms = pick (Option.bind w wo_timeout_ms) timeout_ms,
      rw_wait_selector = pick (Option.bind w wo_wait_selector) wait_selector,
      rw_skip_selector = pick (Option.bind w wo_skip_selector) skip_selector,
      rw_challenge_timeout_ms = pick (Option.bind w wo_challenge_timeout_ms) 0\<rparr>"

definition coord_resolved_wait :: "coord_request \<Rightarrow> resolved_wait" where
  "coord_resolved_wait q =
     resolve_wait (cq_wait q) (cq_wait_strategy q) (cq_wait_timeout_ms q) (cq_wait_selector q)
       (cq_skip_selector q)"

definition worker_resolved_wait :: "worker_request \<Rightarrow> resolved_wait" where
  "worker_resolved_wait q =
     resolve_wait (wq_wait q) (wq_wait_strategy q) (wq_wait_timeout_ms q) (wq_wait_selector q)
       (wq_skip_selector q)"

definition wait_options_from :: "resolved_wait \<Rightarrow> wait_options" where
  "wait_options_from r =
     \<lparr>wo_strategy = Some (rw_strategy r), wo_timeout_ms = Some (rw_timeout_ms r),
      wo_wait_selector = Some (rw_wait_selector r), wo_skip_selector = Some (rw_skip_selector r),
      wo_challenge_timeout_ms = Some (rw_challenge_timeout_ms r)\<rparr>"

lemma resolve_wait_from [simp]: "resolve_wait (Some (wait_options_from r)) a b c d = r"
  by (simp add: resolve_wait_def wait_options_from_def pick_def)

lemma resolve_wait_unset [simp]:
  "resolve_wait None a b c d =
     \<lparr>rw_strategy = a, rw_timeout_ms = b, rw_wait_selector = c, rw_skip_selector = d,
      rw_challenge_timeout_ms = 0\<rparr>"
  by (simp add: resolve_wait_def pick_def)

end
