(* ===== verification/Worker_Routing.thy ===== *)
theory Worker_Routing
  imports In_Flight "HOL-Library.Multiset"
begin

text \<open>
  The pure routing decisions of \<open>coordinator/src/service.rs\<close>: worker selection
  (\<open>select_best_worker\<close>, \<open>pick_most_free\<close>), the classification of worker answers into retry plans, and
  the client's time budget.  Pod names are compared bytewise, as Rust compares strings
  (\<open>List_Lexorder\<close> over \<open>Char_ord\<close>).  \<open>rotation\<close> is the value an \<open>AtomicU64\<close> had before its
  \<open>fetch_add\<close>, hence a 64-bit word.
\<close>

section \<open>Time budget and retry plans\<close>

definition GRPC_REQUEST_TIMEOUT :: millis where [cfg_simps]:
  "GRPC_REQUEST_TIMEOUT = 320 * 1000"

definition client_budget :: "nat \<Rightarrow> millis" where
  "client_budget timeout_seconds =
     (if timeout_seconds = 0 then GRPC_REQUEST_TIMEOUT else timeout_seconds * 1000)"

definition MAX_TERMINATING_ATTEMPTS :: nat where [cfg_simps]:
  "MAX_TERMINATING_ATTEMPTS = 3"

definition MAX_CAPACITY_ATTEMPTS :: nat where [cfg_simps]:
  "MAX_CAPACITY_ATTEMPTS = 2"

definition MAX_UNREACHABLE_ATTEMPTS :: nat where [cfg_simps]:
  "MAX_UNREACHABLE_ATTEMPTS = 2"

datatype retry_reason = Retry_Terminating | Retry_NoSlots | Retry_WorkerUnreachable

record retry_plan =
  rp_reason :: retry_reason
  rp_max_attempts :: nat
  rp_code_name :: string

definition classify_retry :: "int \<Rightarrow> bool \<Rightarrow> retry_plan option" where
  "classify_retry error_code no_session =
     (if error_code = code_num EC_Terminating then
        Some \<lparr>rp_reason = Retry_Terminating, rp_max_attempts = MAX_TERMINATING_ATTEMPTS,
              rp_code_name = ''TERMINATING''\<rparr>
      else if error_code = code_num EC_CapacityExhausted \<and> no_session then
        Some \<lparr>rp_reason = Retry_NoSlots, rp_max_attempts = MAX_CAPACITY_ATTEMPTS,
              rp_code_name = ''CAPACITY_EXHAUSTED''\<rparr>
      else None)"

definition classify_unreachable_retry :: "bool \<Rightarrow> retry_plan option" where
  "classify_unreachable_retry no_session =
     (if no_session then
        Some \<lparr>rp_reason = Retry_WorkerUnreachable, rp_max_attempts = MAX_UNREACHABLE_ATTEMPTS,
              rp_code_name = ''WORKER_UNREACHABLE''\<rparr>
      else None)"

section \<open>Worker selection\<close>

text \<open>
  The candidates paired with their free slots (each read once), the ones that tie on the maximum,
  ordered by pod name, and the one the rotation points at.
\<close>

definition tied_workers ::
  "worker_endpoint list \<Rightarrow> (worker_endpoint \<Rightarrow> nat) \<Rightarrow> (worker_endpoint \<times> nat) list" where
  "tied_workers candidates free_slots =
     (let ranked = map (\<lambda>w. (w, free_slots w)) candidates;
          best_slots = Max (snd ` set ranked)
      in sort_key (\<lambda>(w, _). pod_name w) (filter (\<lambda>(_, slots). slots = best_slots) ranked))"

definition pick_most_free ::
  "worker_endpoint list \<Rightarrow> (worker_endpoint \<Rightarrow> nat) \<Rightarrow> 64 word \<Rightarrow> (worker_endpoint \<times> nat) option" where
  "pick_most_free candidates free_slots rotation =
     (if candidates = [] then None
      else (let tied = tied_workers candidates free_slots
            in Some (tied ! (unat rotation mod length tied))))"

record selected_worker =
  sw_worker :: worker_endpoint
  sw_free_slots :: nat
  sw_used_fallback :: bool

definition select_best_worker ::
  "worker_endpoint list \<Rightarrow> string set \<Rightarrow> (worker_endpoint \<Rightarrow> nat) \<Rightarrow> 64 word \<Rightarrow>
   selected_worker option" where
  "select_best_worker scope_workers healthy_workers free_slots rotation =
     (let healthy = filter (\<lambda>w. pod_name w \<in> healthy_workers) scope_workers;
          (candidates, used_fallback) =
            (if healthy = [] then (scope_workers, True) else (healthy, False))
      in map_option (\<lambda>(w, slots). \<lparr>sw_worker = w, sw_free_slots = slots,
                                    sw_used_fallback = used_fallback\<rparr>)
           (pick_most_free candidates free_slots rotation))"

definition describe_worker :: "string set \<Rightarrow> (worker_endpoint \<Rightarrow> nat) \<Rightarrow> worker_endpoint \<Rightarrow> string" where
  "describe_worker healthy_workers free_slots w =
     pod_name w @ '' free='' @ show_nat (free_slots w) @ '' cached='' @
     show_nat (ws_available_slots (stats w)) @ '' ('' @
     (if pod_name w \<in> healthy_workers then ''healthy'' else ''unhealthy'') @
     (if is_terminating w then '', terminating'' else '''') @ '')''"

definition describe_scope_capacity ::
  "worker_endpoint list \<Rightarrow> string set \<Rightarrow> (worker_endpoint \<Rightarrow> nat) \<Rightarrow> string" where
  "describe_scope_capacity scope_workers healthy_workers free_slots =
     join_with '', '' (map (describe_worker healthy_workers free_slots)
       (sort_key pod_name scope_workers))"

lemma tied_workers_ne: "ws \<noteq> [] \<Longrightarrow> tied_workers ws f \<noteq> []"
proof -
  assume ne: "ws \<noteq> []"
  let ?r = "map (\<lambda>w. (w, f w)) ws"
  have "Max (snd ` set ?r) \<in> snd ` set ?r"
    using ne by (intro Max_in) auto
  then have "filter (\<lambda>(_, slots). slots = Max (snd ` set ?r)) ?r \<noteq> []"
    by (auto simp: filter_empty_conv)
  then show ?thesis
    by (simp add: tied_workers_def Let_def)
qed

lemma set_tied_workers:
  "set (tied_workers ws f) = {(w, f w) | w. w \<in> set ws \<and> (\<forall>v \<in> set ws. f v \<le> f w)}"
proof (cases "ws = []")
  case False
  have m: "f w = Max (f ` set ws) \<longleftrightarrow> (\<forall>v \<in> set ws. f v \<le> f w)" if "w \<in> set ws" for w
    using that False by (auto simp: eq_Max_iff)
  have "set (tied_workers ws f) =
      {x \<in> (\<lambda>w. (w, f w)) ` set ws. snd x = Max (f ` set ws)}"
    by (simp add: tied_workers_def Let_def image_image case_prod_unfold)
  also have "\<dots> = (\<lambda>w. (w, f w)) ` {w \<in> set ws. f w = Max (f ` set ws)}"
    by force
  also have "\<dots> = (\<lambda>w. (w, f w)) ` {w \<in> set ws. \<forall>v \<in> set ws. f v \<le> f w}"
    by (rule arg_cong [where f = "image _"]) (use m in blast)
  finally show ?thesis by auto
qed (simp add: tied_workers_def)

lemma pick_most_free_Some:
  assumes "pick_most_free ws f r = Some (w, n)"
  shows "w \<in> set ws" "n = f w" "v \<in> set ws \<Longrightarrow> f v \<le> n"
proof -
  have ne: "ws \<noteq> []"
    using assms by (auto simp: pick_most_free_def split: if_splits)
  then have "unat r mod length (tied_workers ws f) < length (tied_workers ws f)"
    using tied_workers_ne by simp
  then have "(w, n) \<in> set (tied_workers ws f)"
    using assms ne nth_mem by (fastforce simp: pick_most_free_def Let_def)
  then show "w \<in> set ws" "n = f w" "v \<in> set ws \<Longrightarrow> f v \<le> n"
    by (auto simp: set_tied_workers)
qed

lemma pick_most_free_None [simp]: "pick_most_free ws f r = None \<longleftrightarrow> ws = []"
  by (simp add: pick_most_free_def Let_def)

lemma select_best_worker_None [simp]: "select_best_worker ws h f r = None \<longleftrightarrow> ws = []"
  by (auto simp: select_best_worker_def Let_def)

lemma select_best_worker_Some:
  assumes "select_best_worker ws h f r = Some s"
  shows "sw_worker s \<in> set ws"
    and "sw_free_slots s = f (sw_worker s)"
    and "sw_used_fallback s \<longleftrightarrow> (\<forall>v \<in> set ws. pod_name v \<notin> h)"
    and "\<not> sw_used_fallback s \<Longrightarrow> pod_name (sw_worker s) \<in> h"
    and "v \<in> set ws \<Longrightarrow> pod_name v \<in> h \<or> sw_used_fallback s \<Longrightarrow> f v \<le> f (sw_worker s)"
proof -
  let ?h = "filter (\<lambda>w. pod_name w \<in> h) ws"
  let ?c = "if ?h = [] then ws else ?h"
  have p: "pick_most_free ?c f r = Some (sw_worker s, sw_free_slots s)"
    and fb: "sw_used_fallback s \<longleftrightarrow> ?h = []"
    using assms by (auto simp: select_best_worker_def Let_def split: if_splits)
  note q = pick_most_free_Some [OF p]
  show "sw_worker s \<in> set ws" "sw_free_slots s = f (sw_worker s)"
    using q by (auto split: if_splits)
  show "sw_used_fallback s \<longleftrightarrow> (\<forall>v \<in> set ws. pod_name v \<notin> h)"
    using fb by (auto simp: filter_empty_conv)
  show "\<not> sw_used_fallback s \<Longrightarrow> pod_name (sw_worker s) \<in> h"
    using q(1) fb by auto
  show "v \<in> set ws \<Longrightarrow> pod_name v \<in> h \<or> sw_used_fallback s \<Longrightarrow> f v \<le> f (sw_worker s)"
    using q(2,3) fb by (auto split: if_splits simp: filter_empty_conv)
qed

text \<open>The decision does not depend on the order discovery lists the workers in.\<close>

lemma sort_key_mset_cong:
  assumes "mset xs = mset ys" "inj_on f (set xs)"
  shows "sort_key f xs = sort_key f ys"
  using assms by (intro sort_key_inj_key_eq) simp_all

lemma tied_workers_mset_cong:
  assumes "mset ws = mset ws'" "inj_on pod_name (set ws)"
  shows "tied_workers ws f = tied_workers ws' f"
proof -
  let ?t = "\<lambda>zs. filter (\<lambda>(_, slots). slots = Max (snd ` set (map (\<lambda>w. (w, f w)) ws)))
      (map (\<lambda>w. (w, f w)) zs)"
  have "set ws = set ws'"
    using assms(1) by (rule mset_eq_setD)
  moreover have "sort_key (\<lambda>(w, _). pod_name w) (?t ws) = sort_key (\<lambda>(w, _). pod_name w) (?t ws')"
  proof (rule sort_key_mset_cong)
    show "mset (?t ws) = mset (?t ws')"
      using assms(1) by (simp add: mset_filter)
    show "inj_on (\<lambda>(w, _). pod_name w) (set (?t ws))"
      using assms(2) by (auto simp: inj_on_def)
  qed
  ultimately show ?thesis
    by (simp add: tied_workers_def Let_def)
qed

section \<open>Properties\<close>

text \<open>
  C31: worker selection is optimal and respects health.  The selection fails only for an empty scope.
  Otherwise the chosen worker belongs to the scope; the fallback to unhealthy workers is used exactly
  when no worker of the scope is in the health set, and otherwise the chosen one is healthy; and no
  eligible worker has more free slots than the chosen one, whose figure is the one reported.
\<close>
theorem select_best_worker_optimal:
  "case select_best_worker ws healthy free r of
     None \<Rightarrow> ws = []
   | Some s \<Rightarrow>
       sw_worker s \<in> set ws \<and> sw_free_slots s = free (sw_worker s) \<and>
       (sw_used_fallback s \<longleftrightarrow> pod_name ` set ws \<inter> healthy = {}) \<and>
       (sw_used_fallback s \<or> pod_name (sw_worker s) \<in> healthy) \<and>
       sw_free_slots s =
         Max (free ` {v \<in> set ws. sw_used_fallback s \<or> pod_name v \<in> healthy})"
proof (cases "select_best_worker ws healthy free r")
  case None
  then have "ws = []" by simp
  with None show ?thesis by (simp del: select_best_worker_None)
next
  case (Some s)
  note S = select_best_worker_Some [OF Some]
  let ?E = "{v \<in> set ws. sw_used_fallback s \<or> pod_name v \<in> healthy}"
  have "free (sw_worker s) = Max (free ` ?E)"
    using S by (intro Max_eqI [symmetric]) auto
  then show ?thesis
    using Some S(1-4) by (auto simp: S(2))
qed

lemma map_nth_rotation:
  "n = length xs \<Longrightarrow> map (\<lambda>i. xs ! ((a + i) mod n)) [0..<n] = rotate a xs"
  by (rule nth_equalityI) (auto simp: nth_rotate)

lemma mset_rotate_eq: "mset (rotate a xs) = mset xs"
proof (induction a)
  case (Suc a)
  have "mset (rotate1 ys) = mset ys" for ys :: "'a list"
    by (cases ys) simp_all
  then show ?case using Suc by (simp add: rotate_def)
qed simp

text \<open>
  ties are shared round-robin whatever order discovery returns.  While the fleet's free slots do
  not change, as many consecutive routing decisions as there are workers tied on the most free slots
  pick each of them exactly once, even when the list of workers is reordered between the decisions
  (pod names are unique, and the 64-bit rotation counter does not wrap in between).
\<close>
theorem pick_most_free_round_robin:
  fixes r :: "64 word"
  assumes "inj_on pod_name (set ws)"
    and "\<And>i. mset (wss i) = mset ws"
    and "n = length (tied_workers ws free)"
    and "unat r + n \<le> 2 ^ 64"
  shows "mset (map (\<lambda>i. pick_most_free (wss i) free (r + word_of_nat i)) [0..<n]) =
    image_mset (\<lambda>w. Some (w, free w)) (filter_mset (\<lambda>w. free w = Max (free ` set ws)) (mset ws))"
proof (cases "ws = []")
  case True
  then show ?thesis using assms(3) by (simp add: tied_workers_def)
next
  case False
  let ?t = "tied_workers ws free"
  have wss: "wss i \<noteq> []" "tied_workers (wss i) free = ?t" for i
    using False assms(2) [of i] tied_workers_mset_cong [OF assms(2) [symmetric] assms(1)]
    by auto
  have "unat (r + word_of_nat i) = unat r + i" if "i < n" for i
  proof -
    have "unat (word_of_nat i :: 64 word) = i"
      using that assms(4) by (simp add: unat_of_nat)
    then show ?thesis
      using that assms(4) by (subst unat_add_lem [THEN iffD1]) simp_all
  qed
  then have "map (\<lambda>i. pick_most_free (wss i) free (r + word_of_nat i)) [0..<n] =
      map (\<lambda>i. Some (?t ! ((unat r + i) mod n))) [0..<n]"
    by (intro map_cong) (auto simp: pick_most_free_def wss Let_def assms(3))
  also have "\<dots> = map Some (rotate (unat r) ?t)"
    by (simp add: map_nth_rotation [OF assms(3), symmetric] comp_def)
  finally have "mset (map (\<lambda>i. pick_most_free (wss i) free (r + word_of_nat i)) [0..<n]) =
      image_mset Some (mset ?t)"
    by (simp add: mset_rotate_eq)
  also have "mset ?t = image_mset (\<lambda>w. (w, free w))
      (filter_mset (\<lambda>w. free w = Max (free ` set ws)) (mset ws))"
    by (simp add: tied_workers_def Let_def image_image mset_filter filter_map comp_def
        image_mset_filter_mset_swap)
  finally show ?thesis by (simp add: image_mset.compositionality comp_def)
qed

definition sample_fleet :: "nat \<Rightarrow> worker_endpoint list" where
  "sample_fleet i =
     (let ws = [sample_worker ''a'' 2 0, sample_worker ''b'' 1 0, sample_worker ''c'' 2 0]
      in if i = 0 then ws else rev ws)"

lemma pick_most_free_round_robin_witness:
  "mset (map (\<lambda>i. pick_most_free (sample_fleet i) (tracker_free_slots tracker_new)
       (5 + word_of_nat i)) [0..<2]) =
   {#Some (sample_worker ''a'' 2 0, 2), Some (sample_worker ''c'' 2 0, 2)#}"
proof -
  let ?f = "tracker_free_slots tracker_new"
  have f: "?f (sample_worker p n 0) = n" for p n
    by (simp add: tracker_free_slots_def effective_free_slots_def sample_worker_def)
  have inj: "inj_on pod_name (set (sample_fleet 0))"
    by (simp add: sample_fleet_def sample_worker_def)
  have m: "mset (sample_fleet i) = mset (sample_fleet 0)" for i
    by (simp add: sample_fleet_def Let_def)
  have n: "2 = length (tied_workers (sample_fleet 0) ?f)"
    by (simp add: sample_fleet_def Let_def tied_workers_def f)
  have "unat (5 :: 64 word) + 2 \<le> 2 ^ 64"
    by simp
  from pick_most_free_round_robin [where wss = sample_fleet, OF inj m n this]
  show ?thesis
    by (simp add: f sample_fleet_def Let_def )
qed

end
