(* ===== verification/Discovery.thy ===== *)
theory Discovery
  imports In_Flight
begin

text \<open>
  \<open>coordinator/src/worker_discovery.rs\<close> and \<open>local_worker_discovery.rs\<close>: from a list of pods to the
  routable map and the presence map.

  The Kubernetes \<open>Pod\<close> object comes from a library; \<open>pod\<close> keeps the fields the code reads.  What the
  network and the shared in-flight tracker answer while the round walks the list is an input per pod
  (\<open>observation\<close>): the result of \<open>fetch_worker_stats\<close> (\<open>None\<close> for any error) and the tracker at the
  moment the stats arrive.
\<close>

section \<open>Presence\<close>

record scope_presence =
  pods_total :: nat
  pods_reachable :: nat
  pods_not_running :: nat
  pods_terminating :: nat
  pods_unreachable :: nat

definition presence_default :: scope_presence where
  "presence_default =
     \<lparr>pods_total = 0, pods_reachable = 0, pods_not_running = 0, pods_terminating = 0,
      pods_unreachable = 0\<rparr>"

definition presence_describe :: "scope_presence \<Rightarrow> string" where
  "presence_describe p =
     (let parts =
        (if 0 < pods_not_running p then [show_nat (pods_not_running p) @ '' not running''] else []) @
        (if 0 < pods_unreachable p
         then [show_nat (pods_unreachable p) @ '' starting up or unreachable''] else []) @
        (if 0 < pods_terminating p then [show_nat (pods_terminating p) @ '' terminating''] else []);
        detail = (if parts = [] then '''' else '' ('' @ join_with '', '' parts @ '')'')
      in show_nat (pods_total p) @ '' pod(s), '' @ show_nat (pods_reachable p) @ '' reachable'' @ detail)"

definition presence_ok :: "scope_presence \<Rightarrow> bool" where
  "presence_ok p \<longleftrightarrow>
     pods_total p = pods_reachable p + pods_not_running p + pods_terminating p + pods_unreachable p"

section \<open>One discovery round\<close>

record pod =
  pd_labels :: "(string, string) hmap option"
  pd_name :: "string option"
  pd_phase :: "string option option"
  pd_pod_ip :: "string option"
  pd_deletion_timestamp :: "millis option"

record observation =
  ob_pod :: pod
  ob_stats :: "worker_stats option"
  ob_in_flight :: in_flight_tracker

definition is_pod_running :: "string option option \<Rightarrow> bool" where
  "is_pod_running status =
     (case status of
        Some (Some phase) \<Rightarrow> phase = ''Running''
      | _ \<Rightarrow> False)"

datatype pod_verdict =
    Pod_Ignored
  | Pod_NotRunning string
  | Pod_Reachable string worker_endpoint
  | Pod_Terminating string
  | Pod_Unreachable string

text \<open>The branches of the loop body, up to the updates of the two maps.\<close>

definition judge_pod :: "observation \<Rightarrow> pod_verdict" where
  "judge_pod ob =
     (let pod = ob_pod ob in
      case Option.bind (pd_labels pod) (\<lambda>labels. hget labels ''scope'') of
        None \<Rightarrow> Pod_Ignored
      | Some scope_name \<Rightarrow>
          if \<not> is_pod_running (pd_phase pod) then Pod_NotRunning scope_name
          else
            (case pd_name pod of
               None \<Rightarrow> Pod_NotRunning scope_name
             | Some name \<Rightarrow>
                 (case (case pd_phase pod of None \<Rightarrow> None | Some _ \<Rightarrow> pd_pod_ip pod) of
                    None \<Rightarrow> Pod_NotRunning scope_name
                  | Some ip \<Rightarrow>
                      (case ob_stats ob of
                         Some s \<Rightarrow>
                           Pod_Reachable scope_name
                             \<lparr>pod_name = name, pod_ip = ip, ep_port = 50052,
                              ep_scope_name = scope_name, stats = s,
                              in_flight_at_snapshot = tracker_current (ob_in_flight ob) name,
                              is_terminating = (pd_deletion_timestamp pod \<noteq> None)\<rparr>
                       | None \<Rightarrow>
                           if pd_deletion_timestamp pod \<noteq> None then Pod_Terminating scope_name
                           else Pod_Unreachable scope_name))))"

type_synonym worker_map = "(string, worker_endpoint list) hmap"

type_synonym presence_map = "(string, scope_presence) hmap"

definition presence_entry :: "string \<Rightarrow> presence_map \<Rightarrow> scope_presence" where
  "presence_entry scope m = (case hget m scope of Some p \<Rightarrow> p | None \<Rightarrow> presence_default)"

definition count_pod :: "string \<Rightarrow> (scope_presence \<Rightarrow> scope_presence) \<Rightarrow> presence_map \<Rightarrow> presence_map" where
  "count_pod scope f m =
     hput scope (f ((presence_entry scope m)\<lparr>pods_total := pods_total (presence_entry scope m) + 1\<rparr>)) m"

definition push_worker :: "string \<Rightarrow> worker_endpoint \<Rightarrow> worker_map \<Rightarrow> worker_map" where
  "push_worker scope w m = hput scope ((case hget m scope of Some ws \<Rightarrow> ws | None \<Rightarrow> []) @ [w]) m"

fun discover_pod :: "observation \<Rightarrow> worker_map \<times> presence_map \<Rightarrow> worker_map \<times> presence_map" where
  "discover_pod ob (workers, presence) =
     (case judge_pod ob of
        Pod_Ignored \<Rightarrow> (workers, presence)
      | Pod_NotRunning scope \<Rightarrow>
          (workers, count_pod scope (\<lambda>p. p\<lparr>pods_not_running := pods_not_running p + 1\<rparr>) presence)
      | Pod_Reachable scope w \<Rightarrow>
          (push_worker scope w workers,
           count_pod scope (\<lambda>p. p\<lparr>pods_reachable := pods_reachable p + 1\<rparr>) presence)
      | Pod_Terminating scope \<Rightarrow>
          (workers, count_pod scope (\<lambda>p. p\<lparr>pods_terminating := pods_terminating p + 1\<rparr>) presence)
      | Pod_Unreachable scope \<Rightarrow>
          (workers, count_pod scope (\<lambda>p. p\<lparr>pods_unreachable := pods_unreachable p + 1\<rparr>) presence))"

definition discover_workers :: "observation list \<Rightarrow> worker_map \<times> presence_map" where
  "discover_workers obs = foldl (\<lambda>acc ob. discover_pod ob acc) (hempty, hempty) obs"

text \<open>
  The invariant of a round: the four exclusive counts add up to the total, the reachable count of a
  scope is the length of its routable list, and a scope is routable only if it is present.
\<close>

definition workers_of :: "worker_map \<Rightarrow> string \<Rightarrow> worker_endpoint list" where
  "workers_of m scope = (case hget m scope of Some ws \<Rightarrow> ws | None \<Rightarrow> [])"

definition round_ok :: "worker_map \<times> presence_map \<Rightarrow> bool" where
  "round_ok r \<longleftrightarrow>
     hmap_ok (fst r) \<and> hmap_ok (snd r) \<and>
     (\<forall>scope. presence_ok (presence_entry scope (snd r)) \<and>
        pods_reachable (presence_entry scope (snd r)) = length (workers_of (fst r) scope) \<and>
        (scope \<in> hkeys (fst r) \<longleftrightarrow> workers_of (fst r) scope \<noteq> []) \<and>
        (scope \<in> hkeys (snd r) \<longleftrightarrow> 0 < pods_total (presence_entry scope (snd r))))"

lemma presence_entry_default [simp]: "presence_entry scope [] = presence_default"
  by (simp add: presence_entry_def)

lemma presence_entry_count:
  "presence_entry s (count_pod scope f m) =
     (if s = scope
      then f ((presence_entry scope m)\<lparr>pods_total := pods_total (presence_entry scope m) + 1\<rparr>)
      else presence_entry s m)"
  by (simp add: presence_entry_def count_pod_def)

lemma hkeys_count_push [simp]:
  "hkeys (count_pod scope f m) = insert scope (hkeys m)"
  "hkeys (push_worker scope w ws) = insert scope (hkeys ws)"
  by (simp_all add: count_pod_def push_worker_def)

lemma workers_of_push:
  "workers_of (push_worker scope w m) s =
     (if s = scope then workers_of m scope @ [w] else workers_of m s)"
  by (simp add: workers_of_def push_worker_def)

lemma hmap_ok_count_push [simp]:
  "hmap_ok m \<Longrightarrow> hmap_ok (count_pod scope f m)"
  "hmap_ok ws \<Longrightarrow> hmap_ok (push_worker scope w ws)"
  by (simp_all add: count_pod_def push_worker_def)

lemma round_ok_empty [simp]: "round_ok ([], [])"
  by (simp add: round_ok_def presence_default_def presence_ok_def workers_of_def hkeys_def)

lemma round_ok_pod:
  assumes "round_ok r"
  shows "round_ok (discover_pod ob r)"
proof (cases r)
  case (Pair workers presence)
  show ?thesis
    using assms unfolding Pair round_ok_def
    by (cases "judge_pod ob")
      (auto simp: presence_entry_count workers_of_push
        presence_ok_def)
qed

lemma round_ok_fold: "round_ok r \<Longrightarrow> round_ok (foldl (\<lambda>acc ob. discover_pod ob acc) r obs)"
  by (induction obs arbitrary: r) (simp_all add: round_ok_pod)

text \<open>Which pods end up where.\<close>

definition verdict_scope :: "pod_verdict \<Rightarrow> string option" where
  "verdict_scope v =
     (case v of Pod_Ignored \<Rightarrow> None | Pod_NotRunning s \<Rightarrow> Some s | Pod_Reachable s _ \<Rightarrow> Some s
      | Pod_Terminating s \<Rightarrow> Some s | Pod_Unreachable s \<Rightarrow> Some s)"

text \<open>
  What a round is held to, in terms of the pods alone: which carry a scope's label, which of those can be
  asked (they run, have a name and an address), and which answered \<open>GetStats\<close>.
\<close>

definition pod_scope :: "observation \<Rightarrow> string option" where
  "pod_scope ob = Option.bind (pd_labels (ob_pod ob)) (\<lambda>labels. hget labels ''scope'')"

definition askable :: "observation \<Rightarrow> bool" where
  "askable ob \<longleftrightarrow>
     pd_phase (ob_pod ob) = Some (Some ''Running'') \<and> pd_name (ob_pod ob) \<noteq> None \<and> pd_pod_ip (ob_pod ob) \<noteq> None"

definition shutting_down_pod :: "observation \<Rightarrow> bool" where
  "shutting_down_pod ob \<longleftrightarrow> pd_deletion_timestamp (ob_pod ob) \<noteq> None"

definition endpoint_seen :: "string \<Rightarrow> observation \<Rightarrow> worker_endpoint" where
  "endpoint_seen scope ob =
     (let name = the (pd_name (ob_pod ob))
      in \<lparr>pod_name = name, pod_ip = the (pd_pod_ip (ob_pod ob)), ep_port = 50052, ep_scope_name = scope,
          stats = the (ob_stats ob), in_flight_at_snapshot = tracker_current (ob_in_flight ob) name,
          is_terminating = shutting_down_pod ob\<rparr>)"

definition endpoints_in :: "string \<Rightarrow> observation list \<Rightarrow> worker_endpoint list" where
  "endpoints_in scope obs =
     map (endpoint_seen scope)
       (filter (\<lambda>ob. pod_scope ob = Some scope \<and> askable ob \<and> ob_stats ob \<noteq> None) obs)"

lemma judge_pod_cases:
  "judge_pod ob =
     (case pod_scope ob of
        None \<Rightarrow> Pod_Ignored
      | Some scope \<Rightarrow>
          if \<not> askable ob then Pod_NotRunning scope
          else if ob_stats ob \<noteq> None then Pod_Reachable scope (endpoint_seen scope ob)
          else if shutting_down_pod ob then Pod_Terminating scope
          else Pod_Unreachable scope)"
  by (auto simp: judge_pod_def pod_scope_def askable_def endpoint_seen_def shutting_down_pod_def is_pod_running_def Let_def
      split: option.split)

lemma workers_of_fold:
  "workers_of (fst (foldl (\<lambda>acc ob. discover_pod ob acc) r obs)) scope =
     workers_of (fst r) scope @ endpoints_in scope obs"
proof (induction obs arbitrary: r)
  case Nil
  then show ?case by (simp add: endpoints_in_def)
next
  case (Cons ob obs)
  have "workers_of (fst (discover_pod ob r)) scope @ endpoints_in scope obs =
      workers_of (fst r) scope @ endpoints_in scope (ob # obs)"
    by (cases r) (auto simp: endpoints_in_def judge_pod_cases workers_of_push split: option.split)
  then show ?case using Cons.IH [of "discover_pod ob r"] by simp
qed

lemma presence_total_fold:
  "pods_total (presence_entry scope (snd (foldl (\<lambda>acc ob. discover_pod ob acc) r obs))) =
     pods_total (presence_entry scope (snd r)) +
     length (filter (\<lambda>ob. verdict_scope (judge_pod ob) = Some scope) obs)"
proof (induction obs arbitrary: r)
  case (Cons ob obs)
  have "pods_total (presence_entry scope (snd (discover_pod ob r))) =
      pods_total (presence_entry scope (snd r)) +
      (if verdict_scope (judge_pod ob) = Some scope then 1 else 0)"
    by (cases r; cases "judge_pod ob") (auto simp: presence_entry_count verdict_scope_def)
  then show ?case using Cons.IH [of "discover_pod ob r"] by simp
qed simp

text \<open>The four counts of a scope, each by what its pods are.\<close>

definition pods_in :: "string \<Rightarrow> (observation \<Rightarrow> bool) \<Rightarrow> observation list \<Rightarrow> nat" where
  "pods_in scope P obs = length (filter (\<lambda>ob. pod_scope ob = Some scope \<and> P ob) obs)"

lemma pods_in_simps [simp]:
  "pods_in scope P [] = 0"
  "pods_in scope P (ob # obs) = (if pod_scope ob = Some scope \<and> P ob then 1 else 0) + pods_in scope P obs"
  by (simp_all add: pods_in_def)

lemma presence_counts_fold:
  fixes scope
  defines "entry \<equiv> \<lambda>r. presence_entry scope (snd r)"
  defines "after \<equiv> \<lambda>r obs. entry (foldl (\<lambda>acc ob. discover_pod ob acc) r obs)"
  shows "pods_not_running (after r obs) = pods_not_running (entry r) + pods_in scope (\<lambda>ob. \<not> askable ob) obs \<and>
    pods_terminating (after r obs) =
      pods_terminating (entry r) + pods_in scope (\<lambda>ob. askable ob \<and> ob_stats ob = None \<and> shutting_down_pod ob) obs \<and>
    pods_unreachable (after r obs) =
      pods_unreachable (entry r) + pods_in scope (\<lambda>ob. askable ob \<and> ob_stats ob = None \<and> \<not> shutting_down_pod ob) obs"
  unfolding after_def entry_def
proof (induction obs arbitrary: r)
  case (Cons ob obs)
  show ?case
    using Cons.IH [of "discover_pod ob r"]
    by (cases r) (auto simp: judge_pod_cases presence_entry_count split: option.split)
qed simp

lemma judge_pod_labelled:
  "verdict_scope (judge_pod ob) = Option.bind (pd_labels (ob_pod ob)) (\<lambda>l. hget l ''scope'')"
  by (auto simp: judge_pod_def verdict_scope_def Let_def split: option.splits)

lemma judge_pod_reachable:
  assumes "judge_pod ob = Pod_Reachable scope w"
  shows "ob_stats ob = Some (stats w)" "ep_scope_name w = scope"
    "in_flight_at_snapshot w = tracker_current (ob_in_flight ob) (pod_name w)"
    "pd_phase (ob_pod ob) = Some (Some ''Running'')" "pd_name (ob_pod ob) = Some (pod_name w)"
  using assms by (auto simp: judge_pod_def Let_def is_pod_running_def split: option.splits if_splits)

section \<open>Static endpoints\<close>

definition default_local_stats :: "string \<Rightarrow> string \<Rightarrow> string \<Rightarrow> worker_stats" where
  "default_local_stats scope name ip =
     \<lparr>ws_scope_name = scope, ws_pod_name = name, ws_pod_ip = ip, ws_total_contexts = 3,
      ws_available_slots = 3, ws_active_requests = 0, ws_total_requests = 0,
      ws_total_contexts_created = 0, ws_total_contexts_recycled = 0, ws_success_rate = 1\<rparr>"

definition local_endpoint :: "string \<Rightarrow> string \<Rightarrow> string \<Rightarrow> nat \<Rightarrow> worker_endpoint" where
  "local_endpoint scope name ip prt =
     \<lparr>pod_name = name, pod_ip = ip, ep_port = prt, ep_scope_name = scope,
      stats = default_local_stats scope name ip, in_flight_at_snapshot = 0, is_terminating = False\<rparr>"

definition parse_port :: "string \<Rightarrow> nat" where
  "parse_port s = (case parse_unsigned 16 s of Some p \<Rightarrow> p | None \<Rightarrow> 50052)"

definition parse_endpoint_spec :: "string \<Rightarrow> worker_endpoint option" where
  "parse_endpoint_spec spec =
     (case split_on (CHR '':'') (trim spec) of
        scope # ip # prt # _ \<Rightarrow>
          Some (local_endpoint scope (''worker-'' @ scope) ip (parse_port prt))
      | _ \<Rightarrow> None)"

definition parse_worker_endpoints :: "string \<Rightarrow> worker_map" where
  "parse_worker_endpoints s =
     foldl (\<lambda>m spec. case parse_endpoint_spec spec of
              Some w \<Rightarrow> push_worker (ep_scope_name w) w m | None \<Rightarrow> m)
       hempty (split_on (CHR '','') s)"

definition unwrap_or :: "'a option \<Rightarrow> 'a \<Rightarrow> 'a" where
  "unwrap_or x d = (case x of Some v \<Rightarrow> v | None \<Rightarrow> d)"

definition parse_single_endpoint :: "string \<Rightarrow> string \<Rightarrow> worker_map" where
  "parse_single_endpoint worker_endpoint worker_scope =
     (let parts = split_on (CHR '':'') worker_endpoint
      in hput worker_scope
           [local_endpoint worker_scope ''worker-local'' (hd parts)
              (case tl parts of p # _ \<Rightarrow> parse_port p | [] \<Rightarrow> 50052)]
           hempty)"

text \<open>\<open>LocalWorkerDiscovery::new\<close> over the process environment.\<close>

definition local_discovery_new :: "(string \<Rightarrow> string option) \<Rightarrow> worker_map \<times> presence_map" where
  "local_discovery_new env =
     (let workers =
        (case env ''WORKER_ENDPOINTS'' of
           Some s \<Rightarrow> parse_worker_endpoints s
         | None \<Rightarrow>
             parse_single_endpoint (unwrap_or (env ''WORKER_ENDPOINT'') ''worker:50052'')
               (unwrap_or (env ''WORKER_SCOPE_NAME'') ''local_dev''))
      in (workers,
          map (\<lambda>(scope, endpoints).
             (scope, presence_default\<lparr>pods_total := length endpoints,
                                      pods_reachable := length endpoints\<rparr>)) workers))"

section \<open>Properties\<close>

text \<open>
  C32: a discovery round neither loses nor invents pods.  For every scope: the routable list is, in pod-list
  order, one endpoint for each observed pod that carries the scope's label, is in phase Running, has a name and
  an address and answered \<open>GetStats\<close>, with that name, address and answer and the coordinator's
  own in-flight count at that moment; the presence entry counts every pod carrying the label, whatever its
  state: as reachable those in the list, as not running those that do not run or lack a name or an address,
  and of the others, which did not answer, as terminating those marked for deletion and as unreachable
  those that are not.  A scope has a presence entry exactly when some pod carries its label, so a scope with
  no routable worker is still told apart from one that does not exist.
\<close>
theorem discovery_round_accounts_for_every_pod:
  "let (workers, presence) = discover_workers obs; p = presence_entry scope presence;
       count = (\<lambda>P. length (filter (\<lambda>ob. pod_scope ob = Some scope \<and> P ob) obs))
   in workers_of workers scope =
        map (\<lambda>ob. \<lparr>pod_name = the (pd_name (ob_pod ob)), pod_ip = the (pd_pod_ip (ob_pod ob)), ep_port = 50052,
               ep_scope_name = scope, stats = the (ob_stats ob),
               in_flight_at_snapshot = tracker_current (ob_in_flight ob) (the (pd_name (ob_pod ob))),
               is_terminating = (pd_deletion_timestamp (ob_pod ob) \<noteq> None)\<rparr>)
          (filter (\<lambda>ob. pod_scope ob = Some scope \<and> askable ob \<and> ob_stats ob \<noteq> None) obs) \<and>
      pods_total p = count (\<lambda>ob. True) \<and>
      pods_reachable p = count (\<lambda>ob. askable ob \<and> ob_stats ob \<noteq> None) \<and>
      pods_not_running p = count (\<lambda>ob. \<not> askable ob) \<and>
      pods_terminating p =
        count (\<lambda>ob. askable ob \<and> ob_stats ob = None \<and> pd_deletion_timestamp (ob_pod ob) \<noteq> None) \<and>
      pods_unreachable p =
        count (\<lambda>ob. askable ob \<and> ob_stats ob = None \<and> pd_deletion_timestamp (ob_pod ob) = None) \<and>
      (hget presence scope = None \<longleftrightarrow> pods_total p = 0) \<and>
      (hget workers scope = None \<longleftrightarrow> pods_reachable p = 0)"
proof -
  obtain workers presence where r: "discover_workers obs = (workers, presence)"
    by (cases "discover_workers obs")
  have run: "foldl (\<lambda>acc ob. discover_pod ob acc) ([], []) obs = (workers, presence)"
    using r by (simp add: discover_workers_def)
  have "round_ok (workers, presence)"
    using round_ok_fold [of "([], [])" obs] by (simp add: run)
  moreover have ws: "workers_of workers scope = endpoints_in scope obs"
    using workers_of_fold [of "([], [])" obs scope] by (simp add: run workers_of_def)
  moreover have "pods_total (presence_entry scope presence) = length (filter (\<lambda>ob. pod_scope ob = Some scope) obs)"
    using presence_total_fold [of scope "([], [])" obs]
    by (simp add: run judge_pod_labelled pod_scope_def presence_default_def)
  moreover note presence_counts_fold [of scope "([], [])" obs, unfolded run pods_in_def]
  ultimately show ?thesis
    unfolding r
    by (simp add: round_ok_def presence_ok_def hget_None_iff endpoints_in_def endpoint_seen_def
        shutting_down_pod_def presence_default_def Let_def)
qed

end
