(* ===== verification/Coordinator_Metrics.thy ===== *)
theory Coordinator_Metrics
  imports Worker_Routing Discovery
begin

text \<open>
  \<open>coordinator/src/metrics.rs\<close>: the counters behind \<open>/metrics\<close>.  A Prometheus vector is a map from
  label tuples to values; \<open>with_label_values\<close> alone creates the series with value 0.  Durations are not
  modelled beyond the number of observations.
\<close>

datatype reject_reason =
    Reject_ScopeNotFound | Reject_NoWorkers | Reject_ScopeUnavailable | Reject_NoSlots
  | Reject_SessionNotFound | Reject_Terminating | Reject_WorkerUnreachable

primrec reject_as_str :: "reject_reason \<Rightarrow> string" where
  "reject_as_str Reject_ScopeNotFound = ''scope_not_found''"
| "reject_as_str Reject_NoWorkers = ''no_workers''"
| "reject_as_str Reject_ScopeUnavailable = ''scope_unavailable''"
| "reject_as_str Reject_NoSlots = ''no_slots''"
| "reject_as_str Reject_SessionNotFound = ''session_not_found''"
| "reject_as_str Reject_Terminating = ''terminating''"
| "reject_as_str Reject_WorkerUnreachable = ''worker_unreachable''"

definition scope_is_untrusted :: "reject_reason \<Rightarrow> bool" where
  "scope_is_untrusted r \<longleftrightarrow> r = Reject_ScopeNotFound"

definition UNKNOWN_SCOPE :: string where
  "UNKNOWN_SCOPE = ''unknown''"

definition ALL_REJECT_REASONS :: "reject_reason list" where
  "ALL_REJECT_REASONS =
     [Reject_ScopeNotFound, Reject_NoWorkers, Reject_ScopeUnavailable, Reject_NoSlots,
      Reject_SessionNotFound, Reject_Terminating, Reject_WorkerUnreachable]"

primrec retry_as_str :: "retry_reason \<Rightarrow> string" where
  "retry_as_str Retry_Terminating = ''terminating''"
| "retry_as_str Retry_NoSlots = ''no_slots''"
| "retry_as_str Retry_WorkerUnreachable = ''worker_unreachable''"

definition ALL_RETRY_REASONS :: "retry_reason list" where
  "ALL_RETRY_REASONS = [Retry_Terminating, Retry_NoSlots, Retry_WorkerUnreachable]"

record coordinator_metrics =
  cm_requests_total :: "(string, nat) hmap"
  cm_requests_rejected_total :: "(string \<times> string, nat) hmap"
  cm_requests_retried_total :: "(string \<times> string, nat) hmap"
  cm_request_duration_seconds :: "(string, nat) hmap"
  cm_scope_workers_total :: "(string, nat) hmap"
  cm_scope_workers_healthy :: "(string, nat) hmap"
  cm_scope_available_slots :: "(string, nat) hmap"

definition coordinator_metrics_new :: coordinator_metrics where
  "coordinator_metrics_new =
     \<lparr>cm_requests_total = hempty, cm_requests_rejected_total = hempty,
      cm_requests_retried_total = hempty, cm_request_duration_seconds = hempty,
      cm_scope_workers_total = hempty, cm_scope_workers_healthy = hempty,
      cm_scope_available_slots = hempty\<rparr>"

definition with_label :: "'k \<Rightarrow> ('k, nat) hmap \<Rightarrow> ('k, nat) hmap" where
  "with_label k m = (if hget m k = None then hput k 0 m else m)"

definition register_scope :: "string \<Rightarrow> coordinator_metrics \<Rightarrow> coordinator_metrics" where
  "register_scope scope cm =
     cm\<lparr>cm_requests_total := with_label scope (cm_requests_total cm),
        cm_request_duration_seconds := with_label scope (cm_request_duration_seconds cm),
        cm_requests_rejected_total :=
          foldl (\<lambda>m r. with_label (scope, reject_as_str r) m) (cm_requests_rejected_total cm)
            ALL_REJECT_REASONS,
        cm_requests_retried_total :=
          foldl (\<lambda>m r. with_label (scope, retry_as_str r) m) (cm_requests_retried_total cm)
            ALL_RETRY_REASONS\<rparr>"

definition refresh_scope_gauges ::
  "string set \<Rightarrow> in_flight_tracker \<Rightarrow> coordinator_metrics \<Rightarrow> string \<times> worker_endpoint list \<Rightarrow>
   coordinator_metrics" where
  "refresh_scope_gauges healthy tracker cm = (\<lambda>(scope, endpoints).
     (register_scope scope cm)
       \<lparr>cm_scope_workers_total := hput scope (length endpoints) (cm_scope_workers_total cm),
        cm_scope_workers_healthy :=
          hput scope (length (filter (\<lambda>w. pod_name w \<in> healthy) endpoints))
            (cm_scope_workers_healthy cm),
        cm_scope_available_slots :=
          hput scope (sum_list (map (tracker_free_slots tracker) endpoints))
            (cm_scope_available_slots cm)\<rparr>)"

definition refresh_cluster_gauges ::
  "worker_map \<Rightarrow> string set \<Rightarrow> in_flight_tracker \<Rightarrow> coordinator_metrics \<Rightarrow> coordinator_metrics" where
  "refresh_cluster_gauges workers healthy tracker cm =
     foldl (refresh_scope_gauges healthy tracker) cm workers"

section \<open>The per-request recorder\<close>

record request_metrics =
  rm_scope :: string
  rm_reject_reason :: "reject_reason option"

definition request_metrics_new :: "string \<Rightarrow> request_metrics" where
  "request_metrics_new scope = \<lparr>rm_scope = scope, rm_reject_reason = None\<rparr>"

definition metrics_set_scope :: "string \<Rightarrow> request_metrics \<Rightarrow> request_metrics" where
  "metrics_set_scope scope rm = rm\<lparr>rm_scope := scope\<rparr>"

definition metrics_reject :: "reject_reason \<Rightarrow> request_metrics \<Rightarrow> request_metrics" where
  "metrics_reject reason rm = rm\<lparr>rm_reject_reason := Some reason\<rparr>"

definition metrics_record_retry ::
  "request_metrics \<Rightarrow> retry_reason \<Rightarrow> coordinator_metrics \<Rightarrow> coordinator_metrics" where
  "metrics_record_retry rm reason cm =
     cm\<lparr>cm_requests_retried_total :=
          hbump (rm_scope rm, retry_as_str reason) (cm_requests_retried_total cm)\<rparr>"

definition metrics_label :: "request_metrics \<Rightarrow> string" where
  "metrics_label rm =
     (case rm_reject_reason rm of
        Some reason \<Rightarrow> if scope_is_untrusted reason then UNKNOWN_SCOPE else rm_scope rm
      | None \<Rightarrow> rm_scope rm)"

definition metrics_drop :: "request_metrics \<Rightarrow> coordinator_metrics \<Rightarrow> coordinator_metrics" where
  "metrics_drop rm cm =
     (let scope = metrics_label rm;
          cm' = cm\<lparr>cm_requests_total := hbump scope (cm_requests_total cm),
                   cm_request_duration_seconds := hbump scope (cm_request_duration_seconds cm)\<rparr>
      in case rm_reject_reason rm of
           Some reason \<Rightarrow>
             cm'\<lparr>cm_requests_rejected_total :=
                   hbump (scope, reject_as_str reason) (cm_requests_rejected_total cm')\<rparr>
         | None \<Rightarrow> cm')"

lemma reject_as_str_inject [simp]: "reject_as_str a = reject_as_str b \<longleftrightarrow> a = b"
  by (cases a; cases b) simp_all

lemma hcount_with_label [simp]: "hcount (with_label k m) k' = hcount m k'"
  by (simp add: with_label_def hcount_def)

lemma hcount_with_labels [simp]:
  "hcount (foldl (\<lambda>m r. with_label (f r) m) m rs) k = hcount m k"
  by (induction rs arbitrary: m) simp_all

text \<open>Registering and refreshing never changes a counter.\<close>

lemma register_scope_counts:
  "hcount (cm_requests_total (register_scope s cm)) k = hcount (cm_requests_total cm) k"
  "hcount (cm_requests_rejected_total (register_scope s cm)) k' =
     hcount (cm_requests_rejected_total cm) k'"
  by (simp_all add: register_scope_def)

lemma refresh_counts:
  "hcount (cm_requests_total (refresh_cluster_gauges ws h t cm)) k = hcount (cm_requests_total cm) k \<and>
   hcount (cm_requests_rejected_total (refresh_cluster_gauges ws h t cm)) k' =
     hcount (cm_requests_rejected_total cm) k'"
  unfolding refresh_cluster_gauges_def
  by (induction ws arbitrary: cm) (auto simp: refresh_scope_gauges_def register_scope_counts)

end
