(* ===== verification/Coordinator.thy ===== *)
theory Coordinator
  imports Coordinator_Metrics Session_Store Wait_Params
begin

text \<open>
  \<open>coordinator/src/service.rs\<close>: the \<open>scrape_page\<close> handler of the coordinator and
  \<open>get_cluster_stats\<close>.

  The handler awaits between its steps while other requests, the discovery loop and the health monitor
  run.  So everything it reads from shared state is an input (\<open>coord_env\<close>, and one \<open>attempt_env\<close> per
  attempt), unrelated from one reading to the next, and everything it does to shared state is an entry
  of its effect trace, in program order.  The session table, whose operations are atomic, is passed
  explicitly; \<open>ce_other_sessions\<close> are the operations other tasks perform on it while the handler waits
  for its worker.  Logging and tracing spans are left out.
\<close>

section \<open>Messages and environment\<close>

record worker_response =
  wr_success :: bool
  wr_status_code :: nat
  wr_content :: string
  wr_error_message :: string
  wr_error_code :: int
  wr_response_headers :: "(string, string) hmap"
  wr_execution_time_ms :: nat
  wr_context_id :: string
  wr_ray_id :: string

record coord_response =
  cr_success :: bool
  cr_status_code :: nat
  cr_content :: string
  cr_error_message :: string
  cr_error_code :: int
  cr_response_headers :: "(string, string) hmap"
  cr_session_id :: string
  cr_worker_id :: string
  cr_context_id :: string
  cr_execution_time_ms :: nat
  cr_ray_id :: string

datatype attempt_reply =
    Connect_Failed string
  | Reply worker_response
  | Rpc_InvalidArgument string
  | Rpc_Failed string

record attempt_env =
  ae_now_send :: millis
  ae_reply :: "string \<Rightarrow> worker_request \<Rightarrow> attempt_reply"
  ae_now_after :: millis
  ae_workers :: worker_map
  ae_healthy :: "string set"
  ae_in_flight :: in_flight_tracker
  ae_rotation :: "64 word"

record coord_env =
  ce_cancelled :: bool
  ce_fresh_uuid :: string
  ce_start :: millis
  ce_now_session :: millis
  ce_workers :: worker_map
  ce_known_scopes :: presence_map
  ce_healthy :: "string set"
  ce_in_flight :: in_flight_tracker
  ce_rotation :: "64 word"
  ce_fresh_slots :: "string \<Rightarrow> nat option"
  ce_attempts :: "nat \<Rightarrow> attempt_env"
  ce_other_sessions :: "(millis \<times> session_op) list"
  ce_now_create :: millis
  ce_end :: millis

text \<open>
  Effects.  In-flight guards are named by the attempt that creates them.
\<close>

datatype coord_effect =
    Eff_Active_Enter
  | Eff_Active_Leave
  | Eff_InFlight_Start nat string
  | Eff_InFlight_Drop nat
  | Eff_Attempt string string
  | Eff_Send string worker_request
  | Eff_Retry string retry_reason
  | Eff_Metrics request_metrics

section \<open>Routing a request\<close>

definition http_endpoint :: "worker_endpoint \<Rightarrow> string" where
  "http_endpoint w = ''http://'' @ pod_ip w @ '':'' @ show_nat (ep_port w)"

definition classify_missing_scope ::
  "string \<Rightarrow> scope_presence option \<Rightarrow> reject_reason \<times> int \<times> string" where
  "classify_missing_scope scope_name presence =
     (case presence of
        Some p \<Rightarrow>
          (Reject_ScopeUnavailable, code_num EC_NoWorkersAvailable,
           ''Scope '' @ scope_name @ '' is temporarily unavailable ('' @ presence_describe p @
           ''); retry shortly'')
      | None \<Rightarrow>
          (Reject_ScopeNotFound, code_num EC_ScopeNotFound, ''Scope not found: '' @ scope_name))"

datatype route =
    Route_Reject reject_reason int string
  | Route_To string string

text \<open>
  \<open>Route_To endpoint worker_id\<close>.  The session path also answers the scope the metrics are filed under
  and the session table afterwards.
\<close>

definition route_session ::
  "coord_env \<Rightarrow> coord_request \<Rightarrow> session_manager \<Rightarrow> route \<times> string \<times> session_manager" where
  "route_session ce q sm =
     (case get_session (ce_now_session ce) (cq_session_id q) sm of
        (Some info, sm') \<Rightarrow>
          (let worker_exists =
             (case hget (ce_workers ce) (si_scope_name info) of
                Some ws \<Rightarrow> \<exists>w \<in> set ws. pod_name w = sid_worker_id (si_session_id info)
              | None \<Rightarrow> False)
           in if worker_exists
              then (Route_To (si_worker_endpoint info) (sid_worker_id (si_session_id info)),
                    si_scope_name info, sm')
              else (Route_Reject Reject_SessionNotFound (code_num EC_SessionNotFound)
                      ''Session expired or worker unavailable. Please retry without session_id'',
                    si_scope_name info, remove_session (cq_session_id q) sm'))
      | (None, sm') \<Rightarrow>
          (Route_Reject Reject_SessionNotFound (code_num EC_SessionNotFound)
             ''Session not found or expired'', cq_scope_name q, sm'))"

definition route_new :: "coord_env \<Rightarrow> coord_request \<Rightarrow> route" where
  "route_new ce q =
     (case hget (ce_workers ce) (cq_scope_name q) of
        None \<Rightarrow>
          (case classify_missing_scope (cq_scope_name q) (hget (ce_known_scopes ce) (cq_scope_name q)) of
             (reason, code, message) \<Rightarrow> Route_Reject reason code message)
      | Some scope_workers \<Rightarrow>
          if scope_workers = [] then
            Route_Reject Reject_NoWorkers (code_num EC_NoWorkersAvailable)
              (''No workers available for scope: '' @ cq_scope_name q)
          else
            (case select_best_worker scope_workers (ce_healthy ce)
                    (tracker_free_slots (ce_in_flight ce)) (ce_rotation ce) of
               None \<Rightarrow>
                 Route_Reject Reject_NoWorkers (code_num EC_NoWorkersAvailable)
                   (''No available workers for scope: '' @ cq_scope_name q)
             | Some s \<Rightarrow>
                 (let endpoint = http_endpoint (sw_worker s);
                      refused = Route_Reject Reject_NoSlots (code_num EC_NoWorkersAvailable)
                        (''No available slots in scope: '' @ cq_scope_name q @ ''. All workers are busy.'')
                  in if sw_free_slots s = 0 then
                       (case ce_fresh_slots ce endpoint of
                          Some slots \<Rightarrow>
                            if 0 < slots then Route_To endpoint (pod_name (sw_worker s)) else refused
                        | None \<Rightarrow> refused)
                     else Route_To endpoint (pod_name (sw_worker s)))))"

section \<open>Attempts and retries\<close>

definition request_deadline :: "coord_env \<Rightarrow> coord_request \<Rightarrow> millis" where
  "request_deadline ce q = ce_start ce + client_budget (cq_timeout_seconds q)"

definition MIN_RETRY_TIME_REMAINING :: millis where [cfg_simps]:
  "MIN_RETRY_TIME_REMAINING = 10 * 1000"

definition forwarded_request ::
  "coord_env \<Rightarrow> coord_request \<Rightarrow> string \<Rightarrow> millis \<Rightarrow> worker_request" where
  "forwarded_request ce q ray_id now =
     (let wait = coord_resolved_wait q;
          context_id = (if cq_session_id q \<noteq> [] then
                          (case session_id_from_string (cq_session_id q) of
                             Some sid \<Rightarrow> sid_context_id sid | None \<Rightarrow> '''')
                        else '''')
      in \<lparr>wq_url = cq_url q,
          wq_timeout_seconds = max 1 ((request_deadline ce q - now) div 1000),
          wq_context_id = context_id,
          wq_wait_strategy = rw_strategy wait,
          wq_wait_timeout_ms = rw_timeout_ms wait,
          wq_wait_selector = rw_wait_selector wait,
          wq_skip_selector = rw_skip_selector wait,
          wq_ray_id = ray_id,
          wq_country_code = cq_country_code q,
          wq_wait = Some (wait_options_from wait)\<rparr>)"

datatype attempt_outcome =
    Answered worker_response
  | Unreachable string

definition retry_plan_of :: "coord_request \<Rightarrow> attempt_outcome \<Rightarrow> retry_plan option" where
  "retry_plan_of q outcome =
     (let no_session = (cq_session_id q = []) in
      case outcome of
        Answered resp \<Rightarrow> classify_retry (wr_error_code resp) no_session
      | Unreachable _ \<Rightarrow> classify_unreachable_retry no_session)"

text \<open>
  The part of the loop body after the attempt: \<open>None\<close> is every \<open>break outcome\<close>, otherwise the next
  worker, its endpoint and the reason.  \<open>excluded\<close> already holds the worker that just answered.
\<close>

definition next_worker ::
  "coord_env \<Rightarrow> coord_request \<Rightarrow> attempt_env \<Rightarrow> string set \<Rightarrow> nat \<Rightarrow> attempt_outcome \<Rightarrow>
   (string \<times> string \<times> retry_reason) option" where
  "next_worker ce q ae excluded attempt outcome =
     (case retry_plan_of q outcome of
        None \<Rightarrow> None
      | Some plan \<Rightarrow>
          if request_deadline ce q - ae_now_after ae < MIN_RETRY_TIME_REMAINING then None
          else if rp_max_attempts plan \<le> attempt then None
          else
            (case hget (ae_workers ae) (cq_scope_name q) of
               None \<Rightarrow> None
             | Some scope_workers \<Rightarrow>
                 (let candidates = filter (\<lambda>w. pod_name w \<in> ae_healthy ae \<and> pod_name w \<notin> excluded)
                                     scope_workers
                  in case pick_most_free candidates (tracker_free_slots (ae_in_flight ae))
                            (ae_rotation ae) of
                       None \<Rightarrow> None
                     | Some (best_worker, free_slots) \<Rightarrow>
                         if free_slots = 0 then None
                         else Some (pod_name best_worker, http_endpoint best_worker,
                                    rp_reason plan))))"

datatype loop_result =
    Loop_Status string
  | Loop_Done attempt_outcome string string

definition attempt_effects ::
  "coord_request \<Rightarrow> nat \<Rightarrow> string \<Rightarrow> string \<Rightarrow> worker_request \<Rightarrow> attempt_reply \<Rightarrow> coord_effect list" where
  "attempt_effects q attempt worker_id endpoint wreq reply =
     (if cq_session_id q = [] then [Eff_InFlight_Start attempt worker_id] else []) @
     [Eff_Attempt worker_id endpoint] @
     (case reply of Connect_Failed _ \<Rightarrow> [] | _ \<Rightarrow> [Eff_Send endpoint wreq])"

definition attempt_end :: "coord_request \<Rightarrow> nat \<Rightarrow> coord_effect list" where
  "attempt_end q attempt = (if cq_session_id q = [] then [Eff_InFlight_Drop attempt] else [])"

definition outcome_of :: "string \<Rightarrow> attempt_reply \<Rightarrow> attempt_outcome" where
  "outcome_of worker_id reply =
     (case reply of
        Connect_Failed e \<Rightarrow> Unreachable (''Failed to connect to worker '' @ worker_id @ '': '' @ e)
      | Reply resp \<Rightarrow> Answered resp
      | Rpc_InvalidArgument e \<Rightarrow> Unreachable e
      | Rpc_Failed e \<Rightarrow>
          Unreachable (''Worker '' @ worker_id @ '' became unreachable during the request: '' @ e))"

lemma plan_attempts_le: "retry_plan_of q outcome = Some plan \<Longrightarrow> rp_max_attempts plan \<le> 3"
  by (auto simp: retry_plan_of_def classify_retry_def classify_unreachable_retry_def cfg_simps Let_def
      split: attempt_outcome.splits if_splits)

lemma next_worker_Some:
  assumes "next_worker ce q ae excluded attempt outcome = Some (w', ep', reason)"
  obtains plan ws w where "retry_plan_of q outcome = Some plan"
    and "MIN_RETRY_TIME_REMAINING \<le> request_deadline ce q - ae_now_after ae"
    and "attempt < rp_max_attempts plan" and "reason = rp_reason plan"
    and "hget (ae_workers ae) (cq_scope_name q) = Some ws" and "w \<in> set ws"
    and "w' = pod_name w" and "ep' = http_endpoint w"
    and "w' \<in> ae_healthy ae" and "w' \<notin> excluded"
    and "0 < tracker_free_slots (ae_in_flight ae) w"
proof -
  from assms obtain plan ws w n where p: "retry_plan_of q outcome = Some plan"
    "MIN_RETRY_TIME_REMAINING \<le> request_deadline ce q - ae_now_after ae"
    "attempt < rp_max_attempts plan" "hget (ae_workers ae) (cq_scope_name q) = Some ws"
    and pick: "pick_most_free (filter (\<lambda>w. pod_name w \<in> ae_healthy ae \<and> pod_name w \<notin> excluded) ws)
      (tracker_free_slots (ae_in_flight ae)) (ae_rotation ae) = Some (w, n)" "n \<noteq> 0"
    and r: "w' = pod_name w" "ep' = http_endpoint w" "reason = rp_reason plan"
    by (auto simp: next_worker_def Let_def not_less not_le split: option.splits if_splits)
  show thesis
    by (rule that [OF p(1-3) r(3) p(4) _ r(1,2)])
      (use pick_most_free_Some [OF pick(1)] pick(2) r(1) in auto)
qed

lemma next_worker_attempts:
  assumes "next_worker ce q ae excluded attempt outcome = Some x"
  shows "attempt < 3"
proof (cases x)
  case (fields w' ep' reason)
  show ?thesis
    using assms unfolding fields
    by (rule next_worker_Some) (use plan_attempts_le in force)
qed

function retry_loop ::
  "coord_env \<Rightarrow> coord_request \<Rightarrow> string \<Rightarrow> string \<Rightarrow> string set \<Rightarrow> nat \<Rightarrow> string \<Rightarrow> string \<Rightarrow>
   loop_result \<times> coord_effect list" where
  "retry_loop ce q ray_id scope excluded n worker_id endpoint =
     (let attempt = n + 1;
          ae = ce_attempts ce attempt;
          wreq = forwarded_request ce q ray_id (ae_now_send ae);
          reply = ae_reply ae endpoint wreq;
          start = attempt_effects q attempt worker_id endpoint wreq reply
      in case reply of
           Rpc_InvalidArgument e \<Rightarrow> (Loop_Status e, start @ attempt_end q attempt)
         | _ \<Rightarrow>
             (let outcome = outcome_of worker_id reply;
                  excluded' = insert worker_id excluded
              in case next_worker ce q ae excluded' attempt outcome of
                   None \<Rightarrow> (Loop_Done outcome worker_id endpoint, start @ attempt_end q attempt)
                 | Some (worker_id', endpoint', reason) \<Rightarrow>
                     (let (result, effects) =
                        retry_loop ce q ray_id scope excluded' attempt worker_id' endpoint'
                      in (result, start @ [Eff_Retry scope reason] @ attempt_end q attempt @ effects))))"
  by pat_completeness auto

termination
  by (relation "measure (\<lambda>(_, _, _, _, _, n, _, _). 3 - n)")
    (auto dest!: next_worker_attempts)

declare retry_loop.simps [simp del]

section \<open>The handler\<close>

definition reject_response :: "coord_env \<Rightarrow> string \<Rightarrow> int \<Rightarrow> string \<Rightarrow> coord_response" where
  "reject_response ce ray_id code message =
     \<lparr>cr_success = False, cr_status_code = 0, cr_content = '''', cr_error_message = message,
      cr_error_code = code, cr_response_headers = hempty, cr_session_id = '''', cr_worker_id = '''',
      cr_context_id = '''', cr_execution_time_ms = ce_end ce - ce_start ce, cr_ray_id = ray_id\<rparr>"

text \<open>Capacity becomes the coordinator's own "no workers available".\<close>

definition map_capacity ::
  "coord_request \<Rightarrow> worker_response \<Rightarrow> worker_response \<times> reject_reason option" where
  "map_capacity q resp =
     (if wr_error_code resp = code_num EC_CapacityExhausted then
        (resp\<lparr>wr_error_message :=
                ''No available slots in scope '' @ cq_scope_name q @ '': '' @ wr_error_message resp,
              wr_error_code := code_num EC_NoWorkersAvailable\<rparr>,
         Some Reject_NoSlots)
      else (resp, None))"

definition finish_answered ::
  "coord_env \<Rightarrow> coord_request \<Rightarrow> string \<Rightarrow> string \<Rightarrow> string \<Rightarrow> worker_response \<Rightarrow> session_manager \<Rightarrow>
   coord_response \<times> session_manager" where
  "finish_answered ce q ray_id worker_id endpoint resp sm =
     (let (session_id, sm') =
        (if wr_context_id resp \<noteq> [] then
           (let (sid, sm') = create_session (ce_now_create ce) (cq_scope_name q) worker_id
                               (wr_context_id resp) endpoint sm
            in (session_id_to_string sid, sm'))
         else ('''', sm))
      in (\<lparr>cr_success = wr_success resp, cr_status_code = wr_status_code resp,
           cr_content = wr_content resp, cr_error_message = wr_error_message resp,
           cr_error_code = wr_error_code resp, cr_response_headers = wr_response_headers resp,
           cr_session_id = session_id, cr_worker_id = worker_id, cr_context_id = wr_context_id resp,
           cr_execution_time_ms = ce_end ce - ce_start ce, cr_ray_id = ray_id\<rparr>, sm'))"

definition route_request ::
  "coord_env \<Rightarrow> coord_request \<Rightarrow> session_manager \<Rightarrow> route \<times> string \<times> session_manager" where
  "route_request ce q sm =
     (if cq_session_id q \<noteq> [] then route_session ce q sm
      else (route_new ce q, cq_scope_name q, sm))"

definition ray_id_of :: "coord_env \<Rightarrow> coord_request \<Rightarrow> string" where
  "ray_id_of ce q = (if cq_ray_id q = [] then ''ray_'' @ ce_fresh_uuid ce else cq_ray_id q)"

definition dispatch ::
  "coord_env \<Rightarrow> coord_request \<Rightarrow> string \<Rightarrow> string \<Rightarrow> string \<Rightarrow> string \<Rightarrow> session_manager \<Rightarrow>
   (string + coord_response) \<times> session_manager \<times> coord_effect list \<times> reject_reason option" where
  "dispatch ce q ray_id scope endpoint worker_id sm =
     (case retry_loop ce q ray_id scope {} 0 worker_id endpoint of
        (Loop_Status e, effects) \<Rightarrow> (Inl e, session_run (ce_other_sessions ce) sm, effects, None)
      | (Loop_Done (Unreachable message) last_id last_endpoint, effects) \<Rightarrow>
          (Inr ((reject_response ce ray_id (code_num EC_WorkerUnreachable) message)
                  \<lparr>cr_worker_id := last_id\<rparr>),
           session_run (ce_other_sessions ce) sm, effects, Some Reject_WorkerUnreachable)
      | (Loop_Done (Answered resp) last_id last_endpoint, effects) \<Rightarrow>
          (let (resp', reason) = map_capacity q resp;
               (answer, sm') = finish_answered ce q ray_id last_id last_endpoint resp'
                                 (session_run (ce_other_sessions ce) sm)
           in (Inr answer, sm', effects, reason)))"

definition scrape_page ::
  "coord_env \<Rightarrow> coord_request \<Rightarrow> session_manager \<Rightarrow>
   (string + coord_response) \<times> session_manager \<times> coord_effect list" where
  "scrape_page ce q sm =
     (let ray_id = ray_id_of ce q;
          rm = request_metrics_new (cq_scope_name q);
          around = (\<lambda>effects rm. [Eff_Active_Enter] @ effects @ [Eff_Metrics rm, Eff_Active_Leave])
      in if ce_cancelled ce then
           (Inr (reject_response ce ray_id (code_num EC_Terminating)
                   ''Coordinator is shutting down, please retry''),
            sm, around [] (metrics_reject Reject_Terminating rm))
         else
           (case route_request ce q sm of
              (Route_Reject reason code message, scope, sm') \<Rightarrow>
                (Inr (reject_response ce ray_id code message), sm',
                 around [] (metrics_reject reason (metrics_set_scope scope rm)))
            | (Route_To endpoint worker_id, scope, sm') \<Rightarrow>
                (case dispatch ce q ray_id scope endpoint worker_id sm' of
                   (answer, sm'', effects, reason) \<Rightarrow>
                     (answer, sm'',
                      around effects ((metrics_set_scope scope rm)\<lparr>rm_reject_reason := reason\<rparr>)))))"

section \<open>Cluster statistics\<close>

record scope_stats_proto =
  ss_name :: string
  ss_total_workers :: nat
  ss_total_slots :: nat
  ss_available_slots :: nat
  ss_active_requests :: nat
  ss_success_rate :: rat

definition scope_stats_of :: "string \<Rightarrow> worker_endpoint list \<Rightarrow> scope_stats_proto" where
  "scope_stats_of scope ws =
     \<lparr>ss_name = scope, ss_total_workers = length ws,
      ss_total_slots = sum_list (map (\<lambda>w. ws_total_contexts (stats w) * 3) ws),
      ss_available_slots = sum_list (map (\<lambda>w. ws_available_slots (stats w)) ws),
      ss_active_requests = sum_list (map (\<lambda>w. ws_active_requests (stats w)) ws),
      ss_success_rate =
        (if ws = [] then 0
         else sum_list (map (\<lambda>w. ws_success_rate (stats w)) ws) / of_nat (length ws))\<rparr>"

record cluster_stats =
  cl_scope_stats :: "(string, scope_stats_proto) hmap"
  cl_total_requests :: nat
  cl_active_jobs :: nat

definition get_cluster_stats :: "worker_map \<Rightarrow> cluster_stats" where
  "get_cluster_stats workers =
     foldl (\<lambda>acc (scope, ws).
        \<lparr>cl_scope_stats = hput scope (scope_stats_of scope ws) (cl_scope_stats acc),
         cl_total_requests =
           cl_total_requests acc + sum_list (map (\<lambda>w. ws_total_requests (stats w)) ws),
         cl_active_jobs = cl_active_jobs acc + ss_active_requests (scope_stats_of scope ws)\<rparr>)
       \<lparr>cl_scope_stats = hempty, cl_total_requests = 0, cl_active_jobs = 0\<rparr> workers"

section \<open>The health monitor\<close>

text \<open>
  One tick: \<open>probe endpoint\<close> is the answer of \<open>connect_worker\<close> followed by \<open>health_check\<close>, \<open>None\<close> when
  either fails.
\<close>

definition health_tick :: "(string \<Rightarrow> bool option) \<Rightarrow> worker_map \<Rightarrow> string set" where
  "health_tick probe workers =
     set (map pod_name (filter (\<lambda>w. probe (http_endpoint w) = Some True) (concat (map snd workers))))"

end
