(* ===== verification/Coordinator_Props.thy ===== *)
theory Coordinator_Props
  imports Coordinator
begin

text \<open>
  What the coordinator guarantees: facts about the retry loop by its own induction rule, then the
  properties of the handler.
\<close>

section \<open>The retry loop\<close>

definition loop_reply ::
  "coord_env \<Rightarrow> coord_request \<Rightarrow> string \<Rightarrow> nat \<Rightarrow> string \<Rightarrow> attempt_reply" where
  "loop_reply ce q ray_id attempt endpoint =
     ae_reply (ce_attempts ce attempt) endpoint
       (forwarded_request ce q ray_id (ae_now_send (ce_attempts ce attempt)))"

definition loop_next ::
  "coord_env \<Rightarrow> coord_request \<Rightarrow> string \<Rightarrow> string set \<Rightarrow> nat \<Rightarrow> string \<Rightarrow> string \<Rightarrow>
   (string \<times> string \<times> retry_reason) option" where
  "loop_next ce q ray_id excluded n worker_id endpoint =
     (case loop_reply ce q ray_id (n + 1) endpoint of
        Rpc_InvalidArgument _ \<Rightarrow> None
      | reply \<Rightarrow> next_worker ce q (ce_attempts ce (n + 1)) (insert worker_id excluded) (n + 1)
                  (outcome_of worker_id reply))"

definition loop_final ::
  "coord_env \<Rightarrow> coord_request \<Rightarrow> string \<Rightarrow> nat \<Rightarrow> string \<Rightarrow> string \<Rightarrow> loop_result" where
  "loop_final ce q ray_id n worker_id endpoint =
     (case loop_reply ce q ray_id (n + 1) endpoint of
        Rpc_InvalidArgument e \<Rightarrow> Loop_Status e
      | reply \<Rightarrow> Loop_Done (outcome_of worker_id reply) worker_id endpoint)"

definition loop_start ::
  "coord_env \<Rightarrow> coord_request \<Rightarrow> string \<Rightarrow> nat \<Rightarrow> string \<Rightarrow> string \<Rightarrow> coord_effect list" where
  "loop_start ce q ray_id n worker_id endpoint =
     attempt_effects q (n + 1) worker_id endpoint
       (forwarded_request ce q ray_id (ae_now_send (ce_attempts ce (n + 1))))
       (loop_reply ce q ray_id (n + 1) endpoint)"

lemma retry_loop_stop:
  assumes "loop_next ce q ray_id ex n w ep = None"
  shows "retry_loop ce q ray_id scope ex n w ep =
    (loop_final ce q ray_id n w ep, loop_start ce q ray_id n w ep @ attempt_end q (n + 1))"
  using assms
  by (subst retry_loop.simps)
    (auto simp: loop_next_def loop_final_def loop_start_def loop_reply_def Let_def
      split: attempt_reply.splits)

lemma retry_loop_again:
  assumes "loop_next ce q ray_id ex n w ep = Some (w', ep', reason)"
  shows "retry_loop ce q ray_id scope ex n w ep =
    (fst (retry_loop ce q ray_id scope (insert w ex) (n + 1) w' ep'),
     loop_start ce q ray_id n w ep @ [Eff_Retry scope reason] @ attempt_end q (n + 1) @
     snd (retry_loop ce q ray_id scope (insert w ex) (n + 1) w' ep'))"
  using assms
  by (subst retry_loop.simps)
    (auto simp: loop_next_def loop_start_def loop_reply_def Let_def case_prod_unfold
      split: attempt_reply.splits)

lemma loop_next_next_worker:
  assumes "loop_next ce q ray_id ex n w ep = Some x"
  obtains reply where "loop_reply ce q ray_id (n + 1) ep = reply"
    and "next_worker ce q (ce_attempts ce (n + 1)) (insert w ex) (n + 1) (outcome_of w reply) = Some x"
  using assms by (auto simp: loop_next_def split: attempt_reply.splits)

lemma loop_next_attempts: "loop_next ce q ray_id ex n w ep = Some x \<Longrightarrow> n + 1 < 3"
  by (erule loop_next_next_worker) (drule next_worker_attempts, simp)

lemma loop_next_fresh:
  assumes "loop_next ce q ray_id ex n w ep = Some (w', ep', reason)"
  shows "w' \<notin> insert w ex"
  using assms by (rule loop_next_next_worker) (erule next_worker_Some, simp)

lemma retry_loop_rule [case_names stop again]:
  assumes "\<And>ex n w ep. loop_next ce q ray_id ex n w ep = None \<Longrightarrow> P ex n w ep"
    and "\<And>ex n w ep w' ep' reason. loop_next ce q ray_id ex n w ep = Some (w', ep', reason) \<Longrightarrow>
      P (insert w ex) (n + 1) w' ep' \<Longrightarrow> P ex n w ep"
  shows "P ex n w ep"
proof (induction "3 - n" arbitrary: ex n w ep rule: less_induct)
  case (less n ex w ep)
  show ?case
  proof (cases "loop_next ce q ray_id ex n w ep")
    case None
    then show ?thesis by (rule assms(1))
  next
    case (Some x)
    obtain w' ep' reason where x: "x = (w', ep', reason)"
      by (cases x)
    have "P (insert w ex) (n + 1) w' ep'"
      using loop_next_attempts [OF Some] by (intro less) simp
    then show ?thesis
      using assms(2) Some x by blast
  qed
qed

text \<open>Projections of a trace.\<close>

fun attempts :: "coord_effect list \<Rightarrow> (string \<times> string) list" where
  "attempts [] = []"
| "attempts (Eff_Attempt w ep # es) = (w, ep) # attempts es"
| "attempts (_ # es) = attempts es"

abbreviation attempted_pods :: "coord_effect list \<Rightarrow> string list" where
  "attempted_pods es \<equiv> map fst (attempts es)"

fun sent_requests :: "coord_effect list \<Rightarrow> (string \<times> worker_request) list" where
  "sent_requests [] = []"
| "sent_requests (Eff_Send ep r # es) = (ep, r) # sent_requests es"
| "sent_requests (_ # es) = sent_requests es"

fun guard_events :: "coord_effect list \<Rightarrow> string guard_event list" where
  "guard_events [] = []"
| "guard_events (Eff_InFlight_Start g w # es) = Guard_New g w # guard_events es"
| "guard_events (Eff_InFlight_Drop g # es) = Guard_Drop g # guard_events es"
| "guard_events (_ # es) = guard_events es"

fun retries :: "coord_effect list \<Rightarrow> retry_reason list" where
  "retries [] = []"
| "retries (Eff_Retry _ r # es) = r # retries es"
| "retries (_ # es) = retries es"

lemma attempts_append [simp]: "attempts (xs @ ys) = attempts xs @ attempts ys"
  by (induction xs rule: attempts.induct) simp_all

lemma sent_requests_append [simp]: "sent_requests (xs @ ys) = sent_requests xs @ sent_requests ys"
  by (induction xs rule: sent_requests.induct) simp_all

lemma guard_events_append [simp]: "guard_events (xs @ ys) = guard_events xs @ guard_events ys"
  by (induction xs rule: guard_events.induct) simp_all

lemma retries_append [simp]: "retries (xs @ ys) = retries xs @ retries ys"
  by (induction xs rule: retries.induct) simp_all

lemma attempts_start [simp]: "attempts (loop_start ce q ray_id n w ep) = [(w, ep)]"
  by (simp add: loop_start_def attempt_effects_def split: attempt_reply.splits)

lemma attempts_end [simp]: "attempts (attempt_end q n) = []"
  by (simp add: attempt_end_def)

lemma sent_end [simp]: "sent_requests (attempt_end q n) = []"
  by (simp add: attempt_end_def)

lemma retries_start_end [simp]:
  "retries (loop_start ce q ray_id n w ep) = []" "retries (attempt_end q n) = []"
  by (simp_all add: loop_start_def attempt_effects_def attempt_end_def split: attempt_reply.splits)

lemma guard_start [simp]:
  "guard_events (loop_start ce q ray_id n w ep) =
     (if cq_session_id q = [] then [Guard_New (n + 1) w] else [])"
  by (simp add: loop_start_def attempt_effects_def split: attempt_reply.splits)

lemma guard_end [simp]:
  "guard_events (attempt_end q n) = (if cq_session_id q = [] then [Guard_Drop n] else [])"
  by (simp add: attempt_end_def)

lemma retry_loop_attempts:
  assumes "w \<notin> ex"
  shows "distinct (attempted_pods (snd (retry_loop ce q ray_id scope ex n w ep))) \<and>
    set (attempted_pods (snd (retry_loop ce q ray_id scope ex n w ep))) \<inter> ex = {} \<and>
    length (attempted_pods (snd (retry_loop ce q ray_id scope ex n w ep))) \<le> max 1 (3 - n) \<and>
    length (retries (snd (retry_loop ce q ray_id scope ex n w ep))) + 1 =
      length (attempted_pods (snd (retry_loop ce q ray_id scope ex n w ep)))"
  using assms
proof (induction ex n w ep rule: retry_loop_rule [where ce = ce and q = q and ray_id = ray_id])
  case (stop ex n w ep)
  then show ?case by (simp add: retry_loop_stop)
next
  case (again ex n w ep w' ep' reason)
  then show ?case
    using loop_next_fresh [OF again(1)] loop_next_attempts [OF again(1)]
    by (simp add: retry_loop_again) auto
qed

lemma guard_run_append:
  "guard_run enter leave (xs @ ys) s = Option.bind (guard_run enter leave xs s) (guard_run enter leave ys)"
  by (induction enter leave xs s rule: guard_run.induct) (auto split: option.splits)

lemma retry_loop_guards:
  "\<exists>t'. guard_run tracker_start tracker_finish
     (guard_events (snd (retry_loop ce q ray_id scope ex n w ep))) (t, []) = Some (t', [])"
proof (induction ex n w ep arbitrary: t
    rule: retry_loop_rule [where ce = ce and q = q and ray_id = ray_id])
  case (stop ex n w ep)
  then show ?case by (simp add: retry_loop_stop hput_def hdel_def hget_def)
next
  case (again ex n w ep w' ep' reason)
  then show ?case
    by (cases "cq_session_id q = []") (simp_all add: retry_loop_again hput_def hdel_def hget_def)
qed

text \<open>The answer the loop leaves with is that of its last attempt.\<close>

lemma retry_loop_result:
  "\<exists>n' w' ep'. last (attempts (snd (retry_loop ce q ray_id scope ex n w ep))) = (w', ep') \<and>
     n' + 1 = n + length (attempts (snd (retry_loop ce q ray_id scope ex n w ep))) \<and>
     fst (retry_loop ce q ray_id scope ex n w ep) = loop_final ce q ray_id n' w' ep' \<and>
     hd (attempts (snd (retry_loop ce q ray_id scope ex n w ep))) = (w, ep) \<and>
     attempts (snd (retry_loop ce q ray_id scope ex n w ep)) \<noteq> []"
proof (induction ex n w ep rule: retry_loop_rule [where ce = ce and q = q and ray_id = ray_id])
  case (stop ex n w ep)
  then show ?case by (auto simp: retry_loop_stop)
next
  case (again ex n w ep w' ep' reason)
  then show ?case by (simp add: retry_loop_again) blast
qed

lemma retry_loop_session:
  assumes "cq_session_id q \<noteq> []"
  shows "guard_events (snd (retry_loop ce q ray_id scope ex n w ep)) = [] \<and>
    set (retries (snd (retry_loop ce q ray_id scope ex n w ep))) \<subseteq> {Retry_Terminating}"
proof (induction ex n w ep rule: retry_loop_rule [where ce = ce and q = q and ray_id = ray_id])
  case (stop ex n w ep)
  then show ?case using assms by (simp add: retry_loop_stop)
next
  case (again ex n w ep w' ep' reason)
  obtain reply where "next_worker ce q (ce_attempts ce (n + 1)) (insert w ex) (n + 1)
      (outcome_of w reply) = Some (w', ep', reason)"
    using again(1) by (rule loop_next_next_worker)
  then obtain plan where "retry_plan_of q (outcome_of w reply) = Some plan" "reason = rp_reason plan"
    by (rule next_worker_Some)
  then have "reason = Retry_Terminating"
    using assms by (auto simp: retry_plan_of_def classify_retry_def classify_unreachable_retry_def Let_def
        split: attempt_outcome.splits if_splits)
  then show ?case
    using again assms by (simp add: retry_loop_again)
qed

definition forwarded_ok :: "coord_env \<Rightarrow> coord_request \<Rightarrow> worker_request \<Rightarrow> bool" where
  "forwarded_ok ce q r \<longleftrightarrow>
     wq_url r = cq_url q \<and> wq_ray_id r = ray_id_of ce q \<and> wq_country_code r = cq_country_code q \<and>
     worker_resolved_wait r = coord_resolved_wait q \<and>
     worker_resolved_wait (r\<lparr>wq_wait := None\<rparr>) =
       (coord_resolved_wait q)\<lparr>rw_challenge_timeout_ms := 0\<rparr> \<and>
     1 \<le> wq_timeout_seconds r \<and>
     wq_timeout_seconds r * 1000 \<le> max 1000 (client_budget (cq_timeout_seconds q))"

lemma forwarded_request_ok:
  assumes "ce_start ce \<le> now"
  shows "forwarded_ok ce q (forwarded_request ce q (ray_id_of ce q) now)"
proof -
  let ?b = "client_budget (cq_timeout_seconds q)"
  have "(request_deadline ce q - now) div 1000 * 1000 \<le> ?b"
    using assms div_times_less_eq_dividend [of "request_deadline ce q - now" 1000]
    by (simp add: request_deadline_def)
  then have "max 1 ((request_deadline ce q - now) div 1000) * 1000 \<le> max 1000 ?b"
    by (simp add: max_def)
  then show ?thesis
    by (simp add: forwarded_ok_def forwarded_request_def worker_resolved_wait_def Let_def
        del: max.bounded_iff)
qed

lemma retry_loop_sent:
  assumes "\<And>n. ce_start ce \<le> ae_now_send (ce_attempts ce n)"
  shows "list_all (\<lambda>(_, r). forwarded_ok ce q r)
    (sent_requests (snd (retry_loop ce q (ray_id_of ce q) scope ex n w ep)))"
proof -
  have start: "list_all (\<lambda>(_, r). forwarded_ok ce q r)
      (sent_requests (loop_start ce q (ray_id_of ce q) n w ep))" for n w ep
    using forwarded_request_ok [OF assms [of "n + 1"]]
    by (auto simp: loop_start_def attempt_effects_def split: attempt_reply.splits)
  show ?thesis
  proof (induction ex n w ep
      rule: retry_loop_rule [where ce = ce and q = q and ray_id = "ray_id_of ce q"])
    case (stop ex n w ep)
    then show ?case using start by (simp add: retry_loop_stop)
  next
    case (again ex n w ep w' ep' reason)
    then show ?case using start by (simp add: retry_loop_again)
  qed
qed

section \<open>The handler\<close>

text \<open>The three shapes of an execution.\<close>

lemma scrape_page_cancelled:
  "ce_cancelled ce \<Longrightarrow> scrape_page ce q sm =
     (Inr (reject_response ce (ray_id_of ce q) (code_num EC_Terminating)
        ''Coordinator is shutting down, please retry''), sm,
      [Eff_Active_Enter, Eff_Metrics \<lparr>rm_scope = cq_scope_name q,
         rm_reject_reason = Some Reject_Terminating\<rparr>, Eff_Active_Leave])"
  by (simp add: scrape_page_def Let_def metrics_reject_def request_metrics_new_def)

lemma scrape_page_rejected:
  "\<not> ce_cancelled ce \<Longrightarrow> route_request ce q sm = (Route_Reject reason code message, scope, sm') \<Longrightarrow>
   scrape_page ce q sm =
     (Inr (reject_response ce (ray_id_of ce q) code message), sm',
      [Eff_Active_Enter, Eff_Metrics \<lparr>rm_scope = scope, rm_reject_reason = Some reason\<rparr>,
       Eff_Active_Leave])"
  by (simp add: scrape_page_def Let_def metrics_reject_def metrics_set_scope_def
      request_metrics_new_def)

lemma scrape_page_routed:
  "\<not> ce_cancelled ce \<Longrightarrow> route_request ce q sm = (Route_To ep w, scope, sm') \<Longrightarrow>
   dispatch ce q (ray_id_of ce q) scope ep w sm' = (answer, sm'', effects, reason) \<Longrightarrow>
   scrape_page ce q sm =
     (answer, sm'', Eff_Active_Enter # effects @
        [Eff_Metrics \<lparr>rm_scope = scope, rm_reject_reason = reason\<rparr>, Eff_Active_Leave])"
  by (simp add: scrape_page_def Let_def metrics_set_scope_def request_metrics_new_def)

lemma dispatch_effects:
  "fst (snd (snd (dispatch ce q ray_id scope ep w sm))) = snd (retry_loop ce q ray_id scope {} 0 w ep)"
  by (simp add: dispatch_def Let_def case_prod_unfold split: loop_result.splits attempt_outcome.splits)

lemma scrape_page_trace [case_names quiet routed]:
  assumes "\<And>rm. snd (snd (scrape_page ce q sm)) = [Eff_Active_Enter, Eff_Metrics rm, Eff_Active_Leave] \<Longrightarrow> P"
    and "\<And>scope ep w sm' rm. \<not> ce_cancelled ce \<Longrightarrow> route_request ce q sm = (Route_To ep w, scope, sm') \<Longrightarrow>
      snd (snd (scrape_page ce q sm)) =
        Eff_Active_Enter # snd (retry_loop ce q (ray_id_of ce q) scope {} 0 w ep) @
          [Eff_Metrics rm, Eff_Active_Leave] \<Longrightarrow> P"
  shows P
proof (cases "ce_cancelled ce")
  case True
  then show ?thesis using assms(1) scrape_page_cancelled by auto
next
  case False
  obtain r scope sm' where r: "route_request ce q sm = (r, scope, sm')"
    by (cases "route_request ce q sm")
  show ?thesis
  proof (cases r)
    case (Route_Reject reason code message)
    then show ?thesis using assms(1) scrape_page_rejected False r by auto
  next
    case (Route_To ep w)
    obtain answer sm'' effects reason
      where d: "dispatch ce q (ray_id_of ce q) scope ep w sm' = (answer, sm'', effects, reason)"
      by (cases "dispatch ce q (ray_id_of ce q) scope ep w sm'")
    then have "effects = snd (retry_loop ce q (ray_id_of ce q) scope {} 0 w ep)"
      using dispatch_effects [of ce q "ray_id_of ce q" scope ep w sm'] by simp
    then show ?thesis
      using assms(2) [OF False] r Route_To scrape_page_routed [OF False _ d] by auto
  qed
qed

primrec reject_code :: "reject_reason \<Rightarrow> error_code" where
  "reject_code Reject_ScopeNotFound = EC_ScopeNotFound"
| "reject_code Reject_NoWorkers = EC_NoWorkersAvailable"
| "reject_code Reject_ScopeUnavailable = EC_NoWorkersAvailable"
| "reject_code Reject_NoSlots = EC_NoWorkersAvailable"
| "reject_code Reject_SessionNotFound = EC_SessionNotFound"
| "reject_code Reject_Terminating = EC_Terminating"
| "reject_code Reject_WorkerUnreachable = EC_WorkerUnreachable"

lemma classify_missing_scope_code:
  "classify_missing_scope scope p = (reason, code, message) \<Longrightarrow> code = code_num (reject_code reason)"
  by (auto simp: classify_missing_scope_def split: option.splits)

lemma route_reject_code:
  assumes "route_request ce q sm = (Route_Reject reason code message, scope, sm')"
  shows "code = code_num (reject_code reason)"
proof (cases "cq_session_id q = []")
  case True
  then have "route_new ce q = Route_Reject reason code message"
    using assms by (simp add: route_request_def)
  then show ?thesis
    by (auto simp: route_new_def Let_def dest: classify_missing_scope_code
        split: option.splits if_splits prod.splits)
next
  case False
  then show ?thesis
    using assms by (auto simp: route_request_def route_session_def Let_def
        split: prod.splits option.splits if_splits)
qed

lemma classify_missing_scope_reason:
  "classify_missing_scope scope p = (reason, code, message) \<Longrightarrow>
   reason \<noteq> Reject_WorkerUnreachable \<and> reason \<noteq> Reject_Terminating"
  by (auto simp: classify_missing_scope_def split: option.splits)

lemma route_reject_reason:
  assumes "route_request ce q sm = (Route_Reject reason code message, scope, sm')"
  shows "reason \<noteq> Reject_WorkerUnreachable \<and> reason \<noteq> Reject_Terminating"
  using assms
  by (auto simp: route_request_def route_new_def route_session_def Let_def
      dest: classify_missing_scope_reason split: prod.splits option.splits if_splits)

fun final_metrics :: "coord_effect list \<Rightarrow> request_metrics list" where
  "final_metrics [] = []"
| "final_metrics (Eff_Metrics rm # es) = rm # final_metrics es"
| "final_metrics (_ # es) = final_metrics es"

lemma final_metrics_append [simp]: "final_metrics (xs @ ys) = final_metrics xs @ final_metrics ys"
  by (induction xs rule: final_metrics.induct) simp_all

lemma final_metrics_loop [simp]:
  "final_metrics (snd (retry_loop ce q ray_id scope ex n w ep)) = []"
proof (induction ex n w ep rule: retry_loop_rule [where ce = ce and q = q and ray_id = ray_id])
  case (stop ex n w ep)
  then show ?case
    by (simp add: retry_loop_stop loop_start_def attempt_effects_def attempt_end_def
        split: attempt_reply.splits)
next
  case (again ex n w ep w' ep' reason)
  then show ?case
    by (simp add: retry_loop_again loop_start_def attempt_effects_def attempt_end_def
        split: attempt_reply.splits)
qed

lemma finish_answered_fields [simp]:
  "cr_error_code (fst (finish_answered ce q ray_id w ep resp sm)) = wr_error_code resp"
  "cr_success (fst (finish_answered ce q ray_id w ep resp sm)) = wr_success resp"
  "cr_status_code (fst (finish_answered ce q ray_id w ep resp sm)) = wr_status_code resp"
  "cr_content (fst (finish_answered ce q ray_id w ep resp sm)) = wr_content resp"
  "cr_error_message (fst (finish_answered ce q ray_id w ep resp sm)) = wr_error_message resp"
  "cr_response_headers (fst (finish_answered ce q ray_id w ep resp sm)) = wr_response_headers resp"
  "cr_context_id (fst (finish_answered ce q ray_id w ep resp sm)) = wr_context_id resp"
  "cr_worker_id (fst (finish_answered ce q ray_id w ep resp sm)) = w"
  "cr_session_id (fst (finish_answered ce q ray_id w ep resp sm)) =
     (if wr_context_id resp = [] then [] else w @ '':'' @ wr_context_id resp)"
  by (simp_all add: finish_answered_def create_session_def session_id_new_def
      session_id_to_string_def Let_def)

lemma dispatch_answer:
  assumes "dispatch ce q ray_id scope ep w sm = (answer, sm', effects, reason)"
  obtains n w' ep' where "last (attempts effects) = (w', ep')" "attempts effects \<noteq> []"
    "hd (attempts effects) = (w, ep)" "n = length (attempts effects)"
    "effects = snd (retry_loop ce q ray_id scope {} 0 w ep)"
    "case loop_reply ce q ray_id n ep' of
       Rpc_InvalidArgument e \<Rightarrow> answer = Inl e \<and> reason = None
     | Reply resp \<Rightarrow>
         (let fin = finish_answered ce q ray_id w' ep' (fst (map_capacity q resp))
                       (session_run (ce_other_sessions ce) sm)
          in answer = Inr (fst fin) \<and> sm' = snd fin \<and> reason = snd (map_capacity q resp))
     | reply \<Rightarrow> reason = Some Reject_WorkerUnreachable \<and>
         (\<exists>m. answer = Inr ((reject_response ce ray_id (code_num EC_WorkerUnreachable) m)
                        \<lparr>cr_worker_id := w'\<rparr>))"
proof -
  let ?L = "retry_loop ce q ray_id scope {} 0 w ep"
  obtain n' w' ep' where r: "last (attempts (snd ?L)) = (w', ep')" "n' + 1 = length (attempts (snd ?L))"
    "fst ?L = loop_final ce q ray_id n' w' ep'" "hd (attempts (snd ?L)) = (w, ep)"
    "attempts (snd ?L) \<noteq> []"
    using retry_loop_result [of ce q ray_id scope "{}" 0 w ep] by auto
  have e: "effects = snd ?L"
    using dispatch_effects [of ce q ray_id scope ep w sm] assms by simp
  have L: "?L = (loop_final ce q ray_id n' w' ep', effects)"
    using r(3) e by (simp add: prod_eq_iff)
  show thesis
  proof (rule that [of w' ep' "n' + 1"])
    show "case loop_reply ce q ray_id (n' + 1) ep' of
       Rpc_InvalidArgument e \<Rightarrow> answer = Inl e \<and> reason = None
     | Reply resp \<Rightarrow>
         (let fin = finish_answered ce q ray_id w' ep' (fst (map_capacity q resp))
                       (session_run (ce_other_sessions ce) sm)
          in answer = Inr (fst fin) \<and> sm' = snd fin \<and> reason = snd (map_capacity q resp))
     | reply \<Rightarrow> reason = Some Reject_WorkerUnreachable \<and>
         (\<exists>m. answer = Inr ((reject_response ce ray_id (code_num EC_WorkerUnreachable) m)
                        \<lparr>cr_worker_id := w'\<rparr>))"
      using assms L unfolding dispatch_def
      by (auto simp: loop_final_def outcome_of_def Let_def case_prod_unfold split: attempt_reply.splits)
  qed (use r e in simp_all)
qed

section \<open>Properties\<close>

text \<open>
  C1: retrying is bounded and never sends the same request to a pod twice.  On every path of the
  handler, whatever the workers answer and however the fleet changes between attempts, it attempts at
  most three workers, all different, and records exactly one retry per attempt after the first.
\<close>
theorem scrape_page_attempts_bounded:
  "let effects = snd (snd (scrape_page ce q sm)) in
     distinct (attempted_pods effects) \<and> length (attempted_pods effects) \<le> 3 \<and>
     length (retries effects) = length (attempted_pods effects) - 1"
proof (cases rule: scrape_page_trace [of ce q sm])
  case (quiet rm)
  then show ?thesis by simp
next
  case (routed scope ep w sm' rm)
  have "w \<notin> {}" by simp
  from retry_loop_attempts [OF this, of ce q "ray_id_of ce q" scope 0 ep] routed show ?thesis
    by (simp add: Let_def) arith
qed

text \<open>
  C5: a request gives back every in-flight count it takes, wherever it ends.  For any tracker state
  and any prefix of what the handler does (the request future may be dropped at any await), running the
  prefix is a legal use of the tracker's guards, and once the guards then alive are dropped every pod's
  count is what it was before the request; the complete run leaves no guard alive at all.
\<close>
theorem scrape_page_in_flight_balanced:
  assumes "tracker_ok t"
  shows "let evs = guard_events (snd (snd (scrape_page ce q sm))) in
    (\<exists>t'. guard_run tracker_start tracker_finish evs (t, []) = Some (t', [])) \<and>
    (\<exists>t' live t''. guard_run tracker_start tracker_finish (take k evs) (t, []) = Some (t', live) \<and>
       guard_run tracker_start tracker_finish (map (\<lambda>gk. Guard_Drop (fst gk)) live) (t', live) =
         Some (t'', []) \<and>
       tracker_current t'' = tracker_current t)"
proof -
  let ?run = "guard_run tracker_start tracker_finish"
  obtain evs where evs: "evs = guard_events (snd (snd (scrape_page ce q sm)))"
    and all: "\<exists>t'. ?run evs (t, []) = Some (t', [])"
    by (cases rule: scrape_page_trace [of ce q sm]) (auto simp: retry_loop_guards)
  have "Option.bind (?run (take k evs) (t, [])) (?run (drop k evs)) \<noteq> None"
    using all guard_run_append [of tracker_start tracker_finish "take k evs" "drop k evs" "(t, [])"]
    by auto
  then obtain t' live where pre: "?run (take k evs) (t, []) = Some (t', live)"
    by (auto split: bind_splits)
  have "tracker_ok t' \<and> hmap_ok live \<and> (\<forall>k. tracker_current t' k = tracker_current t k + live_for k live)"
    by (rule in_flight.run_counts [OF pre]) (use assms in simp_all)
  then obtain t'' where "?run (map (\<lambda>gk. Guard_Drop (fst gk)) live) (t', live) = Some (t'', [])"
    "\<forall>k. tracker_current t'' k = tracker_current t k"
    using in_flight.run_drop_all [of t' live "tracker_current t"] by auto
  then show ?thesis
    unfolding evs [symmetric] Let_def using pre all by (metis ext)
qed

text \<open>
  C17: the client's answer and the metrics agree.  Every request is recorded exactly once.  If it is
  recorded as rejected, the client gets a response whose code is the one of the recorded reason; once
  an attempt was made there are only two such reasons, each for its own last attempt: "no slots", with
  NO_WORKERS_AVAILABLE for the client, exactly when the last attempted worker answered its internal
  CAPACITY_EXHAUSTED, and "worker unreachable" exactly when the last attempt got no answer.  If it is
  not recorded as rejected, some attempt was made and the client gets exactly what the last attempted
  worker said: the status of an invalid argument, or the worker's answer unchanged.
\<close>
theorem scrape_page_answer_matches_metrics:
  "let (answer, _, effects) = scrape_page ce q sm in
     \<exists>scope reason. final_metrics effects = [\<lparr>rm_scope = scope, rm_reject_reason = reason\<rparr>] \<and>
       (case reason of
          Some r \<Rightarrow> \<exists>resp. answer = Inr resp \<and> cr_error_code resp = code_num (reject_code r) \<and>
            (if attempts effects = [] then r \<noteq> Reject_WorkerUnreachable
             else
               (case loop_reply ce q (ray_id_of ce q) (length (attempts effects))
                       (snd (last (attempts effects))) of
                  Reply wr \<Rightarrow> wr_error_code wr = code_num EC_CapacityExhausted \<and>
                    r = Reject_NoSlots \<and> cr_error_code resp = code_num EC_NoWorkersAvailable
                | Rpc_InvalidArgument e \<Rightarrow> False
                | _ \<Rightarrow> r = Reject_WorkerUnreachable))
        | None \<Rightarrow>
            attempts effects \<noteq> [] \<and>
            (case loop_reply ce q (ray_id_of ce q) (length (attempts effects))
                    (snd (last (attempts effects))) of
               Rpc_InvalidArgument e \<Rightarrow> answer = Inl e
             | Reply wr \<Rightarrow> \<exists>resp. answer = Inr resp \<and>
                 wr_error_code wr \<noteq> code_num EC_CapacityExhausted \<and>
                 cr_error_code resp = wr_error_code wr \<and> cr_success resp = wr_success wr \<and>
                 cr_status_code resp = wr_status_code wr \<and> cr_content resp = wr_content wr \<and>
                 cr_error_message resp = wr_error_message wr \<and>
                 cr_response_headers resp = wr_response_headers wr \<and>
                 cr_context_id resp = wr_context_id wr \<and>
                 cr_worker_id resp = fst (last (attempts effects))
             | _ \<Rightarrow> False))"
proof (cases "ce_cancelled ce")
  case True
  then show ?thesis by (simp add: scrape_page_cancelled reject_response_def)
next
  case False
  obtain r scope sm' where r: "route_request ce q sm = (r, scope, sm')"
    by (cases "route_request ce q sm")
  show ?thesis
  proof (cases r)
    case (Route_Reject reason code message)
    then show ?thesis
      using route_reject_code [of ce q sm reason code message scope sm']
        route_reject_reason [of ce q sm reason code message scope sm'] r False
      by (simp add: scrape_page_rejected reject_response_def)
  next
    case (Route_To ep w)
    obtain answer sm'' effects reason
      where d: "dispatch ce q (ray_id_of ce q) scope ep w sm' = (answer, sm'', effects, reason)"
      by (cases "dispatch ce q (ray_id_of ce q) scope ep w sm'")
    obtain n w' ep' where a: "last (attempts effects) = (w', ep')" "attempts effects \<noteq> []"
      "hd (attempts effects) = (w, ep)" "n = length (attempts effects)" "effects = snd (retry_loop ce q (ray_id_of ce q) scope {} 0 w ep)"
      and c: "case loop_reply ce q (ray_id_of ce q) n ep' of
         Rpc_InvalidArgument e \<Rightarrow> answer = Inl e \<and> reason = None
       | Reply resp \<Rightarrow>
           (let fin = finish_answered ce q (ray_id_of ce q) w' ep' (fst (map_capacity q resp))
                         (session_run (ce_other_sessions ce) sm')
            in answer = Inr (fst fin) \<and> sm'' = snd fin \<and> reason = snd (map_capacity q resp))
       | reply \<Rightarrow> reason = Some Reject_WorkerUnreachable \<and>
           (\<exists>m. answer = Inr ((reject_response ce (ray_id_of ce q) (code_num EC_WorkerUnreachable) m)
                          \<lparr>cr_worker_id := w'\<rparr>))"
      by (rule dispatch_answer [OF d])
    have "scrape_page ce q sm = (answer, sm'', Eff_Active_Enter # effects @
        [Eff_Metrics \<lparr>rm_scope = scope, rm_reject_reason = reason\<rparr>, Eff_Active_Leave])"
      using scrape_page_routed [OF False _ d] r Route_To by simp
    moreover have "final_metrics effects = []"
      by (simp add: a(5))
    moreover have "case reason of
        Some r \<Rightarrow> \<exists>resp. answer = Inr resp \<and> cr_error_code resp = code_num (reject_code r) \<and>
          (case loop_reply ce q (ray_id_of ce q) n ep' of
             Reply wr \<Rightarrow> wr_error_code wr = code_num EC_CapacityExhausted \<and>
               r = Reject_NoSlots \<and> cr_error_code resp = code_num EC_NoWorkersAvailable
           | Rpc_InvalidArgument e \<Rightarrow> False
           | _ \<Rightarrow> r = Reject_WorkerUnreachable)
      | None \<Rightarrow>
          (case loop_reply ce q (ray_id_of ce q) n ep' of
             Rpc_InvalidArgument e \<Rightarrow> answer = Inl e
           | Reply wr \<Rightarrow> \<exists>resp. answer = Inr resp \<and>
               wr_error_code wr \<noteq> code_num EC_CapacityExhausted \<and>
               cr_error_code resp = wr_error_code wr \<and> cr_success resp = wr_success wr \<and>
               cr_status_code resp = wr_status_code wr \<and> cr_content resp = wr_content wr \<and>
               cr_error_message resp = wr_error_message wr \<and>
               cr_response_headers resp = wr_response_headers wr \<and>
               cr_context_id resp = wr_context_id wr \<and> cr_worker_id resp = w'
           | _ \<Rightarrow> False)"
    proof (cases "loop_reply ce q (ray_id_of ce q) n ep'")
      case (Reply resp)
      with c show ?thesis
        by (cases "wr_error_code resp = code_num EC_CapacityExhausted")
          (simp_all add: map_capacity_def Let_def)
    qed (use c in \<open>auto simp: reject_response_def\<close>)
    ultimately show ?thesis
      using a(1,2,4) by (cases reason) (simp_all split: attempt_reply.splits)
  qed
qed

text \<open>
  A concrete coordinator for the witnesses: scope \<open>s\<close> has workers \<open>a\<close> and \<open>b\<close>, scope \<open>other\<close> has
  worker \<open>c\<close>; a worker answers with the code the sample says and a context of its own.
\<close>

definition sample_answer :: "int \<Rightarrow> string \<Rightarrow> worker_response" where
  "sample_answer code context_id =
     \<lparr>wr_success = (code = 0), wr_status_code = 200, wr_content = ''page'', wr_error_message = '''',
      wr_error_code = code, wr_response_headers = [], wr_execution_time_ms = 5,
      wr_context_id = context_id, wr_ray_id = ''ray''\<rparr>"

definition sample_workers :: worker_map where
  "sample_workers =
     [(''s'', [sample_worker ''a'' 2 0, sample_worker ''b'' 1 0]), (''other'', [sample_worker ''c'' 1 0])]"

definition sample_attempt :: "(nat \<Rightarrow> int) \<Rightarrow> nat \<Rightarrow> attempt_env" where
  "sample_attempt codes n =
     \<lparr>ae_now_send = 100, ae_reply = (\<lambda>_ _. Reply (sample_answer (codes n) ''ctx'')),
      ae_now_after = 200, ae_workers = sample_workers, ae_healthy = {''a'', ''b'', ''c''},
      ae_in_flight = [], ae_rotation = 0\<rparr>"

definition sample_env :: "(nat \<Rightarrow> int) \<Rightarrow> coord_env" where
  "sample_env codes =
     \<lparr>ce_cancelled = False, ce_fresh_uuid = ''u'', ce_start = 50, ce_now_session = 60,
      ce_workers = sample_workers, ce_known_scopes = [], ce_healthy = {''a'', ''b'', ''c''},
      ce_in_flight = [], ce_rotation = 0, ce_fresh_slots = (\<lambda>_. None),
      ce_attempts = sample_attempt codes, ce_other_sessions = [], ce_now_create = 300, ce_end = 400\<rparr>"

definition sample_request :: "string \<Rightarrow> string \<Rightarrow> coord_request" where
  "sample_request scope session =
     \<lparr>cq_scope_name = scope, cq_url = ''https://x'', cq_timeout_seconds = 60, cq_session_id = session,
      cq_wait_strategy = '''', cq_wait_timeout_ms = 0, cq_wait_selector = '''', cq_skip_selector = '''',
      cq_ray_id = ''r'', cq_country_code = '''', cq_wait = None\<rparr>"

lemmas sample_defs = sample_answer_def sample_workers_def sample_attempt_def sample_env_def
  sample_request_def sample_worker_def worker_stats_default_def

lemmas routing_eval = route_request_def route_new_def route_session_def select_best_worker_def
  pick_most_free_def tied_workers_def tracker_free_slots_def effective_free_slots_def
  tracker_current_def hget_def Let_def cfg_simps request_deadline_def client_budget_def

lemmas loop_eval = retry_loop.simps attempt_effects_def attempt_end_def outcome_of_def
  next_worker_def retry_plan_of_def classify_retry_def classify_unreachable_retry_def

lemma sample_capacity_retry:
  "attempted_pods (snd (snd (scrape_page (sample_env (\<lambda>_. 5008)) (sample_request ''s'' '''') sm))) =
     [''a'', ''b''] \<and>
   guard_events (snd (snd (scrape_page (sample_env (\<lambda>_. 5008)) (sample_request ''s'' '''') sm))) =
     [Guard_New 1 ''a'', Guard_Drop 1, Guard_New 2 ''b'', Guard_Drop 2]"
  by (simp add: scrape_page_def dispatch_def map_capacity_def case_prod_unfold sample_defs routing_eval
      loop_eval)

lemma scrape_page_in_flight_balanced_witness:
  "\<exists>t' live t''. guard_run tracker_start tracker_finish [Guard_New 1 ''a'', Guard_Drop 1, Guard_New 2 ''b'']
      ([(''b'', 4)], []) = Some (t', live) \<and>
    guard_run tracker_start tracker_finish (map (\<lambda>gk. Guard_Drop (fst gk)) live) (t', live) = Some (t'', []) \<and>
    tracker_current t'' = tracker_current [(''b'', 4)]"
proof -
  have "tracker_ok [(''b'', 4)]"
    by (simp add: tracker_ok_def hmap_ok_def hget_def)
  from scrape_page_in_flight_balanced [OF this, of "sample_env (\<lambda>_. 5008)" "sample_request ''s'' ''''" _ 3]
  show ?thesis
    by (simp add: sample_capacity_retry Let_def)
qed

lemma route_session_known:
  assumes "session_lookup sm (cq_session_id q) = Some info"
  shows "route_session ce q sm =
    (if sid_worker_id (si_session_id info) \<in>
          pod_name ` set (workers_of (ce_workers ce) (si_scope_name info))
     then (Route_To (si_worker_endpoint info) (sid_worker_id (si_session_id info)),
           si_scope_name info, snd (get_session (ce_now_session ce) (cq_session_id q) sm))
     else (Route_Reject Reject_SessionNotFound (code_num EC_SessionNotFound)
             ''Session expired or worker unavailable. Please retry without session_id'',
           si_scope_name info,
           remove_session (cq_session_id q)
             (snd (get_session (ce_now_session ce) (cq_session_id q) sm))))"
proof (cases "hget (ce_workers ce) (si_scope_name info)")
  case (Some ws)
  have "(\<exists>w \<in> set ws. pod_name w = i) \<longleftrightarrow> i \<in> pod_name ` set ws" for i
    by auto
  then show ?thesis
    using assms Some by (simp add: route_session_def get_session_def Let_def workers_of_def)
qed (use assms in \<open>simp add: route_session_def get_session_def Let_def workers_of_def\<close>)

lemma session_path:
  assumes "cq_session_id q \<noteq> []" "\<not> ce_cancelled ce"
  shows "let (answer, _, effects) = scrape_page ce q sm in
    guard_events effects = [] \<and> set (retries effects) \<subseteq> {Retry_Terminating} \<and>
    (case session_lookup sm (cq_session_id q) of
       Some info \<Rightarrow>
         if sid_worker_id (si_session_id info) \<in>
              pod_name ` set (workers_of (ce_workers ce) (si_scope_name info))
         then attempts effects \<noteq> [] \<and>
           hd (attempts effects) = (sid_worker_id (si_session_id info), si_worker_endpoint info)
         else attempts effects = [] \<and>
           (\<exists>resp. answer = Inr resp \<and> cr_error_code resp = code_num EC_SessionNotFound)
     | None \<Rightarrow> attempts effects = [] \<and>
         (\<exists>resp. answer = Inr resp \<and> cr_error_code resp = code_num EC_SessionNotFound))"
proof -
  let ?k = "cq_session_id q"
  have route: "route_request ce q sm = route_session ce q sm"
    using assms(1) by (simp add: route_request_def)
  show ?thesis
  proof (cases "session_lookup sm ?k")
    case None
    then obtain sm' message where "route_request ce q sm =
        (Route_Reject Reject_SessionNotFound (code_num EC_SessionNotFound) message, cq_scope_name q, sm')"
      by (simp add: route route_session_def get_session_def)
    from scrape_page_rejected [OF assms(2) this] None show ?thesis
      by (simp add: reject_response_def)
  next
    case (Some info)
    show ?thesis
    proof (cases "sid_worker_id (si_session_id info) \<in>
        pod_name ` set (workers_of (ce_workers ce) (si_scope_name info))")
      case False
      then show ?thesis
        using scrape_page_rejected [OF assms(2), of q sm] Some
        by (simp add: route route_session_known reject_response_def)
    next
      case True
      then obtain sm' where r: "route_request ce q sm = (Route_To (si_worker_endpoint info)
          (sid_worker_id (si_session_id info)), si_scope_name info, sm')"
        using Some by (simp add: route route_session_known)
      let ?w = "sid_worker_id (si_session_id info)" and ?ep = "si_worker_endpoint info"
      obtain answer sm'' effects reason where d: "dispatch ce q (ray_id_of ce q) (si_scope_name info)
          ?ep ?w sm' = (answer, sm'', effects, reason)"
        by (cases "dispatch ce q (ray_id_of ce q) (si_scope_name info) ?ep ?w sm'")
      have e: "effects = snd (retry_loop ce q (ray_id_of ce q) (si_scope_name info) {} 0 ?w ?ep)"
        using dispatch_effects [of ce q "ray_id_of ce q" "si_scope_name info" ?ep ?w sm'] d by simp
      show ?thesis
        using scrape_page_routed [OF assms(2) r d] True Some
          retry_loop_session [OF assms(1), of ce "ray_id_of ce q" "si_scope_name info" "{}" 0 ?w ?ep]
          retry_loop_result [of ce q "ray_id_of ce q" "si_scope_name info" "{}" 0 ?w ?ep]
        by (auto simp: e)
    qed
  qed
qed

text \<open>
  a request continuing a session goes to the session's own worker.  It reaches a worker only when
  the session is known and that worker is still routable in the session's scope; its first attempt is
  then the session's worker at the endpoint stored with it, every further attempt follows a TERMINATING
  answer, and none is counted in flight.  Otherwise it is answered SESSION_NOT_FOUND and no worker is
  contacted.
\<close>
theorem scrape_page_session_affinity:
  assumes "cq_session_id q \<noteq> []" "\<not> ce_cancelled ce"
  shows "let (answer, _, effects) = scrape_page ce q sm in
    guard_events effects = [] \<and> set (retries effects) \<subseteq> {Retry_Terminating} \<and>
    (case session_lookup sm (cq_session_id q) of
       Some info \<Rightarrow>
         if sid_worker_id (si_session_id info) \<in>
              pod_name ` set (workers_of (ce_workers ce) (si_scope_name info))
         then attempts effects \<noteq> [] \<and>
           hd (attempts effects) = (sid_worker_id (si_session_id info), si_worker_endpoint info)
         else attempts effects = [] \<and>
           (\<exists>resp. answer = Inr resp \<and> cr_error_code resp = code_num EC_SessionNotFound)
     | None \<Rightarrow> attempts effects = [] \<and>
         (\<exists>resp. answer = Inr resp \<and> cr_error_code resp = code_num EC_SessionNotFound))"
  by (rule session_path [OF assms])

definition sample_sessions :: session_manager where
  "sample_sessions = snd (create_session 10 ''s'' ''b'' ''ctx'' ''http://10.0.0.1:50052'' session_manager_default)"

lemma sample_sessions_lookup:
  "session_lookup sample_sessions ''b:ctx'' =
     Some \<lparr>si_session_id = \<lparr>sid_worker_id = ''b'', sid_context_id = ''ctx''\<rparr>, si_scope_name = ''s'',
           si_worker_endpoint = ''http://10.0.0.1:50052'', si_created_at = 10, si_last_used_at = 10,
           si_request_count = 1\<rparr>"
  by (simp add: sample_sessions_def session_lookup_create session_id_new_def)

lemma scrape_page_session_affinity_witness:
  "hd (attempts (snd (snd (scrape_page (sample_env (\<lambda>_. 0)) (sample_request ''s'' ''b:ctx'') sample_sessions)))) =
     (''b'', ''http://10.0.0.1:50052'')"
proof -
  have "cq_session_id (sample_request ''s'' ''b:ctx'') \<noteq> []" "\<not> ce_cancelled (sample_env (\<lambda>_. 0))"
    by (simp_all add: sample_request_def sample_env_def)
  moreover have "cq_session_id (sample_request ''s'' ''b:ctx'') = ''b:ctx''"
    by (simp add: sample_request_def)
  moreover have "workers_of (ce_workers (sample_env (\<lambda>_. 0))) ''s'' =
      [sample_worker ''a'' 2 0, sample_worker ''b'' 1 0]"
    by (simp add: sample_env_def sample_workers_def workers_of_def hget_def)
  moreover have "pod_name (sample_worker p n m) = p" for p n m
    by (simp add: sample_worker_def)
  ultimately show ?thesis
    using scrape_page_session_affinity [of "sample_request ''s'' ''b:ctx''" "sample_env (\<lambda>_. 0)"
        sample_sessions]
    by (simp add: sample_sessions_lookup case_prod_unfold Let_def)
qed

text \<open>
  C33: what is forwarded to a worker says what the client asked.  Every request sent carries the
  client's URL and country, the request's tracing id, wait parameters that a current worker resolves to
  exactly the client's own (and a worker that predates \<open>WaitOptions\<close> to all of them but the challenge
  timeout), and a timeout of at least one second and, from one second up, at most the client's budget.
\<close>
theorem scrape_page_forwards_faithfully:
  assumes "\<And>n. ce_start ce \<le> ae_now_send (ce_attempts ce n)"
  shows "list_all (\<lambda>(_, r).
      wq_url r = cq_url q \<and> wq_country_code r = cq_country_code q \<and> wq_ray_id r = ray_id_of ce q \<and>
      worker_resolved_wait r = coord_resolved_wait q \<and>
      worker_resolved_wait (r\<lparr>wq_wait := None\<rparr>) =
        (coord_resolved_wait q)\<lparr>rw_challenge_timeout_ms := 0\<rparr> \<and>
      1 \<le> wq_timeout_seconds r \<and>
      wq_timeout_seconds r * 1000 \<le> max 1000 (client_budget (cq_timeout_seconds q)))
    (sent_requests (snd (snd (scrape_page ce q sm))))"
proof -
  have "list_all (\<lambda>(_, r). forwarded_ok ce q r) (sent_requests (snd (snd (scrape_page ce q sm))))"
    by (cases rule: scrape_page_trace [of ce q sm]) (simp_all add: retry_loop_sent [OF assms])
  then show ?thesis
    by (rule list.pred_mono_strong) (auto simp: forwarded_ok_def)
qed

lemma scrape_page_forwards_faithfully_witness:
  "map (\<lambda>(_, r). wq_timeout_seconds r)
     (sent_requests (snd (snd (scrape_page (sample_env (\<lambda>_. 5006)) (sample_request ''s'' '''') session_manager_default)))) =
   [59, 59] \<and>
   list_all (\<lambda>(_, r). wq_timeout_seconds r * 1000 \<le> 60000)
     (sent_requests (snd (snd (scrape_page (sample_env (\<lambda>_. 5006)) (sample_request ''s'' '''') session_manager_default))))"
proof
  show "map (\<lambda>(_, r). wq_timeout_seconds r)
     (sent_requests (snd (snd (scrape_page (sample_env (\<lambda>_. 5006)) (sample_request ''s'' '''') session_manager_default)))) =
   [59, 59]"
    by (simp add: scrape_page_def dispatch_def map_capacity_def case_prod_unfold sample_defs
        routing_eval loop_eval forwarded_request_def)
  have "ce_start (sample_env (\<lambda>_. 5006)) \<le> ae_now_send (ce_attempts (sample_env (\<lambda>_. 5006)) n)" for n
    by (simp add: sample_env_def sample_attempt_def)
  from scrape_page_forwards_faithfully [OF this, of "sample_request ''s'' ''''" session_manager_default]
  show "list_all (\<lambda>(_, r). wq_timeout_seconds r * 1000 \<le> 60000)
     (sent_requests (snd (snd (scrape_page (sample_env (\<lambda>_. 5006)) (sample_request ''s'' '''') session_manager_default))))"
    by (rule list.pred_mono_strong) (auto simp: sample_request_def client_budget_def)
qed

section \<open>Continuing a session\<close>

lemma retry_loop_sent_context:
  "list_all (\<lambda>(_, r). wq_context_id r = wq_context_id (forwarded_request ce q ray_id 0))
    (sent_requests (snd (retry_loop ce q ray_id scope ex n w ep)))"
proof -
  have start: "list_all (\<lambda>(_, r). wq_context_id r = wq_context_id (forwarded_request ce q ray_id 0))
      (sent_requests (loop_start ce q ray_id n w ep))" for n w ep
    by (auto simp: loop_start_def attempt_effects_def forwarded_request_def Let_def
        split: attempt_reply.splits)
  show ?thesis
  proof (induction ex n w ep rule: retry_loop_rule [where ce = ce and q = q and ray_id = ray_id])
    case (stop ex n w ep)
    then show ?case using start by (simp add: retry_loop_stop)
  next
    case (again ex n w ep w' ep' reason)
    then show ?case using start by (simp add: retry_loop_again)
  qed
qed

definition session_ident :: "session_manager \<Rightarrow> string \<Rightarrow> (session_id \<times> string \<times> string) option" where
  "session_ident sm k =
     map_option (\<lambda>i. (si_session_id i, si_scope_name i, si_worker_endpoint i)) (session_lookup sm k)"

fun creates_session :: "string \<Rightarrow> session_op \<Rightarrow> bool" where
  "creates_session k (Op_Create sc w c e) \<longleftrightarrow> w @ '':'' @ c = k"
| "creates_session k _ \<longleftrightarrow> False"

lemma session_ident_apply:
  "sessions_ok sm \<Longrightarrow> \<not> creates_session k op \<Longrightarrow>
   session_ident (session_apply now op sm) k = None \<or>
   session_ident (session_apply now op sm) k = session_ident sm k"
  by (cases op) (auto simp: session_ident_def session_lookup_create session_lookup_get
      session_lookup_remove session_lookup_cleanup option.map_comp comp_def split: option.splits)

lemma session_ident_run:
  assumes "sessions_ok sm" "list_all (\<lambda>(_, op). \<not> creates_session k op) ops"
  shows "session_ident (session_run ops sm) k = None \<or>
    session_ident (session_run ops sm) k = session_ident sm k"
  using assms
proof (induction ops sm rule: session_run.induct)
  case (2 now op ops sm)
  then show ?case
    using session_ident_apply [of sm k op now] sessions_ok_apply [of sm now op] by auto
qed simp

lemma sessions_ok_route:
  "sessions_ok sm \<Longrightarrow> route_request ce q sm = (r, scope, sm') \<Longrightarrow> sessions_ok sm'"
proof -
  have *: "sessions_ok sm \<Longrightarrow> sessions_ok (snd (snd (route_session ce q sm)))"
  proof (cases "session_lookup sm (cq_session_id q)")
    case None
    then show "sessions_ok sm \<Longrightarrow> ?thesis" by (simp add: route_session_def get_session_def)
  next
    case (Some info)
    then show "sessions_ok sm \<Longrightarrow> ?thesis"
      by (simp add: route_session_known sessions_ok_get sessions_ok_remove)
  qed
  show "sessions_ok sm \<Longrightarrow> route_request ce q sm = (r, scope, sm') \<Longrightarrow> sessions_ok sm'"
    using * by (auto simp: route_request_def split: if_splits)
qed

lemma finish_answered_sessions:
  "snd (finish_answered ce q ray_id w ep resp sm) =
     (if wr_context_id resp = [] then sm
      else snd (create_session (ce_now_create ce) (cq_scope_name q) w (wr_context_id resp) ep sm))"
  by (simp add: finish_answered_def case_prod_unfold Let_def)

text \<open>An answer that hands out a session id leaves that session in the table, as just created.\<close>

lemma scrape_page_creates_session:
  assumes "scrape_page ce q sm = (Inr resp, sm1, effects)" "cr_session_id resp \<noteq> []" "sessions_ok sm"
  shows "sessions_ok sm1 \<and> cr_session_id resp = cr_worker_id resp @ '':'' @ cr_context_id resp \<and>
    attempts effects \<noteq> [] \<and> fst (last (attempts effects)) = cr_worker_id resp \<and>
    session_lookup sm1 (cr_session_id resp) =
      Some \<lparr>si_session_id = \<lparr>sid_worker_id = cr_worker_id resp, sid_context_id = cr_context_id resp\<rparr>,
            si_scope_name = cq_scope_name q, si_worker_endpoint = snd (last (attempts effects)),
            si_created_at = ce_now_create ce, si_last_used_at = ce_now_create ce,
            si_request_count = 1\<rparr>"
proof (cases "ce_cancelled ce")
  case True
  then show ?thesis using assms by (auto simp: scrape_page_cancelled reject_response_def)
next
  case False
  obtain r scope sm' where r: "route_request ce q sm = (r, scope, sm')"
    by (cases "route_request ce q sm")
  show ?thesis
  proof (cases r)
    case (Route_Reject reason code message)
    then show ?thesis
      using assms scrape_page_rejected [OF False, of q sm] r by (auto simp: reject_response_def)
  next
    case (Route_To ep w)
    obtain answer sm2 effs reason
      where d: "dispatch ce q (ray_id_of ce q) scope ep w sm' = (answer, sm2, effs, reason)"
      by (cases "dispatch ce q (ray_id_of ce q) scope ep w sm'")
    have sp: "answer = Inr resp" "sm2 = sm1" "attempts effects = attempts effs"
      using scrape_page_routed [OF False _ d] r Route_To assms(1) by auto
    obtain n w' ep' where a: "last (attempts effs) = (w', ep')" "attempts effs \<noteq> []"
      and c: "case loop_reply ce q (ray_id_of ce q) n ep' of
         Rpc_InvalidArgument e \<Rightarrow> answer = Inl e \<and> reason = None
       | Reply resp \<Rightarrow>
           (let fin = finish_answered ce q (ray_id_of ce q) w' ep' (fst (map_capacity q resp))
                         (session_run (ce_other_sessions ce) sm')
            in answer = Inr (fst fin) \<and> sm2 = snd fin \<and> reason = snd (map_capacity q resp))
       | reply \<Rightarrow> reason = Some Reject_WorkerUnreachable \<and>
           (\<exists>m. answer = Inr ((reject_response ce (ray_id_of ce q) (code_num EC_WorkerUnreachable) m)
                          \<lparr>cr_worker_id := w'\<rparr>))"
      by (rule dispatch_answer [OF d])
    obtain wr where fin: "resp = fst (finish_answered ce q (ray_id_of ce q) w' ep' wr
          (session_run (ce_other_sessions ce) sm'))"
      "sm1 = snd (finish_answered ce q (ray_id_of ce q) w' ep' wr
          (session_run (ce_other_sessions ce) sm'))"
      using c sp(1,2) assms(2)
      by (auto simp: Let_def reject_response_def split: attempt_reply.splits)
    have ok: "sessions_ok (session_run (ce_other_sessions ce) sm')"
      using sessions_ok_run sessions_ok_route [OF assms(3) r] by blast
    have ctx: "wr_context_id wr \<noteq> []"
      using assms(2) fin(1) by auto
    have "cr_session_id resp = w' @ '':'' @ wr_context_id wr" "cr_worker_id resp = w'"
      "cr_context_id resp = wr_context_id wr"
      using ctx fin(1) by simp_all
    then show ?thesis
      using a ok ctx fin(2) sp(3)
      by (simp add: finish_answered_sessions sessions_ok_create session_lookup_create
          session_id_new_def)
  qed
qed

text \<open>
  C20: a session id really continues the session.  If a request was answered with a session id, then as
  long as the table still holds the session (no removal, no cleanup after its TTL; other requests may
  use the table in any way except creating the same id again) and its worker is still routable in the
  scope the session was created for, a later request with that id makes its first attempt at exactly
  the worker and endpoint that answered, and every request it sends names the context that answered.
\<close>
theorem scrape_page_session_continues:
  assumes "scrape_page ce q sm = (Inr resp, sm\<^sub>1, effects)" "cr_session_id resp \<noteq> []" "sessions_ok sm"
    and "CHR '':'' \<notin> set (cr_worker_id resp @ cr_context_id resp)"
    and "list_all (\<lambda>(_, op). \<not> creates_session (cr_session_id resp) op) ops"
    and "session_lookup (session_run ops sm\<^sub>1) (cr_session_id resp) \<noteq> None"
    and "cq_session_id q' = cr_session_id resp" "\<not> ce_cancelled ce'"
    and "cr_worker_id resp \<in> pod_name ` set (workers_of (ce_workers ce') (cq_scope_name q))"
  shows "let effects' = snd (snd (scrape_page ce' q' (session_run ops sm\<^sub>1))) in
    hd (attempts effects') = last (attempts effects) \<and>
    list_all (\<lambda>(_, r). wq_context_id r = cr_context_id resp) (sent_requests effects')"
proof -
  let ?sm = "session_run ops sm\<^sub>1" and ?k = "cr_session_id resp"
  note C = scrape_page_creates_session [OF assms(1-3)]
  obtain info where info: "session_lookup ?sm ?k = Some info"
    using assms(6) by auto
  have "session_ident ?sm ?k = session_ident sm\<^sub>1 ?k"
    using session_ident_run [of sm\<^sub>1 ?k ops] C assms(5) info by (auto simp: session_ident_def)
  then have i: "si_session_id info =
      \<lparr>sid_worker_id = cr_worker_id resp, sid_context_id = cr_context_id resp\<rparr>"
    "si_scope_name info = cq_scope_name q"
    "si_worker_endpoint info = snd (last (attempts effects))"
    using C info by (auto simp: session_ident_def)
  have q': "cq_session_id q' \<noteq> []"
    using assms(2,7) by simp
  have hd: "hd (attempts (snd (snd (scrape_page ce' q' ?sm)))) = last (attempts effects)"
  proof -
    have "hd (attempts (snd (snd (scrape_page ce' q' ?sm)))) =
        (cr_worker_id resp, snd (last (attempts effects)))"
      using session_path [OF q' assms(8), of ?sm] info i assms(7,9)
      by (simp add: case_prod_unfold Let_def)
    then show ?thesis using C by (metis prod.collapse)
  qed
  have ctx: "wq_context_id (forwarded_request ce' q' ray_id 0) = cr_context_id resp" for ray_id
  proof -
    have "session_id_from_string ?k =
        Some \<lparr>sid_worker_id = cr_worker_id resp, sid_context_id = cr_context_id resp\<rparr>"
      using C assms(4) session_id_from_to_string [of "\<lparr>sid_worker_id = cr_worker_id resp,
          sid_context_id = cr_context_id resp\<rparr>"]
      by (simp add: session_id_to_string_def plain_id_def)
    then show ?thesis
      using q' assms(7) by (simp add: forwarded_request_def Let_def)
  qed
  have "list_all (\<lambda>(_, r). wq_context_id r = cr_context_id resp)
      (sent_requests (snd (snd (scrape_page ce' q' ?sm))))"
    by (cases rule: scrape_page_trace [of ce' q' ?sm])
      (simp_all add: retry_loop_sent_context [of ce' q' "ray_id_of ce' q'", unfolded ctx])
  with hd show ?thesis by (simp add: Let_def)
qed

definition sample_first :: "(string + coord_response) \<times> session_manager \<times> coord_effect list" where
  "sample_first = scrape_page (sample_env (\<lambda>_. 0)) (sample_request ''s'' '''') session_manager_default"

lemma sample_first_eval:
  "\<exists>resp sm effects. sample_first = (Inr resp, sm, effects) \<and>
     cr_session_id resp = ''a:ctx'' \<and> cr_worker_id resp = ''a'' \<and> cr_context_id resp = ''ctx'' \<and>
     attempts effects = [(''a'', ''http://10.0.0.1:50052'')] \<and>
     session_lookup (session_run [(70, Op_Create ''s'' ''b'' ''x'' ''e''), (80, Op_Cleanup)] sm) ''a:ctx'' \<noteq> None"
  by (simp add: sample_first_def scrape_page_def dispatch_def map_capacity_def case_prod_unfold
      sample_defs routing_eval loop_eval finish_answered_def http_endpoint_def show_nat.simps
      create_session_def session_id_new_def session_id_to_string_def cleanup_sessions_def
      session_manager_default_def session_manager_new_def hput_def hretain_def)

lemma scrape_page_session_continues_witness:
  "\<exists>resp sm effects. sample_first = (Inr resp, sm, effects) \<and>
     hd (attempts (snd (snd (scrape_page (sample_env (\<lambda>_. 0)) (sample_request ''s'' ''a:ctx'')
        (session_run [(70, Op_Create ''s'' ''b'' ''x'' ''e''), (80, Op_Cleanup)] sm))))) =
       (''a'', ''http://10.0.0.1:50052'')"
proof -
  obtain resp sm effects where f: "sample_first = (Inr resp, sm, effects)"
    and v: "cr_session_id resp = ''a:ctx''" "cr_worker_id resp = ''a''" "cr_context_id resp = ''ctx''"
      "attempts effects = [(''a'', ''http://10.0.0.1:50052'')]"
      "session_lookup (session_run [(70, Op_Create ''s'' ''b'' ''x'' ''e''), (80, Op_Cleanup)] sm) ''a:ctx'' \<noteq> None"
    using sample_first_eval by blast
  have "hd (attempts (snd (snd (scrape_page (sample_env (\<lambda>_. 0)) (sample_request ''s'' ''a:ctx'')
        (session_run [(70, Op_Create ''s'' ''b'' ''x'' ''e''), (80, Op_Cleanup)] sm))))) = last (attempts effects)"
    by (rule scrape_page_session_continues [OF f [unfolded sample_first_def], unfolded Let_def,
          THEN conjunct1])
      (use v(5) in \<open>simp_all add: v(1-4) sessions_ok_new session_manager_default_def sample_request_def
        sample_env_def sample_workers_def workers_of_def hget_def sample_worker_def\<close>)
  then show ?thesis using f v(4) by auto
qed

section \<open>Divergences\<close>

text \<open>
  A continuation is filed under the scope of the request, not of the session it continues: the answer
  to a request whose scope differs from the session's moves the session to that scope, so the next
  continuation is refused although the session's worker is still there.
\<close>

lemma continuation_refiles_session:
  assumes "scrape_page ce q sm = (Inr resp, sm\<^sub>1, effects)" "cr_session_id resp = cq_session_id q"
    "cq_session_id q \<noteq> []" "sessions_ok sm"
    and "cq_session_id q' = cq_session_id q" "\<not> ce_cancelled ce'"
    and "cr_worker_id resp \<notin> pod_name ` set (workers_of (ce_workers ce') (cq_scope_name q))"
  shows "\<exists>resp'. fst (scrape_page ce' q' sm\<^sub>1) = Inr resp' \<and>
    cr_error_code resp' = code_num EC_SessionNotFound"
proof -
  have C: "session_lookup sm\<^sub>1 (cq_session_id q') =
      Some \<lparr>si_session_id = \<lparr>sid_worker_id = cr_worker_id resp, sid_context_id = cr_context_id resp\<rparr>,
            si_scope_name = cq_scope_name q, si_worker_endpoint = snd (last (attempts effects)),
            si_created_at = ce_now_create ce, si_last_used_at = ce_now_create ce,
            si_request_count = 1\<rparr>"
    unfolding assms(5) assms(2) [symmetric]
    using scrape_page_creates_session [OF assms(1) _ assms(4)] assms(2,3) by metis
  have "cq_session_id q' \<noteq> []" using assms(3,5) by simp
  from session_path [OF this assms(6), of sm\<^sub>1] assms(7) show ?thesis
    unfolding C by (simp add: case_prod_unfold Let_def)
qed

text \<open>
  A session request answered TERMINATING is retried on another pod of the request's scope, with the
  session's context id, and outside the in-flight count.
\<close>

lemma terminating_session_retried_elsewhere:
  "attempts (snd (snd (scrape_page (sample_env (\<lambda>_. 5006)) (sample_request ''other'' ''b:ctx'') sample_sessions)))
     = [(''b'', ''http://10.0.0.1:50052''), (''c'', ''http://10.0.0.1:50052'')]"
  by (simp add: scrape_page_def dispatch_def map_capacity_def case_prod_unfold sample_defs
      routing_eval loop_eval sample_sessions_def create_session_def get_session_def hput_def
      http_endpoint_def show_nat.simps session_id_new_def session_id_to_string_def
      session_manager_default_def session_manager_new_def)

text \<open>
  A client-chosen scope name becomes a metric label: any name sent along with an unknown session id.
\<close>

lemma unknown_session_scope_label:
  assumes "\<not> ce_cancelled ce" "cq_session_id q \<noteq> []" "session_lookup sm (cq_session_id q) = None"
  shows "map metrics_label (final_metrics (snd (snd (scrape_page ce q sm)))) = [cq_scope_name q]"
proof -
  have "route_request ce q sm = (Route_Reject Reject_SessionNotFound (code_num EC_SessionNotFound)
      ''Session not found or expired'', cq_scope_name q, sm)"
    using assms(2,3) by (simp add: route_request_def route_session_def get_session_def)
  from scrape_page_rejected [OF assms(1) this] show ?thesis
    by (simp add: metrics_label_def scope_is_untrusted_def)
qed

text \<open>
  \<open>GetClusterStats\<close> multiplies contexts by three; a worker that creates contexts on demand reports
  free slots with no context, and the answer then shows more available slots than slots.
\<close>

lemma cluster_stats_total_below_available:
  "hget (cl_scope_stats (get_cluster_stats [(''s'', [sample_worker ''a'' 4 0])])) ''s'' =
     Some \<lparr>ss_name = ''s'', ss_total_workers = 1, ss_total_slots = 0, ss_available_slots = 4,
           ss_active_requests = 0, ss_success_rate = 0\<rparr>"
  by (simp add: get_cluster_stats_def scope_stats_of_def sample_worker_def worker_stats_default_def)

end
