(* ===== verification/Config.thy ===== *)
theory Config
  imports Proxy
begin

text \<open>
  \<open>common/src/config.rs\<close>: scope configuration and its startup validation, the lifecycle thresholds,
  the coordinator's configuration from the environment, and the diagnostics gates.

  The texts of errors and warnings are constructors of a datatype.  Environment variables are a
  function; \<open>humantime::parse_duration\<close> and \<open>url::Url::parse\<close> belong to libraries and are arguments.
\<close>

section \<open>Modes\<close>

datatype context_isolation = Shared | Isolated

definition context_isolation_from_str :: "string \<Rightarrow> context_isolation option" where
  "context_isolation_from_str s =
     (let l = to_lower s in
      if l = ''shared'' then Some Shared else if l = ''isolated'' then Some Isolated else None)"

datatype session_mode = AlwaysNew | Reusable | Dedicated

primrec session_mode_as_str :: "session_mode \<Rightarrow> string" where
  "session_mode_as_str AlwaysNew = ''always_new''"
| "session_mode_as_str Reusable = ''reusable''"
| "session_mode_as_str Dedicated = ''dedicated''"

definition returns_session_id :: "session_mode \<Rightarrow> bool" where
  "returns_session_id m \<longleftrightarrow> m = Dedicated"

definition session_mode_from_str :: "string \<Rightarrow> session_mode option" where
  "session_mode_from_str s =
     (let l = to_lower s in
      if l = ''always_new'' then Some AlwaysNew
      else if l = ''reusable'' then Some Reusable
      else if l = ''dedicated'' then Some Dedicated
      else None)"

lemma session_mode_roundtrip: "session_mode_from_str (session_mode_as_str m) = Some m"
  by (cases m) (simp_all add: session_mode_from_str_def to_lower_def ascii_lower_def Let_def)

section \<open>Lifecycle\<close>

datatype rotation_strategy = TimeBasedOnly | RequestBasedOnly | Hybrid

record lifecycle_config =
  max_lifetime :: millis
  max_requests :: nat
  max_cache_size_mb :: nat
  max_idle_time :: millis
  rotation_strategy :: rotation_strategy

definition DEFAULT_MAX_IDLE_TIME_SECS :: nat where [cfg_simps]:
  "DEFAULT_MAX_IDLE_TIME_SECS = 5 * 60"

definition DEFAULT_DEDICATED_MAX_IDLE_TIME_SECS :: nat where [cfg_simps]:
  "DEFAULT_DEDICATED_MAX_IDLE_TIME_SECS = 60"

definition DEFAULT_BLOCK_QUARANTINE_SECS :: nat where [cfg_simps]:
  "DEFAULT_BLOCK_QUARANTINE_SECS = 5 * 60"

definition lifecycle_default :: lifecycle_config where
  "lifecycle_default =
     \<lparr>max_lifetime = 6 * 3600 * 1000, max_requests = 10000, max_cache_size_mb = 500,
      max_idle_time = DEFAULT_MAX_IDLE_TIME_SECS * 1000, rotation_strategy = Hybrid\<rparr>"

definition is_used_up_at :: "lifecycle_config \<Rightarrow> millis \<Rightarrow> nat \<Rightarrow> bool" where
  "is_used_up_at lc age requests =
     (let too_old = max_lifetime lc < age;
          too_many = max_requests lc \<le> requests
      in case rotation_strategy lc of
           TimeBasedOnly \<Rightarrow> too_old
         | RequestBasedOnly \<Rightarrow> too_many
         | Hybrid \<Rightarrow> too_old \<or> too_many)"

section \<open>Diagnostics gates\<close>

datatype diagnostics_mode = Diag_Off | Diag_OnError | Diag_Always

definition diagnostics_mode_from_str :: "string \<Rightarrow> diagnostics_mode option" where
  "diagnostics_mode_from_str s =
     (let l = to_lower s in
      if l = ''off'' \<or> l = ''never'' then Some Diag_Off
      else if l = ''on_error'' \<or> l = ''onerror'' \<or> l = ''error'' then Some Diag_OnError
      else if l = ''always'' then Some Diag_Always
      else None)"

record diagnostics_config =
  dc_enabled :: bool
  dc_mode :: diagnostics_mode
  dc_domains :: "string list"
  dc_error_codes :: "int list"
  dc_max_entries :: nat
  dc_max_per_minute :: nat
  dc_capture_console :: bool

definition diagnostics_default :: diagnostics_config where
  "diagnostics_default =
     \<lparr>dc_enabled = False, dc_mode = Diag_OnError, dc_domains = [], dc_error_codes = [],
      dc_max_entries = 20, dc_max_per_minute = 10, dc_capture_console = False\<rparr>"

definition trim_start_dots :: "string \<Rightarrow> string" where
  "trim_start_dots = dropWhile (\<lambda>c. c = CHR ''.'')"

definition trim_end_dots :: "string \<Rightarrow> string" where
  "trim_end_dots s = rev (dropWhile (\<lambda>c. c = CHR ''.'') (rev s))"

definition parse_domain_list :: "string \<Rightarrow> string list" where
  "parse_domain_list raw =
     filter (\<lambda>d. d \<noteq> []) (map (\<lambda>d. to_lower (trim_start_dots (trim d))) (split_on (CHR '','') raw))"

definition parse_i32 :: "string \<Rightarrow> int option" where
  "parse_i32 s =
     (case s of
        c # cs \<Rightarrow>
          (if c = CHR ''-'' then
             (if cs \<noteq> [] \<and> CHR ''+'' \<noteq> hd cs then
                (case digits_val 0 cs of
                   Some n \<Rightarrow> if n \<le> 2 ^ 31 then Some (- int n) else None | None \<Rightarrow> None)
              else None)
           else map_option int (parse_unsigned 31 s))
      | [] \<Rightarrow> None)"

definition parse_error_codes :: "string \<Rightarrow> int list" where
  "parse_error_codes raw =
     List.map_filter parse_i32 (filter (\<lambda>c. c \<noteq> []) (map trim (split_on (CHR '','') raw)))"

definition host_matches :: "string \<Rightarrow> string \<Rightarrow> bool" where
  "host_matches host domain =
     (if host = domain then True
      else length domain < length host \<and> ends_with domain host \<and>
        host ! (length host - length domain - 1) = CHR ''.'')"

definition logs_error_code :: "diagnostics_config \<Rightarrow> int \<Rightarrow> bool" where
  "logs_error_code dc code \<longleftrightarrow>
     dc_mode dc = Diag_Always \<or> dc_error_codes dc = [] \<or> code \<in> set (dc_error_codes dc)"

text \<open>\<open>host_of\<close> is \<open>Url::parse(url).ok().and_then(host_str)\<close>.\<close>

definition diagnostics_active_for ::
  "(string \<Rightarrow> string option) \<Rightarrow> diagnostics_config \<Rightarrow> string \<Rightarrow> bool" where
  "diagnostics_active_for host_of dc url =
     (if \<not> dc_enabled dc \<or> dc_mode dc = Diag_Off then False
      else if dc_domains dc = [] then True
      else (case map_option (\<lambda>h. to_lower (trim_end_dots h)) (host_of url) of
              Some host \<Rightarrow> \<exists>d \<in> set (dc_domains dc). host_matches host d
            | None \<Rightarrow> False))"

text \<open>\<open>env::var(name).ok().and_then(parse).unwrap_or(default)\<close>\<close>

definition env_parse :: "(string \<Rightarrow> string option) \<Rightarrow> string \<Rightarrow> (string \<Rightarrow> 'a option) \<Rightarrow> 'a \<Rightarrow> 'a" where
  "env_parse env name parse dflt =
     (case Option.bind (env name) parse of Some v \<Rightarrow> v | None \<Rightarrow> dflt)"

definition parse_bool :: "string \<Rightarrow> bool option" where
  "parse_bool s = (if s = ''true'' then Some True else if s = ''false'' then Some False else None)"

definition diagnostics_from_env :: "(string \<Rightarrow> string option) \<Rightarrow> diagnostics_config" where
  "diagnostics_from_env env =
     (let d = diagnostics_default in
      \<lparr>dc_enabled = env_parse env ''WORKER_ENABLE_BROWSER_DIAGNOSTICS'' parse_bool (dc_enabled d),
       dc_mode = env_parse env ''WORKER_DIAGNOSTICS_MODE'' diagnostics_mode_from_str (dc_mode d),
       dc_domains =
         env_parse env ''WORKER_DIAGNOSTICS_DOMAINS'' (\<lambda>s. Some (parse_domain_list s)) (dc_domains d),
       dc_error_codes =
         env_parse env ''WORKER_DIAGNOSTICS_ERROR_CODES'' (\<lambda>s. Some (parse_error_codes s))
           (dc_error_codes d),
       dc_max_entries =
         env_parse env ''WORKER_DIAGNOSTICS_MAX_ENTRIES'' (parse_unsigned 64) (dc_max_entries d),
       dc_max_per_minute =
         env_parse env ''WORKER_DIAGNOSTICS_MAX_PER_MINUTE'' (parse_unsigned 32) (dc_max_per_minute d),
       dc_capture_console = env_parse env ''WORKER_DIAGNOSTICS_CONSOLE'' parse_bool (dc_capture_console d)\<rparr>)"

section \<open>The coordinator's configuration\<close>

record coordinator_config =
  cc_grpc_port :: nat
  cc_worker_cache_ttl :: millis
  cc_enable_metrics :: bool
  cc_metrics_port :: nat

definition coordinator_config_default :: coordinator_config where
  "coordinator_config_default =
     \<lparr>cc_grpc_port = 50051, cc_worker_cache_ttl = 5000, cc_enable_metrics = True,
      cc_metrics_port = 9090\<rparr>"

text \<open>The value and the variable warned about, if any.\<close>

definition parse_var ::
  "(string \<Rightarrow> string option) \<Rightarrow> string \<Rightarrow> (string \<Rightarrow> 'a option) \<Rightarrow> 'a \<Rightarrow> 'a \<times> string list" where
  "parse_var env name parse dflt =
     (case env name of
        None \<Rightarrow> (dflt, [])
      | Some raw \<Rightarrow>
          (case parse raw of Some v \<Rightarrow> (v, []) | None \<Rightarrow> (dflt, [name])))"

definition coordinator_config_from_env ::
  "(string \<Rightarrow> millis option) \<Rightarrow> (string \<Rightarrow> string option) \<Rightarrow> coordinator_config \<times> string list" where
  "coordinator_config_from_env parse_duration env =
     (let d = coordinator_config_default;
          (grpc_port, w1) =
            parse_var env ''COORDINATOR_GRPC_PORT'' (parse_unsigned 16) (cc_grpc_port d);
          (enable_metrics, w2) =
            parse_var env ''COORDINATOR_ENABLE_METRICS'' parse_bool (cc_enable_metrics d);
          (metrics_port, w3) =
            parse_var env ''COORDINATOR_METRICS_PORT'' (parse_unsigned 16) (cc_metrics_port d);
          (ttl, w4) =
            parse_var env ''COORDINATOR_WORKER_CACHE_TTL'' parse_duration (cc_worker_cache_ttl d)
      in (\<lparr>cc_grpc_port = grpc_port, cc_worker_cache_ttl = ttl, cc_enable_metrics = enable_metrics,
           cc_metrics_port = metrics_port\<rparr>, w1 @ w2 @ w3 @ w4))"

section \<open>Scopes\<close>

record scope_config =
  sc_name :: string
  sc_proxy_provider :: proxy_provider
  sc_min_contexts :: nat
  sc_max_contexts :: nat
  sc_session_mode :: session_mode
  sc_headless :: bool
  sc_lifecycle :: lifecycle_config
  sc_diagnostics :: diagnostics_config
  sc_context_isolation :: context_isolation
  sc_destroy_session_on_block :: bool
  sc_block_quarantine :: millis
  sc_disable_back_forward_cache :: bool
  sc_close_tab_after_request :: bool
  sc_challenge_detectors :: nat

text \<open>
  \<open>sc_challenge_detectors\<close> is the number of detectors; the middlewares play no part in the pool's and
  the service's decisions modelled here.
\<close>

datatype config_error =
    Err_MaxContextsZero
  | Err_MinExceedsMax
  | Err_DedicatedNeedsIsolated
  | Err_DedicatedNeedsHybrid
  | Err_LifetimeBelowIdle

datatype config_warning =
    Warn_PreCreatedUnused
  | Warn_LifecycleIgnored
  | Warn_StrategyIgnoresThresholds
  | Warn_QuarantineIgnored
  | Warn_CloseTabIgnored
  | Warn_SingleExitIp
  | Warn_DestroyOnBlockIgnored

definition validate_errors :: "scope_config \<Rightarrow> config_error option" where
  "validate_errors c =
     (let lc = sc_lifecycle c in
      if sc_max_contexts c = 0 then Some Err_MaxContextsZero
      else if sc_max_contexts c < sc_min_contexts c then Some Err_MinExceedsMax
      else if sc_session_mode c = Dedicated \<and> sc_context_isolation c = Shared then
        Some Err_DedicatedNeedsIsolated
      else if sc_session_mode c = Dedicated \<and> rotation_strategy lc \<noteq> Hybrid then
        Some Err_DedicatedNeedsHybrid
      else if sc_session_mode c \<noteq> AlwaysNew \<and> max_lifetime lc < max_idle_time lc then
        Some Err_LifetimeBelowIdle
      else None)"

definition validate_warnings :: "scope_config \<Rightarrow> config_warning list" where
  "validate_warnings c =
     (let mode = sc_session_mode c in
      (if 0 < sc_min_contexts c \<and> mode \<noteq> Reusable then [Warn_PreCreatedUnused] else []) @
      (if mode = AlwaysNew then [Warn_LifecycleIgnored] else []) @
      (if mode = Reusable \<and> rotation_strategy (sc_lifecycle c) \<noteq> Hybrid
       then [Warn_StrategyIgnoresThresholds] else []) @
      (if sc_block_quarantine c \<noteq> 0 \<and> mode \<noteq> Reusable then [Warn_QuarantineIgnored] else []) @
      (if sc_close_tab_after_request c \<and> mode \<noteq> Reusable then [Warn_CloseTabIgnored] else []) @
      (if mode = Reusable \<and> sc_min_contexts c < sc_max_contexts c \<and>
          pp_assigns_proxy_host_per_context (sc_proxy_provider c)
       then [Warn_SingleExitIp] else []) @
      (if sc_destroy_session_on_block c \<and> mode \<noteq> Dedicated
       then [Warn_DestroyOnBlockIgnored] else []))"

definition validate_scope :: "scope_config \<Rightarrow> config_error + config_warning list" where
  "validate_scope c =
     (case validate_errors c of Some e \<Rightarrow> Inl e | None \<Rightarrow> Inr (validate_warnings c))"

lemma validate_scope_ok:
  assumes "validate_scope c = Inr ws"
  shows "0 < sc_max_contexts c" "sc_min_contexts c \<le> sc_max_contexts c"
    "sc_session_mode c = Dedicated \<Longrightarrow> sc_context_isolation c = Isolated"
    "sc_session_mode c = Dedicated \<Longrightarrow> rotation_strategy (sc_lifecycle c) = Hybrid"
    "sc_session_mode c \<noteq> AlwaysNew \<Longrightarrow> max_idle_time (sc_lifecycle c) \<le> max_lifetime (sc_lifecycle c)"
    "ws = validate_warnings c"
  using assms
  by (auto simp: validate_scope_def validate_errors_def Let_def not_less
      split: if_splits context_isolation.splits intro: context_isolation.exhaust)

section \<open>Hosts\<close>

lemma ends_with_iff: "ends_with suf xs \<longleftrightarrow> (\<exists>p. xs = p @ suf)"
proof
  assume "ends_with suf xs"
  then have "rev xs = rev suf @ drop (length suf) (rev xs)"
    by (metis append_take_drop_id ends_with_def length_rev starts_with_def)
  then have "xs = rev (drop (length suf) (rev xs)) @ suf"
    by (metis rev_append rev_rev_ident)
  then show "\<exists>p. xs = p @ suf" by blast
qed (auto simp: ends_with_def starts_with_def)

text \<open>
  a configured diagnostics domain matches itself and its subdomains and nothing else: the host
  equals the domain or ends in a dot followed by the domain.
\<close>
theorem host_matches_label_boundary:
  "host_matches host domain \<longleftrightarrow> host = domain \<or> (\<exists>sub. host = sub @ ''.'' @ domain)"
proof
  assume m: "host_matches host domain"
  show "host = domain \<or> (\<exists>sub. host = sub @ ''.'' @ domain)"
  proof (cases "host = domain")
    case False
    then have h: "length domain < length host" "ends_with domain host"
      "host ! (length host - length domain - 1) = CHR ''.''"
      using m by (auto simp: host_matches_def split: if_splits)
    obtain p where p: "host = p @ domain"
      using h(2) ends_with_iff by blast
    with h(1) obtain q c where q: "p = q @ [c]"
      by (cases p rule: rev_cases) auto
    have "c = CHR ''.''"
      using h(3) by (simp add: p q nth_append)
    then show ?thesis using p q by auto
  qed simp
next
  assume "host = domain \<or> (\<exists>sub. host = sub @ ''.'' @ domain)"
  then show "host_matches host domain"
    by (auto simp: host_matches_def ends_with_iff nth_append)
qed

end
