(* ===== verification/Browser_Pool.thy ===== *)
theory Browser_Pool
  imports Config Hive_Types
begin

text \<open>
  \<open>worker/src/browser_pool.rs\<close>: the pool of browser contexts and its critical sections.

  The pool's vector sits behind an \<open>RwLock\<close>; a context's \<open>is_busy\<close> flag is an atomic that is read and
  compare-exchanged without it.  Each definition below is one critical section, on the vector as a
  list of contexts.  Where the code filters on \<open>is_busy\<close> and then compare-exchanges, another task may
  have taken a candidate in between: the ids lost that way are the argument \<open>lost\<close>.  What the sections
  do under every interleaving is the subject of \<open>Pool_Steps\<close>.  The clock is \<open>now\<close>.

  Reading a quarantine prunes expired entries; \<open>blocked_for_after_read\<close> shows that this never changes
  an answer, so selection here reads without pruning.
\<close>

section \<open>Contexts\<close>

record browser_context =
  metadata :: "proxy_config context_meta"
  tab :: "nat option"
  cdp_context_id :: "string option"
  proxy_host :: "string option"
  site :: "string option"

abbreviation bc_id :: "browser_context \<Rightarrow> string" where
  "bc_id c \<equiv> ctx_id (metadata c)"

abbreviation bc_busy :: "browser_context \<Rightarrow> bool" where
  "bc_busy c \<equiv> is_busy (metadata c)"

abbreviation bc_requests :: "browser_context \<Rightarrow> nat" where
  "bc_requests c \<equiv> total_requests (metadata c)"

definition is_used_up :: "millis \<Rightarrow> lifecycle_config \<Rightarrow> browser_context \<Rightarrow> bool" where
  "is_used_up now lc c = is_used_up_at lc (now - created_at (metadata c)) (bc_requests c)"

definition should_recycle_context :: "millis \<Rightarrow> lifecycle_config \<Rightarrow> browser_context \<Rightarrow> bool" where
  "should_recycle_context now lc c =
     (if is_used_up now lc c then True
      else (case rotation_strategy lc of
              TimeBasedOnly \<Rightarrow> False
            | RequestBasedOnly \<Rightarrow> False
            | Hybrid \<Rightarrow>
                max_idle_time lc < now - last_used_at (metadata c) \<or>
                max_cache_size_mb lc < cache_size_mb (metadata c)))"

text \<open>The compare-exchange of \<open>try_claim\<close>: whether it won, and the context afterwards.\<close>

definition try_claim :: "browser_context \<Rightarrow> bool \<times> browser_context" where
  "try_claim c =
     (if bc_busy c then (False, c) else (True, c\<lparr>metadata := (metadata c)\<lparr>is_busy := True\<rparr>\<rparr>))"

definition mark_busy :: "bool \<Rightarrow> browser_context \<Rightarrow> browser_context" where
  "mark_busy b c = c\<lparr>metadata := (metadata c)\<lparr>is_busy := b\<rparr>\<rparr>"

definition update_context ::
  "string \<Rightarrow> (browser_context \<Rightarrow> browser_context) \<Rightarrow> browser_context list \<Rightarrow> browser_context list" where
  "update_context i f cs = map (\<lambda>c. if bc_id c = i then f c else c) cs"

section \<open>Selection\<close>

definition least_used_candidates ::
  "millis \<Rightarrow> lifecycle_config \<Rightarrow> string option \<Rightarrow> browser_context list \<Rightarrow> browser_context list" where
  "least_used_candidates now lc origin cs =
     sort_key bc_requests
       (filter (\<lambda>c. \<not> bc_busy c \<and> \<not> is_used_up now lc c \<and>
          (case origin of Some orig \<Rightarrow> \<not> blocked_for now (metadata c) orig | None \<Rightarrow> True)) cs)"

definition select_least_used_idle ::
  "millis \<Rightarrow> lifecycle_config \<Rightarrow> string option \<Rightarrow> browser_context list \<Rightarrow> browser_context option" where
  "select_least_used_idle now lc origin cs =
     (case least_used_candidates now lc origin cs of [] \<Rightarrow> None | c # _ \<Rightarrow> Some c)"

text \<open>\<open>candidates.find(try_claim)\<close>, where the candidates in \<open>lost\<close> were claimed by others.\<close>

definition first_claimed :: "string set \<Rightarrow> browser_context list \<Rightarrow> browser_context option" where
  "first_claimed lost candidates = List.find (\<lambda>c. bc_id c \<notin> lost \<and> fst (try_claim c)) candidates"

definition claim_least_used_idle ::
  "millis \<Rightarrow> lifecycle_config \<Rightarrow> string set \<Rightarrow> string option \<Rightarrow> browser_context list \<Rightarrow>
   browser_context option" where
  "claim_least_used_idle now lc lost origin cs =
     first_claimed lost (least_used_candidates now lc origin cs)"

definition quarantine_end :: "millis \<Rightarrow> string \<Rightarrow> browser_context \<Rightarrow> millis" where
  "quarantine_end now origin c =
     (case fst (quarantined_until now origin (metadata c)) of Some until \<Rightarrow> until | None \<Rightarrow> 0)"

definition claim_soonest_unquarantined ::
  "millis \<Rightarrow> lifecycle_config \<Rightarrow> string set \<Rightarrow> string \<Rightarrow> browser_context list \<Rightarrow> browser_context option" where
  "claim_soonest_unquarantined now lc lost origin cs =
     first_claimed lost
       (sort_key (quarantine_end now origin)
          (filter (\<lambda>c. \<not> bc_busy c \<and> \<not> is_used_up now lc c \<and> blocked_for now (metadata c) origin) cs))"

text \<open>The used-up context taken out, and the vector without it.\<close>

definition take_used_up_idle ::
  "millis \<Rightarrow> lifecycle_config \<Rightarrow> string set \<Rightarrow> browser_context list \<Rightarrow>
   (browser_context \<times> browser_context list) option" where
  "take_used_up_idle now lc lost cs =
     (case first_claimed lost
             (sort_key (\<lambda>c. created_at (metadata c))
                (filter (\<lambda>c. \<not> bc_busy c \<and> is_used_up now lc c) cs)) of
        Some c \<Rightarrow> Some (c, filter (\<lambda>d. bc_id d \<noteq> bc_id c) cs)
      | None \<Rightarrow> None)"

definition reclaim_leaked_always_new_contexts ::
  "browser_context list \<Rightarrow> browser_context list \<times> browser_context list" where
  "reclaim_leaked_always_new_contexts cs =
     (filter (\<lambda>c. \<not> bc_busy c) cs, filter bc_busy cs)"

section \<open>The pool\<close>

record browser_pool =
  bp_contexts :: "browser_context list"
  bp_pending :: nat
  bp_created :: nat
  bp_recycled :: nat
  bp_config :: scope_config

abbreviation bp_lifecycle :: "browser_pool \<Rightarrow> lifecycle_config" where
  "bp_lifecycle p \<equiv> sc_lifecycle (bp_config p)"

abbreviation bp_max :: "browser_pool \<Rightarrow> nat" where
  "bp_max p \<equiv> sc_max_contexts (bp_config p)"

definition occupied_slots :: "browser_pool \<Rightarrow> nat" where
  "occupied_slots p = length (bp_contexts p) + bp_pending p"

definition take_reservation :: "browser_pool \<Rightarrow> browser_pool" where
  "take_reservation p = p\<lparr>bp_pending := bp_pending p + 1\<rparr>"

definition drop_reservation :: "browser_pool \<Rightarrow> browser_pool" where
  "drop_reservation p = p\<lparr>bp_pending := bp_pending p - 1\<rparr>"

definition claim_in_pool :: "string \<Rightarrow> browser_pool \<Rightarrow> browser_pool" where
  "claim_in_pool i p = p\<lparr>bp_contexts := update_context i (mark_busy True) (bp_contexts p)\<rparr>"

text \<open>
  What a critical section decides for a request: an existing context (now busy), a reserved slot to
  build into (after taking a used-up context out of the pool, when there is one to release), or
  nothing.
\<close>

datatype acquisition =
    Acq_Reuse browser_context
  | Acq_Build
  | Acq_Replace browser_context
  | Acq_Full

definition acquire_optimistic ::
  "millis \<Rightarrow> string set \<Rightarrow> proxy_params \<Rightarrow> string option \<Rightarrow> browser_pool \<Rightarrow>
   browser_context option \<times> browser_pool" where
  "acquire_optimistic now lost params origin p =
     (if requires_dedicated_context params then (None, p)
      else (case claim_least_used_idle now (bp_lifecycle p) lost origin (bp_contexts p) of
              Some c \<Rightarrow> (Some (mark_busy True c), claim_in_pool (bc_id c) p)
            | None \<Rightarrow> (None, p)))"

definition acquire_locked ::
  "millis \<Rightarrow> string set \<Rightarrow> proxy_params \<Rightarrow> string option \<Rightarrow> browser_pool \<Rightarrow> acquisition \<times> browser_pool" where
  "acquire_locked now lost params origin p =
     (case acquire_optimistic now lost params origin p of
        (Some c, p') \<Rightarrow> (Acq_Reuse c, p')
      | (None, _) \<Rightarrow>
          if occupied_slots p < bp_max p then (Acq_Build, take_reservation p)
          else
            (case take_used_up_idle now (bp_lifecycle p) lost (bp_contexts p) of
               Some (c, rest) \<Rightarrow>
                 (Acq_Replace (mark_busy True c),
                  take_reservation (p\<lparr>bp_contexts := rest, bp_recycled := bp_recycled p + 1\<rparr>))
             | None \<Rightarrow>
                 (case (if requires_dedicated_context params then None else origin) of
                    None \<Rightarrow> (Acq_Full, p)
                  | Some orig \<Rightarrow>
                      (case claim_soonest_unquarantined now (bp_lifecycle p) lost orig
                              (bp_contexts p) of
                         Some c \<Rightarrow> (Acq_Reuse (mark_busy True c), claim_in_pool (bc_id c) p)
                       | None \<Rightarrow> (Acq_Full, p)))))"

definition acquire_dedicated :: "browser_pool \<Rightarrow> acquisition \<times> browser_pool" where
  "acquire_dedicated p =
     (if bp_max p \<le> occupied_slots p then (Acq_Full, p) else (Acq_Build, take_reservation p))"

text \<open>Also answers the leaked contexts to release.\<close>

definition acquire_always_new ::
  "browser_pool \<Rightarrow> acquisition \<times> browser_context list \<times> browser_pool" where
  "acquire_always_new p =
     (let (leaked, rest) = reclaim_leaked_always_new_contexts (bp_contexts p);
          p' = p\<lparr>bp_contexts := rest\<rparr>
      in if occupied_slots p' < bp_max p' then (Acq_Build, leaked, take_reservation p')
         else (Acq_Full, leaked, p'))"

text \<open>
  \<open>build_reserved_context\<close> after the creation: on an error the reservation is dropped with it; on
  success the context is marked busy, pushed, and the reservation released in one critical section.
\<close>

definition build_reserved_context ::
  "string + browser_context \<Rightarrow> browser_pool \<Rightarrow> (string + browser_context) \<times> browser_pool" where
  "build_reserved_context built p =
     (case built of
        Inl e \<Rightarrow> (Inl e, drop_reservation p)
      | Inr c \<Rightarrow>
          (let c' = mark_busy True c in
           (Inr c', drop_reservation
              (p\<lparr>bp_contexts := bp_contexts p @ [c'], bp_created := bp_created p + 1\<rparr>))))"

text \<open>
  The three operations run without interference: \<open>built\<close> is the result of \<open>create_new_context\<close>;
  \<open>Inr None\<close> is the code's \<open>Ok(None)\<close>.
\<close>

definition get_or_create_context ::
  "millis \<Rightarrow> proxy_params \<Rightarrow> string option \<Rightarrow> string + browser_context \<Rightarrow> browser_pool \<Rightarrow>
   (string + browser_context option) \<times> browser_pool" where
  "get_or_create_context now params origin built p =
     (case acquire_optimistic now {} params origin p of
        (Some c, p') \<Rightarrow> (Inr (Some c), p')
      | (None, p') \<Rightarrow>
          (case acquire_locked now {} params origin p' of
             (Acq_Reuse c, p'') \<Rightarrow> (Inr (Some c), p'')
           | (Acq_Full, p'') \<Rightarrow> (Inr None, p'')
           | (_, p'') \<Rightarrow> map_prod (map_sum id Some) id (build_reserved_context built p'')))"

definition create_dedicated_context ::
  "string + browser_context \<Rightarrow> browser_pool \<Rightarrow> (string + browser_context option) \<times> browser_pool" where
  "create_dedicated_context built p =
     (case acquire_dedicated p of
        (Acq_Full, p') \<Rightarrow> (Inr None, p')
      | (_, p') \<Rightarrow> map_prod (map_sum id Some) id (build_reserved_context built p'))"

definition create_always_new_context ::
  "string + browser_context \<Rightarrow> browser_pool \<Rightarrow> (string + browser_context option) \<times> browser_pool" where
  "create_always_new_context built p =
     (case acquire_always_new p of
        (Acq_Full, _, p') \<Rightarrow> (Inr None, p')
      | (_, _, p') \<Rightarrow> map_prod (map_sum id Some) id (build_reserved_context built p'))"

definition find_context_by_id :: "string \<Rightarrow> browser_pool \<Rightarrow> browser_context option" where
  "find_context_by_id i p = List.find (\<lambda>c. bc_id c = i) (bp_contexts p)"

definition find_least_busy_context :: "millis \<Rightarrow> browser_pool \<Rightarrow> browser_context option" where
  "find_least_busy_context now p = select_least_used_idle now (bp_lifecycle p) None (bp_contexts p)"

text \<open>The removed contexts are released in Chrome afterwards.\<close>

definition destroy_context :: "string \<Rightarrow> browser_pool \<Rightarrow> browser_context list \<times> browser_pool" where
  "destroy_context i p =
     (filter (\<lambda>c. bc_id c = i) (bp_contexts p),
      p\<lparr>bp_contexts := filter (\<lambda>c. bc_id c \<noteq> i) (bp_contexts p)\<rparr>)"

text \<open>
  \<open>end_session_if_used_up\<close> on the handle the request holds: the age test reads the handle, then one
  critical section looks it up, claims and removes it.
\<close>

definition end_session_if_used_up ::
  "millis \<Rightarrow> browser_context \<Rightarrow> browser_pool \<Rightarrow> bool \<times> browser_pool" where
  "end_session_if_used_up now c p =
     (if \<not> is_used_up now (bp_lifecycle p) c then (False, p)
      else (case find_context_by_id (bc_id c) p of
              None \<Rightarrow> (False, p)
            | Some d \<Rightarrow>
                if fst (try_claim d) then (True, snd (destroy_context (bc_id c) p)) else (False, p)))"

text \<open>Pre-initialization pushes idle contexts, before the pool serves anything.\<close>

definition populate_initial_contexts :: "browser_context list \<Rightarrow> browser_pool \<Rightarrow> browser_pool" where
  "populate_initial_contexts built p =
     (let new = take (sc_min_contexts (bp_config p)) built
      in p\<lparr>bp_contexts := bp_contexts p @ new, bp_created := bp_created p + length new\<rparr>)"

definition pool_start :: "scope_config \<Rightarrow> browser_context list \<Rightarrow> browser_pool" where
  "pool_start config built =
     (let p = \<lparr>bp_contexts = [], bp_pending = 0, bp_created = 0, bp_recycled = 0, bp_config = config\<rparr>
      in if 0 < sc_min_contexts config \<and> sc_session_mode config = Reusable
         then populate_initial_contexts built p else p)"

section \<open>The lifecycle monitor\<close>

text \<open>One tick of each mode; the removed contexts are released afterwards.\<close>

definition monitor_always_new :: "browser_pool \<Rightarrow> browser_context list \<times> browser_pool" where
  "monitor_always_new p =
     (let (leaked, rest) = reclaim_leaked_always_new_contexts (bp_contexts p)
      in (leaked, p\<lparr>bp_contexts := rest\<rparr>))"

definition monitor_dedicated :: "millis \<Rightarrow> browser_pool \<Rightarrow> browser_context list \<times> browser_pool" where
  "monitor_dedicated now p =
     (let expired = (\<lambda>c. \<not> bc_busy c \<and> should_recycle_context now (bp_lifecycle p) c)
      in (filter expired (bp_contexts p),
          p\<lparr>bp_contexts := filter (\<lambda>c. \<not> expired c) (bp_contexts p)\<rparr>))"

definition monitor_reusable_claim ::
  "millis \<Rightarrow> browser_pool \<Rightarrow> browser_context list \<times> browser_pool" where
  "monitor_reusable_claim now p =
     (let due = (\<lambda>c. should_recycle_context now (bp_lifecycle p) c \<and> fst (try_claim c))
      in (filter due (bp_contexts p),
          p\<lparr>bp_contexts := map (\<lambda>c. if due c then mark_busy True c else c) (bp_contexts p)\<rparr>))"

text \<open>\<open>None\<close> when the claimed slot is gone and the replacement is released instead.\<close>

definition monitor_reusable_swap ::
  "browser_context \<Rightarrow> browser_context \<Rightarrow> browser_pool \<Rightarrow> browser_pool option" where
  "monitor_reusable_swap old new p =
     (if \<exists>c \<in> set (bp_contexts p). bc_id c = bc_id old
      then Some (p\<lparr>bp_contexts := update_context (bc_id old) (\<lambda>_. new) (bp_contexts p),
                   bp_recycled := bp_recycled p + 1, bp_created := bp_created p + 1\<rparr>)
      else None)"

section \<open>Statistics\<close>

record browser_pool_stats =
  ps_total_contexts :: nat
  ps_total_slots :: nat
  ps_available_slots :: nat
  ps_active_requests :: nat
  ps_claimed_contexts :: nat
  ps_total_requests :: nat
  ps_total_contexts_created :: nat
  ps_total_contexts_recycled :: nat

definition pool_get_stats :: "browser_pool \<Rightarrow> browser_pool_stats" where
  "pool_get_stats p =
     (let total_slots = bp_max p;
          busy = length (filter bc_busy (bp_contexts p));
          pending = bp_pending p;
          active = busy + pending;
          claimed = (if sc_session_mode (bp_config p) = Dedicated
                     then max (length (bp_contexts p) + pending) active else active)
      in \<lparr>ps_total_contexts = length (bp_contexts p), ps_total_slots = total_slots,
          ps_available_slots = total_slots - claimed, ps_active_requests = active,
          ps_claimed_contexts = claimed,
          ps_total_requests = sum_list (map bc_requests (bp_contexts p)),
          ps_total_contexts_created = bp_created p, ps_total_contexts_recycled = bp_recycled p\<rparr>)"

definition sites_by_cdp_context :: "browser_pool \<Rightarrow> (string, string) hmap" where
  "sites_by_cdp_context p =
     foldl (\<lambda>m c. case (cdp_context_id c, site c) of
                    (Some i, Some s) \<Rightarrow> hput i s m | _ \<Rightarrow> m) hempty (bp_contexts p)"

end
