(* ===== verification/Pool_Steps.thy ===== *)
theory Pool_Steps
  imports Browser_Pool In_Flight
begin

text \<open>
  The pool under concurrency: every atomic step a request, a session continuation or the lifecycle
  monitor takes on it, in any order.

  A context removed from the vector lives on while somebody holds its handle, and its \<open>is_busy\<close> flag
  can still be claimed through that handle; \<open>sys_gone\<close> keeps those flags.  \<open>sys_holders\<close> maps each
  request that owns a busy flag (a \<open>ContextBusyGuard\<close>) to its context, \<open>sys_builders\<close> lists the owners of
  slot reservations, \<open>sys_recycling\<close> the contexts the monitor has claimed, and \<open>sys_used\<close> every context
  id handed out so far (they are random UUIDs, never repeated).
\<close>

section \<open>State and events\<close>

record pool_sys =
  sys_pool :: browser_pool
  sys_gone :: "(string, bool) hmap"
  sys_holders :: "(nat, string) hmap"
  sys_builders :: "nat list"
  sys_recycling :: "string list"
  sys_used :: "string set"

datatype pool_event =
    Ev_Optimistic nat millis "string set" proxy_params "string option"
  | Ev_Locked nat millis "string set" proxy_params "string option"
  | Ev_Dedicated nat
  | Ev_AlwaysNew nat
  | Ev_Built nat "string + browser_context"
  | Ev_ClaimHandle nat string
  | Ev_Served nat millis
  | Ev_Release nat millis
  | Ev_Destroy string
  | Ev_EndSession millis browser_context
  | Ev_TickAlwaysNew
  | Ev_TickDedicated millis
  | Ev_TickReusable millis
  | Ev_Swap browser_context browser_context

abbreviation sys_contexts :: "pool_sys \<Rightarrow> browser_context list" where
  "sys_contexts s \<equiv> bp_contexts (sys_pool s)"

definition sys_init :: "browser_pool \<Rightarrow> pool_sys" where
  "sys_init p =
     \<lparr>sys_pool = p, sys_gone = [], sys_holders = [], sys_builders = [], sys_recycling = [],
      sys_used = bc_id ` set (bp_contexts p)\<rparr>"

definition fresh_owner :: "nat \<Rightarrow> pool_sys \<Rightarrow> bool" where
  "fresh_owner r s \<longleftrightarrow> hget (sys_holders s) r = None \<and> r \<notin> set (sys_builders s)"

definition to_gone :: "browser_context list \<Rightarrow> (string, bool) hmap \<Rightarrow> (string, bool) hmap" where
  "to_gone cs g = foldl (\<lambda>g c. hput (bc_id c) (bc_busy c) g) g cs"

definition stamp_last_used :: "millis \<Rightarrow> browser_context \<Rightarrow> browser_context" where
  "stamp_last_used now c = c\<lparr>metadata := (metadata c)\<lparr>last_used_at := now\<rparr>\<rparr>"

definition count_request :: "millis \<Rightarrow> browser_context \<Rightarrow> browser_context" where
  "count_request now c =
     c\<lparr>metadata := (metadata c)\<lparr>last_used_at := now, total_requests := total_requests (metadata c) + 1\<rparr>\<rparr>"

definition sys_update :: "string \<Rightarrow> (browser_context \<Rightarrow> browser_context) \<Rightarrow> pool_sys \<Rightarrow> pool_sys" where
  "sys_update i f s =
     s\<lparr>sys_pool := (sys_pool s)\<lparr>bp_contexts := update_context i f (sys_contexts s)\<rparr>\<rparr>"

text \<open>The busy flag behind a handle, wherever the context is.\<close>

definition busy_flag :: "pool_sys \<Rightarrow> string \<Rightarrow> bool option" where
  "busy_flag s i =
     (case find_context_by_id i (sys_pool s) of
        Some c \<Rightarrow> Some (bc_busy c)
      | None \<Rightarrow> hget (sys_gone s) i)"

definition set_flag :: "string \<Rightarrow> bool \<Rightarrow> pool_sys \<Rightarrow> pool_sys" where
  "set_flag i b s =
     (case find_context_by_id i (sys_pool s) of
        Some _ \<Rightarrow> sys_update i (mark_busy b) s
      | None \<Rightarrow> s\<lparr>sys_gone := hput i b (sys_gone s)\<rparr>)"

definition after_acquisition :: "nat \<Rightarrow> acquisition \<Rightarrow> pool_sys \<Rightarrow> pool_sys" where
  "after_acquisition r acq s =
     (case acq of
        Acq_Reuse c \<Rightarrow> s\<lparr>sys_holders := hput r (bc_id c) (sys_holders s)\<rparr>
      | Acq_Build \<Rightarrow> s\<lparr>sys_builders := r # sys_builders s\<rparr>
      | Acq_Replace c \<Rightarrow>
          s\<lparr>sys_builders := r # sys_builders s, sys_gone := to_gone [c] (sys_gone s)\<rparr>
      | Acq_Full \<Rightarrow> s)"

text \<open>\<open>None\<close>: the event is not enabled.\<close>

fun pool_next :: "pool_event \<Rightarrow> pool_sys \<Rightarrow> pool_sys option" where
  "pool_next (Ev_Optimistic r now lost params origin) s =
     (if fresh_owner r s then
        (case acquire_optimistic now lost params origin (sys_pool s) of
           (Some c, p') \<Rightarrow>
             Some (s\<lparr>sys_pool := p', sys_holders := hput r (bc_id c) (sys_holders s)\<rparr>)
         | (None, p') \<Rightarrow> Some s)
      else None)"
| "pool_next (Ev_Locked r now lost params origin) s =
     (if fresh_owner r s then
        (case acquire_locked now lost params origin (sys_pool s) of
           (acq, p') \<Rightarrow> Some (after_acquisition r acq (s\<lparr>sys_pool := p'\<rparr>)))
      else None)"
| "pool_next (Ev_Dedicated r) s =
     (if fresh_owner r s then
        (case acquire_dedicated (sys_pool s) of
           (acq, p') \<Rightarrow> Some (after_acquisition r acq (s\<lparr>sys_pool := p'\<rparr>)))
      else None)"
| "pool_next (Ev_AlwaysNew r) s =
     (if fresh_owner r s then
        (case acquire_always_new (sys_pool s) of
           (acq, leaked, p') \<Rightarrow>
             Some (after_acquisition r acq
                     (s\<lparr>sys_pool := p', sys_gone := to_gone leaked (sys_gone s)\<rparr>)))
      else None)"
| "pool_next (Ev_Built r built) s =
     (if r \<in> set (sys_builders s) then
        (case build_reserved_context built (sys_pool s) of
           (Inl _, p') \<Rightarrow> Some (s\<lparr>sys_pool := p', sys_builders := remove1 r (sys_builders s)\<rparr>)
         | (Inr c, p') \<Rightarrow>
             if bc_id c \<in> sys_used s then None
             else Some (s\<lparr>sys_pool := p', sys_builders := remove1 r (sys_builders s),
                          sys_holders := hput r (bc_id c) (sys_holders s),
                          sys_used := insert (bc_id c) (sys_used s)\<rparr>))
      else None)"
| "pool_next (Ev_ClaimHandle r i) s =
     (if fresh_owner r s \<and> busy_flag s i = Some False
      then Some ((set_flag i True s)\<lparr>sys_holders := hput r i (sys_holders s)\<rparr>)
      else None)"
| "pool_next (Ev_Served r now) s =
     (case hget (sys_holders s) r of
        Some i \<Rightarrow> Some (sys_update i (count_request now) s)
      | None \<Rightarrow> None)"
| "pool_next (Ev_Release r now) s =
     (case hget (sys_holders s) r of
        Some i \<Rightarrow>
          Some ((set_flag i False (sys_update i (stamp_last_used now) s))
                  \<lparr>sys_holders := hdel r (sys_holders s)\<rparr>)
      | None \<Rightarrow> None)"
| "pool_next (Ev_Destroy i) s =
     (case destroy_context i (sys_pool s) of
        (removed, p') \<Rightarrow> Some (s\<lparr>sys_pool := p', sys_gone := to_gone removed (sys_gone s)\<rparr>))"
| "pool_next (Ev_EndSession now c) s =
     (case end_session_if_used_up now c (sys_pool s) of
        (True, p') \<Rightarrow> Some (s\<lparr>sys_pool := p', sys_gone := hput (bc_id c) True (sys_gone s)\<rparr>)
      | (False, _) \<Rightarrow> Some s)"
| "pool_next Ev_TickAlwaysNew s =
     (case monitor_always_new (sys_pool s) of
        (leaked, p') \<Rightarrow> Some (s\<lparr>sys_pool := p', sys_gone := to_gone leaked (sys_gone s)\<rparr>))"
| "pool_next (Ev_TickDedicated now) s =
     (case monitor_dedicated now (sys_pool s) of
        (expired, p') \<Rightarrow> Some (s\<lparr>sys_pool := p', sys_gone := to_gone expired (sys_gone s)\<rparr>))"
| "pool_next (Ev_TickReusable now) s =
     (case monitor_reusable_claim now (sys_pool s) of
        (claimed, p') \<Rightarrow>
          Some (s\<lparr>sys_pool := p', sys_recycling := sys_recycling s @ map bc_id claimed\<rparr>))"
| "pool_next (Ev_Swap old new) s =
     (if bc_id old \<in> set (sys_recycling s) \<and> bc_id new \<notin> sys_used s \<and> \<not> bc_busy new then
        (case monitor_reusable_swap old new (sys_pool s) of
           Some p' \<Rightarrow>
             Some (s\<lparr>sys_pool := p', sys_gone := hput (bc_id old) True (sys_gone s),
                     sys_recycling := remove1 (bc_id old) (sys_recycling s),
                     sys_used := insert (bc_id new) (sys_used s)\<rparr>)
         | None \<Rightarrow>
             Some (s\<lparr>sys_recycling := remove1 (bc_id old) (sys_recycling s),
                     sys_used := insert (bc_id new) (sys_used s)\<rparr>))
      else None)"

fun pool_run :: "pool_event list \<Rightarrow> pool_sys \<Rightarrow> pool_sys option" where
  "pool_run [] s = Some s"
| "pool_run (e # es) s = Option.bind (pool_next e s) (pool_run es)"

inductive pool_reachable :: "browser_pool \<Rightarrow> pool_sys \<Rightarrow> bool" for p where
  start: "pool_reachable p (sys_init p)"
| step: "pool_reachable p s \<Longrightarrow> pool_next e s = Some s' \<Longrightarrow> pool_reachable p s'"

inductive_cases pool_reachable_stepE: "pool_reachable p s"

section \<open>The invariant\<close>

definition sys_owned :: "pool_sys \<Rightarrow> string list" where
  "sys_owned s = map snd (sys_holders s) @ sys_recycling s"

definition shape_ok :: "pool_sys \<Rightarrow> bool" where
  "shape_ok s \<longleftrightarrow>
     distinct (map bc_id (sys_contexts s)) \<and>
     bc_id ` set (sys_contexts s) \<subseteq> sys_used s \<and> hkeys (sys_gone s) \<subseteq> sys_used s \<and>
     bc_id ` set (sys_contexts s) \<inter> hkeys (sys_gone s) = {} \<and>
     bp_pending (sys_pool s) = length (sys_builders s) \<and>
     occupied_slots (sys_pool s) \<le> bp_max (sys_pool s)"

definition owners_ok :: "pool_sys \<Rightarrow> bool" where
  "owners_ok s \<longleftrightarrow>
     hmap_ok (sys_holders s) \<and> distinct (sys_owned s) \<and>
     (\<forall>i \<in> set (sys_owned s). busy_flag s i = Some True)"

definition pool_inv :: "pool_sys \<Rightarrow> bool" where
  "pool_inv s \<longleftrightarrow> shape_ok s \<and> owners_ok s"

text \<open>Ids and flags under the updates.\<close>

lemma mark_busy_simps [simp]:
  "bc_id (mark_busy b c) = bc_id c" "bc_busy (mark_busy b c) = b"
  "bc_id (stamp_last_used now c) = bc_id c" "bc_busy (stamp_last_used now c) = bc_busy c"
  "bc_id (count_request now c) = bc_id c" "bc_busy (count_request now c) = bc_busy c"
  by (simp_all add: mark_busy_def stamp_last_used_def count_request_def)

lemma try_claim_iff [simp]: "fst (try_claim c) \<longleftrightarrow> \<not> bc_busy c"
  by (simp add: try_claim_def)

lemma map_id_update [simp]:
  "(\<And>c. bc_id (f c) = bc_id c) \<Longrightarrow> map bc_id (update_context i f cs) = map bc_id cs"
  by (simp add: update_context_def)

lemma length_update_context [simp]: "length (update_context i f cs) = length cs"
  by (simp add: update_context_def)

lemma find_update:
  assumes "\<And>c. bc_id (f c) = bc_id c"
  shows "List.find (\<lambda>c. bc_id c = j) (update_context i f cs) =
    map_option (\<lambda>c. if j = i then f c else c) (List.find (\<lambda>c. bc_id c = j) cs)"
  using assms by (induction cs) (auto simp: update_context_def)

lemma find_None_id: "List.find (\<lambda>c. bc_id c = i) cs = None \<longleftrightarrow> i \<notin> bc_id ` set cs"
  by (auto simp: find_None_iff)

lemma find_absent [simp]:
  "i \<notin> bc_id ` set cs \<Longrightarrow> List.find (\<lambda>c. bc_id c = i) cs = None"
  by (rule find_None_id [THEN iffD2])

lemma find_Some_id: "List.find (\<lambda>c. bc_id c = i) cs = Some c \<Longrightarrow> c \<in> set cs \<and> bc_id c = i"
  by (auto simp: find_Some_iff)

lemma find_distinct:
  "distinct (map bc_id cs) \<Longrightarrow> c \<in> set cs \<Longrightarrow> List.find (\<lambda>d. bc_id d = bc_id c) cs = Some c"
  by (induction cs) auto

lemma find_filter:
  assumes "distinct (map bc_id cs)"
  shows "List.find (\<lambda>c. bc_id c = i) (filter P cs) =
    (case List.find (\<lambda>c. bc_id c = i) cs of Some c \<Rightarrow> if P c then Some c else None | None \<Rightarrow> None)"
  using assms
proof (induction cs)
  case (Cons c cs)
  then have "bc_id c = i \<Longrightarrow> i \<notin> bc_id ` set cs" "bc_id c = i \<Longrightarrow> i \<notin> bc_id ` set (filter P cs)"
    by auto
  with Cons show ?case
    by (cases "bc_id c = i") simp_all
qed simp

lemma hget_to_gone:
  "distinct (map bc_id cs) \<Longrightarrow>
   hget (to_gone cs g) i =
     (case List.find (\<lambda>c. bc_id c = i) cs of Some c \<Rightarrow> Some (bc_busy c) | None \<Rightarrow> hget g i)"
proof (induction cs arbitrary: g)
  case (Cons c cs)
  then have "hget (to_gone cs (hput (bc_id c) (bc_busy c) g)) i =
      (case List.find (\<lambda>c. bc_id c = i) cs of Some c \<Rightarrow> Some (bc_busy c)
       | None \<Rightarrow> hget (hput (bc_id c) (bc_busy c) g) i)"
    by simp
  moreover have "bc_id c = i \<Longrightarrow> List.find (\<lambda>c. bc_id c = i) cs = None"
    using Cons.prems by (simp add: find_None_id)
  ultimately show ?case
    by (auto simp: to_gone_def split: option.splits)
qed (simp add: to_gone_def)

lemma hkeys_to_gone [simp]: "hkeys (to_gone cs g) = bc_id ` set cs \<union> hkeys g"
  by (induction cs arbitrary: g) (auto simp: to_gone_def)

lemma busy_flag_cong:
  "sys_contexts s' = sys_contexts s \<Longrightarrow> sys_gone s' = sys_gone s \<Longrightarrow> busy_flag s' = busy_flag s"
  unfolding busy_flag_def find_context_by_id_def by (rule ext) (simp split: option.split)

text \<open>How each kind of update moves the flags.\<close>

lemma busy_flag_pool:
  "distinct (map bc_id (sys_contexts s)) \<Longrightarrow> c \<in> set (sys_contexts s) \<Longrightarrow>
   busy_flag s (bc_id c) = Some (bc_busy c)"
  by (simp add: busy_flag_def find_context_by_id_def find_distinct)

lemma busy_flag_update:
  assumes "\<And>c. bc_id (f c) = bc_id c" "\<And>c. bc_busy (f c) = bc_busy c"
  shows "busy_flag (sys_update i f s) = busy_flag s"
  by (rule ext) (simp add: busy_flag_def find_context_by_id_def sys_update_def find_update assms
      split: option.split)

lemma busy_flag_set:
  "busy_flag (set_flag i b s) j =
     (if j = i then Some b else busy_flag s j)"
proof (cases "find_context_by_id i (sys_pool s)")
  case None
  then show ?thesis
    by (simp add: set_flag_def busy_flag_def split: option.split)
next
  case (Some c)
  then show ?thesis
    by (auto simp: set_flag_def busy_flag_def sys_update_def find_context_by_id_def find_update
        split: option.split)
qed

lemma busy_flag_claim:
  assumes "distinct (map bc_id (sys_contexts s))" "c \<in> set (sys_contexts s)"
  shows "busy_flag (s\<lparr>sys_pool := claim_in_pool (bc_id c) (sys_pool s)\<rparr>) j =
    (if j = bc_id c then Some True else busy_flag s j)"
  using find_distinct [OF assms]
  by (auto simp: busy_flag_def claim_in_pool_def find_context_by_id_def find_update split: option.split)

text \<open>Moving part of the vector to the detached contexts keeps every flag.\<close>

lemma busy_flag_remove:
  assumes "distinct (map bc_id (sys_contexts s))"
    and "bp_contexts p' = filter P (sys_contexts s)"
  shows "busy_flag (s\<lparr>sys_pool := p', sys_gone := to_gone (filter (\<lambda>c. \<not> P c) (sys_contexts s)) (sys_gone s)\<rparr>)
    = busy_flag s"
proof (rule ext)
  fix i
  have "distinct (map bc_id (filter (\<lambda>c. \<not> P c) (sys_contexts s)))"
    using assms(1) by (simp add: distinct_map_filter)
  then show "busy_flag (s\<lparr>sys_pool := p',
      sys_gone := to_gone (filter (\<lambda>c. \<not> P c) (sys_contexts s)) (sys_gone s)\<rparr>) i = busy_flag s i"
    by (auto simp: busy_flag_def find_context_by_id_def assms(2) find_filter [OF assms(1)] hget_to_gone
        split: option.split)
qed

text \<open>The shape under a removal, and the ownership under a claim and a release.\<close>

lemma length_filter_bound: "length xs + n \<le> m \<Longrightarrow> length (filter P xs) + n \<le> m"
  using length_filter_le [of P xs] by linarith

lemma shape_remove:
  assumes "shape_ok s" "bp_contexts p' = filter P (sys_contexts s)"
    "bp_pending p' = bp_pending (sys_pool s)" "bp_config p' = bp_config (sys_pool s)"
  shows "shape_ok (s\<lparr>sys_pool := p', sys_gone := to_gone (filter (\<lambda>c. \<not> P c) (sys_contexts s)) (sys_gone s)\<rparr>)"
proof -
  have d: "distinct (map bc_id (sys_contexts s))"
    using assms(1) by (simp add: shape_ok_def)
  have "bc_id c \<noteq> bc_id c'" if "c \<in> set (sys_contexts s)" "c' \<in> set (sys_contexts s)" "P c" "\<not> P c'" for c c'
    using d that by (auto simp: distinct_map inj_on_def)
  then show ?thesis
    using assms by (auto simp: shape_ok_def distinct_map_filter occupied_slots_def
        intro: length_filter_bound)
qed

lemma owners_claim:
  assumes "owners_ok s" "busy_flag s i \<noteq> Some True" "hget (sys_holders s) r = None"
    and "sys_holders s' = hput r i (sys_holders s)" "sys_recycling s' = sys_recycling s"
    and "\<And>j. busy_flag s' j = (if j = i then Some True else busy_flag s j)"
  shows "owners_ok s'"
proof -
  have "sys_holders s' = sys_holders s @ [(r, i)]"
    using assms(3,4) by (simp add: hput_fresh hget_None_iff)
  moreover have "i \<notin> set (sys_owned s)"
    using assms(1,2) by (auto simp: owners_ok_def)
  moreover have "hmap_ok (hput r i (sys_holders s))"
    using assms(1) by (simp add: owners_ok_def)
  ultimately show ?thesis
    using assms by (auto simp: owners_ok_def sys_owned_def)
qed

lemma owners_same:
  assumes "owners_ok s" "sys_holders s' = sys_holders s" "sys_recycling s' = sys_recycling s"
    and "\<And>j. busy_flag s j = Some True \<Longrightarrow> busy_flag s' j = Some True"
  shows "owners_ok s'"
  using assms by (auto simp: owners_ok_def sys_owned_def)

lemma map_snd_hdel:
  assumes "hmap_ok m" "hget m r = Some i" "distinct (map snd m)"
  shows "set (map snd (hdel r m)) = set (map snd m) - {i}" "distinct (map snd (hdel r m))"
proof -
  have *: "hdel r m = filter (\<lambda>kv. fst kv \<noteq> r) m"
    by (auto simp: hdel_def AList.delete_eq case_prod_unfold intro: filter_cong)
  show "distinct (map snd (hdel r m))"
    using assms(3) by (simp add: * distinct_map_filter)
  have in_m: "(r, i) \<in> set m"
    by (rule hget_SomeD [OF assms(2)])
  have "snd kv \<noteq> i" if "kv \<in> set m" "fst kv \<noteq> r" for kv
    using inj_onD [of snd "set m" kv "(r, i)"] assms(3) in_m that
    by (cases kv) (auto simp: distinct_map)
  moreover have "snd kv = i" if "kv \<in> set m" "fst kv = r" for kv
    using assms(1,2) that by (cases kv) (auto simp: hget_Some_iff [OF assms(1), symmetric])
  ultimately show "set (map snd (hdel r m)) = set (map snd m) - {i}"
    by (auto simp: *)
qed

lemma owners_release:
  assumes "owners_ok s" "hget (sys_holders s) r = Some i"
    and "sys_holders s' = hdel r (sys_holders s)" "sys_recycling s' = sys_recycling s"
    and "\<And>j. busy_flag s' j = (if j = i then Some False else busy_flag s j)"
  shows "owners_ok s'"
proof -
  have d: "hmap_ok (sys_holders s)" "distinct (map snd (sys_holders s))"
    "i \<notin> set (sys_recycling s)"
    using assms(1) hget_SomeD [OF assms(2)] by (auto simp: owners_ok_def sys_owned_def)
  note m = map_snd_hdel [OF d(1) assms(2) d(2)]
  show ?thesis
    using assms d m by (auto simp: owners_ok_def sys_owned_def simp del: set_map)
qed

text \<open>What the selections return.\<close>

lemma first_claimed_Some:
  "first_claimed lost cs = Some c \<Longrightarrow> c \<in> set cs \<and> \<not> bc_busy c \<and> bc_id c \<notin> lost"
  by (auto simp: first_claimed_def find_Some_iff)

lemma claim_least_used_Some:
  "claim_least_used_idle now lc lost origin cs = Some c \<Longrightarrow>
   c \<in> set cs \<and> \<not> bc_busy c \<and> \<not> is_used_up now lc c"
  by (auto simp: claim_least_used_idle_def least_used_candidates_def dest!: first_claimed_Some)

lemma claim_soonest_Some:
  "claim_soonest_unquarantined now lc lost origin cs = Some c \<Longrightarrow>
   c \<in> set cs \<and> \<not> bc_busy c \<and> \<not> is_used_up now lc c"
  by (auto simp: claim_soonest_unquarantined_def dest!: first_claimed_Some)

lemma take_used_up_Some:
  "take_used_up_idle now lc lost cs = Some (c, rest) \<Longrightarrow>
   c \<in> set cs \<and> \<not> bc_busy c \<and> is_used_up now lc c \<and> rest = filter (\<lambda>d. bc_id d \<noteq> bc_id c) cs"
  by (auto simp: take_used_up_idle_def dest!: first_claimed_Some split: option.splits)

lemma length_filter_id:
  assumes "distinct (map bc_id cs)" "c \<in> set cs"
  shows "Suc (length (filter (\<lambda>d. bc_id d \<noteq> bc_id c) cs)) = length cs"
  using assms
proof (induction cs)
  case (Cons d cs)
  show ?case
  proof (cases "d = c")
    case True
    then have "filter (\<lambda>d. bc_id d \<noteq> bc_id c) cs = cs"
      using Cons.prems by (intro filter_True) (simp add: image_iff, metis)
    with True show ?thesis by simp
  next
    case False
    with Cons show ?thesis by auto
  qed
qed simp

section \<open>Every step preserves the invariant\<close>

lemma shape_same_ids:
  assumes "shape_ok s" "map bc_id (bp_contexts p') = map bc_id (sys_contexts s)"
    "bp_pending p' = bp_pending (sys_pool s)" "bp_config p' = bp_config (sys_pool s)"
  shows "shape_ok (s\<lparr>sys_pool := p'\<rparr>)"
proof -
  have "bc_id ` set (bp_contexts p') = bc_id ` set (sys_contexts s)"
    using arg_cong [OF assms(2), of set] by (simp only: set_map)
  moreover have "length (bp_contexts p') = length (sys_contexts s)"
    using arg_cong [OF assms(2), of length] by (simp only: length_map)
  ultimately show ?thesis
    using assms by (simp add: shape_ok_def occupied_slots_def)
qed

lemma shape_owner_fields [simp]:
  "shape_ok (s\<lparr>sys_holders := h\<rparr>) = shape_ok s"
  "shape_ok (s\<lparr>sys_recycling := rs\<rparr>) = shape_ok s"
  by (simp_all add: shape_ok_def)

lemma shape_claim:
  "shape_ok s \<Longrightarrow> shape_ok (s\<lparr>sys_pool := claim_in_pool i (sys_pool s)\<rparr>)"
  by (rule shape_same_ids) (simp_all add: claim_in_pool_def)

lemma inv_claim:
  assumes "pool_inv s" "c \<in> set (sys_contexts s)" "\<not> bc_busy c" "fresh_owner r s"
  shows "pool_inv (s\<lparr>sys_pool := claim_in_pool (bc_id c) (sys_pool s),
                     sys_holders := hput r (bc_id c) (sys_holders s)\<rparr>)"
proof -
  let ?s' = "s\<lparr>sys_pool := claim_in_pool (bc_id c) (sys_pool s),
               sys_holders := hput r (bc_id c) (sys_holders s)\<rparr>"
  have d: "distinct (map bc_id (sys_contexts s))"
    using assms(1) by (simp add: pool_inv_def shape_ok_def)
  have f: "busy_flag s (bc_id c) \<noteq> Some True"
    using busy_flag_pool [OF d assms(2)] assms(3) by simp
  have "owners_ok ?s'"
  proof (rule owners_claim [OF _ f])
    show "owners_ok s" "hget (sys_holders s) r = None"
      using assms(1,4) by (simp_all add: pool_inv_def fresh_owner_def)
    show "busy_flag ?s' j = (if j = bc_id c then Some True else busy_flag s j)" for j
      unfolding busy_flag_claim [OF d assms(2), symmetric]
      by (rule fun_cong [OF busy_flag_cong]) simp_all
  qed simp_all
  then show ?thesis
    using assms(1) by (simp add: pool_inv_def shape_claim)
qed

lemma inv_reserve:
  assumes "pool_inv s" "occupied_slots (sys_pool s) < bp_max (sys_pool s)"
  shows "pool_inv (s\<lparr>sys_pool := take_reservation (sys_pool s), sys_builders := r # sys_builders s\<rparr>)"
proof -
  let ?s' = "s\<lparr>sys_pool := take_reservation (sys_pool s), sys_builders := r # sys_builders s\<rparr>"
  have "busy_flag ?s' = busy_flag s"
    by (rule busy_flag_cong) (simp_all add: take_reservation_def)
  then have "owners_ok ?s'"
    using assms(1) owners_same [of s ?s'] by (simp add: pool_inv_def)
  then show ?thesis
    using assms by (auto simp: pool_inv_def shape_ok_def take_reservation_def occupied_slots_def)
qed

lemma inv_remove:
  assumes "pool_inv s" "bp_contexts p' = filter P (sys_contexts s)"
    "bp_pending p' = bp_pending (sys_pool s)" "bp_config p' = bp_config (sys_pool s)"
  shows "pool_inv (s\<lparr>sys_pool := p', sys_gone := to_gone (filter (\<lambda>c. \<not> P c) (sys_contexts s)) (sys_gone s)\<rparr>)"
proof -
  have "distinct (map bc_id (sys_contexts s))"
    using assms(1) by (simp add: pool_inv_def shape_ok_def)
  note f = busy_flag_remove [OF this assms(2)]
  have "owners_ok (s\<lparr>sys_pool := p', sys_gone := to_gone (filter (\<lambda>c. \<not> P c) (sys_contexts s)) (sys_gone s)\<rparr>)"
  proof (rule owners_same)
    show "owners_ok s" using assms(1) by (simp add: pool_inv_def)
  qed (simp_all add: f)
  then show ?thesis
    using assms(1) shape_remove [OF _ assms(2-4)] by (simp add: pool_inv_def)
qed

text \<open>Removing a context that its remover has claimed: its flag ends true.\<close>

lemma inv_remove_claimed:
  assumes "pool_inv s" "c \<in> set (sys_contexts s)"
    and "bp_contexts p' = filter (\<lambda>d. bc_id d \<noteq> bc_id c) (sys_contexts s)"
    "bp_pending p' = bp_pending (sys_pool s)" "bp_config p' = bp_config (sys_pool s)"
  shows "pool_inv (s\<lparr>sys_pool := p', sys_gone := hput (bc_id c) True (sys_gone s)\<rparr>)"
proof -
  let ?s' = "s\<lparr>sys_pool := p', sys_gone := hput (bc_id c) True (sys_gone s)\<rparr>"
  have d: "distinct (map bc_id (sys_contexts s))"
    using assms(1) by (simp add: pool_inv_def shape_ok_def)
  have fl: "busy_flag ?s' j = (if j = bc_id c then Some True else busy_flag s j)" for j
    by (auto simp: busy_flag_def find_context_by_id_def assms(3) find_filter [OF d]
        dest: find_Some_id split: option.split)
  have o: "owners_ok ?s'"
  proof (rule owners_same)
    show "owners_ok s" using assms(1) by (simp add: pool_inv_def)
  qed (simp_all only: fl, simp_all)
  have "shape_ok ?s'"
    using assms by (auto simp: pool_inv_def shape_ok_def distinct_map_filter occupied_slots_def
        intro: length_filter_bound)
  with o show ?thesis by (simp add: pool_inv_def)
qed

lemma acquire_optimistic_cases:
  assumes "acquire_optimistic now lost params origin p = (r, p')"
  obtains "r = None" "p' = p"
  | c where "r = Some (mark_busy True c)" "p' = claim_in_pool (bc_id c) p"
      "c \<in> set (bp_contexts p)" "\<not> bc_busy c" "\<not> is_used_up now (bp_lifecycle p) c"
  using assms
  by (auto simp: acquire_optimistic_def dest: claim_least_used_Some split: if_splits option.splits)

lemma acquire_locked_cases:
  assumes "acquire_locked now lost params origin p = (acq, p')"
  obtains c where "acq = Acq_Reuse (mark_busy True c)" "p' = claim_in_pool (bc_id c) p"
      "c \<in> set (bp_contexts p)" "\<not> bc_busy c" "\<not> is_used_up now (bp_lifecycle p) c"
  | "acq = Acq_Build" "p' = take_reservation p" "occupied_slots p < bp_max p"
  | c where "acq = Acq_Replace (mark_busy True c)" "c \<in> set (bp_contexts p)" "\<not> bc_busy c"
      "is_used_up now (bp_lifecycle p) c"
      "p' = take_reservation (p\<lparr>bp_contexts := filter (\<lambda>d. bc_id d \<noteq> bc_id c) (bp_contexts p),
                                bp_recycled := bp_recycled p + 1\<rparr>)"
  | "acq = Acq_Full" "p' = p"
proof -
  obtain r q where o: "acquire_optimistic now lost params origin p = (r, q)"
    by (cases "acquire_optimistic now lost params origin p")
  show thesis
  proof (cases r)
    case (Some d)
    then have "acq = Acq_Reuse d" "p' = q"
      using o assms by (simp_all add: acquire_locked_def)
    with o Some show thesis
      by (elim acquire_optimistic_cases) (auto intro: that(1))
  next
    case None
    let ?T = "take_used_up_idle now (bp_lifecycle p) lost (bp_contexts p)"
    let ?O = "if requires_dedicated_context params then None else origin"
    show thesis
    proof (cases "occupied_slots p < bp_max p")
      case True
      then show thesis
        using o None assms by (intro that(2)) (simp_all add: acquire_locked_def)
    next
      case full: False
      show thesis
      proof (cases ?T)
        case (Some cr)
        obtain c rest where cr: "cr = (c, rest)" by (cases cr)
        show thesis
          by (rule that(3) [of c]) (use o None full Some cr assms take_used_up_Some [of now "bp_lifecycle p" lost
              "bp_contexts p" c rest] in \<open>simp_all add: acquire_locked_def\<close>)
      next
        case noT: None
        show thesis
        proof (cases "?O")
          case noO: None
          then show thesis
            using o None full noT assms by (intro that(4)) (simp_all add: acquire_locked_def)
        next
          case (Some orig)
          show thesis
          proof (cases "claim_soonest_unquarantined now (bp_lifecycle p) lost orig (bp_contexts p)")
            case noC: None
            then show thesis
              using o None full noT Some assms by (intro that(4)) (simp_all add: acquire_locked_def)
          next
            case c: (Some c)
            show thesis
              by (rule that(1) [of c]) (use o None full noT Some c assms claim_soonest_Some [OF c] in
                  \<open>simp_all add: acquire_locked_def\<close>)
          qed
        qed
      qed
    qed
  qed
qed

lemma inv_replace:
  assumes "pool_inv s" "c \<in> set (sys_contexts s)"
  shows "pool_inv (s\<lparr>sys_pool := take_reservation ((sys_pool s)
      \<lparr>bp_contexts := filter (\<lambda>d. bc_id d \<noteq> bc_id c) (sys_contexts s), bp_recycled := n\<rparr>),
    sys_gone := hput (bc_id c) True (sys_gone s), sys_builders := r # sys_builders s\<rparr>)"
proof -
  let ?p = "(sys_pool s)\<lparr>bp_contexts := filter (\<lambda>d. bc_id d \<noteq> bc_id c) (sys_contexts s), bp_recycled := n\<rparr>"
  let ?s = "s\<lparr>sys_pool := ?p, sys_gone := hput (bc_id c) True (sys_gone s)\<rparr>"
  have i: "pool_inv ?s"
    by (rule inv_remove_claimed [OF assms]) simp_all
  have "distinct (map bc_id (sys_contexts s))" "occupied_slots (sys_pool s) \<le> bp_max (sys_pool s)"
    using assms(1) by (auto simp: pool_inv_def shape_ok_def)
  then have "occupied_slots (sys_pool ?s) < bp_max (sys_pool ?s)"
    using length_filter_id [OF _ assms(2)] by (simp add: occupied_slots_def)
  from inv_reserve [OF i this, of r] show ?thesis
    by (rule back_subst [of pool_inv]) simp
qed

lemma inv_after_acquisition:
  assumes "pool_inv s" "fresh_owner r s" "acquire_locked now lost params origin (sys_pool s) = (acq, p')"
  shows "pool_inv (after_acquisition r acq (s\<lparr>sys_pool := p'\<rparr>))"
  using assms(3)
proof (cases rule: acquire_locked_cases)
  case (1 c)
  then show ?thesis
    using inv_claim [OF assms(1) 1(3,4) assms(2)] by (simp add: after_acquisition_def)
next
  case 2
  then show ?thesis
    using inv_reserve [OF assms(1) 2(3)] by (simp add: after_acquisition_def)
next
  case (3 c)
  from inv_replace [OF assms(1) 3(2), of r "bp_recycled (sys_pool s) + 1"] show ?thesis
    by (rule back_subst [of pool_inv]) (simp add: 3 after_acquisition_def to_gone_def)
next
  case 4
  then show ?thesis
    using assms(1) by (simp add: after_acquisition_def)
qed

lemma inv_built:
  assumes "pool_inv s" "r \<in> set (sys_builders s)" "fresh_owner r (s\<lparr>sys_builders := []\<rparr>)"
    and "build_reserved_context (Inr c) (sys_pool s) = (Inr c', p')" "bc_id c' \<notin> sys_used s"
  shows "pool_inv (s\<lparr>sys_pool := p', sys_builders := remove1 r (sys_builders s),
    sys_holders := hput r (bc_id c') (sys_holders s), sys_used := insert (bc_id c') (sys_used s)\<rparr>)"
proof -
  let ?s' = "s\<lparr>sys_pool := p', sys_builders := remove1 r (sys_builders s),
    sys_holders := hput r (bc_id c') (sys_holders s), sys_used := insert (bc_id c') (sys_used s)\<rparr>"
  have c': "bc_busy c'" and p': "bp_contexts p' = sys_contexts s @ [c']"
    "bp_pending p' = bp_pending (sys_pool s) - 1" "bp_config p' = bp_config (sys_pool s)"
    using assms(4) by (auto simp: build_reserved_context_def drop_reservation_def Let_def)
  have sh: "shape_ok s" and ow: "owners_ok s"
    using assms(1) by (simp_all add: pool_inv_def)
  have new: "bc_id c' \<notin> bc_id ` set (sys_contexts s)" "bc_id c' \<notin> hkeys (sys_gone s)"
    using sh assms(5) by (auto simp: shape_ok_def)
  have old: "busy_flag s (bc_id c') = None"
    using new by (simp add: busy_flag_def find_context_by_id_def hget_None_iff)
  have app: "List.find (\<lambda>c. bc_id c = j) (xs @ [c']) =
      (case List.find (\<lambda>c. bc_id c = j) xs of Some c \<Rightarrow> Some c
       | None \<Rightarrow> if bc_id c' = j then Some c' else None)" for j xs
    by (induction xs) auto
  have fl: "busy_flag ?s' j = (if j = bc_id c' then Some True else busy_flag s j)" for j
    using new c' by (auto simp: busy_flag_def find_context_by_id_def p' app split: option.split)
  have "owners_ok ?s'"
  proof (rule owners_claim [OF ow])
    show "busy_flag s (bc_id c') \<noteq> Some True" by (simp add: old)
    show "hget (sys_holders s) r = None" using assms(3) by (simp add: fresh_owner_def)
  qed (simp_all only: fl, simp_all)
  moreover obtain n where "length (sys_builders s) = Suc n"
    using length_pos_if_in_set [OF assms(2)] by (cases "length (sys_builders s)") auto
  then have "shape_ok ?s'"
    using sh new assms(2) by (auto simp: shape_ok_def p' occupied_slots_def length_remove1)
  ultimately show ?thesis by (simp add: pool_inv_def)
qed

lemma inv_build_failed:
  assumes "pool_inv s" "r \<in> set (sys_builders s)"
  shows "pool_inv (s\<lparr>sys_pool := drop_reservation (sys_pool s), sys_builders := remove1 r (sys_builders s)\<rparr>)"
proof -
  let ?s' = "s\<lparr>sys_pool := drop_reservation (sys_pool s), sys_builders := remove1 r (sys_builders s)\<rparr>"
  have "busy_flag ?s' = busy_flag s"
    by (rule busy_flag_cong) (simp_all add: drop_reservation_def)
  then have "owners_ok ?s'"
    using assms(1) owners_same [of s ?s'] by (simp add: pool_inv_def)
  then show ?thesis
    using assms by (auto simp: pool_inv_def shape_ok_def drop_reservation_def occupied_slots_def length_remove1)
qed

lemma shape_update:
  assumes "shape_ok s" "\<And>c. bc_id (f c) = bc_id c"
  shows "shape_ok (sys_update i f s)"
  unfolding sys_update_def by (rule shape_same_ids [OF assms(1)]) (simp_all add: assms(2))

lemma shape_set_flag:
  assumes "shape_ok s" "busy_flag s i \<noteq> None"
  shows "shape_ok (set_flag i b s)"
proof (cases "find_context_by_id i (sys_pool s)")
  case None
  then have "i \<in> hkeys (sys_gone s)"
    using assms(2) by (simp add: busy_flag_def hkeys_iff)
  then have "insert i (hkeys (sys_gone s)) = hkeys (sys_gone s)" by blast
  then show ?thesis
    using None assms(1) by (simp add: shape_ok_def set_flag_def)
next
  case (Some c)
  then show ?thesis
    using shape_update [OF assms(1), of "mark_busy b" i] by (simp add: set_flag_def)
qed

lemma set_flag_fields [simp]:
  "sys_holders (set_flag i b s) = sys_holders s" "sys_recycling (set_flag i b s) = sys_recycling s"
  "sys_builders (set_flag i b s) = sys_builders s" "sys_used (set_flag i b s) = sys_used s"
  by (simp_all add: set_flag_def sys_update_def split: option.split)

lemma sys_update_fields [simp]:
  "sys_holders (sys_update i f s) = sys_holders s" "sys_recycling (sys_update i f s) = sys_recycling s"
  "sys_builders (sys_update i f s) = sys_builders s" "sys_used (sys_update i f s) = sys_used s"
  by (simp_all add: sys_update_def)

lemma busy_flag_holders [simp]: "busy_flag (s\<lparr>sys_holders := h\<rparr>) = busy_flag s"
  by (rule busy_flag_cong) simp_all

lemma inv_claim_handle:
  assumes "pool_inv s" "fresh_owner r s" "busy_flag s i = Some False"
  shows "pool_inv ((set_flag i True s)\<lparr>sys_holders := hput r i (sys_holders s)\<rparr>)"
proof -
  have "owners_ok ((set_flag i True s)\<lparr>sys_holders := hput r i (sys_holders s)\<rparr>)"
  proof (rule owners_claim)
    show "owners_ok s" "busy_flag s i \<noteq> Some True" "hget (sys_holders s) r = None"
      using assms by (simp_all add: pool_inv_def fresh_owner_def)
  qed (simp_all add: busy_flag_set)
  then show ?thesis
    using assms by (simp add: pool_inv_def shape_set_flag)
qed

lemma inv_served:
  assumes "pool_inv s"
  shows "pool_inv (sys_update i (count_request now) s)"
proof -
  have "owners_ok (sys_update i (count_request now) s)"
  proof (rule owners_same)
    show "owners_ok s" using assms by (simp add: pool_inv_def)
  qed (simp_all add: busy_flag_update)
  then show ?thesis
    using assms by (simp add: pool_inv_def shape_update)
qed

lemma inv_release:
  assumes "pool_inv s" "hget (sys_holders s) r = Some i"
  shows "pool_inv ((set_flag i False (sys_update i (stamp_last_used now) s))
    \<lparr>sys_holders := hdel r (sys_holders s)\<rparr>)"
proof -
  let ?u = "sys_update i (stamp_last_used now) s"
  have "i \<in> set (sys_owned s)"
    using hget_SomeD [OF assms(2)] by (force simp: sys_owned_def)
  then have "busy_flag ?u i = Some True"
    using assms(1) by (simp add: pool_inv_def owners_ok_def busy_flag_update)
  then have "shape_ok (set_flag i False ?u)"
    using assms(1) by (intro shape_set_flag shape_update) (simp_all add: pool_inv_def)
  moreover have "owners_ok ((set_flag i False ?u)\<lparr>sys_holders := hdel r (sys_holders s)\<rparr>)"
  proof (rule owners_release [OF _ assms(2)])
    show "owners_ok s" using assms(1) by (simp add: pool_inv_def)
  qed (simp_all add: busy_flag_set busy_flag_update)
  ultimately show ?thesis by (simp add: pool_inv_def)
qed

lemma inv_tick_reusable:
  assumes "pool_inv s" "monitor_reusable_claim now (sys_pool s) = (claimed, p')"
  shows "pool_inv (s\<lparr>sys_pool := p', sys_recycling := sys_recycling s @ map bc_id claimed\<rparr>)"
proof -
  let ?due = "\<lambda>c. should_recycle_context now (bp_lifecycle (sys_pool s)) c \<and> \<not> bc_busy c"
  let ?s' = "s\<lparr>sys_pool := p', sys_recycling := sys_recycling s @ map bc_id claimed\<rparr>"
  have cl: "claimed = filter ?due (sys_contexts s)"
    and p': "bp_contexts p' = map (\<lambda>c. if ?due c then mark_busy True c else c) (sys_contexts s)"
    "bp_pending p' = bp_pending (sys_pool s)" "bp_config p' = bp_config (sys_pool s)"
    using assms(2) by (auto simp: monitor_reusable_claim_def Let_def)
  have d: "distinct (map bc_id (sys_contexts s))" and sh: "shape_ok s" and ow: "owners_ok s"
    using assms(1) by (auto simp: pool_inv_def shape_ok_def)
  have ids: "map bc_id (bp_contexts p') = map bc_id (sys_contexts s)"
    by (simp add: p' comp_def if_distrib cong: if_cong)
  have "List.find (\<lambda>c. bc_id c = j) (map (\<lambda>c. if ?due c then mark_busy True c else c) cs) =
      map_option (\<lambda>c. if ?due c then mark_busy True c else c) (List.find (\<lambda>c. bc_id c = j) cs)" for j cs
    by (induction cs) auto
  then have fl: "busy_flag ?s' j = (if j \<in> bc_id ` set claimed then Some True else busy_flag s j)" for j
    using find_distinct [OF d]
    by (auto simp: busy_flag_def find_context_by_id_def p' cl dest: find_Some_id split: option.split)
  have idle: "busy_flag s j = Some False" if "j \<in> bc_id ` set claimed" for j
    using that busy_flag_pool [OF d] by (auto simp: cl)
  have "distinct (map bc_id claimed)"
    using d by (simp add: cl distinct_map_filter)
  moreover have "bc_id ` set claimed \<inter> set (sys_owned s) = {}"
    using idle ow by (force simp: owners_ok_def)
  moreover have "sys_owned ?s' = sys_owned s @ map bc_id claimed"
    by (simp add: sys_owned_def)
  ultimately have "owners_ok ?s'"
    using ow unfolding owners_ok_def fl by auto
  moreover have "shape_ok (s\<lparr>sys_pool := p'\<rparr>)"
    using sh ids p'(2,3) by (rule shape_same_ids)
  ultimately show ?thesis by (simp add: pool_inv_def)
qed

lemma inv_destroy:
  assumes "pool_inv s" "destroy_context i (sys_pool s) = (removed, p')"
  shows "pool_inv (s\<lparr>sys_pool := p', sys_gone := to_gone removed (sys_gone s)\<rparr>)"
proof -
  have "removed = filter (\<lambda>c. \<not> bc_id c \<noteq> i) (sys_contexts s)"
    using assms(2) by (simp add: destroy_context_def)
  with inv_remove [OF assms(1), of p' "\<lambda>c. bc_id c \<noteq> i"] assms(2) show ?thesis
    by (auto simp: destroy_context_def)
qed

lemma inv_tick_always_new:
  assumes "pool_inv s" "monitor_always_new (sys_pool s) = (leaked, p')"
  shows "pool_inv (s\<lparr>sys_pool := p', sys_gone := to_gone leaked (sys_gone s)\<rparr>)"
  using inv_remove [OF assms(1), of p' bc_busy] assms(2)
  by (auto simp: monitor_always_new_def reclaim_leaked_always_new_contexts_def)

lemma inv_tick_dedicated:
  assumes "pool_inv s" "monitor_dedicated now (sys_pool s) = (expired, p')"
  shows "pool_inv (s\<lparr>sys_pool := p', sys_gone := to_gone expired (sys_gone s)\<rparr>)"
proof -
  let ?keep = "\<lambda>c. \<not> (\<not> bc_busy c \<and> should_recycle_context now (bp_lifecycle (sys_pool s)) c)"
  have "expired = filter (\<lambda>c. \<not> ?keep c) (sys_contexts s)"
    and "bp_contexts p' = filter ?keep (sys_contexts s)"
    and "bp_pending p' = bp_pending (sys_pool s)" "bp_config p' = bp_config (sys_pool s)"
    using assms(2) by (auto simp: monitor_dedicated_def Let_def)
  with inv_remove [OF assms(1), of p' ?keep] show ?thesis by simp
qed

lemma inv_end_session:
  assumes "pool_inv s" "end_session_if_used_up now c (sys_pool s) = (True, p')"
  shows "pool_inv (s\<lparr>sys_pool := p', sys_gone := hput (bc_id c) True (sys_gone s)\<rparr>)"
proof -
  obtain d where d: "find_context_by_id (bc_id c) (sys_pool s) = Some d"
    and p': "p' = snd (destroy_context (bc_id c) (sys_pool s))"
    using assms(2) by (auto simp: end_session_if_used_up_def split: if_splits option.splits)
  then have "d \<in> set (sys_contexts s)" "bc_id d = bc_id c"
    by (auto simp: find_context_by_id_def dest: find_Some_id)
  with inv_remove_claimed [OF assms(1), of d p'] show ?thesis
    by (simp add: p' destroy_context_def)
qed

lemma inv_dedicated:
  assumes "pool_inv s" "acquire_dedicated (sys_pool s) = (acq, p')"
  shows "pool_inv (after_acquisition r acq (s\<lparr>sys_pool := p'\<rparr>))"
  using assms inv_reserve [OF assms(1), of r]
  by (auto simp: acquire_dedicated_def after_acquisition_def not_le split: if_splits)

lemma inv_always_new:
  assumes "pool_inv s" "acquire_always_new (sys_pool s) = (acq, leaked, p')"
  shows "pool_inv (after_acquisition r acq
    (s\<lparr>sys_pool := p', sys_gone := to_gone leaked (sys_gone s)\<rparr>))"
proof -
  let ?q = "(sys_pool s)\<lparr>bp_contexts := filter bc_busy (sys_contexts s)\<rparr>"
  let ?s = "s\<lparr>sys_pool := ?q, sys_gone := to_gone leaked (sys_gone s)\<rparr>"
  have leaked: "leaked = filter (\<lambda>c. \<not> bc_busy c) (sys_contexts s)"
    using assms(2)
    by (auto simp: acquire_always_new_def reclaim_leaked_always_new_contexts_def Let_def split: if_splits)
  have i: "pool_inv ?s"
    unfolding leaked by (rule inv_remove [OF assms(1)]) simp_all
  show ?thesis
  proof (cases "occupied_slots ?q < bp_max (sys_pool s)")
    case True
    then have "acq = Acq_Build" "p' = take_reservation ?q"
      using assms(2)
      by (auto simp: acquire_always_new_def reclaim_leaked_always_new_contexts_def Let_def)
    moreover have "pool_inv (?s\<lparr>sys_pool := take_reservation (sys_pool ?s), sys_builders := r # sys_builders ?s\<rparr>)"
      using inv_reserve [OF i] True by simp
    from this show ?thesis
      by (rule back_subst [of pool_inv]) (simp add: after_acquisition_def calculation)
  next
    case False
    then have "acq = Acq_Full" "p' = ?q"
      using assms(2)
      by (auto simp: acquire_always_new_def reclaim_leaked_always_new_contexts_def Let_def)
    with i show ?thesis by (simp add: after_acquisition_def)
  qed
qed

lemma ids_replace:
  "i \<in> bc_id ` set cs \<Longrightarrow>
   bc_id ` set (update_context i (\<lambda>_. new) cs) = insert (bc_id new) (bc_id ` set cs - {i})"
  unfolding update_context_def by (force simp: image_iff)

lemma distinct_replace:
  assumes "distinct (map bc_id cs)" "bc_id new \<notin> bc_id ` set cs"
  shows "distinct (map bc_id (update_context i (\<lambda>_. new) cs))"
proof -
  let ?f = "\<lambda>j. if j = i then bc_id new else j"
  have "map bc_id (update_context i (\<lambda>_. new) cs) = map ?f (map bc_id cs)"
    by (simp add: update_context_def)
  moreover have "inj_on ?f (set (map bc_id cs))"
    using assms(2) unfolding set_map inj_on_def by metis
  ultimately show ?thesis
    using assms(1) by (simp add: distinct_map comp_inj_on)
qed

lemma inv_swap:
  assumes "pool_inv s" "bc_id old \<in> set (sys_recycling s)" "bc_id new \<notin> sys_used s" "\<not> bc_busy new"
    and "monitor_reusable_swap old new (sys_pool s) = Some p'"
  shows "pool_inv (s\<lparr>sys_pool := p', sys_gone := hput (bc_id old) True (sys_gone s),
    sys_recycling := remove1 (bc_id old) (sys_recycling s),
    sys_used := insert (bc_id new) (sys_used s)\<rparr>)"
proof -
  let ?s' = "s\<lparr>sys_pool := p', sys_gone := hput (bc_id old) True (sys_gone s),
    sys_recycling := remove1 (bc_id old) (sys_recycling s),
    sys_used := insert (bc_id new) (sys_used s)\<rparr>"
  have sh: "shape_ok s" and ow: "owners_ok s"
    using assms(1) by (simp_all add: pool_inv_def)
  have p': "bp_contexts p' = update_context (bc_id old) (\<lambda>_. new) (sys_contexts s)"
    "bp_pending p' = bp_pending (sys_pool s)" "bp_config p' = bp_config (sys_pool s)"
    and old_in: "bc_id old \<in> bc_id ` set (sys_contexts s)"
    using assms(5) by (auto simp: monitor_reusable_swap_def image_iff eq_commute split: if_splits)
  have d: "distinct (map bc_id (sys_contexts s))"
    and new: "bc_id new \<notin> bc_id ` set (sys_contexts s)" "bc_id new \<notin> hkeys (sys_gone s)"
    and old_gone: "bc_id old \<notin> hkeys (sys_gone s)"
    using sh assms(3) old_in by (auto simp: shape_ok_def)
  have ne: "bc_id new \<noteq> bc_id old" using new old_in by auto
  have ids: "bc_id ` set (bp_contexts p') = insert (bc_id new) (bc_id ` set (sys_contexts s) - {bc_id old})"
    using ids_replace [OF old_in] by (simp add: p')
  have dist: "distinct (map bc_id (update_context i (\<lambda>_. new) cs))"
    if "distinct (map bc_id cs)" "bc_id new \<notin> bc_id ` set cs" for i cs
    using distinct_replace [OF that] .
  have fnd: "List.find (\<lambda>c. bc_id c = j) (update_context i (\<lambda>_. new) cs) =
      (if j = i then None else List.find (\<lambda>c. bc_id c = j) cs)" if "j \<noteq> bc_id new" for j i cs
    using that by (induction cs) (auto simp: update_context_def)
  have fl: "busy_flag ?s' j = (if j = bc_id old then Some True else busy_flag s j)"
    if "j \<noteq> bc_id new" for j
    using that old_in by (auto simp: busy_flag_def find_context_by_id_def p' fnd split: option.split)
  have none: "busy_flag s (bc_id new) = None"
    using new by (simp add: busy_flag_def find_context_by_id_def hget_None_iff)
  have "owners_ok ?s'"
    unfolding owners_ok_def
  proof (intro conjI ballI)
    show "hmap_ok (sys_holders ?s')" "distinct (sys_owned ?s')"
      using ow by (auto simp: owners_ok_def sys_owned_def)
    fix i assume "i \<in> set (sys_owned ?s')"
    then have "i \<in> set (sys_owned s)" by (auto simp: sys_owned_def dest: notin_set_remove1)
    then have "busy_flag s i = Some True" using ow by (simp add: owners_ok_def)
    moreover from this none have "i \<noteq> bc_id new" by auto
    ultimately show "busy_flag ?s' i = Some True" using fl [of i] by (simp split: if_splits)
  qed
  moreover have "shape_ok ?s'"
    using sh dist [OF d new(1)] ids new ne old_in
    by (auto simp: shape_ok_def p' occupied_slots_def)
  ultimately show ?thesis by (simp add: pool_inv_def)
qed

lemma inv_swap_gone:
  assumes "pool_inv s"
  shows "pool_inv (s\<lparr>sys_recycling := remove1 i (sys_recycling s), sys_used := insert j (sys_used s)\<rparr>)"
proof -
  let ?s' = "s\<lparr>sys_recycling := remove1 i (sys_recycling s), sys_used := insert j (sys_used s)\<rparr>"
  have "busy_flag ?s' = busy_flag s"
    by (rule busy_flag_cong) simp_all
  then show ?thesis
    using assms by (auto simp: pool_inv_def shape_ok_def owners_ok_def sys_owned_def
        dest: notin_set_remove1)
qed

text \<open>Who owns a reservation and who holds a context are different requests.\<close>

definition roles_ok :: "pool_sys \<Rightarrow> bool" where
  "roles_ok s \<longleftrightarrow>
     distinct (sys_builders s) \<and> set (sys_builders s) \<inter> hkeys (sys_holders s) = {}"

lemma roles_after_acquisition:
  assumes "roles_ok s" "fresh_owner r s" "sys_holders s' = sys_holders s" "sys_builders s' = sys_builders s"
  shows "roles_ok (after_acquisition r acq s')"
  using assms
  by (cases acq) (auto simp: roles_ok_def after_acquisition_def fresh_owner_def hget_None_iff)

lemma roles_step:
  assumes "roles_ok s" "pool_next e s = Some s'"
  shows "roles_ok s'"
proof (cases e)
  case (Ev_Optimistic r now lost params origin)
  with assms show ?thesis
    by (auto simp: roles_ok_def fresh_owner_def hget_None_iff split: if_splits option.splits prod.splits)
next
  case (Ev_Built r b)
  with assms show ?thesis
    by (auto simp: roles_ok_def split: if_splits sum.splits prod.splits dest: notin_set_remove1)
next
  case (Ev_Release r now)
  with assms show ?thesis
    by (auto simp: roles_ok_def split: option.splits)
next
  case (Ev_ClaimHandle r i)
  with assms show ?thesis
    by (auto simp: roles_ok_def fresh_owner_def hget_None_iff split: if_splits)
next
  case (Ev_Locked r now lost params origin)
  with assms show ?thesis
    by (auto split: if_splits prod.splits intro!: roles_after_acquisition)
next
  case (Ev_Dedicated r)
  with assms show ?thesis
    by (auto split: if_splits prod.splits intro!: roles_after_acquisition)
next
  case (Ev_AlwaysNew r)
  with assms show ?thesis
    by (auto split: if_splits prod.splits intro!: roles_after_acquisition)
qed (use assms in \<open>auto simp: roles_ok_def sys_update_def split: if_splits option.splits prod.splits bool.splits\<close>)

theorem pool_step_inv:
  assumes "pool_inv s" "roles_ok s" "pool_next e s = Some s'"
  shows "pool_inv s'"
proof (cases e)
  case (Ev_Optimistic r now lost params origin)
  show ?thesis
  proof (cases "acquire_optimistic now lost params origin (sys_pool s)")
    case (Pair res p')
    then show ?thesis
    proof (cases rule: acquire_optimistic_cases)
      case 1
      then show ?thesis using assms Ev_Optimistic Pair by (simp split: if_splits)
    next
      case (2 c)
      then show ?thesis
        using assms Ev_Optimistic Pair inv_claim [OF assms(1) 2(3,4)] by (auto split: if_splits)
    qed
  qed
next
  case (Ev_Locked r now lost params origin)
  then show ?thesis
    using assms inv_after_acquisition [OF assms(1)] by (auto split: if_splits prod.splits)
next
  case (Ev_Dedicated r)
  then show ?thesis
    using assms inv_dedicated [OF assms(1)] by (auto split: if_splits prod.splits)
next
  case (Ev_AlwaysNew r)
  then show ?thesis
    using assms inv_always_new [OF assms(1)] by (auto split: if_splits prod.splits)
next
  case (Ev_Built r built)
  then have r: "r \<in> set (sys_builders s)"
    using assms(3) by (simp split: if_splits)
  then have "hget (sys_holders s) r = None"
    using assms(2) by (auto simp: roles_ok_def hget_None_iff)
  then have f: "fresh_owner r (s\<lparr>sys_builders := []\<rparr>)"
    by (simp add: fresh_owner_def)
  show ?thesis
  proof (cases built)
    case (Inl err)
    with Ev_Built r assms inv_build_failed [OF assms(1) r] show ?thesis
      by (auto simp: build_reserved_context_def)
  next
    case (Inr c)
    with Ev_Built r assms inv_built [OF assms(1) r f] show ?thesis
      by (auto simp: build_reserved_context_def Let_def split: if_splits)
  qed
next
  case (Ev_ClaimHandle r i)
  then show ?thesis
    using assms inv_claim_handle [OF assms(1)] by (auto split: if_splits)
next
  case (Ev_Served r now)
  then show ?thesis
    using assms inv_served by (auto split: option.splits)
next
  case (Ev_Release r now)
  then show ?thesis
    using assms inv_release by (auto split: option.splits)
next
  case (Ev_Destroy i)
  then show ?thesis
    using assms inv_destroy by (auto split: prod.splits)
next
  case (Ev_EndSession now c)
  then show ?thesis
    using assms inv_end_session by (auto split: prod.splits bool.splits)
next
  case Ev_TickAlwaysNew
  then show ?thesis
    using assms inv_tick_always_new by (auto split: prod.splits)
next
  case (Ev_TickDedicated now)
  then show ?thesis
    using assms inv_tick_dedicated by (auto split: prod.splits)
next
  case (Ev_TickReusable now)
  then show ?thesis
    using assms inv_tick_reusable by (auto split: prod.splits)
next
  case (Ev_Swap old new)
  then show ?thesis
    using assms inv_swap [OF assms(1)] inv_swap_gone [OF assms(1)]
    by (auto split: if_splits option.splits)
qed

section \<open>Reachable states\<close>

lemma pool_init_inv:
  assumes "distinct (map bc_id (bp_contexts p))" "length (bp_contexts p) \<le> bp_max p" "bp_pending p = 0"
  shows "pool_inv (sys_init p)" "roles_ok (sys_init p)"
  using assms by (simp_all add: pool_inv_def roles_ok_def shape_ok_def owners_ok_def sys_init_def
      sys_owned_def occupied_slots_def hkeys_def)

lemma pool_reachable_inv:
  assumes "pool_reachable p s" "pool_inv (sys_init p)" "roles_ok (sys_init p)"
  shows "pool_inv s \<and> roles_ok s"
  using assms by (induction rule: pool_reachable.induct) (auto intro: pool_step_inv roles_step)

lemma pool_run_reachable:
  "pool_reachable p s \<Longrightarrow> pool_run es s = Some s' \<Longrightarrow> pool_reachable p s'"
  by (induction es arbitrary: s) (auto intro: pool_reachable.step split: Option.bind_splits)

lemma pool_start_inv:
  assumes "sc_min_contexts config \<le> sc_max_contexts config" "distinct (map bc_id built)"
  shows "pool_inv (sys_init (pool_start config built))" "roles_ok (sys_init (pool_start config built))"
proof -
  let ?p = "pool_start config built"
  have "distinct (map bc_id (bp_contexts ?p)) \<and> length (bp_contexts ?p) \<le> bp_max ?p \<and> bp_pending ?p = 0"
    using assms distinct_take [OF assms(2), of "sc_min_contexts config"]
    by (auto simp: pool_start_def populate_initial_contexts_def Let_def take_map)
  then show "pool_inv (sys_init ?p)" "roles_ok (sys_init ?p)"
    by (simp_all add: pool_init_inv)
qed

end
