(* ===== verification/Pool_Props.thy ===== *)
theory Pool_Props
  imports Pool_Steps
begin

text \<open>
  The properties of the pool: what concurrent use cannot break, when a request is admitted, what the
  statistics the coordinator routes on mean, and how the slots of idle sessions come back.
\<close>

section \<open>A concrete pool\<close>

definition sample_scope :: "session_mode \<Rightarrow> nat \<Rightarrow> nat \<Rightarrow> scope_config" where
  "sample_scope mode min_contexts max_contexts =
     \<lparr>sc_name = ''scope'', sc_proxy_provider = no_proxy_provider, sc_min_contexts = min_contexts,
      sc_max_contexts = max_contexts, sc_session_mode = mode, sc_headless = True,
      sc_lifecycle = lifecycle_default, sc_diagnostics = diagnostics_default,
      sc_context_isolation = Isolated, sc_destroy_session_on_block = False,
      sc_block_quarantine = 0, sc_disable_back_forward_cache = False,
      sc_close_tab_after_request = False, sc_challenge_detectors = 0\<rparr>"

definition sample_context :: "string \<Rightarrow> millis \<Rightarrow> browser_context" where
  "sample_context i now =
     \<lparr>metadata = context_meta_new i now, tab = None, cdp_context_id = None, proxy_host = None,
      site = None\<rparr>"

lemmas sample_defs = sample_scope_def sample_context_def context_meta_new_def lifecycle_default_def
  no_proxy_provider_def provider_defaults_def DEFAULT_MAX_IDLE_TIME_SECS_def

lemmas pool_eval = sample_defs pool_start_def populate_initial_contexts_def sys_init_def fresh_owner_def
  acquire_optimistic_def acquire_locked_def proxy_params_default_def requires_dedicated_context_def
  has_overrides_def claim_least_used_idle_def least_used_candidates_def first_claimed_def try_claim_def
  is_used_up_def is_used_up_at_def claim_in_pool_def update_context_def mark_busy_def
  after_acquisition_def occupied_slots_def take_reservation_def drop_reservation_def
  build_reserved_context_def set_flag_def find_context_by_id_def sys_update_def stamp_last_used_def
  hput_def hget_def hdel_def Let_def

lemma sample_scope_valid:
  "lo \<le> hi \<Longrightarrow> 0 < hi \<Longrightarrow> \<exists>ws. validate_scope (sample_scope mode lo hi) = Inr ws"
  by (auto simp: validate_scope_def validate_errors_def sample_defs Let_def)

section \<open>Concurrent use\<close>

lemma pool_next_config:
  assumes "pool_next e s = Some s'"
  shows "bp_config (sys_pool s') = bp_config (sys_pool s)"
proof (cases e)
  case (Ev_Optimistic r now lost params origin)
  with assms show ?thesis
    by (auto simp: acquire_optimistic_def claim_in_pool_def split: if_splits option.splits prod.splits)
next
  case (Ev_Locked r now lost params origin)
  obtain acq p' where a: "acquire_locked now lost params origin (sys_pool s) = (acq, p')"
    by (cases "acquire_locked now lost params origin (sys_pool s)")
  then have "bp_config p' = bp_config (sys_pool s)"
    by (cases rule: acquire_locked_cases) (simp_all add: claim_in_pool_def take_reservation_def)
  with a assms Ev_Locked show ?thesis
    by (auto simp: after_acquisition_def split: if_splits acquisition.splits)
next
  case (Ev_Dedicated r)
  with assms show ?thesis
    by (auto simp: acquire_dedicated_def after_acquisition_def take_reservation_def split: if_splits)
next
  case (Ev_AlwaysNew r)
  with assms show ?thesis
    by (auto simp: acquire_always_new_def after_acquisition_def take_reservation_def Let_def
        reclaim_leaked_always_new_contexts_def split: if_splits)
next
  case (Ev_Built r b)
  with assms show ?thesis
    by (auto simp: build_reserved_context_def drop_reservation_def Let_def split: if_splits sum.splits)
next
  case (Ev_EndSession now c)
  with assms show ?thesis
    by (auto simp: end_session_if_used_up_def destroy_context_def split: if_splits option.splits bool.splits
        prod.splits)
next
  case (Ev_Swap old new)
  with assms show ?thesis
    by (auto simp: monitor_reusable_swap_def split: if_splits option.splits)
qed (use assms in \<open>auto simp: set_flag_def sys_update_def destroy_context_def monitor_always_new_def
      reclaim_leaked_always_new_contexts_def monitor_dedicated_def monitor_reusable_claim_def Let_def
      split: if_splits option.splits\<close>)

lemma pool_reachable_config:
  "pool_reachable p s \<Longrightarrow> bp_config (sys_pool s) = bp_config p"
  by (induction rule: pool_reachable.induct) (simp_all add: sys_init_def pool_next_config)

lemma pool_start_config [simp]: "bp_config (pool_start config built) = config"
  by (simp add: pool_start_def populate_initial_contexts_def Let_def)

text \<open>
  C4: whatever requests, session continuations and lifecycle-monitor ticks do concurrently on the pool
  of a validated scope, in any order and with any lost races, contexts in the pool plus reserved slots
  never exceed \<open>max_contexts\<close>, the reserved slots are exactly those whose builder is still at work,
  context ids stay distinct, and no context is ever held by two requests or by a request and the
  monitor at once: every owned context has its busy flag set.
\<close>
theorem pool_concurrent_safety:
  assumes "validate_scope config = Inr ws" "distinct (map bc_id built)"
    and "pool_reachable (pool_start config built) s"
  shows "length (sys_contexts s) + length (sys_builders s) \<le> sc_max_contexts config \<and>
    bp_pending (sys_pool s) = length (sys_builders s) \<and> distinct (map bc_id (sys_contexts s)) \<and>
    distinct (map snd (sys_holders s) @ sys_recycling s) \<and>
    (\<forall>i \<in> snd ` set (sys_holders s) \<union> set (sys_recycling s). busy_flag s i = Some True)"
proof -
  have "sc_min_contexts config \<le> sc_max_contexts config"
    using validate_scope_ok [OF assms(1)] by simp
  then have "pool_inv s"
    using pool_reachable_inv [OF assms(3)] pool_start_inv assms(2) by blast
  then show ?thesis
    using pool_reachable_config [OF assms(3)]
    by (auto simp: pool_inv_def shape_ok_def owners_ok_def sys_owned_def occupied_slots_def)
qed

definition sample_run :: "pool_event list" where
  "sample_run =
     [Ev_Optimistic 1 5 {} proxy_params_default None, Ev_Locked 2 5 {} proxy_params_default None,
      Ev_Built 2 (Inr (sample_context ''b'' 6)), Ev_Release 1 9]"

lemma sample_run_state:
  "\<exists>s. pool_run sample_run (sys_init (pool_start (sample_scope Reusable 1 2) [sample_context ''a'' 0]))
     = Some s \<and> sys_holders s = [(2, ''b'')]"
  by (simp add: sample_run_def pool_eval)

lemma sample_reachable:
  "\<exists>s. pool_reachable (pool_start (sample_scope Reusable 1 2) [sample_context ''a'' 0]) s \<and>
     sys_holders s = [(2, ''b'')]"
  using sample_run_state by (metis pool_reachable.start pool_run_reachable)

lemma pool_concurrent_safety_witness:
  "\<exists>s. sys_holders s = [(2, ''b'')] \<and> length (sys_contexts s) + length (sys_builders s) \<le> 2 \<and>
     busy_flag s ''b'' = Some True"
proof -
  obtain s where s: "pool_reachable (pool_start (sample_scope Reusable 1 2) [sample_context ''a'' 0]) s"
    "sys_holders s = [(2, ''b'')]"
    using sample_reachable by blast
  obtain ws where "validate_scope (sample_scope Reusable 1 2) = Inr ws"
    using sample_scope_valid [of 1 2] by auto
  from pool_concurrent_safety [OF this _ s(1)] s(2) show ?thesis
    by (intro exI [of _ s]) (simp add: sample_scope_def)
qed

section \<open>Admission\<close>

lemma first_claimed_None:
  "(\<And>c. c \<in> set cs \<Longrightarrow> \<not> bc_busy c) \<Longrightarrow> first_claimed {} cs = None \<longleftrightarrow> cs = []"
  by (cases cs) (auto simp: first_claimed_def)

lemma filter_empty: "filter P xs = [] \<longleftrightarrow> (\<forall>x \<in> set xs. \<not> P x)"
  by (simp add: filter_empty_conv)

lemma sort_key_empty [simp]: "sort_key f xs = [] \<longleftrightarrow> xs = []"
  by (metis length_0_conv length_sort)

lemma claim_least_used_None:
  "claim_least_used_idle now lc {} origin cs = None \<longleftrightarrow>
   (\<forall>c \<in> set cs. bc_busy c \<or> is_used_up now lc c \<or>
      (\<exists>orig. origin = Some orig \<and> blocked_for now (metadata c) orig))"
  unfolding claim_least_used_idle_def least_used_candidates_def
  by (subst first_claimed_None) (auto simp: filter_empty split: option.splits)

lemma claim_soonest_None:
  "claim_soonest_unquarantined now lc {} origin cs = None \<longleftrightarrow>
   (\<forall>c \<in> set cs. bc_busy c \<or> is_used_up now lc c \<or> \<not> blocked_for now (metadata c) origin)"
  unfolding claim_soonest_unquarantined_def
  by (subst first_claimed_None) (auto simp: filter_empty)

lemma take_used_up_None:
  "take_used_up_idle now lc {} cs = None \<longleftrightarrow> (\<forall>c \<in> set cs. bc_busy c \<or> \<not> is_used_up now lc c)"
proof -
  have "take_used_up_idle now lc {} cs = None \<longleftrightarrow>
    first_claimed {} (sort_key (\<lambda>c. created_at (metadata c))
      (filter (\<lambda>c. \<not> bc_busy c \<and> is_used_up now lc c) cs)) = None"
    by (simp add: take_used_up_idle_def split: option.split)
  then show ?thesis
    by (subst (asm) first_claimed_None) (auto simp: filter_empty)
qed

lemma acquire_locked_Full:
  "fst (acquire_locked now {} params origin p) = Acq_Full \<longleftrightarrow>
     bp_max p \<le> occupied_slots p \<and>
     (\<forall>c \<in> set (bp_contexts p).
        bc_busy c \<or> (requires_dedicated_context params \<and> \<not> is_used_up now (bp_lifecycle p) c))"
proof (cases "requires_dedicated_context params")
  case True
  then show ?thesis
    using take_used_up_None [of now "bp_lifecycle p" "bp_contexts p"]
    by (auto simp: acquire_locked_def acquire_optimistic_def split: option.splits)
next
  case False
  let ?cs = "bp_contexts p" and ?lc = "bp_lifecycle p"
  show ?thesis
  proof (cases "claim_least_used_idle now ?lc {} origin ?cs")
    case (Some c)
    then have "c \<in> set ?cs" "\<not> bc_busy c" by (auto dest: claim_least_used_Some)
    with Some False show ?thesis
      by (auto simp: acquire_locked_def acquire_optimistic_def)
  next
    case None
    have "take_used_up_idle now ?lc {} ?cs = None \<and>
        (\<forall>orig. origin = Some orig \<longrightarrow> claim_soonest_unquarantined now ?lc {} orig ?cs = None) \<longleftrightarrow>
        (\<forall>c \<in> set ?cs. bc_busy c)" (is "?none \<longleftrightarrow> _")
    proof
      assume n: ?none
      show "\<forall>c \<in> set ?cs. bc_busy c"
      proof (rule ballI, rule ccontr)
        fix c assume c: "c \<in> set ?cs" "\<not> bc_busy c"
        with n have "\<not> is_used_up now ?lc c" by (auto simp: take_used_up_None)
        with None c obtain orig where "origin = Some orig" "blocked_for now (metadata c) orig"
          unfolding claim_least_used_None by auto
        with n c \<open>\<not> is_used_up now ?lc c\<close> show False by (auto simp: claim_soonest_None)
      qed
    qed (simp add: take_used_up_None claim_soonest_None)
    moreover have "fst (acquire_locked now {} params origin p) = Acq_Full \<longleftrightarrow>
        \<not> occupied_slots p < bp_max p \<and> take_used_up_idle now ?lc {} ?cs = None \<and>
        (\<forall>orig. origin = Some orig \<longrightarrow> claim_soonest_unquarantined now ?lc {} orig ?cs = None)"
      unfolding acquire_locked_def acquire_optimistic_def using None False
      by (cases "take_used_up_idle now ?lc {} ?cs"; cases origin)
        (simp_all split: option.split prod.split)
    ultimately show ?thesis
      using False by (simp add: not_less)
  qed
qed

lemma build_reserved_not_None [simp]:
  "map_sum id Some (fst (build_reserved_context built p)) \<noteq> Inr None"
  by (cases built) (simp_all add: build_reserved_context_def Let_def)

lemma get_or_create_None:
  "fst (get_or_create_context now params origin built p) = Inr None \<longleftrightarrow>
   fst (acquire_locked now {} params origin p) = Acq_Full"
proof (cases "acquire_optimistic now {} params origin p")
  case (Pair r p')
  then show ?thesis
  proof (cases rule: acquire_optimistic_cases)
    case 1
    then show ?thesis
      using Pair by (cases "acquire_locked now {} params origin p")
        (auto simp: get_or_create_context_def split: acquisition.splits)
  next
    case (2 c)
    then show ?thesis
      using Pair by (simp add: get_or_create_context_def acquire_locked_def)
  qed
qed

lemma refused_iff:
  "fst (get_or_create_context now params origin built p) = Inr None \<longleftrightarrow>
     bp_max p \<le> occupied_slots p \<and>
     (if requires_dedicated_context params
      then \<forall>c \<in> set (bp_contexts p). bc_busy c \<or> \<not> is_used_up now (bp_lifecycle p) c
      else \<forall>c \<in> set (bp_contexts p). bc_busy c)"
  unfolding get_or_create_None acquire_locked_Full by auto

lemma refused_unchanged:
  assumes "fst (get_or_create_context now params origin built p) = Inr None"
  shows "snd (get_or_create_context now params origin built p) = p"
proof -
  have full: "fst (acquire_locked now {} params origin p) = Acq_Full"
    using assms by (simp add: get_or_create_None)
  obtain acq p' where l: "acquire_locked now {} params origin p = (acq, p')" by fastforce
  have acq: "acq = Acq_Full"
    using full l by simp
  have same: "acq = Acq_Full \<and> p' = p"
    using l acq by (cases rule: acquire_locked_cases) simp_all
  show ?thesis
  proof (cases "acquire_optimistic now {} params origin p")
    case (Pair r p1)
    then show ?thesis
    proof (cases rule: acquire_optimistic_cases)
      case 1
      then show ?thesis using Pair l same by (simp add: get_or_create_context_def)
    next
      case (2 c)
      then show ?thesis using assms Pair by (simp add: get_or_create_context_def)
    qed
  qed
qed

text \<open>
  C19: an uncontended request without proxy overrides is refused only when it has to be: exactly when all
  slots are taken and every context is busy.  So quarantines and used-up contexts never turn into a
  refusal: a quarantined context is used when nothing else is left, and a used-up one gives its slot away.
  And a refusal leaves the pool as it was.
\<close>
theorem request_refused_only_when_full:
  assumes "\<not> requires_dedicated_context params"
  shows "(fst (get_or_create_context now params origin built p) = Inr None \<longleftrightarrow>
      bp_max p \<le> occupied_slots p \<and> (\<forall>c \<in> set (bp_contexts p). bc_busy c)) \<and>
    (fst (get_or_create_context now params origin built p) = Inr None \<longrightarrow>
      snd (get_or_create_context now params origin built p) = p)"
  using assms by (simp add: refused_iff refused_unchanged)

lemma request_refused_only_when_full_witness:
  "fst (get_or_create_context 5 proxy_params_default None (Inl '''')
     (pool_start (sample_scope Reusable 1 1) [mark_busy True (sample_context ''a'' 0)])) = Inr None"
  by (subst request_refused_only_when_full [THEN conjunct1])
    (simp_all add: pool_eval proxy_params_default_def requires_dedicated_context_def has_overrides_def)

text \<open>
  The documentation of \<open>get_or_create_context\<close> says it returns \<open>None\<close> "when every context is busy";
  with a country code it refuses while the only context of the pool is idle.
\<close>

lemma country_request_starved:
  "fst (get_or_create_context 5 (with_country ''DE'') None built
     (pool_start (sample_scope Reusable 1 1) [sample_context ''a'' 0])) = Inr None \<and>
   bp_contexts (pool_start (sample_scope Reusable 1 1) [sample_context ''a'' 0]) = [sample_context ''a'' 0] \<and>
   \<not> bc_busy (sample_context ''a'' 0)"
  by (simp add: get_or_create_None acquire_locked_Full with_country_def take_used_up_idle_def pool_eval)

section \<open>Statistics\<close>

lemma length_filter_all:
  "length (filter P xs) = length xs \<longleftrightarrow> (\<forall>x \<in> set xs. P x)"
  using length_filter_less [of _ xs P] by (metis filter_True less_irrefl)

text \<open>Whether a pool admits one more request, by the operation its mode uses.\<close>

definition pool_admits :: "millis \<Rightarrow> string option \<Rightarrow> browser_pool \<Rightarrow> bool" where
  "pool_admits now origin p =
     (case sc_session_mode (bp_config p) of
        AlwaysNew \<Rightarrow> fst (acquire_always_new p) \<noteq> Acq_Full
      | Reusable \<Rightarrow> fst (acquire_locked now {} proxy_params_default origin p) \<noteq> Acq_Full
      | Dedicated \<Rightarrow> fst (acquire_dedicated p) \<noteq> Acq_Full)"

text \<open>
  C18: the statistics a worker reports are honest.  In every session mode, for a request without proxy
  overrides on a pool within its limit, \<open>available_slots\<close> is positive exactly when the pool would admit
  one more request, so the coordinator neither skips a worker that could serve nor sends to one that
  must refuse; and claimed slots are never fewer than the requests in progress, nor more than the
  slots the pool has.
\<close>
theorem available_slots_honest:
  assumes "occupied_slots p \<le> bp_max p"
  shows "(0 < ps_available_slots (pool_get_stats p) \<longleftrightarrow> pool_admits now origin p) \<and>
    ps_active_requests (pool_get_stats p) \<le> ps_claimed_contexts (pool_get_stats p) \<and>
    ps_claimed_contexts (pool_get_stats p) + ps_available_slots (pool_get_stats p) = ps_total_slots (pool_get_stats p)"
proof -
  obtain b where b: "length (filter bc_busy (bp_contexts p)) = b" "b \<le> length (bp_contexts p)"
    by simp
  have all: "(\<forall>c \<in> set (bp_contexts p). bc_busy c) \<longleftrightarrow> b = length (bp_contexts p)"
    using b(1) length_filter_all [of bc_busy "bp_contexts p"] by simp
  have limit: "length (bp_contexts p) + bp_pending p \<le> bp_max p"
    using assms by (simp add: occupied_slots_def)
  show ?thesis
  proof (cases "sc_session_mode (bp_config p)")
    case AlwaysNew
    with b limit show ?thesis
      by (auto simp: pool_get_stats_def pool_admits_def acquire_always_new_def Let_def
          occupied_slots_def reclaim_leaked_always_new_contexts_def)
  next
    case Reusable
    have "pool_admits now origin p \<longleftrightarrow> \<not> (bp_max p \<le> occupied_slots p \<and> b = length (bp_contexts p))"
      using Reusable all by (simp add: pool_admits_def acquire_locked_Full proxy_params_default_def
          requires_dedicated_context_def has_overrides_def)
    with Reusable b(2) limit show ?thesis
      by (auto simp: pool_get_stats_def Let_def occupied_slots_def b(1))
  next
    case Dedicated
    with b limit show ?thesis
      by (auto simp: pool_get_stats_def pool_admits_def acquire_dedicated_def Let_def occupied_slots_def)
  qed
qed

lemma available_slots_honest_witness:
  "0 < ps_available_slots (pool_get_stats (pool_start (sample_scope Reusable 1 2) [sample_context ''a'' 0])) \<longleftrightarrow>
   pool_admits 5 None (pool_start (sample_scope Reusable 1 2) [sample_context ''a'' 0])"
  using available_slots_honest [of "pool_start (sample_scope Reusable 1 2) [sample_context ''a'' 0]" 5 None]
  by (simp add: pool_start_def populate_initial_contexts_def sample_scope_def occupied_slots_def Let_def)

section \<open>What is handed out\<close>

lemma least_used_first:
  assumes "c \<in> set (least_used_candidates now lc origin cs)"
  obtains d rest where "least_used_candidates now lc origin cs = d # rest"
    "bc_requests d \<le> bc_requests c"
proof -
  have "sorted (map bc_requests (least_used_candidates now lc origin cs))"
    by (simp add: least_used_candidates_def)
  with assms show thesis
    using that by (cases "least_used_candidates now lc origin cs") auto
qed

lemma claim_least_used_first:
  "claim_least_used_idle now lc {} origin cs = select_least_used_idle now lc origin cs"
proof -
  have "\<not> bc_busy c" if "least_used_candidates now lc origin cs = c # rest" for c rest
  proof -
    have "c \<in> set (least_used_candidates now lc origin cs)" by (simp add: that)
    then show ?thesis by (simp add: least_used_candidates_def)
  qed
  then show ?thesis
    by (cases "least_used_candidates now lc origin cs")
      (simp_all add: claim_least_used_idle_def select_least_used_idle_def first_claimed_def)
qed

lemma acquire_optimistic_best:
  assumes "acquire_optimistic now {} params origin p = (Some c, p')"
  obtains d where "c = mark_busy True d" "p' = claim_in_pool (bc_id d) p" "d \<in> set (bp_contexts p)"
    "\<not> bc_busy d" "\<not> is_used_up now (bp_lifecycle p) d" "\<not> requires_dedicated_context params"
    "\<And>e. e \<in> set (least_used_candidates now (bp_lifecycle p) origin (bp_contexts p)) \<Longrightarrow>
       bc_requests d \<le> bc_requests e"
proof -
  obtain d where d: "claim_least_used_idle now (bp_lifecycle p) {} origin (bp_contexts p) = Some d"
    "c = mark_busy True d" "p' = claim_in_pool (bc_id d) p" "\<not> requires_dedicated_context params"
    using assms by (auto simp: acquire_optimistic_def split: if_splits option.splits)
  show thesis
  proof (rule that [OF d(2,3)])
    show "d \<in> set (bp_contexts p)" "\<not> bc_busy d" "\<not> is_used_up now (bp_lifecycle p) d"
      using claim_least_used_Some [OF d(1)] by auto
    show "\<not> requires_dedicated_context params" by (rule d(4))
    fix e assume "e \<in> set (least_used_candidates now (bp_lifecycle p) origin (bp_contexts p))"
    then show "bc_requests d \<le> bc_requests e"
      using d(1) by (elim least_used_first) (simp add: claim_least_used_first select_least_used_idle_def)
  qed
qed

lemma acquire_locked_reuse:
  assumes "acquire_locked now {} params origin p = (Acq_Reuse c, p')"
  obtains d where "c = mark_busy True d" "p' = claim_in_pool (bc_id d) p" "d \<in> set (bp_contexts p)"
    "\<not> bc_busy d" "\<not> is_used_up now (bp_lifecycle p) d" "\<not> requires_dedicated_context params"
    "\<And>e. e \<in> set (least_used_candidates now (bp_lifecycle p) origin (bp_contexts p)) \<Longrightarrow>
       bc_requests d \<le> bc_requests e"
proof -
  obtain r q where o: "acquire_optimistic now {} params origin p = (r, q)"
    by (cases "acquire_optimistic now {} params origin p")
  show thesis
  proof (cases r)
    case (Some x)
    with o assms have "acquire_optimistic now {} params origin p = (Some c, p')"
      by (simp add: acquire_locked_def)
    then show thesis
      by (rule acquire_optimistic_best) (rule that)
  next
    case None
    have a: "\<not> requires_dedicated_context params" 
      "\<exists>orig. origin = Some orig \<and> (\<exists>d. claim_soonest_unquarantined now (bp_lifecycle p) {} orig (bp_contexts p) = Some d
         \<and> c = mark_busy True d \<and> p' = claim_in_pool (bc_id d) p)"
      using assms o None by (auto simp: acquire_locked_def split: if_splits option.splits)
    then obtain orig d where
      d: "claim_soonest_unquarantined now (bp_lifecycle p) {} orig (bp_contexts p) = Some d"
      "c = mark_busy True d" "p' = claim_in_pool (bc_id d) p" by blast
    have "least_used_candidates now (bp_lifecycle p) origin (bp_contexts p) = []"
      using o None a(1) by (auto simp: acquire_optimistic_def claim_least_used_first
          select_least_used_idle_def split: option.splits list.splits)
    with d a(1) claim_soonest_Some [OF d(1)] show thesis
      by (intro that [of d]) auto
  qed
qed

text \<open>
  C21: the context handed to a request without overrides, when it is one the pool already had, is the
  right one: it was idle and is not used up, it now has its busy flag set and nothing else in the pool
  changed, it served no more requests than any other idle, not used-up context that the origin has not
  refused, and it is never handed to a request with a proxy override.
\<close>
theorem reused_context_is_best:
  assumes "get_or_create_context now params origin built p = (Inr (Some c), p')"
    and "bc_id c \<in> bc_id ` set (bp_contexts p)"
    and "case built of Inl _ \<Rightarrow> True | Inr b \<Rightarrow> bc_id b \<notin> bc_id ` set (bp_contexts p)"
  shows "\<exists>d \<in> set (bp_contexts p). c = mark_busy True d \<and> p' = claim_in_pool (bc_id d) p \<and>
    \<not> bc_busy d \<and> \<not> is_used_up now (bp_lifecycle p) d \<and> \<not> requires_dedicated_context params \<and>
    (\<forall>e \<in> set (bp_contexts p). \<not> bc_busy e \<and> \<not> is_used_up now (bp_lifecycle p) e \<and>
       (\<forall>orig. origin = Some orig \<longrightarrow> \<not> blocked_for now (metadata e) orig) \<longrightarrow>
       bc_requests d \<le> bc_requests e)"
proof -
  have cand: "e \<in> set (least_used_candidates now (bp_lifecycle p) origin (bp_contexts p)) \<longleftrightarrow>
      e \<in> set (bp_contexts p) \<and> \<not> bc_busy e \<and> \<not> is_used_up now (bp_lifecycle p) e \<and>
      (\<forall>orig. origin = Some orig \<longrightarrow> \<not> blocked_for now (metadata e) orig)" for e
    by (auto simp: least_used_candidates_def split: option.splits)
  obtain r q where o: "acquire_optimistic now {} params origin p = (r, q)"
    by (cases "acquire_optimistic now {} params origin p")
  show ?thesis
  proof (cases r)
    case (Some x)
    with o assms(1) have "acquire_optimistic now {} params origin p = (Some c, p')"
      by (simp add: get_or_create_context_def)
    then show ?thesis
      by (rule acquire_optimistic_best) (auto simp: cand)
  next
    case None
    with o have q: "q = p" by (auto elim: acquire_optimistic_cases)
    obtain acq p1 where l: "acquire_locked now {} params origin p = (acq, p1)"
      by (cases "acquire_locked now {} params origin p")
    have "acq = Acq_Reuse c \<and> p1 = p'"
    proof (rule ccontr)
      assume "\<not> ?thesis"
      with l o None q assms(1) obtain fresh where "built = Inr fresh" "bc_id c = bc_id fresh"
        by (auto simp: get_or_create_context_def build_reserved_context_def Let_def
            split: acquisition.splits sum.splits)
      with assms(2,3) show False by simp
    qed
    with l have "acquire_locked now {} params origin p = (Acq_Reuse c, p')" by simp
    then show ?thesis
      by (rule acquire_locked_reuse) (auto simp: cand)
  qed
qed

lemma reused_context_is_best_witness:
  "bc_requests (mark_busy True (sample_context ''a'' 0)) \<le> bc_requests (sample_context ''b'' 1) \<and>
   fst (get_or_create_context 5 proxy_params_default None (Inl '''')
     (pool_start (sample_scope Reusable 2 2) [sample_context ''a'' 0, sample_context ''b'' 1])) =
     Inr (Some (mark_busy True (sample_context ''a'' 0)))"
proof -
  let ?p = "pool_start (sample_scope Reusable 2 2) [sample_context ''a'' 0, sample_context ''b'' 1]"
  have ctx: "bp_contexts ?p = [sample_context ''a'' 0, sample_context ''b'' 1]"
    by (simp add: pool_start_def populate_initial_contexts_def sample_scope_def Let_def)
  obtain p' where p': "get_or_create_context 5 proxy_params_default None (Inl '''') ?p =
      (Inr (Some (mark_busy True (sample_context ''a'' 0))), p')"
    by (simp add: get_or_create_context_def pool_eval)
  have "\<exists>d \<in> set (bp_contexts ?p). mark_busy True (sample_context ''a'' 0) = mark_busy True d \<and>
      bc_requests d \<le> bc_requests (sample_context ''b'' 1)"
    using reused_context_is_best [OF p'] by (force simp: ctx pool_eval)
  then have "bc_requests (mark_busy True (sample_context ''a'' 0)) \<le> bc_requests (sample_context ''b'' 1)"
    by (auto simp: mark_busy_def sample_context_def context_meta_new_def)
  with p' show ?thesis by simp
qed

section \<open>Failures and idle sessions\<close>

lemma build_failed:
  "build_reserved_context (Inl e) (take_reservation p) = (Inl e, p)"
  by (simp add: build_reserved_context_def take_reservation_def drop_reservation_def)

text \<open>
  a context that could not be created costs no slot.  Whatever the session mode's operation, after
  an error the number of reserved slots is what it was, every context left in the pool was there
  before, unchanged, the only contexts missing are idle ones (leaked in \<open>always_new\<close>, used up in
  \<open>reusable\<close>), and the error returned is the error of the creation.
\<close>
theorem failed_creation_returns_slot:
  "(case get_or_create_context now params origin (Inl e) p of
      (Inl e', p') \<Rightarrow> e' = e \<and> bp_pending p' = bp_pending p \<and>
        (\<exists>P. bp_contexts p' = filter P (bp_contexts p) \<and>
           (\<forall>c \<in> set (bp_contexts p). P c \<or> (\<exists>d \<in> set (bp_contexts p).
              bc_id d = bc_id c \<and> \<not> bc_busy d \<and> is_used_up now (bp_lifecycle p) d)))
    | _ \<Rightarrow> True) \<and>
   (case create_dedicated_context (Inl e) p of (Inl e', p') \<Rightarrow> e' = e \<and> p' = p | _ \<Rightarrow> True) \<and>
   (case create_always_new_context (Inl e) p of
      (Inl e', p') \<Rightarrow> e' = e \<and> bp_pending p' = bp_pending p \<and>
        bp_contexts p' = filter bc_busy (bp_contexts p)
    | _ \<Rightarrow> True)"
proof (intro conjI)
  obtain r q where o: "acquire_optimistic now {} params origin p = (r, q)"
    by (cases "acquire_optimistic now {} params origin p")
  obtain acq p1 where l: "acquire_locked now {} params origin p = (acq, p1)"
    by (cases "acquire_locked now {} params origin p")
  show "case get_or_create_context now params origin (Inl e) p of
      (Inl e', p') \<Rightarrow> e' = e \<and> bp_pending p' = bp_pending p \<and>
        (\<exists>P. bp_contexts p' = filter P (bp_contexts p) \<and>
           (\<forall>c \<in> set (bp_contexts p). P c \<or> (\<exists>d \<in> set (bp_contexts p).
              bc_id d = bc_id c \<and> \<not> bc_busy d \<and> is_used_up now (bp_lifecycle p) d)))
    | _ \<Rightarrow> True"
  proof (cases r)
    case (Some x)
    with o show ?thesis by (simp add: get_or_create_context_def)
  next
    case None
    with o have q: "q = p" by (auto elim: acquire_optimistic_cases)
    from l show ?thesis
    proof (cases rule: acquire_locked_cases)
      case 2
      with l o None q have "get_or_create_context now params origin (Inl e) p = (Inl e, p)"
        by (simp add: get_or_create_context_def build_failed)
      then show ?thesis by (auto intro!: exI [of _ "\<lambda>_. True"])
    next
      case (3 c)
      with l o None q show ?thesis
        by (auto simp: get_or_create_context_def build_failed intro!: exI [of _ "\<lambda>d. bc_id d \<noteq> bc_id c"])
    qed (use l o None q in \<open>simp_all add: get_or_create_context_def\<close>)
  qed
  show "case create_dedicated_context (Inl e) p of (Inl e', p') \<Rightarrow> e' = e \<and> p' = p | _ \<Rightarrow> True"
    by (simp add: create_dedicated_context_def acquire_dedicated_def build_failed)
  show "case create_always_new_context (Inl e) p of
      (Inl e', p') \<Rightarrow> e' = e \<and> bp_pending p' = bp_pending p \<and>
        bp_contexts p' = filter bc_busy (bp_contexts p)
    | _ \<Rightarrow> True"
    by (simp add: create_always_new_context_def acquire_always_new_def Let_def build_failed
        reclaim_leaked_always_new_contexts_def)
qed

lemma failed_creation_returns_slot_witness:
  "snd (create_dedicated_context (Inl ''refused'') (pool_start (sample_scope Dedicated 0 1) [])) =
     pool_start (sample_scope Dedicated 0 1) []"
proof -
  obtain p' where p': "create_dedicated_context (Inl ''refused'') (pool_start (sample_scope Dedicated 0 1) []) =
      (Inl ''refused'', p')"
    by (simp add: create_dedicated_context_def acquire_dedicated_def pool_eval)
  from failed_creation_returns_slot [where now = 0 and params = proxy_params_default and origin = None
      and e = "''refused''" and p = "pool_start (sample_scope Dedicated 0 1) []"]
  show ?thesis unfolding p' by simp
qed

text \<open>
  the slot of an abandoned dedicated session comes back, and a busy session is never taken away.
  In a validated \<open>dedicated\<close> scope, at a monitor tick later than \<open>max_idle_time\<close> after an idle context's
  last request, that context is removed; the free slots grow by exactly the number of contexts
  removed; and every busy context stays in the pool.
\<close>
theorem idle_dedicated_slot_returns:
  assumes "validate_scope (bp_config p) = Inr ws" "sc_session_mode (bp_config p) = Dedicated"
    and "occupied_slots p \<le> bp_max p" "distinct (map bc_id (bp_contexts p))"
    and "c \<in> set (bp_contexts p)" "\<not> bc_busy c"
    and "last_used_at (metadata c) + max_idle_time (bp_lifecycle p) < now"
    and "monitor_dedicated now p = (expired, p')"
  shows "c \<in> set expired \<and> find_context_by_id (bc_id c) p' = None \<and>
    ps_available_slots (pool_get_stats p') = ps_available_slots (pool_get_stats p) + length expired \<and>
    filter bc_busy (bp_contexts p') = filter bc_busy (bp_contexts p)"
proof -
  let ?keep = "\<lambda>c. \<not> (\<not> bc_busy c \<and> should_recycle_context now (bp_lifecycle p) c)"
  have ex: "expired = filter (\<lambda>c. \<not> ?keep c) (bp_contexts p)"
    and p': "p' = p\<lparr>bp_contexts := filter ?keep (bp_contexts p)\<rparr>"
    using assms(8) by (auto simp: monitor_dedicated_def Let_def)
  have "should_recycle_context now (bp_lifecycle p) c"
    using assms(7) validate_scope_ok(4) [OF assms(1,2)]
    by (auto simp: should_recycle_context_def less_diff_conv)
  with assms(5,6) have in_ex: "c \<in> set expired" by (simp add: ex)
  have "List.find (\<lambda>d. bc_id d = bc_id c) (filter ?keep (bp_contexts p)) = None"
    using find_filter [OF assms(4), of "bc_id c" ?keep] find_distinct [OF assms(4,5)] in_ex
    by (simp add: ex)
  then have gone: "find_context_by_id (bc_id c) p' = None"
    by (simp add: find_context_by_id_def p')
  have busy: "filter bc_busy (bp_contexts p') = filter bc_busy (bp_contexts p)"
    by (auto simp: p' intro: filter_cong)
  have len: "length (bp_contexts p') + length expired = length (bp_contexts p)"
    using sum_length_filter_compl [of ?keep "bp_contexts p"] by (simp add: ex p')
  obtain b where b: "length (filter bc_busy (bp_contexts p)) = b" "b \<le> length (bp_contexts p')"
    using busy length_filter_le [of bc_busy "bp_contexts p'"] by simp
  have same: "bp_pending p' = bp_pending p" "bp_config p' = bp_config p" by (simp_all add: p')
  have "ps_available_slots (pool_get_stats p') = ps_available_slots (pool_get_stats p) + length expired"
    using assms(2,3) b(2) len by (simp add: pool_get_stats_def Let_def same busy b(1) occupied_slots_def)
  with in_ex gone busy show ?thesis by simp
qed

lemma idle_dedicated_slot_returns_witness:
  "ps_available_slots (pool_get_stats (snd (monitor_dedicated 400000
     (snd (create_dedicated_context (Inr (sample_context ''b'' 0))
        ((pool_start (sample_scope Dedicated 0 2) [])\<lparr>bp_contexts := [sample_context ''a'' 0]\<rparr>)))))) = 1"
proof -
  let ?p = "snd (create_dedicated_context (Inr (sample_context ''b'' 0))
    ((pool_start (sample_scope Dedicated 0 2) [])\<lparr>bp_contexts := [sample_context ''a'' 0]\<rparr>))"
  have ctx: "bp_contexts ?p = [sample_context ''a'' 0, mark_busy True (sample_context ''b'' 0)]"
    "bp_pending ?p = 0" and cfg: "bp_config ?p = sample_scope Dedicated 0 2"
    by (simp_all add: create_dedicated_context_def acquire_dedicated_def pool_eval)
  have stats: "ps_available_slots (pool_get_stats ?p) = 0"
    by (simp add: pool_get_stats_def Let_def ctx cfg) (simp add: pool_eval)
  obtain ws where v: "validate_scope (bp_config ?p) = Inr ws"
    using sample_scope_valid [of 0 2] by (auto simp: cfg)
  obtain ex p' where m: "monitor_dedicated 400000 ?p = (ex, p')"
    by (cases "monitor_dedicated 400000 ?p")
  have "ex = [sample_context ''a'' 0]"
    using m by (simp add: monitor_dedicated_def should_recycle_context_def ctx cfg) (simp add: pool_eval)
  moreover have "ps_available_slots (pool_get_stats p') = ps_available_slots (pool_get_stats ?p) + length ex"
    using idle_dedicated_slot_returns [OF v _ _ _ _ _ _ m, of "sample_context ''a'' 0"]
    by (simp add: ctx cfg occupied_slots_def) (simp add: pool_eval)
  ultimately show ?thesis using m stats by simp
qed

text \<open>
  The documentation of \<open>try_claim\<close> says a request and the lifecycle monitor can never both win a
  context.  The \<open>dedicated\<close> tick reads the flag without claiming: a continuation that looked its
  context up before the tick can claim it after the removal, and then runs on a released context.
\<close>

lemma dedicated_tick_strands_continuation:
  "\<exists>s. pool_run [Ev_Dedicated 1, Ev_Built 1 (Inr (sample_context ''a'' 0)), Ev_Release 1 5,
                  Ev_TickDedicated 400000, Ev_ClaimHandle 2 ''a'']
         (sys_init (pool_start (sample_scope Dedicated 0 1) [])) = Some s \<and>
       sys_holders s = [(2, ''a'')] \<and> find_context_by_id ''a'' (sys_pool s) = None"
  by (simp add: acquire_dedicated_def monitor_dedicated_def should_recycle_context_def busy_flag_def
      to_gone_def pool_eval)

end
