(* ===== verification/Polling.thy ===== *)
theory Polling
  imports Hive_Prelude
begin

text \<open>
  Loops that poll until something happens or their budget is spent.

  The readings of one iteration are one observation; a loop runs over the sequence of observations it
  would make.  It has not returned (\<open>None\<close>) when the sequence ends first, so that it returns is always a
  statement of its own.  The locale is the contract of such a loop: an iteration that finds the budget
  spent returns.
\<close>

datatype ('s, 'r) poll_step = Poll_Next 's | Poll_Done 'r

fun poll_loop :: "('s \<Rightarrow> 'o \<Rightarrow> ('s, 'r) poll_step) \<Rightarrow> 's \<Rightarrow> 'o list \<Rightarrow> 'r option" where
  "poll_loop step s [] = None"
| "poll_loop step s (ob # obs) =
     (case step s ob of Poll_Done r \<Rightarrow> Some r | Poll_Next s' \<Rightarrow> poll_loop step s' obs)"

text \<open>The state in which the observations so far leave a loop that still runs.\<close>

fun poll_state :: "('s \<Rightarrow> 'o \<Rightarrow> ('s, 'r) poll_step) \<Rightarrow> 's \<Rightarrow> 'o list \<Rightarrow> 's option" where
  "poll_state step s [] = Some s"
| "poll_state step s (ob # obs) =
     (case step s ob of Poll_Done r \<Rightarrow> None | Poll_Next s' \<Rightarrow> poll_state step s' obs)"

lemma poll_loop_append:
  "poll_loop step s (xs @ ys) =
     (case poll_state step s xs of Some s' \<Rightarrow> poll_loop step s' ys | None \<Rightarrow> poll_loop step s xs)"
  by (induction xs arbitrary: s) (simp_all split: poll_step.split option.split)

lemma poll_state_None: "poll_state step s obs = None \<longleftrightarrow> poll_loop step s obs \<noteq> None"
  by (induction obs arbitrary: s) (auto split: poll_step.splits)

text \<open>More observations never change the result of a loop that has returned.\<close>

lemma poll_loop_stable: "poll_loop step s xs = Some r \<Longrightarrow> poll_loop step s (xs @ ys) = Some r"
  by (simp add: poll_loop_append poll_state_None [THEN iffD2])

text \<open>The observation a result comes from, and the state the loop was in then.\<close>

lemma poll_loop_SomeE:
  assumes "poll_loop step s obs = Some r"
  obtains xs ob ys s' where "obs = xs @ ob # ys" "poll_state step s xs = Some s'"
    "step s' ob = Poll_Done r"
  using assms
proof (induction obs arbitrary: s thesis)
  case (Cons ob obs)
  show ?case
  proof (cases "step s ob")
    case (Poll_Next t)
    with Cons.prems(2) have "poll_loop step t obs = Some r" by simp
    then obtain xs o' ys s' where "obs = xs @ o' # ys" "poll_state step t xs = Some s'"
      "step s' o' = Poll_Done r"
      by (rule Cons.IH [rotated])
    with Poll_Next show ?thesis
      by (intro Cons.prems(1) [of "ob # xs" o' ys s']) simp_all
  next
    case (Poll_Done r')
    with Cons.prems show ?thesis
      by (intro Cons.prems(1) [of "[]" ob obs s]) simp_all
  qed
qed simp

lemma poll_state_invariant:
  assumes "poll_state step s obs = Some s'" "I s"
    and "\<And>s ob s'. I s \<Longrightarrow> ob \<in> set obs \<Longrightarrow> step s ob = Poll_Next s' \<Longrightarrow> I s'"
  shows "I s'"
  using assms
proof (induction obs arbitrary: s)
  case (Cons ob obs)
  from Cons.prems(1) obtain t where t: "step s ob = Poll_Next t" "poll_state step t obs = Some s'"
    by (cases "step s ob") simp_all
  have "I t"
    by (rule Cons.prems(3) [OF Cons.prems(2) _ t(1)]) simp
  with t(2) show ?case
    by (rule Cons.IH) (rule Cons.prems(3), simp_all)
qed simp

text \<open>An iteration before the last went on.\<close>

lemma poll_state_step:
  "poll_state step s (xs @ ob # ys) = Some s' \<Longrightarrow>
   \<exists>t t'. poll_state step s xs = Some t \<and> step t ob = Poll_Next t'"
  by (induction xs arbitrary: s) (auto split: poll_step.split_asm)

locale budgeted_poll =
  fixes step :: "'s \<Rightarrow> 'o \<Rightarrow> ('s, 'r) poll_step"
    and spent :: "'o \<Rightarrow> bool"
  assumes spent_returns: "spent ob \<Longrightarrow> \<exists>r. step s ob = Poll_Done r"
begin

text \<open>Once an observation finds the budget spent, the loop has returned, then or before.\<close>

lemma returns:
  "ob \<in> set obs \<Longrightarrow> spent ob \<Longrightarrow> \<exists>r. poll_loop step s obs = Some r"
proof (induction obs arbitrary: s)
  case (Cons a obs)
  then show ?case
    using spent_returns [of a s] by (cases "step s a") (auto split: poll_step.splits)
qed simp

text \<open>And it makes no observation after the first one that finds it spent.\<close>

lemma returns_by_first:
  assumes "obs = xs @ ob # ys" "spent ob"
  shows "poll_loop step s obs = poll_loop step s (xs @ [ob])"
proof -
  obtain r where r: "poll_loop step s (xs @ [ob]) = Some r"
    using returns [of ob "xs @ [ob]" s] assms(2) by auto
  have "obs = (xs @ [ob]) @ ys" using assms(1) by simp
  with r poll_loop_stable [OF r, of ys] show ?thesis by simp
qed

lemma unspent_before:
  assumes "poll_state step s obs = Some s'" "ob \<in> set obs"
  shows "\<not> spent ob"
proof
  assume "spent ob"
  from returns [OF assms(2) this, of s] assms(1) show False
    by (metis option.distinct(1) poll_state_None)
qed

end

end
