(* ===== verification/Wait_Strategy.thy ===== *)
theory Wait_Strategy
  imports Polling
begin

text \<open>
  \<open>common/src/wait_strategy.rs\<close>: when a page counts as loaded.

  What a strategy reads from the tab and the clock in one iteration is one \<open>page_obs\<close>; the clock is in
  milliseconds.  A selector check runs script in the page and may fail (\<open>Inl\<close>).  The registry's custom
  strategies are a parameter.  Log lines are left out; how a reading is taken from the page, what the in-page script of
  phase 1.5 does and the pauses of the loops are in \<open>Page_Probes\<close>, as the phase's outcome only reaches the later
  readings.
\<close>

section \<open>Budgets\<close>

definition MAX_WAIT_TIMEOUT_MS :: nat where [cfg_simps]:
  "MAX_WAIT_TIMEOUT_MS = 40000"

definition DEFAULT_WAIT_TIMEOUT_MS :: nat where [cfg_simps]:
  "DEFAULT_WAIT_TIMEOUT_MS = 40000"

definition validate_timeout :: "nat \<Rightarrow> string + nat" where
  "validate_timeout timeout_ms =
     (if MAX_WAIT_TIMEOUT_MS < timeout_ms
      then Inl (''Wait timeout '' @ show_nat timeout_ms @ '' ms exceeds maximum allowed '' @
                show_nat MAX_WAIT_TIMEOUT_MS @ '' ms'')
      else Inr timeout_ms)"

definition effective_timeout :: "nat \<Rightarrow> nat" where
  "effective_timeout timeout_ms =
     (if timeout_ms = 0 then DEFAULT_WAIT_TIMEOUT_MS
      else if MAX_WAIT_TIMEOUT_MS < timeout_ms then MAX_WAIT_TIMEOUT_MS
      else timeout_ms)"

text \<open>The default \<open>wait_after\<close>: the \<open>timeout_ms\<close> left for a strategy after \<open>spent\<close> ms of its budget.\<close>

definition rest_after :: "millis \<Rightarrow> nat \<Rightarrow> nat" where
  "rest_after spent timeout_ms =
     (let spent_ms = min spent (2 ^ 32 - 1)
      in if spent = 0 then timeout_ms else max 1 (effective_timeout timeout_ms - spent_ms))"

definition started_ago :: "millis \<Rightarrow> millis \<Rightarrow> millis" where
  "started_ago spent now = (if spent \<le> now then now - spent else now)"

definition EARLY_EXIT_STATUS_CODES :: "nat list" where [cfg_simps]:
  "EARLY_EXIT_STATUS_CODES = [403, 429]"

definition should_exit_early :: "nat \<Rightarrow> bool" where
  "should_exit_early status \<longleftrightarrow> status \<in> set EARLY_EXIT_STATUS_CODES"

section \<open>Readings and results\<close>

datatype wait_result = Wait_Success | Wait_SkipSelectorFound | Wait_WaitSelectorNotFound

datatype wait_error =
    Wait_Cancelled
  | Wait_SelectorCheck string
  | Wait_Navigation string
  | Wait_IdleTimeout

type_synonym selector_check = "string \<Rightarrow> string + bool"

record page_obs =
  po_cancelled :: bool
  po_exists :: selector_check
  po_idle :: "(string + unit) option"
  po_status :: "nat option"
  po_now :: millis
  po_final :: selector_check
  po_now_total :: millis
  po_final_total :: selector_check

text \<open>
  \<open>po_final\<close> is a selector check made after the budget was found spent, and \<open>po_now_total\<close>,
  \<open>po_final_total\<close> the second budget test of the selector search.
\<close>

definition check_selector :: "selector_check \<Rightarrow> string option \<Rightarrow> string + bool" where
  "check_selector check selector = (case selector of None \<Rightarrow> Inr False | Some s \<Rightarrow> check s)"

definition final_selector_verdict ::
  "string option \<Rightarrow> selector_check \<Rightarrow> wait_error + wait_result" where
  "final_selector_verdict wait_selector check =
     (case wait_selector of
        None \<Rightarrow> Inr Wait_Success
      | Some selector \<Rightarrow>
          (case check selector of
             Inl e \<Rightarrow> Inl (Wait_SelectorCheck e)
           | Inr found \<Rightarrow> Inr (if found then Wait_Success else Wait_WaitSelectorNotFound)))"

definition exits_early :: "nat option \<Rightarrow> bool" where
  "exits_early status = (case status of Some s \<Rightarrow> should_exit_early s | None \<Rightarrow> False)"

section \<open>Network idle\<close>

text \<open>
  Phase 1.  \<open>Inr None\<close> is the \<open>break\<close> into the next phase, \<open>Inr (Some r)\<close> a \<open>return Ok(r)\<close>.
\<close>

definition phase1_step ::
  "millis \<Rightarrow> millis \<Rightarrow> string option \<Rightarrow> string option \<Rightarrow> unit \<Rightarrow> page_obs \<Rightarrow>
   (unit, wait_error + wait_result option) poll_step" where
  "phase1_step start budget wait_selector skip_selector _ ob =
     (if po_cancelled ob then Poll_Done (Inl Wait_Cancelled)
      else
        (case check_selector (po_exists ob) skip_selector of
           Inl e \<Rightarrow> Poll_Done (Inl (Wait_SelectorCheck e))
         | Inr True \<Rightarrow> Poll_Done (Inr (Some Wait_SkipSelectorFound))
         | Inr False \<Rightarrow>
             (case po_idle ob of
                Some (Inr _) \<Rightarrow> Poll_Done (Inr None)
              | Some (Inl e) \<Rightarrow> Poll_Done (Inl (Wait_Navigation e))
              | None \<Rightarrow>
                  if exits_early (po_status ob) then Poll_Done (Inr (Some Wait_Success))
                  else if budget \<le> po_now ob - start then
                    (if wait_selector = None then Poll_Done (Inl Wait_IdleTimeout)
                     else Poll_Done (map_sum id Some (final_selector_verdict wait_selector (po_final ob))))
                  else Poll_Next ())))"

text \<open>How long phase 1.5 may wait for the page's \<open>load\<close>; below 100 ms it is skipped.\<close>

definition max_ready_wait :: "millis \<Rightarrow> millis \<Rightarrow> millis option" where
  "max_ready_wait budget elapsed =
     (let wait = min 30000 (budget - elapsed) in if wait < 100 then None else Some wait)"

text \<open>The part between the two loops, after the in-page wait.\<close>

definition after_ready ::
  "millis \<Rightarrow> millis \<Rightarrow> string option \<Rightarrow> string option \<Rightarrow> page_obs \<Rightarrow>
   (unit, wait_error + wait_result) poll_step" where
  "after_ready start budget wait_selector skip_selector ob =
     (case check_selector (po_exists ob) skip_selector of
        Inl e \<Rightarrow> Poll_Done (Inl (Wait_SelectorCheck e))
      | Inr True \<Rightarrow> Poll_Done (Inr Wait_SkipSelectorFound)
      | Inr False \<Rightarrow>
          if budget \<le> po_now ob - start then
            Poll_Done (final_selector_verdict wait_selector (po_final ob))
          else if exits_early (po_status ob) then Poll_Done (Inr Wait_Success)
          else if wait_selector = None then Poll_Done (Inr Wait_Success)
          else Poll_Next ())"

definition selector_timeout :: "millis \<Rightarrow> nat \<Rightarrow> millis \<Rightarrow> millis" where
  "selector_timeout budget timeout_ms idle_elapsed =
     (let remaining = budget - idle_elapsed
      in if timeout_ms = 0 then remaining else min timeout_ms remaining)"

text \<open>Phase 2: the search for the selector, which here is present.\<close>

definition phase2_step ::
  "millis \<Rightarrow> millis \<Rightarrow> millis \<Rightarrow> millis \<Rightarrow> string \<Rightarrow> string option \<Rightarrow> unit \<Rightarrow> page_obs \<Rightarrow>
   (unit, wait_error + wait_result) poll_step" where
  "phase2_step start budget search_start search_timeout selector skip_selector _ ob =
     (if po_cancelled ob then Poll_Done (Inl Wait_Cancelled)
      else
        (case check_selector (po_exists ob) skip_selector of
           Inl e \<Rightarrow> Poll_Done (Inl (Wait_SelectorCheck e))
         | Inr True \<Rightarrow> Poll_Done (Inr Wait_SkipSelectorFound)
         | Inr False \<Rightarrow>
             (case po_exists ob selector of
                Inl e \<Rightarrow> Poll_Done (Inl (Wait_SelectorCheck e))
              | Inr True \<Rightarrow> Poll_Done (Inr Wait_Success)
              | Inr False \<Rightarrow>
                  if search_timeout \<le> po_now ob - search_start then
                    Poll_Done (final_selector_verdict (Some selector) (po_final ob))
                  else if budget \<le> po_now_total ob - start then
                    Poll_Done (final_selector_verdict (Some selector) (po_final_total ob))
                  else Poll_Next ())))"

record idle_env =
  ie_now :: millis
  ie_phase1 :: "page_obs list"
  ie_ready :: page_obs
  ie_idle_now :: millis
  ie_search_start :: millis
  ie_phase2 :: "page_obs list"

definition network_idle_total :: "nat \<Rightarrow> string option \<Rightarrow> nat" where
  "network_idle_total timeout_ms wait_selector =
     (if wait_selector \<noteq> None then DEFAULT_WAIT_TIMEOUT_MS else effective_timeout timeout_ms)"

definition network_idle_run ::
  "millis \<Rightarrow> nat \<Rightarrow> string option \<Rightarrow> string option \<Rightarrow> idle_env \<Rightarrow>
   (wait_error + wait_result) option" where
  "network_idle_run spent timeout_ms wait_selector skip_selector env =
     (let start = started_ago spent (ie_now env);
          budget = network_idle_total timeout_ms wait_selector
      in case poll_loop (phase1_step start budget wait_selector skip_selector) () (ie_phase1 env) of
           None \<Rightarrow> None
         | Some (Inl e) \<Rightarrow> Some (Inl e)
         | Some (Inr (Some r)) \<Rightarrow> Some (Inr r)
         | Some (Inr None) \<Rightarrow>
             (case after_ready start budget wait_selector skip_selector (ie_ready env) of
                Poll_Done r \<Rightarrow> Some r
              | Poll_Next _ \<Rightarrow>
                  (case wait_selector of
                     None \<Rightarrow> Some (Inr Wait_Success)
                   | Some selector \<Rightarrow>
                       poll_loop
                         (phase2_step start budget (ie_search_start env)
                            (selector_timeout budget timeout_ms (ie_idle_now env - start))
                            selector skip_selector)
                         () (ie_phase2 env))))"

section \<open>Fixed timeout\<close>

text \<open>The state is \<open>wait_selector_seen\<close>.\<close>

definition timeout_step ::
  "millis \<Rightarrow> millis \<Rightarrow> string option \<Rightarrow> string option \<Rightarrow> bool \<Rightarrow> page_obs \<Rightarrow>
   (bool, wait_error + wait_result) poll_step" where
  "timeout_step start timeout wait_selector skip_selector seen ob =
     (if po_cancelled ob then Poll_Done (Inl Wait_Cancelled)
      else
        (case check_selector (po_exists ob) skip_selector of
           Inl e \<Rightarrow> Poll_Done (Inl (Wait_SelectorCheck e))
         | Inr True \<Rightarrow> Poll_Done (Inr Wait_SkipSelectorFound)
         | Inr False \<Rightarrow>
             (case (if seen then Inr False else check_selector (po_exists ob) wait_selector) of
                Inl e \<Rightarrow> Poll_Done (Inl (Wait_SelectorCheck e))
              | Inr hit \<Rightarrow>
                  if hit \<and> skip_selector = None then Poll_Done (Inr Wait_Success)
                  else
                    (let seen' = (seen \<or> hit)
                     in if timeout \<le> po_now ob - start then
                          (if seen' then Poll_Done (Inr Wait_Success)
                           else Poll_Done (final_selector_verdict wait_selector (po_final ob)))
                        else Poll_Next seen'))))"

record timeout_env =
  te_navigated :: "string + unit"
  te_now :: millis
  te_polls :: "page_obs list"

definition timeout_run ::
  "millis \<Rightarrow> nat \<Rightarrow> string option \<Rightarrow> string option \<Rightarrow> timeout_env \<Rightarrow>
   (wait_error + wait_result) option" where
  "timeout_run spent timeout_ms wait_selector skip_selector env =
     (case te_navigated env of
        Inl e \<Rightarrow> Some (Inl (Wait_Navigation e))
      | Inr _ \<Rightarrow>
          poll_loop
            (timeout_step (started_ago spent (te_now env)) (effective_timeout timeout_ms)
               wait_selector skip_selector)
            False (te_polls env))"

section \<open>The registry\<close>

text \<open>A strategy by its name; \<open>Strategy_Custom\<close> is one a downstream worker registers.\<close>

datatype strategy = Strategy_NetworkIdle | Strategy_Timeout | Strategy_Custom string

primrec strategy_name :: "strategy \<Rightarrow> string" where
  "strategy_name Strategy_NetworkIdle = ''network_idle''"
| "strategy_name Strategy_Timeout = ''timeout''"
| "strategy_name (Strategy_Custom n) = n"

type_synonym strategy_registry = "(string, strategy) hmap"

definition registry_register :: "strategy \<Rightarrow> strategy_registry \<Rightarrow> strategy_registry" where
  "registry_register s reg = hput (strategy_name s) s reg"

definition registry_new :: strategy_registry where
  "registry_new =
     registry_register Strategy_Timeout (registry_register Strategy_NetworkIdle hempty)"

definition registry_get :: "string \<Rightarrow> strategy_registry \<Rightarrow> strategy option" where
  "registry_get name reg = hget reg name"

definition default_strategy :: "strategy_registry \<Rightarrow> strategy" where
  "default_strategy reg =
     (case hget reg ''network_idle'' of Some s \<Rightarrow> s | None \<Rightarrow> Strategy_NetworkIdle)"

definition list_strategies :: "strategy_registry \<Rightarrow> string list" where
  "list_strategies reg = map fst reg"

section \<open>The loops return when their budget is spent\<close>

interpretation phase1: budgeted_poll "phase1_step start budget wait_selector skip_selector"
  "\<lambda>ob. budget \<le> po_now ob - start" for start budget wait_selector skip_selector
  by unfold_locales (auto simp: phase1_step_def split: sum.split bool.split option.split)

interpretation phase2: budgeted_poll
  "phase2_step start budget search_start search_timeout selector skip_selector"
  "\<lambda>ob. search_timeout \<le> po_now ob - search_start \<or> budget \<le> po_now_total ob - start"
  for start budget search_start search_timeout selector skip_selector
  by unfold_locales (auto simp: phase2_step_def split: sum.split bool.split option.split)

interpretation fixed: budgeted_poll "timeout_step start budget wait_selector skip_selector"
  "\<lambda>ob. budget \<le> po_now ob - start" for start budget wait_selector skip_selector
  by unfold_locales (auto simp: timeout_step_def Let_def split: sum.split bool.split option.split)

text \<open>
  The budgets, for the properties below: what a strategy may use, and the time a wait has used at \<open>t\<close> that
  began at \<open>now\<close> when \<open>spent\<close> was used before (unless the clock cannot go back that far).
\<close>

definition fixed_budget :: "nat \<Rightarrow> nat" where
  "fixed_budget timeout_ms = (if timeout_ms = 0 then 40000 else min timeout_ms 40000)"

definition used_by :: "millis \<Rightarrow> millis \<Rightarrow> millis \<Rightarrow> millis" where
  "used_by spent now t = t + (if spent \<le> now then spent else 0) - now"

definition search_budget :: "nat \<Rightarrow> millis \<Rightarrow> millis" where
  "search_budget timeout_ms left = (if timeout_ms = 0 then left else min timeout_ms left)"

lemma budget_simps:
  "effective_timeout timeout_ms = fixed_budget timeout_ms"
  "t - started_ago spent now = used_by spent now t"
  "selector_timeout b timeout_ms e = search_budget timeout_ms (b - e)"
  "network_idle_total timeout_ms w = (if w = None then fixed_budget timeout_ms else 40000)"
  by (auto simp: effective_timeout_def fixed_budget_def started_ago_def used_by_def selector_timeout_def
      search_budget_def network_idle_total_def Let_def cfg_simps)

text \<open>
  C23: no wait outlives its budget.  The fixed-timeout strategy returns by the first poll at which its
  timeout (40 seconds when none is given, and at most) has passed, and the network-idle strategy by the
  first poll, in either of its loops, at which its total budget has passed (40 seconds with a selector,
  else the timeout), or the selector search's share of it, whatever the page does; what a challenge used
  before counts.  Later readings are never made.
\<close>
theorem waits_return_within_budget:
  assumes "\<exists>ob \<in> set (te_polls tenv). fixed_budget timeout_ms \<le> used_by spent (te_now tenv) (po_now ob)"
    and "\<exists>ob \<in> set (ie_phase1 env).
      (if wait_selector = None then fixed_budget timeout_ms else 40000) \<le> used_by spent (ie_now env) (po_now ob)"
    and "\<exists>ob \<in> set (ie_phase2 env).
      search_budget timeout_ms ((if wait_selector = None then fixed_budget timeout_ms else 40000) -
          used_by spent (ie_now env) (ie_idle_now env)) \<le> po_now ob - ie_search_start env \<or>
      (if wait_selector = None then fixed_budget timeout_ms else 40000) \<le> used_by spent (ie_now env) (po_now_total ob)"
  shows "timeout_run spent timeout_ms wait_selector skip_selector tenv \<noteq> None \<and>
    network_idle_run spent timeout_ms wait_selector skip_selector env \<noteq> None"
proof
  note given = assms [folded budget_simps]
  show "timeout_run spent timeout_ms wait_selector skip_selector tenv \<noteq> None"
    using given(1) fixed.returns by (fastforce simp: timeout_run_def split: sum.split)
  let ?start = "started_ago spent (ie_now env)" and ?b = "network_idle_total timeout_ms wait_selector"
  obtain r where r: "poll_loop (phase1_step ?start ?b wait_selector skip_selector) () (ie_phase1 env) = Some r"
    using given(2) phase1.returns by blast
  have "poll_loop (phase2_step ?start ?b (ie_search_start env)
      (selector_timeout ?b timeout_ms (ie_idle_now env - ?start)) selector skip_selector) () (ie_phase2 env) \<noteq> None"
    for selector
    using given(3) phase2.returns by fast
  then show "network_idle_run spent timeout_ms wait_selector skip_selector env \<noteq> None"
    by (auto simp: network_idle_run_def Let_def r split: sum.split option.split poll_step.split)
qed

section \<open>Verdicts\<close>

lemma verdict_cases:
  assumes "final_selector_verdict w check = Inr r"
  obtains "w = None" "r = Wait_Success"
  | s where "w = Some s" "check s = Inr True" "r = Wait_Success"
  | s where "w = Some s" "check s = Inr False" "r = Wait_WaitSelectorNotFound"
  using assms by (auto simp: final_selector_verdict_def split: option.splits sum.splits if_splits)

text \<open>What one observation says about a selector.\<close>

definition seen_in :: "page_obs \<Rightarrow> string \<Rightarrow> bool" where
  "seen_in ob s \<longleftrightarrow> po_exists ob s = Inr True \<or> po_final ob s = Inr True \<or> po_final_total ob s = Inr True"

definition all_obs :: "idle_env \<Rightarrow> page_obs set" where
  "all_obs env = set (ie_phase1 env) \<union> {ie_ready env} \<union> set (ie_phase2 env)"

definition verdict_justified ::
  "string option \<Rightarrow> string option \<Rightarrow> (string \<Rightarrow> bool) \<Rightarrow> page_obs set \<Rightarrow> wait_result \<Rightarrow> bool" where
  "verdict_justified wait_selector skip_selector gave_up obs r =
     (case r of
        Wait_SkipSelectorFound \<Rightarrow> \<exists>s. skip_selector = Some s \<and> (\<exists>ob \<in> obs. po_exists ob s = Inr True)
      | Wait_WaitSelectorNotFound \<Rightarrow> \<exists>s. wait_selector = Some s \<and> gave_up s
      | Wait_Success \<Rightarrow>
          (\<exists>ob \<in> obs. exits_early (po_status ob)) \<or>
          (wait_selector = None \<and> (\<exists>ob \<in> obs. po_idle ob = Some (Inr ()))) \<or>
          (\<exists>s. wait_selector = Some s \<and> (\<exists>ob \<in> obs. seen_in ob s)))"

text \<open>
  When the strategy may say that the selector is not there: a budget was found spent, and a check made after
  that did not find it.  Before the search that is the total budget; in the search its own share, or
  the total one.
\<close>

definition gave_up_after_budget :: "millis \<Rightarrow> nat \<Rightarrow> idle_env \<Rightarrow> string \<Rightarrow> bool" where
  "gave_up_after_budget spent timeout_ms env s \<longleftrightarrow>
     (\<exists>ob \<in> set (ie_phase1 env) \<union> {ie_ready env}.
        40000 \<le> used_by spent (ie_now env) (po_now ob) \<and> po_final ob s = Inr False) \<or>
     (\<exists>ob \<in> set (ie_phase2 env).
        search_budget timeout_ms (40000 - used_by spent (ie_now env) (ie_idle_now env)) \<le> po_now ob - ie_search_start env \<and>
        po_final ob s = Inr False) \<or>
     (\<exists>ob \<in> set (ie_phase2 env).
        40000 \<le> used_by spent (ie_now env) (po_now_total ob) \<and> po_final_total ob s = Inr False)"

lemma verdict_justified_mono:
  "verdict_justified w k G A r \<Longrightarrow> A \<subseteq> B \<Longrightarrow> verdict_justified w k G B r"
  by (auto simp: verdict_justified_def split: wait_result.splits)

lemma check_selector_True: "check_selector check sel = Inr True \<longleftrightarrow> (\<exists>s. sel = Some s \<and> check s = Inr True)"
  by (simp add: check_selector_def split: option.split)

lemma final_justified:
  assumes "final_selector_verdict (Some s) check = Inr r" "check = po_final ob \<or> check = po_final_total ob"
    and "check s = Inr False \<Longrightarrow> G s"
  shows "verdict_justified (Some s) k G {ob} r"
  using assms
  by (elim verdict_cases) (auto simp: verdict_justified_def seen_in_def)

lemma phase1_justified:
  assumes "phase1_step start budget w k () ob = Poll_Done (Inr (Some r))"
    and "\<And>s. w = Some s \<Longrightarrow> budget \<le> po_now ob - start \<Longrightarrow> po_final ob s = Inr False \<Longrightarrow> G s"
  shows "verdict_justified w k G {ob} r"
  using assms final_justified [of _ "po_final ob" r ob G k]
  by (auto simp: phase1_step_def verdict_justified_def check_selector_True map_sum_def
      split: if_splits sum.splits bool.splits option.splits)

lemma phase1_idle:
  "phase1_step start budget w k () ob = Poll_Done (Inr None) \<Longrightarrow> po_idle ob = Some (Inr ())"
  by (auto simp: phase1_step_def map_sum_def split: if_splits sum.splits bool.splits option.splits)

lemma phase2_justified:
  assumes "phase2_step start budget ss st s k () ob = Poll_Done (Inr r)"
    and "st \<le> po_now ob - ss \<Longrightarrow> po_final ob s = Inr False \<Longrightarrow> G s"
    and "budget \<le> po_now_total ob - start \<Longrightarrow> po_final_total ob s = Inr False \<Longrightarrow> G s"
  shows "verdict_justified (Some s) k G {ob} r"
  using assms final_justified [of s "po_final ob" r ob G k] final_justified [of s "po_final_total ob" r ob G k]
  by (auto simp: phase2_step_def verdict_justified_def check_selector_True seen_in_def
      split: if_splits sum.splits bool.splits)

lemma after_ready_justified:
  assumes "after_ready start budget w k ob = Poll_Done (Inr r)" "po_idle ob' = Some (Inr ())"
    and "\<And>s. w = Some s \<Longrightarrow> budget \<le> po_now ob - start \<Longrightarrow> po_final ob s = Inr False \<Longrightarrow> G s"
  shows "verdict_justified w k G {ob', ob} r"
  using assms
  by (auto simp: after_ready_def verdict_justified_def check_selector_True seen_in_def
      split: if_splits sum.splits bool.splits elim!: verdict_cases)

lemma after_ready_next:
  "after_ready start budget w k ob = Poll_Next u \<Longrightarrow> w \<noteq> None"
  by (auto simp: after_ready_def split: sum.splits bool.splits if_splits)

text \<open>
  C24: every verdict of the network-idle strategy rests on something that was read from the page.  It
  says the skip selector was found only if a check found it; that the wait selector was not found only
  if one was asked for, a budget had run out by the clock (the 40 seconds of the whole wait, the time
  a challenge used included, or the selector search's share of what was left of them) and a check
  made after that did not find it; and success only if the page's status made waiting pointless, or,
  without a wait selector, the network went idle, or the wait selector was found by a check.
\<close>
theorem network_idle_verdict_justified:
  assumes "network_idle_run spent timeout_ms wait_selector skip_selector env = Some (Inr r)"
  shows "verdict_justified wait_selector skip_selector (gave_up_after_budget spent timeout_ms env) (all_obs env) r"
proof -
  let ?start = "started_ago spent (ie_now env)" and ?b = "network_idle_total timeout_ms wait_selector"
  let ?step1 = "phase1_step ?start ?b wait_selector skip_selector"
  let ?G = "gave_up_after_budget spent timeout_ms env"
  have early: "?G s" if "wait_selector = Some s" "?b \<le> po_now ob - ?start" "po_final ob s = Inr False"
    "ob \<in> set (ie_phase1 env) \<union> {ie_ready env}" for s ob
    using that unfolding gave_up_after_budget_def budget_simps by auto
  obtain r1 where r1: "poll_loop ?step1 () (ie_phase1 env) = Some r1"
    using assms by (cases "poll_loop ?step1 () (ie_phase1 env)") (auto simp: network_idle_run_def Let_def)
  then obtain xs ob ys u where ob: "ie_phase1 env = xs @ ob # ys" "?step1 u ob = Poll_Done r1"
    by (rule poll_loop_SomeE)
  have in1: "ob \<in> all_obs env" "ie_ready env \<in> all_obs env" "ob \<in> set (ie_phase1 env)"
    using ob(1) by (auto simp: all_obs_def)
  show ?thesis
  proof (cases r1)
    case (Inl e)
    with assms r1 show ?thesis by (simp add: network_idle_run_def Let_def)
  next
    case (Inr o1)
    show ?thesis
    proof (cases o1)
      case (Some r')
      with assms r1 Inr have "r' = r" by (simp add: network_idle_run_def Let_def)
      with ob(2) Inr Some have "?step1 () ob = Poll_Done (Inr (Some r))" by simp
      then have "verdict_justified wait_selector skip_selector ?G {ob} r"
        by (rule phase1_justified) (use early in1(3) in blast)
      then show ?thesis by (rule verdict_justified_mono) (use in1 in auto)
    next
      case None
      with ob(2) Inr have idle: "po_idle ob = Some (Inr ())"
        by (auto dest: phase1_idle)
      show ?thesis
      proof (cases "after_ready ?start ?b wait_selector skip_selector (ie_ready env)")
        case (Poll_Done r2)
        with assms r1 Inr None have "r2 = Inr r" by (simp add: network_idle_run_def Let_def)
        with Poll_Done have "after_ready ?start ?b wait_selector skip_selector (ie_ready env) = Poll_Done (Inr r)"
          by simp
        then have "verdict_justified wait_selector skip_selector ?G {ob, ie_ready env} r"
          by (rule after_ready_justified [OF _ idle]) (use early in blast)
        then show ?thesis by (rule verdict_justified_mono) (use in1 in auto)
      next
        case (Poll_Next u')
        then obtain s where s: "wait_selector = Some s"
          using after_ready_next by blast
        with assms r1 Inr None Poll_Next have "poll_loop (phase2_step ?start ?b (ie_search_start env)
            (selector_timeout ?b timeout_ms (ie_idle_now env - ?start)) s skip_selector) ()
            (ie_phase2 env) = Some (Inr r)"
          by (simp add: network_idle_run_def Let_def)
        then obtain xs' ob' ys' where ob': "ie_phase2 env = xs' @ ob' # ys'"
          "phase2_step ?start ?b (ie_search_start env)
            (selector_timeout ?b timeout_ms (ie_idle_now env - ?start)) s skip_selector () ob' = Poll_Done (Inr r)"
          by (rule poll_loop_SomeE) simp
        from ob'(2) have "verdict_justified (Some s) skip_selector ?G {ob'} r"
          by (rule phase2_justified) (use ob'(1) in \<open>auto simp: gave_up_after_budget_def budget_simps s\<close>)
        then show ?thesis unfolding s by (rule verdict_justified_mono) (use ob'(1) in \<open>auto simp: all_obs_def\<close>)
      qed
    qed
  qed
qed

section \<open>The fixed-timeout strategy, exactly\<close>

definition checks_ok :: "string option \<Rightarrow> string option \<Rightarrow> page_obs \<Rightarrow> bool" where
  "checks_ok w k ob \<longleftrightarrow>
     \<not> po_cancelled ob \<and> \<not> isl (check_selector (po_exists ob) k) \<and>
     \<not> isl (check_selector (po_exists ob) w) \<and> \<not> isl (check_selector (po_final ob) w)"

lemma not_isl: "\<not> isl x \<longleftrightarrow> (\<exists>b. x = Inr b)"
  by (cases x) auto

abbreviation hit :: "string option \<Rightarrow> page_obs \<Rightarrow> bool" where
  "hit sel ob \<equiv> check_selector (po_exists ob) sel = Inr True"

definition timeout_verdict :: "string option \<Rightarrow> bool \<Rightarrow> bool \<Rightarrow> bool \<Rightarrow> wait_result" where
  "timeout_verdict w skipped seen final =
     (if skipped then Wait_SkipSelectorFound
      else if w = None \<or> seen \<or> final then Wait_Success
      else Wait_WaitSelectorNotFound)"

lemma timeout_step_ok:
  assumes "checks_ok w k ob"
  shows "timeout_step start budget w k seen ob =
    (if hit k ob then Poll_Done (Inr Wait_SkipSelectorFound)
     else if \<not> seen \<and> hit w ob \<and> k = None then Poll_Done (Inr Wait_Success)
     else if budget \<le> po_now ob - start then
       Poll_Done (Inr (timeout_verdict w False (seen \<or> hit w ob) (check_selector (po_final ob) w = Inr True)))
     else Poll_Next (seen \<or> hit w ob))"
proof -
  obtain b1 b2 b3 where b: "check_selector (po_exists ob) k = Inr b1"
    "check_selector (po_exists ob) w = Inr b2" "check_selector (po_final ob) w = Inr b3"
    "\<not> po_cancelled ob"
    using assms by (auto simp: checks_ok_def not_isl)
  then have "final_selector_verdict w (po_final ob) = Inr (timeout_verdict w False False b3)"
    by (auto simp: final_selector_verdict_def check_selector_def timeout_verdict_def split: option.splits)
  with b show ?thesis
    by (cases b1; cases b2; cases seen) (auto simp: timeout_step_def timeout_verdict_def check_selector_def Let_def)
qed

lemma no_hit_None [simp]: "check_selector check None = Inr False" "list_ex (\<lambda>_. False) obs = False"
  by (simp_all add: check_selector_def list_ex_iff)

lemma timeout_loop_exact:
  assumes "list_all (checks_ok w k) (xs @ [ob])" "list_all (\<lambda>x. \<not> budget \<le> po_now x - start) xs"
    and "budget \<le> po_now ob - start"
    and "k = None \<Longrightarrow> \<not> seen" "seen \<Longrightarrow> w \<noteq> None"
  shows "poll_loop (timeout_step start budget w k) seen (xs @ ob # ys) =
    Some (Inr (timeout_verdict w (list_ex (hit k) (xs @ [ob])) (seen \<or> list_ex (hit w) (xs @ [ob]))
      (check_selector (po_final ob) w = Inr True)))"
  using assms
proof (induction xs arbitrary: seen)
  case Nil
  then show ?case
    by (auto simp: timeout_step_ok timeout_verdict_def)
next
  case (Cons x xs)
  show ?case
  proof (cases "hit k x \<or> (\<not> seen \<and> hit w x \<and> k = None)")
    case True
    then show ?thesis
      using Cons.prems(1) by (auto simp: timeout_step_ok timeout_verdict_def)
  next
    case False
    then have "timeout_step start budget w k seen x = Poll_Next (seen \<or> hit w x)"
      using Cons.prems(1,2) by (simp add: timeout_step_ok)
    moreover have "k = None \<Longrightarrow> \<not> (seen \<or> hit w x)" "seen \<or> hit w x \<Longrightarrow> w \<noteq> None"
      using False Cons.prems(4,5) by (cases w; auto simp: check_selector_def)+
    ultimately show ?thesis
      using Cons.IH [of "seen \<or> hit w x"] Cons.prems(1-3) False by (simp add: disj_assoc)
  qed
qed

text \<open>
  the fixed-timeout strategy decides exactly by what its polls saw.  When no poll up to the deadline
  is cancelled or fails, the wait reports the skip selector if any of those polls found it, even one
  after the wait selector was seen; otherwise success if there is no wait selector or some poll, or the
  final check, found it; and otherwise that the wait selector was not found.
\<close>
theorem timeout_strategy_exact:
  assumes "te_navigated env = Inr ()" "te_polls env = xs @ ob # ys"
    and "list_all (checks_ok wait_selector skip_selector) (xs @ [ob])"
    and "list_all (\<lambda>x. po_now x - started_ago spent (te_now env) < effective_timeout timeout_ms) xs"
    and "effective_timeout timeout_ms \<le> po_now ob - started_ago spent (te_now env)"
  shows "timeout_run spent timeout_ms wait_selector skip_selector env =
    Some (Inr (timeout_verdict wait_selector (list_ex (hit skip_selector) (xs @ [ob]))
      (list_ex (hit wait_selector) (xs @ [ob])) (check_selector (po_final ob) wait_selector = Inr True)))"
proof -
  have "list_all (\<lambda>x. \<not> effective_timeout timeout_ms \<le> po_now x - started_ago spent (te_now env)) xs"
    using assms(4) by (simp add: not_le)
  from timeout_loop_exact [OF assms(3) this assms(5), of False ys] show ?thesis
    by (simp add: timeout_run_def assms(1,2))
qed

definition sample_obs :: "millis \<Rightarrow> string list \<Rightarrow> page_obs" where
  "sample_obs now present =
     \<lparr>po_cancelled = False, po_exists = (\<lambda>s. Inr (s \<in> set present)), po_idle = None, po_status = None,
      po_now = now, po_final = (\<lambda>s. Inr (s \<in> set present)), po_now_total = now,
      po_final_total = (\<lambda>s. Inr (s \<in> set present))\<rparr>"

definition sample_polls :: timeout_env where
  "sample_polls =
     \<lparr>te_navigated = Inr (), te_now = 0,
      te_polls = [sample_obs 0 [], sample_obs 500 [''#main''], sample_obs 1000 [''#main'', ''#block'']]\<rparr>"

lemma timeout_strategy_exact_witness:
  "timeout_run 0 1000 (Some ''#main'') (Some ''#block'') sample_polls = Some (Inr Wait_SkipSelectorFound) \<and>
   timeout_run 0 400 (Some ''#main'') (Some ''#block'') sample_polls = Some (Inr Wait_Success)"
proof
  show "timeout_run 0 1000 (Some ''#main'') (Some ''#block'') sample_polls = Some (Inr Wait_SkipSelectorFound)"
    by (subst timeout_strategy_exact [where ob = "sample_obs 1000 [''#main'', ''#block'']" and ys = "[]"
          and xs = "[sample_obs 0 [], sample_obs 500 [''#main'']]"])
      (simp_all add: sample_polls_def sample_obs_def checks_ok_def check_selector_def effective_timeout_def
        started_ago_def cfg_simps timeout_verdict_def)
  show "timeout_run 0 400 (Some ''#main'') (Some ''#block'') sample_polls = Some (Inr Wait_Success)"
    by (subst timeout_strategy_exact [where ob = "sample_obs 500 [''#main'']" and xs = "[sample_obs 0 []]"
          and ys = "[sample_obs 1000 [''#main'', ''#block'']]"])
      (simp_all add: sample_polls_def sample_obs_def checks_ok_def check_selector_def effective_timeout_def
        started_ago_def cfg_simps timeout_verdict_def)
qed

definition sample_idle :: idle_env where
  "sample_idle =
     \<lparr>ie_now = 0, ie_phase1 = [sample_obs 0 [], (sample_obs 500 [])\<lparr>po_idle := Some (Inr ())\<rparr>,
        sample_obs 40000 []],
      ie_ready = sample_obs 600 [], ie_idle_now = 600, ie_search_start = 600,
      ie_phase2 = [sample_obs 600 [], sample_obs 40600 [''#main'']]\<rparr>"

lemma waits_return_within_budget_witness:
  "timeout_run 0 1000 None None sample_polls \<noteq> None \<and>
   network_idle_run 0 1000 (Some ''#main'') None sample_idle \<noteq> None"
  using waits_return_within_budget [of sample_polls 1000 0 sample_idle "Some ''#main''" None]
    waits_return_within_budget [of sample_polls 1000 0 sample_idle None None]
  by (simp add: sample_polls_def sample_idle_def sample_obs_def fixed_budget_def used_by_def search_budget_def)

text \<open>
  A search that gives up: the selector is looked for once before and once after the search's second has
  passed, five seconds of the budget having gone to a challenge.
\<close>

definition sample_missing :: idle_env where
  "sample_missing = sample_idle
     \<lparr>ie_now := 5000, ie_phase1 := [(sample_obs 5500 [])\<lparr>po_idle := Some (Inr ())\<rparr>], ie_ready := sample_obs 5600 [],
      ie_idle_now := 5600, ie_search_start := 5600, ie_phase2 := [sample_obs 6000 [], sample_obs 6600 []]\<rparr>"

lemma network_idle_verdict_justified_witness:
  "gave_up_after_budget 5000 1000 sample_missing ''#main'' \<and>
   verdict_justified (Some ''#main'') None (gave_up_after_budget 0 0 sample_idle) (all_obs sample_idle) Wait_Success"
proof
  note eval = network_idle_run_def sample_idle_def sample_obs_def phase1_step_def phase2_step_def
    after_ready_def check_selector_def exits_early_def started_ago_def network_idle_total_def
    selector_timeout_def final_selector_verdict_def cfg_simps Let_def
  have "network_idle_run 5000 1000 (Some ''#main'') None sample_missing = Some (Inr Wait_WaitSelectorNotFound)"
    by (simp add: sample_missing_def eval)
  from network_idle_verdict_justified [OF this] show "gave_up_after_budget 5000 1000 sample_missing ''#main''"
    by (simp add: verdict_justified_def)
  have "network_idle_run 0 0 (Some ''#main'') None sample_idle = Some (Inr Wait_Success)"
    by (simp add: eval)
  then show "verdict_justified (Some ''#main'') None (gave_up_after_budget 0 0 sample_idle) (all_obs sample_idle)
      Wait_Success"
    by (rule network_idle_verdict_justified)
qed

section \<open>Budgets\<close>

text \<open>
  waiting out a challenge is paid from the wait budget.  A validated \<open>timeout_ms\<close> is at most
  \<open>MAX_WAIT_TIMEOUT_MS\<close> and is used as it is, zero standing for the default; after \<open>spent\<close>
  milliseconds the rest given to a strategy is never the zero that would restart the default, and what
  was spent and what remains stay within the budget, or end one millisecond after the time spent.
\<close>
theorem challenge_time_comes_out_of_the_budget:
  assumes "validate_timeout timeout_ms = Inr t" "spent < 2 ^ 32"
  shows "t = timeout_ms \<and> effective_timeout t = (if t = 0 then DEFAULT_WAIT_TIMEOUT_MS else t) \<and>
    effective_timeout t \<le> MAX_WAIT_TIMEOUT_MS \<and> rest_after 0 t = t \<and>
    (0 < spent \<longrightarrow> rest_after spent t \<noteq> 0 \<and>
       spent + effective_timeout (rest_after spent t) = max (effective_timeout t) (spent + 1))"
proof -
  have t: "t = timeout_ms" "t \<le> 40000"
    using assms(1) by (auto simp: validate_timeout_def cfg_simps split: if_splits)
  have "effective_timeout t \<le> 40000" "0 < effective_timeout t"
    using t(2) by (auto simp: effective_timeout_def cfg_simps)
  then show ?thesis
    using t assms(2)
    by (auto simp: rest_after_def effective_timeout_def cfg_simps Let_def min_def max_def)
qed

lemma challenge_time_comes_out_of_the_budget_witness:
  "rest_after 4500 10000 = 5500 \<and> 4500 + effective_timeout (rest_after 4500 10000) = 10000"
  using challenge_time_comes_out_of_the_budget [of 10000 10000 4500]
  by (simp add: validate_timeout_def rest_after_def effective_timeout_def cfg_simps)

end
