(* ===== verification/Challenge.thy ===== *)
theory Challenge
  imports Wait_Strategy
begin

text \<open>
  \<open>common/src/challenge.rs\<close>: recognising an anti-bot challenge and waiting for its own JavaScript to
  replace it.

  A detector is its \<open>is_challenge\<close> function; the header detector is the one the base ships.  The probe's
  answers and the clock, as the loop reads them, are its observations.  A \<open>HashMap\<close> of headers is a list
  in the order its iterator yields.
\<close>

section \<open>Documents\<close>

record main_document =
  md_status :: nat
  md_headers :: "(string, string) hmap"
  md_url :: string

definition eq_ignore_case :: "string \<Rightarrow> string \<Rightarrow> bool" where
  "eq_ignore_case a b \<longleftrightarrow> to_lower a = to_lower b"

definition document_header :: "string \<Rightarrow> main_document \<Rightarrow> string option" where
  "document_header name doc =
     map_option snd (List.find (\<lambda>(k, _). eq_ignore_case k name) (md_headers doc))"

definition is_json :: "main_document \<Rightarrow> bool" where
  "is_json doc =
     (case document_header ''content-type'' doc of
        Some value \<Rightarrow> eq_ignore_case (trim (hd (split_on (CHR '';'') value))) ''application/json''
      | None \<Rightarrow> False)"

type_synonym challenge_detector = "main_document \<Rightarrow> bool"

definition header_detector :: "(string \<times> string option) list \<Rightarrow> challenge_detector" where
  "header_detector rules doc =
     list_ex (\<lambda>(name, expected).
        case document_header name doc of
          None \<Rightarrow> False
        | Some value \<Rightarrow>
            (case expected of
               None \<Rightarrow> True
             | Some e \<Rightarrow>
                 list_ex (\<lambda>v. eq_ignore_case (trim v) (trim e)) (split_on (CHR 10) value)))
       rules"

definition is_challenge :: "challenge_detector list \<Rightarrow> main_document \<Rightarrow> bool" where
  "is_challenge detectors doc = list_ex (\<lambda>d. d doc) detectors"

record document_snapshot =
  ds_seq :: nat
  ds_loaded :: bool
  ds_doc :: main_document

section \<open>Waiting out\<close>

definition CHALLENGE_POLL_INTERVAL :: millis where [cfg_simps]:
  "CHALLENGE_POLL_INTERVAL = 100"

datatype challenge_outcome = Challenge_None | Challenge_Passed | Challenge_Failed | Challenge_Skipped

primrec challenge_as_str :: "challenge_outcome \<Rightarrow> string" where
  "challenge_as_str Challenge_None = ''none''"
| "challenge_as_str Challenge_Passed = ''passed''"
| "challenge_as_str Challenge_Failed = ''failed''"
| "challenge_as_str Challenge_Skipped = ''skipped''"

record probe_obs =
  pb_cancelled :: bool
  pb_latest :: "document_snapshot option"
  pb_elapsed :: millis

definition later_pass :: "challenge_detector list \<Rightarrow> nat \<Rightarrow> document_snapshot \<Rightarrow> bool" where
  "later_pass detectors first_seq snap \<longleftrightarrow>
     first_seq < ds_seq snap \<and> ds_loaded snap \<and> \<not> is_challenge detectors (ds_doc snap)"

text \<open>The state is \<open>first\<close>: the number of the challenge's own document.\<close>

definition challenge_step ::
  "challenge_detector list \<Rightarrow> millis \<Rightarrow> nat option \<Rightarrow> probe_obs \<Rightarrow>
   (nat option, wait_error + challenge_outcome) poll_step" where
  "challenge_step detectors window first ob =
     (let finish = (\<lambda>first.
        if window \<le> pb_elapsed ob then
          Poll_Done (Inr (case first of None \<Rightarrow> Challenge_None | Some _ \<Rightarrow> Challenge_Failed))
        else Poll_Next first)
      in if pb_cancelled ob then Poll_Done (Inl Wait_Cancelled)
         else
           (case pb_latest ob of
              None \<Rightarrow> finish first
            | Some snap \<Rightarrow>
                (case first of
                   None \<Rightarrow>
                     if \<not> is_challenge detectors (ds_doc snap) then Poll_Done (Inr Challenge_None)
                     else finish (Some (ds_seq snap))
                 | Some first_seq \<Rightarrow>
                     if later_pass detectors first_seq snap then Poll_Done (Inr Challenge_Passed)
                     else finish first)))"

definition wait_out_challenge ::
  "challenge_detector list \<Rightarrow> millis \<Rightarrow> probe_obs list \<Rightarrow> (wait_error + challenge_outcome) option" where
  "wait_out_challenge detectors window obs = poll_loop (challenge_step detectors window) None obs"

definition json_step :: "millis \<Rightarrow> unit \<Rightarrow> probe_obs \<Rightarrow> (unit, wait_error + bool) poll_step" where
  "json_step budget _ ob =
     (if pb_cancelled ob then Poll_Done (Inl Wait_Cancelled)
      else
        (case pb_latest ob of
           Some snap \<Rightarrow>
             if is_json (ds_doc snap) then
               (if ds_loaded snap \<or> budget \<le> pb_elapsed ob then Poll_Done (Inr True) else Poll_Next ())
             else Poll_Done (Inr False)
         | None \<Rightarrow> Poll_Done (Inr False)))"

definition wait_for_json_body :: "millis \<Rightarrow> probe_obs list \<Rightarrow> (wait_error + bool) option" where
  "wait_for_json_body budget obs = poll_loop (json_step budget) () obs"

interpretation challenge: budgeted_poll "challenge_step detectors window" "\<lambda>ob. window \<le> pb_elapsed ob"
  for detectors window
  by unfold_locales (auto simp: challenge_step_def Let_def split: option.split)

interpretation json: budgeted_poll "json_step budget" "\<lambda>ob. budget \<le> pb_elapsed ob" for budget
  by unfold_locales (auto simp: json_step_def split: option.split)

section \<open>What the outcome means\<close>

definition snapshots :: "probe_obs list \<Rightarrow> document_snapshot list" where
  "snapshots obs = List.map_filter pb_latest obs"

definition challenge_verdict ::
  "challenge_detector list \<Rightarrow> nat option \<Rightarrow> document_snapshot list \<Rightarrow> challenge_outcome" where
  "challenge_verdict detectors first snaps =
     (case first of
        Some n \<Rightarrow> if list_ex (later_pass detectors n) snaps then Challenge_Passed else Challenge_Failed
      | None \<Rightarrow>
          (case snaps of
             [] \<Rightarrow> Challenge_None
           | snap # rest \<Rightarrow>
               if \<not> is_challenge detectors (ds_doc snap) then Challenge_None
               else if list_ex (later_pass detectors (ds_seq snap)) rest then Challenge_Passed
               else Challenge_Failed))"

lemma snapshots_simps [simp]:
  "snapshots [] = []"
  "snapshots (ob # obs) = (case pb_latest ob of Some s \<Rightarrow> s # snapshots obs | None \<Rightarrow> snapshots obs)"
  by (simp_all add: snapshots_def map_filter_simps split: option.split)

lemma challenge_loop_exact:
  assumes "list_all (\<lambda>o'. \<not> pb_cancelled o') (xs @ [ob])" "list_all (\<lambda>x. pb_elapsed x < window) xs"
    and "window \<le> pb_elapsed ob"
  shows "poll_loop (challenge_step detectors window) first (xs @ ob # ys) =
    Some (Inr (challenge_verdict detectors first (snapshots (xs @ [ob]))))"
  using assms
proof (induction xs arbitrary: first)
  case Nil
  then show ?case
    by (auto simp: challenge_step_def challenge_verdict_def Let_def split: option.split)
next
  case (Cons x xs)
  then show ?case
    by (auto simp: challenge_step_def challenge_verdict_def Let_def not_le [symmetric]
        split: option.split list.split)
qed

text \<open>
  the outcome of waiting out a challenge says what happened.  When the window ends without a
  cancellation, the result is decided by the documents the probe showed up to then: none if there was
  no document or the first one is no challenge, passed exactly if the first is a challenge and some later
  one, with a higher number and fully loaded, is flagged by no detector, and failed otherwise.
\<close>
theorem challenge_outcome_exact:
  assumes "list_all (\<lambda>o'. \<not> pb_cancelled o') (xs @ [ob])" "list_all (\<lambda>x. pb_elapsed x < window) xs"
    and "window \<le> pb_elapsed ob"
  shows "wait_out_challenge detectors window (xs @ ob # ys) =
    Some (Inr (case snapshots (xs @ [ob]) of
        [] \<Rightarrow> Challenge_None
      | snap # rest \<Rightarrow>
          if \<not> is_challenge detectors (ds_doc snap) then Challenge_None
          else if list_ex (\<lambda>later. ds_seq snap < ds_seq later \<and> ds_loaded later \<and>
                              \<not> is_challenge detectors (ds_doc later)) rest
          then Challenge_Passed else Challenge_Failed))"
  using challenge_loop_exact [OF assms, of detectors None ys]
  by (simp add: wait_out_challenge_def challenge_verdict_def later_pass_def [abs_def] split: list.splits)

definition sample_snapshot :: "nat \<Rightarrow> (string \<times> string) list \<Rightarrow> document_snapshot" where
  "sample_snapshot n headers =
     \<lparr>ds_seq = n, ds_loaded = True, ds_doc = \<lparr>md_status = 403, md_headers = headers, md_url = ''u''\<rparr>\<rparr>"

definition sample_probe :: "millis \<Rightarrow> document_snapshot \<Rightarrow> probe_obs" where
  "sample_probe t s = \<lparr>pb_cancelled = False, pb_latest = Some s, pb_elapsed = t\<rparr>"

lemma challenge_outcome_exact_witness:
  "wait_out_challenge [header_detector [(''cf-mitigated'', Some ''challenge'')]] 200
     [sample_probe 0 (sample_snapshot 1 [(''CF-Mitigated'', '' Challenge'')]),
      sample_probe 100 (sample_snapshot 1 [(''CF-Mitigated'', '' Challenge'')]),
      sample_probe 200 (sample_snapshot 2 [])] = Some (Inr Challenge_Passed)"
proof -
  let ?c = "sample_snapshot 1 [(''CF-Mitigated'', '' Challenge'')]"
  let ?d = "[header_detector [(''cf-mitigated'', Some ''challenge'')]]"
  have "is_challenge ?d (ds_doc ?c)" "\<not> is_challenge ?d (ds_doc (sample_snapshot 2 []))"
    by (simp_all add: sample_snapshot_def is_challenge_def header_detector_def document_header_def
        eq_ignore_case_def to_lower_def ascii_lower_def trim_def is_space_def char_of_def
        bit_Suc_0_iff)
  then show ?thesis
    using challenge_outcome_exact [of "[sample_probe 0 ?c, sample_probe 100 ?c]"
        "sample_probe 200 (sample_snapshot 2 [])" 200 ?d "[]"]
    by (simp add: sample_probe_def) (simp add: sample_snapshot_def)
qed

end
