(* ===== verification/Cdp_Call.thy ===== *)
theory Cdp_Call
  imports Hive_Prelude
begin

text \<open>
  \<open>worker/src/cdp_call.rs\<close>: a blocking call whose caller waits a bounded time.

  The blocking thread and the caller share a one-shot channel and run in any order, as the steps of a
  transition relation.  \<open>call_outcome\<close> is what the caller of \<open>bounded_with_cleanup\<close> may rely on: the
  result, or a stall and a result nobody received, which \<open>cleanup\<close> gets.
\<close>

section \<open>Errors\<close>

datatype stall_reason = Stall_TimedOut millis | Stall_Panicked

datatype cdp_error = Cdp_Stalled string stall_reason | Cdp_Answered string

primrec is_stalled :: "cdp_error \<Rightarrow> bool" where
  "is_stalled (Cdp_Stalled call reason) \<longleftrightarrow> True"
| "is_stalled (Cdp_Answered e) \<longleftrightarrow> False"

definition CALL_TIMEOUT :: millis where [cfg_simps]:
  "CALL_TIMEOUT = 30000"

section \<open>The hand-over\<close>

datatype thread = Thread_Running | Thread_Sent | Thread_Panicked

datatype 'a waiter = Wait_Open | Wait_Closed | Wait_Returned "cdp_error + 'a" | Wait_Dropped

record 'a call_state =
  cs_thread :: thread
  cs_channel :: "(cdp_error + 'a) option"
  cs_waiter :: "'a waiter"
  cs_cleaned :: "'a list"
  cs_result :: "(cdp_error + 'a) option"

text \<open>What \<open>if let Err(Ok(orphan))\<close> matches; \<open>cs_result\<close> only remembers what the closure returned.\<close>

definition successes :: "(cdp_error + 'a) \<Rightarrow> 'a list" where
  "successes r = (case r of Inr v \<Rightarrow> [v] | Inl _ \<Rightarrow> [])"

definition call_init :: "'a call_state" where
  "call_init = \<lparr>cs_thread = Thread_Running, cs_channel = None, cs_waiter = Wait_Open, cs_cleaned = [],
     cs_result = None\<rparr>"

text \<open>
  \<open>Finish\<close>: the closure returned \<open>r\<close> and sends it; a failed send of a success runs \<open>cleanup\<close>.
  \<open>Give_up\<close> is the timeout closing the channel, \<open>Last_look\<close> the \<open>try_recv\<close> after it, \<open>Drop\<close> the caller's
  future being dropped.
\<close>

inductive call_step :: "string \<Rightarrow> millis \<Rightarrow> 'a call_state \<Rightarrow> 'a call_state \<Rightarrow> bool"
  for call :: string and timeout :: millis where
  Finish_received:
    "cs_thread s = Thread_Running \<Longrightarrow> cs_waiter s = Wait_Open \<Longrightarrow>
     call_step call timeout s (s\<lparr>cs_thread := Thread_Sent, cs_channel := Some r, cs_result := Some r\<rparr>)"
| Finish_orphaned:
    "cs_thread s = Thread_Running \<Longrightarrow> cs_waiter s \<noteq> Wait_Open \<Longrightarrow>
     call_step call timeout s
       (s\<lparr>cs_thread := Thread_Sent, cs_cleaned := cs_cleaned s @ successes r, cs_result := Some r\<rparr>)"
| Panic:
    "cs_thread s = Thread_Running \<Longrightarrow> call_step call timeout s (s\<lparr>cs_thread := Thread_Panicked\<rparr>)"
| Receive:
    "cs_waiter s = Wait_Open \<Longrightarrow> cs_channel s = Some r \<Longrightarrow>
     call_step call timeout s (s\<lparr>cs_channel := None, cs_waiter := Wait_Returned r\<rparr>)"
| See_panic:
    "cs_waiter s = Wait_Open \<Longrightarrow> cs_thread s = Thread_Panicked \<Longrightarrow>
     call_step call timeout s (s\<lparr>cs_waiter := Wait_Returned (Inl (Cdp_Stalled call Stall_Panicked))\<rparr>)"
| Give_up:
    "cs_waiter s = Wait_Open \<Longrightarrow> call_step call timeout s (s\<lparr>cs_waiter := Wait_Closed\<rparr>)"
| Last_look_found:
    "cs_waiter s = Wait_Closed \<Longrightarrow> cs_channel s = Some r \<Longrightarrow>
     call_step call timeout s (s\<lparr>cs_channel := None, cs_waiter := Wait_Returned r\<rparr>)"
| Last_look_empty:
    "cs_waiter s = Wait_Closed \<Longrightarrow> cs_channel s = None \<Longrightarrow>
     call_step call timeout s
       (s\<lparr>cs_waiter := Wait_Returned (Inl (Cdp_Stalled call (Stall_TimedOut timeout)))\<rparr>)"
| Drop:
    "cs_waiter s = Wait_Open \<Longrightarrow>
     call_step call timeout s (s\<lparr>cs_waiter := Wait_Dropped, cs_channel := None\<rparr>)"

inductive_cases call_stepE: "call_step call timeout s t"

inductive call_reachable :: "string \<Rightarrow> millis \<Rightarrow> 'a call_state \<Rightarrow> bool"
  for call :: string and timeout :: millis where
  Call_start: "call_reachable call timeout call_init"
| Call_next: "call_reachable call timeout s \<Longrightarrow> call_step call timeout s t \<Longrightarrow> call_reachable call timeout t"

section \<open>What the caller may rely on\<close>

definition timed_out :: "string \<Rightarrow> millis \<Rightarrow> cdp_error + 'a" where
  "timed_out call timeout = Inl (Cdp_Stalled call (Stall_TimedOut timeout))"

definition call_inv :: "string \<Rightarrow> millis \<Rightarrow> 'a call_state \<Rightarrow> bool" where
  "call_inv call timeout s \<longleftrightarrow>
     (case cs_thread s of
        Thread_Sent \<Rightarrow>
          (\<exists>r. cs_result s = Some r \<and>
             (cs_channel s = Some r \<and> cs_waiter s \<in> {Wait_Open, Wait_Closed} \<and> cs_cleaned s = [] \<or>
              cs_channel s = None \<and> cs_waiter s \<in> {Wait_Returned r, Wait_Dropped} \<and> cs_cleaned s = [] \<or>
              cs_channel s = None \<and> cs_waiter s \<in> {Wait_Returned (timed_out call timeout), Wait_Dropped,
                Wait_Closed} \<and> cs_cleaned s = successes r))
      | Thread_Running \<Rightarrow>
          cs_channel s = None \<and> cs_cleaned s = [] \<and> cs_result s = None \<and>
          cs_waiter s \<in> {Wait_Open, Wait_Closed, Wait_Dropped, Wait_Returned (timed_out call timeout)}
      | Thread_Panicked \<Rightarrow>
          cs_channel s = None \<and> cs_cleaned s = [] \<and> cs_result s = None \<and>
          cs_waiter s \<in> {Wait_Open, Wait_Closed, Wait_Dropped, Wait_Returned (timed_out call timeout),
            Wait_Returned (Inl (Cdp_Stalled call Stall_Panicked))})"

lemma call_inv_step:
  assumes "call_step call timeout s t" "call_inv call timeout s"
  shows "call_inv call timeout t"
  using assms
  by (cases rule: call_step.cases) (auto simp: call_inv_def timed_out_def split: thread.splits)

lemma call_init_fields [simp]:
  "cs_thread call_init = Thread_Running" "cs_waiter call_init = Wait_Open"
  "cs_channel call_init = None" "cs_cleaned call_init = []" "cs_result call_init = None"
  by (simp_all add: call_init_def)

lemma call_inv_init: "call_inv call timeout call_init"
  by (simp add: call_inv_def)

lemma call_reachable_inv: "call_reachable call timeout s \<Longrightarrow> call_inv call timeout s"
  by (induction rule: call_reachable.induct) (auto intro: call_inv_step call_inv_init)

text \<open>A caller that was dropped while the closure still ran.\<close>

definition abandoned :: "'a call_state \<Rightarrow> bool" where
  "abandoned s \<longleftrightarrow> cs_waiter s = Wait_Dropped \<and>
     (case cs_result s of
        Some r \<Rightarrow> cs_thread s = Thread_Sent \<and> cs_cleaned s = successes r
      | None \<Rightarrow> cs_thread s \<noteq> Thread_Sent \<and> cs_cleaned s = [])"

lemma abandoned_step: "call_step call timeout s t \<Longrightarrow> abandoned s \<Longrightarrow> abandoned t"
  by (cases rule: call_step.cases) (auto simp: abandoned_def split: option.splits)

lemma abandoned_steps: "(call_step call timeout)\<^sup>*\<^sup>* s t \<Longrightarrow> abandoned s \<Longrightarrow> abandoned t"
  by (induction rule: rtranclp_induct) (blast intro: abandoned_step)+

text \<open>
  C26: A bounded call hands its result to one owner, in every interleaving of the blocking thread, the timeout
  and the caller.  A caller that got an answer got the closure's own result and nothing was cleaned up; a
  caller that got a stall has its missed success cleaned up exactly once, as soon as the closure returns;
  so has a caller whose future was dropped while the closure ran, whatever happens after.  Nobody's
  success is ever cleaned up twice, and a success that a caller received never.  In every reachable state a
  caller that still waits can stop waiting whatever the thread does.  (One window is left: a caller
  dropped between the closure's send and its own receipt leaves a success with no owner, see below.)
\<close>

theorem bounded_call_hands_over_once:
  assumes "call_reachable call timeout s"
  shows "(\<forall>res. cs_waiter s = Wait_Returned res \<longrightarrow>
      (cs_result s = Some res \<and> cs_cleaned s = []) \<or>
      (\<exists>reason. res = Inl (Cdp_Stalled call reason)) \<and>
        (case cs_result s of Some r \<Rightarrow> cs_cleaned s = successes r
         | None \<Rightarrow> cs_cleaned s = [] \<and> cs_thread s \<noteq> Thread_Sent)) \<and>
    (cs_waiter s = Wait_Dropped \<and> cs_thread s = Thread_Running \<longrightarrow>
      (\<forall>t. (call_step call timeout)\<^sup>*\<^sup>* s t \<longrightarrow>
        (case cs_result t of Some r \<Rightarrow> cs_cleaned t = successes r
         | None \<Rightarrow> cs_cleaned t = [] \<and> cs_thread t \<noteq> Thread_Sent))) \<and>
    (case cs_result s of Some r \<Rightarrow> cs_cleaned s \<in> {[], successes r} | None \<Rightarrow> cs_cleaned s = []) \<and>
    (cs_waiter s = Wait_Open \<longrightarrow>
      (\<exists>t u. call_step call timeout s t \<and> call_step call timeout t u \<and> (\<exists>res. cs_waiter u = Wait_Returned res) \<and>
        cs_thread u = cs_thread s))"
proof (intro conjI allI impI)
  fix res
  assume "cs_waiter s = Wait_Returned res"
  with call_reachable_inv [OF assms] show "(cs_result s = Some res \<and> cs_cleaned s = []) \<or>
      (\<exists>reason. res = Inl (Cdp_Stalled call reason)) \<and>
        (case cs_result s of Some r \<Rightarrow> cs_cleaned s = successes r
         | None \<Rightarrow> cs_cleaned s = [] \<and> cs_thread s \<noteq> Thread_Sent)"
    by (auto simp: call_inv_def timed_out_def split: thread.splits)
next
  fix t
  assume "cs_waiter s = Wait_Dropped \<and> cs_thread s = Thread_Running" and t: "(call_step call timeout)\<^sup>*\<^sup>* s t"
  with call_reachable_inv [OF assms] have "abandoned s"
    by (simp add: call_inv_def abandoned_def)
  from abandoned_steps [OF t this] show "case cs_result t of Some r \<Rightarrow> cs_cleaned t = successes r
      | None \<Rightarrow> cs_cleaned t = [] \<and> cs_thread t \<noteq> Thread_Sent"
    by (auto simp: abandoned_def split: option.split)
next
  show "case cs_result s of Some r \<Rightarrow> cs_cleaned s \<in> {[], successes r} | None \<Rightarrow> cs_cleaned s = []"
    using call_reachable_inv [OF assms] by (auto simp: call_inv_def split: thread.splits)
next
  let ?t = "s\<lparr>cs_waiter := Wait_Closed\<rparr>"
  assume "cs_waiter s = Wait_Open"
  then have t: "call_step call timeout s ?t" by (rule Give_up)
  have "\<exists>u. call_step call timeout ?t u \<and> (\<exists>res. cs_waiter u = Wait_Returned res) \<and> cs_thread u = cs_thread s"
  proof (cases "cs_channel s")
    case None
    then show ?thesis
      using Last_look_empty [of ?t call timeout] by (intro exI) (auto intro: exI)
  next
    case (Some r)
    then show ?thesis
      using Last_look_found [of ?t r call timeout] by (intro exI) (auto intro: exI)
  qed
  with t show "\<exists>t u. call_step call timeout s t \<and> call_step call timeout t u \<and>
      (\<exists>res. cs_waiter u = Wait_Returned res) \<and> cs_thread u = cs_thread s"
    by blast
qed

text \<open>
  A caller dropped too late is different: a success already in the channel when the future is dropped is neither
  received nor cleaned up.
\<close>

lemma dropped_after_send_is_not_cleaned_up:
  "\<exists>s. call_reachable call timeout s \<and> cs_result s = Some (Inr v) \<and> cs_waiter s = Wait_Dropped \<and>
     cs_cleaned s = []"
proof -
  let ?s = "call_init\<lparr>cs_thread := Thread_Sent, cs_channel := Some (Inr v), cs_result := Some (Inr v)\<rparr>"
  have "call_reachable call timeout ?s"
    by (rule Call_next [OF Call_start Finish_received]) (simp_all add: call_init_def)
  then have "call_reachable call timeout (?s\<lparr>cs_waiter := Wait_Dropped, cs_channel := None\<rparr>)"
    by (rule Call_next) (rule Drop, simp add: call_init_def)
  then show ?thesis
    by (intro exI conjI) (assumption, simp_all add: call_init_def)
qed

section \<open>As a function\<close>

text \<open>
  The caller that is not dropped, as the rest of the worker uses it: whether the answer came in time, and
  the orphan \<open>cleanup\<close> gets.
\<close>

definition call_outcome :: "bool \<Rightarrow> string \<Rightarrow> cdp_error + 'a \<Rightarrow> (cdp_error + 'a) \<times> 'a list" where
  "call_outcome late call r =
     (if late then (timed_out call CALL_TIMEOUT, successes r) else (r, []))"

text \<open>
  \<open>call_outcome\<close> is the caller's view of the hand-over: in every reachable state in which the closure
  has returned \<open>r\<close> and the caller has returned, the caller's result and what was cleaned up are
  \<open>call_outcome late call r\<close> for one of the two values of \<open>late\<close>, and both values occur.
\<close>

theorem call_outcome_is_the_hand_over:
  "(\<exists>s. call_reachable call CALL_TIMEOUT s \<and> cs_result s = Some r \<and>
      cs_waiter s = Wait_Returned res \<and> cs_cleaned s = cleaned) \<longleftrightarrow>
   (\<exists>late. call_outcome late call r = (res, cleaned))"
proof
  assume "\<exists>s. call_reachable call CALL_TIMEOUT s \<and> cs_result s = Some r \<and>
      cs_waiter s = Wait_Returned res \<and> cs_cleaned s = cleaned"
  then obtain s where s: "call_reachable call CALL_TIMEOUT s" "cs_result s = Some r"
      "cs_waiter s = Wait_Returned res" "cs_cleaned s = cleaned"
    by blast
  then have "res = r \<and> cleaned = [] \<or> res = timed_out call CALL_TIMEOUT \<and> cleaned = successes r"
    using call_reachable_inv [OF s(1)] by (auto simp: call_inv_def split: thread.splits)
  then show "\<exists>late. call_outcome late call r = (res, cleaned)"
    by (auto simp: call_outcome_def intro: exI [of _ False] exI [of _ True])
next
  assume "\<exists>late. call_outcome late call r = (res, cleaned)"
  then obtain late where l: "call_outcome late call r = (res, cleaned)" ..
  show "\<exists>s. call_reachable call CALL_TIMEOUT s \<and> cs_result s = Some r \<and>
      cs_waiter s = Wait_Returned res \<and> cs_cleaned s = cleaned"
  proof (cases late)
    case False
    let ?s = "call_init\<lparr>cs_thread := Thread_Sent, cs_channel := Some r, cs_result := Some r\<rparr>"
    have "call_reachable call CALL_TIMEOUT ?s"
      by (rule Call_next [OF Call_start Finish_received]) (simp_all add: call_init_def)
    then have "call_reachable call CALL_TIMEOUT (?s\<lparr>cs_channel := None, cs_waiter := Wait_Returned r\<rparr>)"
      by (rule Call_next) (rule Receive, simp_all add: call_init_def)
    with False l show ?thesis
      by (intro exI conjI) (assumption, simp_all add: call_init_def call_outcome_def)
  next
    case True
    let ?c = "call_init\<lparr>cs_waiter := Wait_Closed\<rparr>"
    let ?s = "?c\<lparr>cs_waiter := Wait_Returned (timed_out call CALL_TIMEOUT)\<rparr>"
    have "call_reachable call CALL_TIMEOUT ?c"
      by (rule Call_next [OF Call_start Give_up]) (simp add: call_init_def)
    then have "call_reachable call CALL_TIMEOUT ?s"
      unfolding timed_out_def by (rule Call_next) (rule Last_look_empty, simp_all add: call_init_def)
    then have "call_reachable call CALL_TIMEOUT
        (?s\<lparr>cs_thread := Thread_Sent, cs_cleaned := cs_cleaned ?s @ successes r, cs_result := Some r\<rparr>)"
      by (rule Call_next) (rule Finish_orphaned, simp_all add: call_init_def)
    with True l show ?thesis
      by (intro exI conjI) (assumption, simp_all add: call_init_def call_outcome_def)
  qed
qed

lemma bounded_call_hands_over_once_witness:
  "\<exists>s t. call_reachable ''Page.navigate'' 5 s \<and> cs_waiter s = Wait_Dropped \<and> cs_thread s = Thread_Running \<and>
     (call_step ''Page.navigate'' 5)\<^sup>*\<^sup>* s t \<and> cs_result t = Some (Inr (7 :: nat)) \<and> cs_cleaned t = [7]"
proof -
  let ?s = "call_init\<lparr>cs_waiter := Wait_Dropped, cs_channel := None\<rparr> :: nat call_state"
  let ?t = "?s\<lparr>cs_thread := Thread_Sent, cs_cleaned := cs_cleaned ?s @ successes (Inr 7), cs_result := Some (Inr 7)\<rparr>"
  have s: "call_reachable ''Page.navigate'' 5 ?s"
    by (rule Call_next [OF Call_start Drop]) simp
  have t: "(call_step ''Page.navigate'' 5)\<^sup>*\<^sup>* ?s ?t"
    by (rule r_into_rtranclp, rule Finish_orphaned) simp_all
  have "cs_cleaned ?t = successes (Inr 7)"
    using bounded_call_hands_over_once [OF s, THEN conjunct2, THEN conjunct1] t by simp
  then have "cs_cleaned ?t = [7]"
    by (simp add: successes_def)
  with s t show ?thesis
    by (intro exI [of _ ?s] exI [of _ ?t]) simp
qed

end
