(* ===== verification/Browser_Slots.thy ===== *)
theory Browser_Slots
  imports Pool_Props Cdp_Call
begin

text \<open>
  \<open>worker/src/browser_pool.rs\<close>: what a pool slot owns inside Chrome, and which proxy it leaves through.

  Chrome's answers are a parameter (\<open>chrome\<close>), what the code makes Chrome do is a trace.  A tab is a
  number, a CDP context its id.  Tab-init middlewares only log their failures and are left out.  Disposals and
  tab closes may fail, a tab lock may stay held, and a creation may answer after its caller gave up.
\<close>

section \<open>Starting a pool\<close>

datatype start_error =
    Start_SharedPerContextHost
  | Start_HostWithoutConfigs
  | Start_ProviderConfig string
  | Start_NoProxy

definition normalize_server :: "string option \<Rightarrow> string option" where
  "normalize_server server =
     (case server of None \<Rightarrow> None | Some s \<Rightarrow> (let t = trim s in if t = [] then None else Some t))"

text \<open>The refusals of \<open>BrowserPool::new\<close>; the result is the proxy server Chrome is launched with.\<close>

definition pool_start_check :: "scope_config \<Rightarrow> start_error + string option" where
  "pool_start_check config =
     (let provider = sc_proxy_provider config in
      if pp_assigns_proxy_host_per_context provider \<and> sc_context_isolation config = Shared then
        Inl Start_SharedPerContextHost
      else if pp_assigns_proxy_host_per_context provider \<and>
              \<not> pp_supports_per_context_proxy provider then
        Inl Start_HostWithoutConfigs
      else
        (case pp_build_config provider of
           Inl e \<Rightarrow> Inl (Start_ProviderConfig e)
         | Inr proxy_config \<Rightarrow>
             (let server = normalize_server (build_proxy_server proxy_config)
              in if server = None \<and> \<not> pp_allows_direct_connection provider then Inl Start_NoProxy
                 else Inr server)))"

section \<open>Chrome\<close>

record chrome =
  ch_new_context :: "string option \<Rightarrow> string + string"
  ch_new_tab :: "string option \<Rightarrow> string + nat"
  ch_dispose :: "string \<Rightarrow> string + unit"
  ch_close :: "nat \<Rightarrow> string + unit"
  ch_late :: bool

datatype cdp_effect =
    Cdp_ContextCreated string "string option"
  | Cdp_TabOpened nat "string option"
  | Cdp_ContextDisposed string
  | Cdp_TabClosed nat

record slot_factory =
  sf_cdp_client :: bool
  sf_disposer :: bool
  sf_isolation :: context_isolation

definition factory_of :: "scope_config \<Rightarrow> bool \<Rightarrow> slot_factory" where
  "factory_of config disposer_connected =
     \<lparr>sf_cdp_client = pp_assigns_proxy_host_per_context (sc_proxy_provider config),
      sf_disposer = disposer_connected, sf_isolation = sc_context_isolation config\<rparr>"

definition create_cdp_context ::
  "slot_factory \<Rightarrow> chrome \<Rightarrow> string option \<Rightarrow> (string + string) \<times> cdp_effect list" where
  "create_cdp_context f ch host =
     (case (sf_cdp_client f, host) of
        (True, Some h) \<Rightarrow>
          (case ch_new_context ch (Some h) of
             Inl e \<Rightarrow> (Inl (''Failed to create isolated CDP context with its own proxy: '' @ e), [])
           | Inr i \<Rightarrow> (Inr i, [Cdp_ContextCreated i (Some h)]))
      | _ \<Rightarrow>
          (case ch_new_context ch None of
             Inl e \<Rightarrow> (Inl (''Failed to create isolated CDP context: '' @ e), [])
           | Inr i \<Rightarrow> (Inr i, [Cdp_ContextCreated i None])))"

definition new_tab :: "chrome \<Rightarrow> string option \<Rightarrow> (string + nat) \<times> cdp_effect list" where
  "new_tab ch cdp =
     (case ch_new_tab ch cdp of
        Inl e \<Rightarrow>
          (Inl (case cdp of
                  Some i \<Rightarrow> ''Failed to create tab in CDP context '' @ i @ '': '' @ e
                | None \<Rightarrow> ''Failed to create tab: '' @ e), [])
      | Inr t \<Rightarrow> (Inr t, [Cdp_TabOpened t cdp]))"

definition dispose :: "chrome \<Rightarrow> string \<Rightarrow> cdp_effect list" where
  "dispose ch i = (case ch_dispose ch i of Inr _ \<Rightarrow> [Cdp_ContextDisposed i] | Inl _ \<Rightarrow> [])"

definition slot_build ::
  "slot_factory \<Rightarrow> chrome \<Rightarrow> string option \<Rightarrow> (string + nat \<times> string option) \<times> cdp_effect list" where
  "slot_build f ch host =
     (case (case sf_isolation f of
              Isolated \<Rightarrow> map_prod (map_sum id Some) id (create_cdp_context f ch host)
            | Shared \<Rightarrow> (Inr None, [])) of
        (Inl e, es) \<Rightarrow> (Inl e, es)
      | (Inr cdp, es) \<Rightarrow>
          (case new_tab ch cdp of
             (Inr t, es') \<Rightarrow> (Inr (t, cdp), es @ es')
           | (Inl e, es') \<Rightarrow>
               (Inl e, es @ es' @
                  (case cdp of Some i \<Rightarrow> if sf_disposer f then dispose ch i else [] | None \<Rightarrow> []))))"

definition slot_create ::
  "slot_factory \<Rightarrow> chrome \<Rightarrow> string option \<Rightarrow>
   (nat option \<times> string option) \<times> cdp_effect list" where
  "slot_create f ch host =
     (case sf_isolation f of
        Isolated \<Rightarrow>
          (case create_cdp_context f ch host of
             (Inl e, es) \<Rightarrow> ((None, None), es)
           | (Inr i, es) \<Rightarrow>
               (case new_tab ch (Some i) of
                  (Inr t, es') \<Rightarrow> ((Some t, Some i), es @ es')
                | (Inl e, es') \<Rightarrow> ((None, Some i), es @ es')))
      | Shared \<Rightarrow>
          (case new_tab ch None of
             (Inr t, es') \<Rightarrow> ((Some t, None), es')
           | (Inl e, es') \<Rightarrow> ((None, None), es')))"

section \<open>Releasing\<close>

text \<open>
  Disposal first; the tab is closed only when there is no disposal or it failed.  Chrome may refuse the
  close too (\<open>ch_close\<close>, mostly for a tab that is gone already): that is only logged, and here the tab
  counts as still open.
\<close>

definition close_tab :: "chrome \<Rightarrow> nat option \<Rightarrow> cdp_effect list" where
  "close_tab ch t =
     (case t of
        Some n \<Rightarrow> (case ch_close ch n of Inr _ \<Rightarrow> [Cdp_TabClosed n] | Inl _ \<Rightarrow> [])
      | None \<Rightarrow> [])"

definition release_context_now :: "chrome \<Rightarrow> nat option \<Rightarrow> string option \<Rightarrow> cdp_effect list" where
  "release_context_now ch t disposal =
     (case disposal of
        Some i \<Rightarrow>
          (case ch_dispose ch i of
             Inr _ \<Rightarrow> [Cdp_ContextDisposed i]
           | Inl _ \<Rightarrow> close_tab ch t)
      | None \<Rightarrow> close_tab ch t)"

definition disposal_for :: "bool \<Rightarrow> browser_context \<Rightarrow> string option" where
  "disposal_for disposer c = (if disposer then cdp_context_id c else None)"

text \<open>
  \<open>release_context\<close>: the tab is taken out of the context, unless its lock stays held for five seconds,
  when tab and context are left open.
\<close>

definition release_context ::
  "chrome \<Rightarrow> bool \<Rightarrow> bool \<Rightarrow> browser_context \<Rightarrow> browser_context \<times> cdp_effect list" where
  "release_context ch disposer lock_held c =
     (if lock_held then (c, [])
      else (c\<lparr>tab := None\<rparr>,
            if tab c = None \<and> disposal_for disposer c = None then []
            else release_context_now ch (tab c) (disposal_for disposer c)))"

definition slot_discard :: "slot_factory \<Rightarrow> chrome \<Rightarrow> nat option \<Rightarrow> string option \<Rightarrow> cdp_effect list" where
  "slot_discard f ch t cdp = release_context_now ch t (if sf_disposer f then cdp else None)"

section \<open>A new context\<close>

definition assigned_proxy :: "proxy_provider \<Rightarrow> string \<Rightarrow> proxy_params \<Rightarrow> proxy_config option" where
  "assigned_proxy provider i params =
     (if pp_supports_per_context_proxy provider then pp_context_proxy provider i params else None)"

definition context_proxy_host :: "proxy_config option \<Rightarrow> string option" where
  "context_proxy_host assigned = Option.bind assigned build_proxy_server"

text \<open>The host recorded as the one that carries the context's traffic.\<close>

definition effective_proxy_host ::
  "slot_factory \<Rightarrow> string option \<Rightarrow> string option \<Rightarrow> string option" where
  "effective_proxy_host f context_host launch_host =
     (if sf_cdp_client f then (case context_host of Some h \<Rightarrow> Some h | None \<Rightarrow> launch_host)
      else launch_host)"

text \<open>
  Both creations run behind \<open>bounded_with_cleanup\<close>: when the answer comes late (\<open>ch_late\<close>) the caller has
  given up and what was made is discarded.
\<close>

definition discard_all ::
  "slot_factory \<Rightarrow> chrome \<Rightarrow> (nat option \<times> string option) list \<Rightarrow> cdp_effect list" where
  "discard_all f ch orphans = concat (map (\<lambda>(t, cdp). slot_discard f ch t cdp) orphans)"

definition create_new_context ::
  "scope_config \<Rightarrow> slot_factory \<Rightarrow> chrome \<Rightarrow> proxy_config \<Rightarrow> string \<Rightarrow> millis \<Rightarrow> proxy_params \<Rightarrow>
   (cdp_error + browser_context) \<times> cdp_effect list" where
  "create_new_context config f ch launch_config i now params =
     (let assigned = assigned_proxy (sc_proxy_provider config) i params;
          host = context_proxy_host assigned;
          (built, es) = slot_build f ch host;
          (result, orphans) =
            call_outcome (ch_late ch) ''Target.createBrowserContext/createTarget''
              (map_sum Cdp_Answered id built);
          es' = es @ discard_all f ch (map (map_prod Some id) orphans)
      in case result of
           Inl e \<Rightarrow> (Inl e, es')
         | Inr (t, cdp) \<Rightarrow>
             (Inr \<lparr>metadata = (context_meta_new i now)\<lparr>assigned_proxy_config := assigned\<rparr>,
                   tab = Some t, cdp_context_id = cdp,
                   proxy_host = effective_proxy_host f host (build_proxy_server launch_config),
                   site = None\<rparr>, es'))"

text \<open>The replacement the lifecycle monitor builds for a recycled context.\<close>

definition recycled_context ::
  "scope_config \<Rightarrow> slot_factory \<Rightarrow> chrome \<Rightarrow> proxy_config \<Rightarrow> string \<Rightarrow> millis \<Rightarrow>
   browser_context \<times> cdp_effect list" where
  "recycled_context config f ch launch_config i now =
     (let assigned = assigned_proxy (sc_proxy_provider config) i proxy_params_default;
          host = context_proxy_host assigned;
          (created, es) = slot_create f ch host;
          (result, orphans) =
            call_outcome (ch_late ch) ''recycle Target.createBrowserContext/createTarget'' (Inr created);
          (t, cdp) = (case result of Inr slot \<Rightarrow> slot | Inl _ \<Rightarrow> (None, None))
      in (\<lparr>metadata = (context_meta_new i now)\<lparr>assigned_proxy_config := assigned\<rparr>,
            tab = t, cdp_context_id = cdp,
            proxy_host = effective_proxy_host f host (build_proxy_server launch_config),
            site = None\<rparr>, es @ discard_all f ch orphans))"

section \<open>What a slot leaves behind\<close>

text \<open>
  Reading a trace: the tabs still open (a disposal closes the tabs of its context), the CDP contexts still
  there, and the proxy host a tab's traffic leaves through, which is the one its CDP context was created
  with and else the launch proxy.
\<close>

definition open_tabs :: "cdp_effect list \<Rightarrow> nat list" where
  "open_tabs es =
     concat (map (\<lambda>e. case e of
         Cdp_TabOpened t cdp \<Rightarrow>
           (if Cdp_TabClosed t \<in> set es \<or>
               (case cdp of Some i \<Rightarrow> Cdp_ContextDisposed i \<in> set es | None \<Rightarrow> False)
            then [] else [t])
       | _ \<Rightarrow> []) es)"

definition open_contexts :: "cdp_effect list \<Rightarrow> string list" where
  "open_contexts es =
     concat (map (\<lambda>e. case e of
         Cdp_ContextCreated i _ \<Rightarrow> (if Cdp_ContextDisposed i \<in> set es then [] else [i])
       | _ \<Rightarrow> []) es)"

fun created_with :: "cdp_effect list \<Rightarrow> string \<Rightarrow> string option" where
  "created_with [] i = None"
| "created_with (e # es) i =
     (case e of Cdp_ContextCreated j h \<Rightarrow> (if j = i then h else created_with es i)
      | _ \<Rightarrow> created_with es i)"

definition tab_route :: "string option \<Rightarrow> cdp_effect list \<Rightarrow> nat \<Rightarrow> string option" where
  "tab_route launch es t =
     (case find (\<lambda>e. case e of Cdp_TabOpened n _ \<Rightarrow> n = t | _ \<Rightarrow> False) es of
        Some (Cdp_TabOpened _ (Some i)) \<Rightarrow>
          (case created_with es i of Some h \<Rightarrow> Some h | None \<Rightarrow> launch)
      | _ \<Rightarrow> launch)"

lemmas trace_defs = open_tabs_def open_contexts_def tab_route_def

lemma create_cdp_context_cases:
  obtains (Failed) e where "create_cdp_context f ch host = (Inl e, [])"
    | (Made) i where "create_cdp_context f ch host =
        (Inr i, [Cdp_ContextCreated i (if sf_cdp_client f then host else None)])"
  by (cases "ch_new_context ch (if sf_cdp_client f then host else None)"; cases host)
    (auto simp: create_cdp_context_def split: if_splits)

lemma new_tab_cases:
  obtains (Failed) e where "new_tab ch cdp = (Inl e, [])"
    | (Made) t where "new_tab ch cdp = (Inr t, [Cdp_TabOpened t cdp])"
  by (cases "ch_new_tab ch cdp") (auto simp: new_tab_def)

lemma dispose_cases:
  obtains (Failed) e where "ch_dispose ch i = Inl e" "dispose ch i = []"
    | (Done) "ch_dispose ch i = Inr ()" "dispose ch i = [Cdp_ContextDisposed i]"
  by (cases "ch_dispose ch i") (auto simp: dispose_def)

text \<open>A built slot is a tab in the slot's own CDP context, or in the default one in shared mode.\<close>

lemma slot_build_Inr:
  assumes "slot_build f ch host = (Inr (t, cdp), es)"
  shows "(sf_isolation f = Shared \<and> cdp = None \<and> es = [Cdp_TabOpened t None]) \<or>
    (\<exists>i. sf_isolation f = Isolated \<and> cdp = Some i \<and>
       es = [Cdp_ContextCreated i (if sf_cdp_client f then host else None), Cdp_TabOpened t (Some i)])"
proof (cases "sf_isolation f")
  case Shared
  then show ?thesis
    using assms by (cases ch "None :: string option" rule: new_tab_cases) (auto simp: slot_build_def)
next
  case Isolated
  show ?thesis
  proof (cases f ch host rule: create_cdp_context_cases)
    case (Made i)
    then show ?thesis
      using assms Isolated
      by (cases ch "Some i" rule: new_tab_cases) (auto simp: slot_build_def)
  qed (use assms Isolated in \<open>auto simp: slot_build_def\<close>)
qed

lemma slot_build_Inl:
  assumes "slot_build f ch host = (Inl e, es)"
  shows "es = [] \<or>
    (\<exists>i h. es = Cdp_ContextCreated i h # (if sf_disposer f then dispose ch i else []))"
proof (cases "sf_isolation f")
  case Shared
  then show ?thesis
    using assms by (cases ch "None :: string option" rule: new_tab_cases) (auto simp: slot_build_def)
next
  case Isolated
  show ?thesis
  proof (cases f ch host rule: create_cdp_context_cases)
    case (Made i)
    then show ?thesis
      using assms Isolated
      by (cases ch "Some i" rule: new_tab_cases) (auto simp: slot_build_def)
  qed (use assms Isolated in \<open>auto simp: slot_build_def\<close>)
qed

lemmas creation_defs = create_new_context_def recycled_context_def Let_def call_outcome_def
  timed_out_def discard_all_def successes_def

lemma map_sum_eq_Inr: "map_sum f id x = Inr y \<longleftrightarrow> x = Inr y"
  by (cases x) auto

lemma map_sum_eq_Inl: "map_sum f id x = Inl y \<longleftrightarrow> (\<exists>e. x = Inl e \<and> y = f e)"
  by (cases x) auto

lemma create_new_context_Inr:
  assumes "create_new_context config f ch launch_config i now params = (Inr c, es)"
  obtains t where "tab c = Some t" "\<not> ch_late ch"
    "slot_build f ch (context_proxy_host (assigned_proxy (sc_proxy_provider config) i params)) =
       (Inr (t, cdp_context_id c), es)"
    "proxy_host c = effective_proxy_host f
       (context_proxy_host (assigned_proxy (sc_proxy_provider config) i params))
       (build_proxy_server launch_config)"
  using assms
  by (auto simp: creation_defs map_sum_eq_Inr map_sum_eq_Inl split: prod.splits sum.splits if_splits)

text \<open>A failed creation is a failed build, or a build nobody waited for.\<close>

lemma create_new_context_Inl:
  assumes "create_new_context config f ch launch_config i now params = (Inl e, es)"
  obtains (Failed) e' where
      "slot_build f ch (context_proxy_host (assigned_proxy (sc_proxy_provider config) i params)) = (Inl e', es)"
    | (Late) t cdp es' where
      "slot_build f ch (context_proxy_host (assigned_proxy (sc_proxy_provider config) i params)) =
         (Inr (t, cdp), es')"
      "es = es' @ slot_discard f ch (Some t) cdp" "ch_late ch"
  using assms
  by (auto simp: creation_defs map_sum_eq_Inr map_sum_eq_Inl split: prod.splits sum.splits if_splits)

text \<open>Whether the disposal of a CDP context is asked for and succeeds.\<close>

definition disposes :: "chrome \<Rightarrow> bool \<Rightarrow> string option \<Rightarrow> bool" where
  "disposes ch disposer cdp \<longleftrightarrow>
     disposer \<and> (case cdp of Some i \<Rightarrow> ch_dispose ch i = Inr () | None \<Rightarrow> False)"

lemma release_context_now_effects:
  "release_context_now ch t (if disposer then cdp else None) =
     (if disposes ch disposer cdp then [Cdp_ContextDisposed (the cdp)] else close_tab ch t)"
  by (auto simp: release_context_now_def disposes_def split: option.splits sum.splits)

lemma close_tab_Some: "close_tab ch (Some t) = (if ch_close ch t = Inr () then [Cdp_TabClosed t] else [])"
  by (auto simp: close_tab_def split: sum.splits)

lemma slot_discard_effects:
  "slot_discard f ch t cdp =
     (if disposes ch (sf_disposer f) cdp then [Cdp_ContextDisposed (the cdp)]
      else case t of
          Some n \<Rightarrow> if ch_close ch n = Inr () then [Cdp_TabClosed n] else []
        | None \<Rightarrow> [])"
  by (auto simp: slot_discard_def release_context_now_effects close_tab_def split: option.split sum.split)

lemma release_context_effects:
  assumes "tab c = Some t"
  shows "release_context ch disposer lock_held c =
    (if lock_held then (c, [])
     else (c\<lparr>tab := None\<rparr>,
           if disposes ch disposer (cdp_context_id c) then [Cdp_ContextDisposed (the (cdp_context_id c))]
           else if ch_close ch t = Inr () then [Cdp_TabClosed t] else []))"
  using assms by (simp add: release_context_def disposal_for_def release_context_now_effects close_tab_Some)


text \<open>A provider with a host per context, in isolated mode, and a Chrome that grants everything.\<close>

definition sample_proxy :: "string \<Rightarrow> proxy_config" where
  "sample_proxy url =
     \<lparr>proxy_url = Some url, scheme = Scheme_Http, address = None, port = None, username = None,
      password = None\<rparr>"

definition sample_chrome :: chrome where
  "sample_chrome =
     \<lparr>ch_new_context = (\<lambda>h. Inr ''ctx''), ch_new_tab = (\<lambda>_. Inr 7), ch_dispose = (\<lambda>_. Inr ()),
      ch_close = (\<lambda>_. Inr ()), ch_late = False\<rparr>"

definition sample_rotating :: "string \<Rightarrow> scope_config" where
  "sample_rotating own =
     (sample_scope Reusable 0 2)\<lparr>sc_proxy_provider :=
       (provider_defaults ''rotating'' (Inr (sample_proxy ''http://launch:1'')))
         \<lparr>pp_supports_per_context_proxy := True, pp_assigns_proxy_host_per_context := True,
          pp_context_proxy := (\<lambda>_ _. Some (sample_proxy own))\<rparr>\<rparr>"

lemmas slots_eval = sample_rotating_def sample_chrome_def sample_proxy_def sample_defs
  creation_defs slot_build_def slot_create_def create_cdp_context_def new_tab_def factory_of_def
  assigned_proxy_def context_proxy_host_def effective_proxy_host_def build_proxy_server_def
  strip_credentials_from_url_def pool_start_check_def normalize_server_def
  proxy_params_default_def Let_def


section \<open>Routing\<close>

text \<open>
  \<open>server\<close> is the launch proxy Chrome was started with: the launch configuration's server, trimmed, and none
  when that is blank.  The recorded host is not trimmed.
\<close>

lemma context_isolation_not_Shared: "i \<noteq> Shared \<longleftrightarrow> i = Isolated"
  by (cases i) simp_all

lemma pool_start_check_InrD:
  assumes "pool_start_check config = Inr server"
  shows "pp_assigns_proxy_host_per_context (sc_proxy_provider config) \<Longrightarrow>
      sc_context_isolation config = Isolated \<and>
      pp_supports_per_context_proxy (sc_proxy_provider config)"
    "\<exists>launch. pp_build_config (sc_proxy_provider config) = Inr launch \<and>
      server = normalize_server (build_proxy_server launch)"
    "server = None \<Longrightarrow> pp_allows_direct_connection (sc_proxy_provider config)"
  using assms
  by (auto simp: pool_start_check_def Let_def context_isolation_not_Shared split: if_splits sum.splits)

text \<open>The host of its own a context is given: only by a provider that assigns hosts, else none.\<close>

definition own_host :: "scope_config \<Rightarrow> string \<Rightarrow> proxy_params \<Rightarrow> string option" where
  "own_host config i params =
     (if pp_assigns_proxy_host_per_context (sc_proxy_provider config)
      then Option.bind (pp_context_proxy (sc_proxy_provider config) i params) build_proxy_server
      else None)"

lemma normalize_server_idem [simp]: "normalize_server (normalize_server s) = normalize_server s"
  by (auto simp: normalize_server_def Let_def trim_trim split: option.split)

lemma normalize_server_None: "normalize_server s = None \<longleftrightarrow> (\<forall>u. s = Some u \<longrightarrow> trim u = [])"
  by (auto simp: normalize_server_def Let_def split: option.split)

text \<open>
  C30: Which proxy a context's tab leaves through, and what is recorded of it.  In a pool that started, a
  created context's tab leaves through the context's own host, when the provider assigns hosts and gave it
  one, and then exactly that host is recorded and the tab is in an isolated CDP context created with it.  In
  every other case the tab leaves through the server Chrome was launched with, and that server is the
  recorded host, trimmed, where a blank one stands for no proxy.  Without permission for direct connections
  Chrome was launched with a server, and the recorded host is never absent; the one way left to leave
  directly is a blank host that the provider itself assigned to this context, which is not checked.
\<close>

theorem context_routes_as_recorded:
  assumes "pool_start_check config = Inr server"
    and "pp_build_config (sc_proxy_provider config) = Inr launch_config"
    and "create_new_context config (factory_of config disposer) ch launch_config i now params = (Inr c, es)"
  shows "\<exists>t. tab c = Some t \<and>
    (case own_host config i params of
       Some h \<Rightarrow>
         tab_route server es t = Some h \<and> proxy_host c = Some h \<and>
         (\<exists>cdp. cdp_context_id c = Some cdp \<and>
           es = [Cdp_ContextCreated cdp (Some h), Cdp_TabOpened t (Some cdp)])
     | None \<Rightarrow> tab_route server es t = server \<and> normalize_server (proxy_host c) = server) \<and>
    (\<not> pp_allows_direct_connection (sc_proxy_provider config) \<longrightarrow>
      server \<noteq> None \<and> proxy_host c \<noteq> None \<and>
      (normalize_server (tab_route server es t) = None \<longrightarrow>
        (\<exists>h. own_host config i params = Some h \<and> trim h = [])))"
proof -
  let ?p = "sc_proxy_provider config"
  let ?f = "factory_of config disposer"
  let ?host = "context_proxy_host (assigned_proxy ?p i params)"
  note start = pool_start_check_InrD [OF assms(1)]
  obtain t where t: "tab c = Some t"
    and b: "slot_build ?f ch ?host = (Inr (t, cdp_context_id c), es)"
    and h: "proxy_host c = effective_proxy_host ?f ?host (build_proxy_server launch_config)"
    using create_new_context_Inr [OF assms(3)] by blast
  have server: "server = normalize_server (build_proxy_server launch_config)"
    using start(2) assms(2) by auto
  have own: "own_host config i params = (if sf_cdp_client ?f then ?host else None)"
    using start(1) by (auto simp: own_host_def factory_of_def context_proxy_host_def assigned_proxy_def)
  have iso: "sf_isolation ?f = Shared \<Longrightarrow> \<not> sf_cdp_client ?f"
    using start(1) by (auto simp: factory_of_def)
  have routes: "case own_host config i params of
       Some h \<Rightarrow>
         tab_route server es t = Some h \<and> proxy_host c = Some h \<and>
         (\<exists>cdp. cdp_context_id c = Some cdp \<and>
           es = [Cdp_ContextCreated cdp (Some h), Cdp_TabOpened t (Some cdp)])
     | None \<Rightarrow> tab_route server es t = server \<and> normalize_server (proxy_host c) = server"
    using slot_build_Inr [OF b] iso
    by (elim disjE exE conjE)
      (auto simp: own h server effective_proxy_host_def tab_route_def split: option.split)
  moreover have "server \<noteq> None" if "\<not> pp_allows_direct_connection ?p"
    using start(3) that by blast
  moreover have "normalize_server server = server" by (simp add: server)
  moreover have "normalize_server None = None" by (simp add: normalize_server_def)
  ultimately show ?thesis
    using t by (cases "own_host config i params"; cases "proxy_host c")
      (auto simp: normalize_server_None [of "Some _"])
qed

text \<open>
  Only the launch host is normalised: a blank host per context is sent to Chrome as it is, in a pool that
  started without permission for direct connections.
\<close>

lemma empty_context_host_is_sent:
  "\<exists>server c es. pool_start_check (sample_rotating '''') = Inr server \<and>
    \<not> pp_allows_direct_connection (sc_proxy_provider (sample_rotating '''')) \<and>
    create_new_context (sample_rotating '''') (factory_of (sample_rotating '''') True) sample_chrome
      (sample_proxy ''http://launch:1'') ''id'' 0 proxy_params_default = (Inr c, es) \<and>
    Cdp_ContextCreated ''ctx'' (Some '''') \<in> set es \<and> proxy_host c = Some ''''"
  by (simp add: slots_eval trim_def is_space_def)

text \<open>And the recorded launch host is the untrimmed one, also where Chrome was launched without a proxy.\<close>

definition sample_blank :: scope_config where
  "sample_blank =
     (sample_scope Reusable 0 2)\<lparr>sc_proxy_provider :=
       (provider_defaults ''direct'' (Inr (sample_proxy '' '')))\<lparr>pp_allows_direct_connection := True\<rparr>\<rparr>"

lemma blank_launch_host_is_recorded:
  "\<exists>c es. pool_start_check sample_blank = Inr None \<and>
    create_new_context sample_blank (factory_of sample_blank True) sample_chrome (sample_proxy '' '')
      ''id'' 0 proxy_params_default = (Inr c, es) \<and>
    tab_route None es (the (tab c)) = None \<and> proxy_host c = Some '' ''"
  by (simp add: slots_eval sample_blank_def trim_def is_space_def tab_route_def provider_defaults_def)

text \<open>A provider with a host per context: the tab leaves through that host, and not the launch proxy.\<close>

lemma context_routes_as_recorded_witness:
  "\<exists>c es. create_new_context (sample_rotating ''http://own:2'')
      (factory_of (sample_rotating ''http://own:2'') True) sample_chrome (sample_proxy ''http://launch:1'')
      ''id'' 0 proxy_params_default = (Inr c, es) \<and>
    tab_route (Some ''http://launch:1'') es (the (tab c)) = Some ''http://own:2'' \<and>
    proxy_host c = Some ''http://own:2''"
proof -
  have s: "pool_start_check (sample_rotating ''http://own:2'') = Inr (Some ''http://launch:1'')"
    by (simp add: slots_eval trim_def is_space_def)
  have l: "pp_build_config (sc_proxy_provider (sample_rotating ''http://own:2'')) =
      Inr (sample_proxy ''http://launch:1'')"
    by (simp add: slots_eval)
  obtain c es where c: "create_new_context (sample_rotating ''http://own:2'')
      (factory_of (sample_rotating ''http://own:2'') True) sample_chrome (sample_proxy ''http://launch:1'')
      ''id'' 0 proxy_params_default = (Inr c, es)"
    by (simp add: slots_eval)
  have "own_host (sample_rotating ''http://own:2'') ''id'' proxy_params_default = Some ''http://own:2''"
    by (simp add: slots_eval own_host_def)
  with context_routes_as_recorded [OF s l c] c show ?thesis by auto
qed

lemma slot_create_cases:
  obtains (Nothing) "slot_create f ch host = ((None, None), [])"
    | (Shared_tab) t where "sf_isolation f = Shared"
        "slot_create f ch host = ((Some t, None), [Cdp_TabOpened t None])"
    | (No_tab) cdp where "sf_isolation f = Isolated"
        "slot_create f ch host =
          ((None, Some cdp), [Cdp_ContextCreated cdp (if sf_cdp_client f then host else None)])"
    | (Full) cdp t where "sf_isolation f = Isolated"
        "slot_create f ch host =
          ((Some t, Some cdp),
           [Cdp_ContextCreated cdp (if sf_cdp_client f then host else None),
            Cdp_TabOpened t (Some cdp)])"
proof (cases "sf_isolation f")
  case Shared
  then show ?thesis
    using that(1,2) by (cases ch "None :: string option" rule: new_tab_cases) (auto simp: slot_create_def)
next
  case Isolated
  show ?thesis
  proof (cases f ch host rule: create_cdp_context_cases)
    case (Made cdp)
    then show ?thesis
      using that(3,4) Isolated
      by (cases ch "Some cdp" rule: new_tab_cases) (auto simp: slot_create_def)
  qed (use that(1) Isolated in \<open>auto simp: slot_create_def\<close>)
qed

text \<open>
  Recycling routes like the request path and forgets nothing it created.  When it is not too late the
  replacement context the lifecycle monitor builds records every CDP context
  that was created, so that releasing it disposes of it; in
  isolated mode its tab, when it has one, is inside that context and never in the browser's default
  context; the tab leaves through its own host, which is recorded, or else through the server Chrome was
  launched with, the trimmed recorded host; and no other tab is open.  When it came too late the replacement
  has neither, and what was created is discarded: a tab stays open only when neither the disposal nor the
  close succeeds.  There is always a replacement, if only one without a tab.
\<close>

theorem recycled_slot_routes_as_recorded:
  assumes "pool_start_check config = Inr server"
    and "pp_build_config (sc_proxy_provider config) = Inr launch_config"
    and "recycled_context config (factory_of config disposer) ch launch_config i now = (c, es)"
  shows "bc_id c = i \<and> bc_requests c = 0 \<and> \<not> bc_busy c \<and>
    (if ch_late ch then
       tab c = None \<and> cdp_context_id c = None \<and>
       (\<forall>t\<in>set (open_tabs es). ch_close ch t \<noteq> Inr () \<and>
         (\<forall>cdp. Cdp_TabOpened t cdp \<in> set es \<longrightarrow> \<not> disposes ch disposer cdp))
     else
       open_tabs es = (case tab c of Some t \<Rightarrow> [t] | None \<Rightarrow> []) \<and>
       (\<forall>cdp h. Cdp_ContextCreated cdp h \<in> set es \<longrightarrow> cdp_context_id c = Some cdp) \<and>
       (\<forall>t cdp. Cdp_TabOpened t cdp \<in> set es \<longrightarrow>
          tab c = Some t \<and> cdp_context_id c = cdp \<and>
          (cdp = None \<longleftrightarrow> sc_context_isolation config = Shared) \<and>
          (case own_host config i proxy_params_default of
             Some h \<Rightarrow> tab_route server es t = Some h \<and> proxy_host c = Some h
           | None \<Rightarrow> tab_route server es t = server \<and> normalize_server (proxy_host c) = server)))"
proof -
  let ?p = "sc_proxy_provider config"
  let ?f = "factory_of config disposer"
  let ?host = "context_proxy_host (assigned_proxy ?p i proxy_params_default)"
  note start = pool_start_check_InrD [OF assms(1)]
  have c: "c = \<lparr>metadata = (context_meta_new i now)\<lparr>assigned_proxy_config :=
        assigned_proxy ?p i proxy_params_default\<rparr>,
      tab = (if ch_late ch then None else fst (fst (slot_create ?f ch ?host))),
      cdp_context_id = (if ch_late ch then None else snd (fst (slot_create ?f ch ?host))),
      proxy_host = effective_proxy_host ?f ?host (build_proxy_server launch_config), site = None\<rparr>"
    and es: "es = snd (slot_create ?f ch ?host) @
      (if ch_late ch then slot_discard ?f ch (fst (fst (slot_create ?f ch ?host)))
        (snd (fst (slot_create ?f ch ?host))) else [])"
    using assms(3) by (auto simp: creation_defs split: prod.splits if_splits)
  have server: "server = normalize_server (build_proxy_server launch_config)"
    using start(2) assms(2) by auto
  have own: "own_host config i proxy_params_default = (if sf_cdp_client ?f then ?host else None)"
    using start(1) by (auto simp: own_host_def factory_of_def context_proxy_host_def assigned_proxy_def)
  have iso: "sf_isolation ?f = Shared \<Longrightarrow> \<not> sf_cdp_client ?f"
    using start(1) by (auto simp: factory_of_def)
  have sc: "sf_isolation ?f = sc_context_isolation config" "sf_disposer ?f = disposer"
    by (simp_all add: factory_of_def)
  have d: "ch_late ch \<Longrightarrow> \<forall>t\<in>set (open_tabs es). ch_close ch t \<noteq> Inr () \<and>
      (\<forall>cdp. Cdp_TabOpened t cdp \<in> set es \<longrightarrow> \<not> disposes ch disposer cdp)"
    by (cases ?f ch ?host rule: slot_create_cases)
      (simp_all add: es slot_discard_effects disposes_def trace_defs sc)
  have "\<not> ch_late ch \<Longrightarrow> open_tabs es = (case tab c of Some t \<Rightarrow> [t] | None \<Rightarrow> []) \<and>
       (\<forall>cdp h. Cdp_ContextCreated cdp h \<in> set es \<longrightarrow> cdp_context_id c = Some cdp) \<and>
       (\<forall>t cdp. Cdp_TabOpened t cdp \<in> set es \<longrightarrow>
          tab c = Some t \<and> cdp_context_id c = cdp \<and>
          (cdp = None \<longleftrightarrow> sc_context_isolation config = Shared) \<and>
          (case own_host config i proxy_params_default of
             Some h \<Rightarrow> tab_route server es t = Some h \<and> proxy_host c = Some h
           | None \<Rightarrow> tab_route server es t = server \<and> normalize_server (proxy_host c) = server))"
    by (cases ?f ch ?host rule: slot_create_cases)
      (use iso sc in \<open>auto simp: c es own server trace_defs effective_proxy_host_def split: option.split\<close>)
  with d show ?thesis by (simp add: c context_meta_new_def)
qed

lemma recycled_slot_routes_as_recorded_witness:
  "\<exists>c es. recycled_context (sample_rotating ''http://own:2'')
      (factory_of (sample_rotating ''http://own:2'') True) sample_chrome (sample_proxy ''http://launch:1'')
      ''id'' 0 = (c, es) \<and>
    Cdp_TabOpened 7 (Some ''ctx'') \<in> set es \<and>
    tab_route (Some ''http://launch:1'') es 7 = Some ''http://own:2'' \<and> proxy_host c = Some ''http://own:2''"
proof -
  have s: "pool_start_check (sample_rotating ''http://own:2'') = Inr (Some ''http://launch:1'')"
    by (simp add: slots_eval trim_def is_space_def)
  have l: "pp_build_config (sc_proxy_provider (sample_rotating ''http://own:2'')) =
      Inr (sample_proxy ''http://launch:1'')"
    by (simp add: slots_eval)
  obtain c es where c: "recycled_context (sample_rotating ''http://own:2'')
      (factory_of (sample_rotating ''http://own:2'') True) sample_chrome (sample_proxy ''http://launch:1'')
      ''id'' 0 = (c, es)" and o: "Cdp_TabOpened 7 (Some ''ctx'') \<in> set es"
    by (simp add: slots_eval)
  have "own_host (sample_rotating ''http://own:2'') ''id'' proxy_params_default = Some ''http://own:2''"
    "\<not> ch_late sample_chrome"
    by (simp_all add: slots_eval own_host_def)
  with recycled_slot_routes_as_recorded [OF s l c] c o show ?thesis by fastforce
qed

end
