(* ===== verification/Capped.thy ===== *)
theory Capped
  imports Hive_Prelude
begin

text \<open>
  Stores that stop growing at a cap.

  Several parts of the worker remember one entry per load, host, kind or line of a page they do not
  control, and bound the memory the same way: at the cap a new entry is refused, an existing one is still
  updated.  The locale is that contract; its instances are in \<open>Third_Party\<close>, \<open>Page_Load\<close>,
  \<open>Request_Outcome\<close> and \<open>Diagnostics\<close>.
\<close>

locale capped_store =
  fixes entries :: "'s \<Rightarrow> nat"
    and step :: "'e \<Rightarrow> 's \<Rightarrow> 's"
    and cap :: nat
  assumes step_cap: "entries s \<le> cap \<Longrightarrow> entries (step e s) \<le> cap"
begin

lemma run_cap: "entries s \<le> cap \<Longrightarrow> entries (fold step es s) \<le> cap"
  by (induction es arbitrary: s) (simp_all add: step_cap)

end

text \<open>An insertion into a hash map that respects a cap, and the counts that stay exact.\<close>

definition hput_capped :: "nat \<Rightarrow> 'k \<Rightarrow> 'v \<Rightarrow> ('k, 'v) hmap \<Rightarrow> ('k, 'v) hmap" where
  "hput_capped cap k v m = (if length m < cap \<or> k \<in> hkeys m then hput k v m else m)"

lemma length_hput_capped: "length m \<le> cap \<Longrightarrow> length (hput_capped cap k v m) \<le> cap"
  by (simp add: hput_capped_def length_hput)

lemma hmap_ok_hput_capped [simp, hmap_inv]: "hmap_ok m \<Longrightarrow> hmap_ok (hput_capped cap k v m)"
  by (simp add: hput_capped_def)

lemma length_hkeys: "hmap_ok m \<Longrightarrow> length m = card (hkeys m)"
  by (simp add: hmap_ok_def hkeys_def distinct_card [of "map fst m", simplified])

end
