(* ===== verification/Third_Party.thy ===== *)
theory Third_Party
  imports Capped
begin

text \<open>
  \<open>worker/src/third_party.rs\<close> and \<open>common/src/utils.rs\<close>: hosts and sites, and the capped per-site counters.

  Parsing a URL and the public suffix list are the parameter \<open>url_lib\<close>.  A counter family is a hash map
  from label values to a count; its \<open>scope\<close> label is constant and left out.  One successful or
  failed sample is \<open>iframe_sample\<close>; the sampler with its connection is in \<open>Metrics_Registry\<close>.
\<close>

section \<open>Hosts and sites\<close>

record url_lib =
  ul_parse :: "string \<Rightarrow> string + (string \<times> string option)"
  ul_is_ip :: "string \<Rightarrow> bool"
  ul_domain :: "string \<Rightarrow> string option"

text \<open>\<open>ul_parse\<close> answers the scheme and \<open>host_str\<close>, or the parse error.\<close>

definition extract_domain :: "url_lib \<Rightarrow> string \<Rightarrow> string + string" where
  "extract_domain lib url =
     (case ul_parse lib url of
        Inl e \<Rightarrow> Inl e
      | Inr (_, Some h) \<Rightarrow> Inr h
      | Inr (_, None) \<Rightarrow> Inl ''No host in URL'')"

definition host_of :: "url_lib \<Rightarrow> string \<Rightarrow> string option" where
  "host_of lib url =
     (case ul_parse lib url of
        Inl _ \<Rightarrow> None
      | Inr (scheme, h) \<Rightarrow>
          if scheme \<in> set [''http'', ''https'', ''ws'', ''wss''] then map_option to_lower h else None)"

definition registrable_domain :: "url_lib \<Rightarrow> string \<Rightarrow> string" where
  "registrable_domain lib host =
     (if starts_with ''['' host \<or> ul_is_ip lib host then host
      else (case ul_domain lib host of Some d \<Rightarrow> d | None \<Rightarrow> host))"

definition is_cross_site :: "url_lib \<Rightarrow> string \<Rightarrow> string \<Rightarrow> bool" where
  "is_cross_site lib page_host other_host \<longleftrightarrow>
     registrable_domain lib page_host \<noteq> registrable_domain lib other_host"

section \<open>Counters with a cap\<close>

definition OVERFLOW :: string where "OVERFLOW = ''other''"

definition UNKNOWN_SITE :: string where "UNKNOWN_SITE = ''unknown''"

definition DEFAULT_MAX_SERIES :: nat where [cfg_simps]: "DEFAULT_MAX_SERIES = 2000"

definition MAX_PENDING_LOADS :: nat where [cfg_simps]: "MAX_PENDING_LOADS = 4096"

definition max_series_from_env :: "string option \<Rightarrow> nat" where
  "max_series_from_env value =
     (case value of
        None \<Rightarrow> DEFAULT_MAX_SERIES
      | Some v \<Rightarrow> (case parse_unsigned 64 (trim v) of Some n \<Rightarrow> n | None \<Rightarrow> DEFAULT_MAX_SERIES))"

record capped_counter =
  cc_series :: "(string \<times> string, nat) hmap"
  cc_admitted :: "(string \<times> string, unit) hmap"
  cc_cap :: nat
  cc_keep_second :: bool

definition capped_counter_new :: "nat \<Rightarrow> bool \<Rightarrow> capped_counter" where
  "capped_counter_new cap keep =
     \<lparr>cc_series = hempty, cc_admitted = hempty, cc_cap = cap, cc_keep_second = keep\<rparr>"

text \<open>The labels an increment lands on, and \<open>CappedCounter::inc\<close>.\<close>

definition cc_labels :: "capped_counter \<Rightarrow> string \<times> string \<Rightarrow> string \<times> string" where
  "cc_labels c key =
     (if key \<in> hkeys (cc_admitted c) \<or> length (cc_admitted c) < cc_cap c then key
      else (OVERFLOW, if cc_keep_second c then snd key else OVERFLOW))"

definition cc_inc :: "string \<times> string \<Rightarrow> capped_counter \<Rightarrow> capped_counter" where
  "cc_inc key c =
     c\<lparr>cc_series := hbump (cc_labels c key) (cc_series c),
       cc_admitted := hput_capped (cc_cap c) key () (cc_admitted c)\<rparr>"

section \<open>The loads of one request\<close>

record pending_load =
  pl_host :: string
  pl_document :: bool

datatype load_count =
    Count_Request string
  | Count_Blocked string
  | Count_Type string

datatype load_event =
    Load_WillBeSent string string bool
  | Load_Finished string
  | Load_Failed string bool
  | Load_BlockedType string

type_synonym request_loads = "(string, pending_load) hmap"

text \<open>The state and what is counted; \<open>site\<close> is the page site the request is attributed to.\<close>

definition count_sent :: "url_lib \<Rightarrow> string \<Rightarrow> pending_load \<Rightarrow> load_count list" where
  "count_sent lib site l =
     (if \<not> pl_document l \<and> is_cross_site lib site (pl_host l) then [Count_Request (pl_host l)] else [])"

definition loads_step ::
  "url_lib \<Rightarrow> string \<Rightarrow> load_event \<Rightarrow> request_loads \<Rightarrow> request_loads \<times> load_count list" where
  "loads_step lib site ev pending =
     (case ev of
        Load_WillBeSent i url document \<Rightarrow>
          (case host_of lib url of
             None \<Rightarrow> (hdel i pending, [])
           | Some h \<Rightarrow>
               if MAX_PENDING_LOADS \<le> length pending \<and> i \<notin> hkeys pending then (pending, [])
               else (hput i \<lparr>pl_host = h, pl_document = document\<rparr> pending, []))
      | Load_Finished i \<Rightarrow>
          (case hget pending i of
             Some l \<Rightarrow> (hdel i pending, count_sent lib site l)
           | None \<Rightarrow> (pending, []))
      | Load_Failed i blocked_by_list \<Rightarrow>
          (case hget pending i of
             Some l \<Rightarrow>
               (hdel i pending,
                if blocked_by_list then [Count_Blocked (pl_host l)] else count_sent lib site l)
           | None \<Rightarrow> (pending, []))
      | Load_BlockedType label \<Rightarrow> (pending, [Count_Type label]))"

fun loads_run ::
  "url_lib \<Rightarrow> string \<Rightarrow> load_event list \<Rightarrow> request_loads \<Rightarrow> request_loads \<times> load_count list" where
  "loads_run lib site [] pending = (pending, [])"
| "loads_run lib site (ev # evs) pending =
     (let (pending', counts) = loads_step lib site ev pending;
          (pending'', counts') = loads_run lib site evs pending'
      in (pending'', counts @ counts'))"

section \<open>Iframes\<close>

record target_info =
  ti_id :: string
  ti_type :: string
  ti_url :: string
  ti_context :: "string option"

fun new_iframes ::
  "url_lib \<Rightarrow> (string, string) hmap \<Rightarrow> (string \<times> string) set \<Rightarrow> target_info list \<Rightarrow>
   (string \<times> string) list \<times> (string \<times> string) set" where
  "new_iframes lib sites seen [] = ([], {})"
| "new_iframes lib sites seen (t # ts) =
     (let (found, current) = new_iframes lib sites seen ts
      in if ti_type t \<noteq> ''iframe'' then (found, current)
         else (case host_of lib (ti_url t) of
                 None \<Rightarrow> (found, current)
               | Some h \<Rightarrow>
                   (let key = (ti_id t, h);
                        site = (case Option.bind (ti_context t) (hget sites) of
                                  Some s \<Rightarrow> s | None \<Rightarrow> UNKNOWN_SITE)
                    in (if key \<notin> seen \<and> (site = UNKNOWN_SITE \<or> is_cross_site lib site h)
                        then (site, h) # found else found,
                        insert key current))))"

text \<open>One sample: a failed one keeps \<open>seen\<close>.\<close>

definition iframe_sample ::
  "url_lib \<Rightarrow> (string, string) hmap \<Rightarrow> target_info list option \<Rightarrow>
   (string \<times> string) set \<times> capped_counter \<Rightarrow> (string \<times> string) set \<times> capped_counter" where
  "iframe_sample lib sites targets s =
     (case targets of
        None \<Rightarrow> s
      | Some ts \<Rightarrow>
          (let (found, seen) = new_iframes lib sites (fst s) ts
           in (seen, fold cc_inc found (snd s))))"

section \<open>What the counters promise\<close>

lemma hkeys_hput_capped:
  "hkeys (hput_capped cap k v m) =
     (if length m < cap \<or> k \<in> hkeys m then insert k (hkeys m) else hkeys m)"
  by (simp add: hput_capped_def)

interpretation series: capped_store "\<lambda>m. length m" "\<lambda>key. hput_capped cap key ()" cap for cap
  by unfold_locales (rule length_hput_capped)

interpretation pending: capped_store "\<lambda>m. length m" "\<lambda>ev m. fst (loads_step lib site ev m)"
  MAX_PENDING_LOADS for lib site
proof
  fix m :: request_loads and ev
  assume m: "length m \<le> MAX_PENDING_LOADS"
  have del: "length (hdel i m) \<le> MAX_PENDING_LOADS" for i
    using m length_hdel_le [of i m] by linarith
  show "length (fst (loads_step lib site ev m)) \<le> MAX_PENDING_LOADS"
    using m del by (cases ev) (auto simp: loads_step_def length_hput split: option.splits)
qed

lemma cc_inc_simps [simp]:
  "cc_cap (cc_inc key c) = cc_cap c" "cc_keep_second (cc_inc key c) = cc_keep_second c"
  "cc_admitted (cc_inc key c) = hput_capped (cc_cap c) key () (cc_admitted c)"
  "cc_series (cc_inc key c) = hbump (cc_labels c key) (cc_series c)"
  by (simp_all add: cc_inc_def)

lemma cc_run_fields [simp]:
  "cc_cap (fold cc_inc keys c) = cc_cap c"
  "cc_keep_second (fold cc_inc keys c) = cc_keep_second c"
  "cc_admitted (fold cc_inc keys c) = fold (\<lambda>key. hput_capped (cc_cap c) key ()) keys (cc_admitted c)"
  by (induction keys arbitrary: c) simp_all

definition series_sum :: "('k, nat) hmap \<Rightarrow> nat" where
  "series_sum m = sum_list (map snd m)"

lemma series_sum_hbump: "series_sum (hbump k m) = Suc (series_sum m)"
proof -
  have "sum_list (map snd (AList.update k (Suc (case map_of m k of None \<Rightarrow> 0 | Some n \<Rightarrow> n)) m)) =
      Suc (sum_list (map snd m))"
    by (induction m) auto
  then show ?thesis
    by (simp add: series_sum_def hbump_def hput_def hcount_def hget_def)
qed

lemma series_sum_run: "series_sum (cc_series (fold cc_inc keys c)) = series_sum (cc_series c) + length keys"
  by (induction keys arbitrary: c) (simp_all add: series_sum_hbump)

lemma hkeys_hbump [simp]: "hkeys (hbump k m) = insert k (hkeys m)"
  by (simp add: hbump_def)

text \<open>The label pairs in use: the admitted ones, and those of the overflow.\<close>

definition overflow_labels :: "bool \<Rightarrow> (string \<times> string) list \<Rightarrow> (string \<times> string) set" where
  "overflow_labels keep keys = (if keep then Pair OVERFLOW ` set (map snd keys) else {(OVERFLOW, OVERFLOW)})"

lemma series_labels_run:
  "hkeys (cc_series (fold cc_inc keys c)) \<subseteq>
     hkeys (cc_series c) \<union> hkeys (cc_admitted (fold cc_inc keys c)) \<union>
     overflow_labels (cc_keep_second c) keys"
proof (induction keys rule: rev_induct)
  case (snoc key keys)
  let ?c = "fold cc_inc keys c"
  have "cc_labels ?c key \<in> hkeys (cc_admitted (cc_inc key ?c)) \<union> overflow_labels (cc_keep_second c) [key]"
    by (auto simp: cc_labels_def overflow_labels_def hkeys_hput_capped)
  moreover have "hkeys (cc_admitted ?c) \<subseteq> hkeys (cc_admitted (cc_inc key ?c))"
    by (auto simp: hkeys_hput_capped)
  moreover have "overflow_labels (cc_keep_second c) [key] \<union> overflow_labels (cc_keep_second c) keys \<subseteq>
      overflow_labels (cc_keep_second c) (keys @ [key])"
    by (auto simp: overflow_labels_def)
  ultimately show ?case
    using snoc.IH by (auto simp del: cc_run_fields)
qed auto

lemma hmap_ok_series_run: "hmap_ok (cc_series c) \<Longrightarrow> hmap_ok (cc_series (fold cc_inc keys c))"
  by (induction keys arbitrary: c) simp_all

lemma hmap_ok_admitted_run:
  "hmap_ok m \<Longrightarrow> hmap_ok (fold (\<lambda>key. hput_capped cap key ()) keys m)"
  by (induction keys arbitrary: m) simp_all

text \<open>A pair that is not admitted while there is room for none stays out.\<close>

lemma admitted_stable:
  "key \<notin> hkeys m \<Longrightarrow> cap \<le> length m \<Longrightarrow>
   key \<notin> hkeys (fold (\<lambda>k. hput_capped cap k ()) keys m)"
proof (induction keys arbitrary: m)
  case (Cons k keys)
  have "key \<notin> hkeys (hput_capped cap k () m)" "cap \<le> length (hput_capped cap k () m)"
    using Cons.prems by (auto simp: hput_capped_def length_hput)
  from Cons.IH [OF this] show ?case by simp
qed simp

lemma exact_run:
  assumes "fst key \<noteq> OVERFLOW" "hcount (cc_series c) key = n"
    and "key \<in> hkeys (cc_admitted (fold cc_inc keys c))"
  shows "hcount (cc_series (fold cc_inc keys c)) key = n + count_list keys key"
  using assms(2,3)
proof (induction keys arbitrary: c n)
  case (Cons k keys)
  have "hcount (cc_series (cc_inc k c)) key = (if k = key then Suc n else n)"
  proof (cases "k = key")
    case True
    have "key \<in> hkeys (cc_admitted c) \<or> length (cc_admitted c) < cc_cap c"
    proof (rule ccontr)
      assume "\<not> ?thesis"
      then have "key \<notin> hkeys (hput_capped (cc_cap c) key () (cc_admitted c))"
        "cc_cap c \<le> length (hput_capped (cc_cap c) key () (cc_admitted c))"
        by (simp_all add: hput_capped_def)
      from admitted_stable [OF this, of keys] show False
        using Cons.prems(2) True by simp
    qed
    then show ?thesis
      using True Cons.prems(1) by (simp add: cc_labels_def hbump_def)
  next
    case False
    then have "cc_labels c k \<noteq> key"
      using assms(1) by (auto simp: cc_labels_def)
    then show ?thesis
      using Cons.prems(1) False by (simp add: hbump_def)
  qed
  then show ?case
    using Cons.IH [of "cc_inc k c"] Cons.prems(2) by auto
qed simp

lemma capped_series_length:
  "length (cc_series (fold cc_inc keys (capped_counter_new cap keep))) \<le> cap + card (overflow_labels keep keys)"
proof -
  let ?c = "fold cc_inc keys (capped_counter_new cap keep)"
  have fin: "finite (overflow_labels keep keys)" by (simp add: overflow_labels_def)
  have "length (cc_admitted ?c) \<le> cap"
    using series.run_cap [of "[]" cap keys] by (simp add: capped_counter_new_def)
  moreover have "hmap_ok (cc_admitted ?c)"
    by (simp add: capped_counter_new_def hmap_ok_admitted_run)
  ultimately have "card (hkeys (cc_admitted ?c)) \<le> cap"
    by (simp add: length_hkeys)
  moreover have "hkeys (cc_series ?c) \<subseteq> hkeys (cc_admitted ?c) \<union> overflow_labels keep keys"
    using series_labels_run [of keys "capped_counter_new cap keep"] by (simp add: capped_counter_new_def hkeys_def)
  then have "card (hkeys (cc_series ?c)) \<le> card (hkeys (cc_admitted ?c) \<union> overflow_labels keep keys)"
    using fin by (intro card_mono) (auto simp: hkeys_def)
  moreover have "card (hkeys (cc_admitted ?c) \<union> overflow_labels keep keys) \<le>
      card (hkeys (cc_admitted ?c)) + card (overflow_labels keep keys)"
    by (rule card_Un_le)
  moreover have "hmap_ok (cc_series ?c)"
    by (simp add: hmap_ok_series_run capped_counter_new_def)
  ultimately show ?thesis
    by (simp add: length_hkeys)
qed

text \<open>
  A capped counter is bounded, loses nothing and is exact where it counts a pair by name.  After any
  increments the values of all series add up to the number of increments; there are at most \<open>cap\<close> named
  series and one overflow series (one per second label where that is kept); and a pair that was admitted
  has a series equal to the number of its own increments, whatever was counted in between.
\<close>

theorem capped_counter_bounded_and_exact:
  assumes "c = fold cc_inc keys (capped_counter_new cap keep)"
  shows "series_sum (cc_series c) = length keys \<and>
    length (cc_series c) \<le> cap + card (overflow_labels keep keys) \<and>
    (\<forall>key. key \<in> hkeys (cc_admitted c) \<and> fst key \<noteq> OVERFLOW \<longrightarrow>
      hcount (cc_series c) key = count_list keys key)"
proof (intro conjI allI impI)
  let ?n = "capped_counter_new cap keep"
  show "series_sum (cc_series c) = length keys"
    by (simp add: assms series_sum_run) (simp add: capped_counter_new_def series_sum_def)
  show "length (cc_series c) \<le> cap + card (overflow_labels keep keys)"
    by (simp add: assms capped_series_length)
next
  fix key
  assume "key \<in> hkeys (cc_admitted c) \<and> fst key \<noteq> OVERFLOW"
  then show "hcount (cc_series c) key = count_list keys key"
    using exact_run [of key "capped_counter_new cap keep" 0 keys]
    by (simp add: assms) (simp add: capped_counter_new_def)
qed

lemma capped_counter_bounded_and_exact_witness:
  "let keys = [(''a'', ''x''), (''b'', ''y''), (''a'', ''x'')];
       c = fold cc_inc keys (capped_counter_new 1 False)
   in hcount (cc_series c) (''a'', ''x'') = 2 \<and> length (cc_series c) \<le> 2 \<and> series_sum (cc_series c) = 3"
proof -
  let ?keys = "[(''a'', ''x''), (''b'', ''y''), (''a'', ''x'')]"
  let ?c = "fold cc_inc ?keys (capped_counter_new 1 False)"
  have "(''a'', ''x'') \<in> hkeys (cc_admitted ?c) \<and> fst (''a'', ''x'') \<noteq> OVERFLOW"
    by (simp add: capped_counter_new_def hkeys_hput_capped OVERFLOW_def)
  with capped_counter_bounded_and_exact [of ?c ?keys 1 False] show ?thesis
    by (simp add: Let_def overflow_labels_def del: fold_simps cc_run_fields)
qed

end
