(* ===== verification/Page_Load.thy ===== *)
theory Page_Load
  imports Third_Party
begin

text \<open>
  \<open>worker/src/page_load.rs\<close>: the evidence that a page never finished loading.

  The tracker is fed by the listener's events, each with the time it is handled at; the lock around it is
  the atomicity of a step.  The verdict is read once, for a request that ends as \<open>SELECTOR_NOT_FOUND\<close>.
  URLs are ASCII, so a character is a byte; the ellipsis is its UTF-8 bytes.
\<close>

section \<open>The tracker\<close>

definition STALLED_AFTER :: millis where [cfg_simps]: "STALLED_AFTER = 10000"

definition MAX_TRACKED :: nat where [cfg_simps]: "MAX_TRACKED = 4096"

definition MAX_LISTED :: nat where [cfg_simps]: "MAX_LISTED = 5"

definition MAX_URL_CHARS :: nat where [cfg_simps]: "MAX_URL_CHARS = 120"

definition TRANSPORT_ERRORS :: "string list" where
  "TRANSPORT_ERRORS =
     [''ERR_TIMED_OUT'', ''ERR_CONNECTION_TIMED_OUT'', ''ERR_CONNECTION_RESET'',
      ''ERR_CONNECTION_CLOSED'', ''ERR_CONNECTION_ABORTED'', ''ERR_EMPTY_RESPONSE'', ''ERR_HTTP2_'',
      ''ERR_QUIC_PROTOCOL_ERROR'', ''ERR_INCOMPLETE_CHUNKED_ENCODING'',
      ''ERR_CONTENT_LENGTH_MISMATCH'']"

definition CROSS_ORIGIN_BLOCKS :: "string list" where
  "CROSS_ORIGIN_BLOCKS = [''ERR_BLOCKED_BY_ORB'', ''ERR_BLOCKED_BY_RESPONSE'']"

text \<open>The CDP resource types; only four are tracked, the rest are \<open>RT_Other\<close>.\<close>

datatype resource_type =
    RT_Document | RT_Script | RT_Stylesheet | RT_Xhr | RT_Fetch | RT_Other string

datatype load_kind = Kind_Asset | Kind_Data

definition kind_of :: "resource_type \<Rightarrow> (load_kind \<times> string) option" where
  "kind_of rt =
     (case rt of
        RT_Script \<Rightarrow> Some (Kind_Asset, ''Script'')
      | RT_Stylesheet \<Rightarrow> Some (Kind_Asset, ''Stylesheet'')
      | RT_Xhr \<Rightarrow> Some (Kind_Data, ''XHR'')
      | RT_Fetch \<Rightarrow> Some (Kind_Data, ''Fetch'')
      | _ \<Rightarrow> None)"

datatype load_outcome =
    Load_Pending
  | Load_Status nat
  | Load_Failure (lf_error: string) (lf_canceled: bool) (lf_blocked_by_us: bool) (lf_cors: bool)

record page_load =
  ld_url :: string
  ld_type_label :: string
  ld_kind :: load_kind
  ld_started :: millis
  ld_responded :: "nat option"
  ld_outcome :: load_outcome

record page_load_tracker =
  pt_page_host :: string
  pt_loads :: "(string, page_load) hmap"
  pt_main_document :: "string option"
  pt_last_document :: "string option"
  pt_load_fired :: bool

definition tracker_for :: "url_lib \<Rightarrow> string \<Rightarrow> page_load_tracker" where
  "tracker_for lib requested_url =
     \<lparr>pt_page_host = (case host_of lib requested_url of Some h \<Rightarrow> h | None \<Rightarrow> []),
      pt_loads = hempty, pt_main_document = None, pt_last_document = None, pt_load_fired = False\<rparr>"

definition page_will_be_sent ::
  "millis \<Rightarrow> string \<Rightarrow> string \<Rightarrow> resource_type option \<Rightarrow> bool \<Rightarrow> page_load_tracker \<Rightarrow>
   page_load_tracker" where
  "page_will_be_sent now i url rt is_main_document t =
     (if is_main_document then
        t\<lparr>pt_loads := (if pt_last_document t \<notin> {None, Some i} then hempty else pt_loads t),
          pt_load_fired := (if pt_last_document t \<noteq> Some i then False else pt_load_fired t),
          pt_last_document := Some i, pt_main_document := Some i\<rparr>
      else
        (case Option.bind rt kind_of of
           None \<Rightarrow> t
         | Some (kind, type_label) \<Rightarrow>
             (case hget (pt_loads t) i of
                Some l \<Rightarrow> t\<lparr>pt_loads := hput i (l\<lparr>ld_url := url\<rparr>) (pt_loads t)\<rparr>
              | None \<Rightarrow>
                  if MAX_TRACKED \<le> length (pt_loads t) then t
                  else t\<lparr>pt_loads := hput i
                     \<lparr>ld_url = url, ld_type_label = type_label, ld_kind = kind, ld_started = now,
                      ld_responded = None, ld_outcome = Load_Pending\<rparr> (pt_loads t)\<rparr>)))"

definition page_response :: "string \<Rightarrow> nat \<Rightarrow> page_load_tracker \<Rightarrow> page_load_tracker" where
  "page_response i status t =
     (case hget (pt_loads t) i of
        None \<Rightarrow> t
      | Some l \<Rightarrow>
          t\<lparr>pt_loads := hput i
              (l\<lparr>ld_responded := Some status,
                 ld_outcome := (if status \<in> {403, 429} then Load_Status status else ld_outcome l)\<rparr>)
              (pt_loads t)\<rparr>)"

definition page_finished :: "string \<Rightarrow> page_load_tracker \<Rightarrow> page_load_tracker" where
  "page_finished i t =
     t\<lparr>pt_main_document := (if pt_main_document t = Some i then None else pt_main_document t),
       pt_loads := (case hget (pt_loads t) i of
                      Some l \<Rightarrow> if ld_outcome l = Load_Pending then hdel i (pt_loads t) else pt_loads t
                    | None \<Rightarrow> pt_loads t)\<rparr>"

definition page_failed ::
  "string \<Rightarrow> string \<Rightarrow> bool \<Rightarrow> bool \<Rightarrow> bool \<Rightarrow> page_load_tracker \<Rightarrow> page_load_tracker" where
  "page_failed i error_text canceled blocked_by_us cors t =
     t\<lparr>pt_main_document := (if pt_main_document t = Some i then None else pt_main_document t),
       pt_loads := (case hget (pt_loads t) i of
                      Some l \<Rightarrow> hput i (l\<lparr>ld_outcome := Load_Failure error_text canceled blocked_by_us cors\<rparr>)
                                  (pt_loads t)
                    | None \<Rightarrow> pt_loads t)\<rparr>"

datatype page_event =
    Page_WillBeSent millis string string "resource_type option" bool
  | Page_LoadEvent
  | Page_Response string nat
  | Page_Finished string
  | Page_Failed string string bool bool bool

primrec page_step :: "page_event \<Rightarrow> page_load_tracker \<Rightarrow> page_load_tracker" where
  "page_step (Page_WillBeSent now i url rt main) t = page_will_be_sent now i url rt main t"
| "page_step Page_LoadEvent t = t\<lparr>pt_load_fired := True\<rparr>"
| "page_step (Page_Response i status) t = page_response i status t"
| "page_step (Page_Finished i) t = page_finished i t"
| "page_step (Page_Failed i e canceled blocked cors) t = page_failed i e canceled blocked cors t"

section \<open>The verdict\<close>

definition short_url :: "string \<Rightarrow> string" where
  "short_url url =
     (let base = takeWhile (\<lambda>c. c \<noteq> CHR ''?'' \<and> c \<noteq> CHR ''#'') url
      in if length base \<le> MAX_URL_CHARS then base
         else take MAX_URL_CHARS base @ [CHR 0xE2, CHR 0x80, CHR 0xA6])"

definition is_same_site :: "url_lib \<Rightarrow> page_load_tracker \<Rightarrow> string \<Rightarrow> bool" where
  "is_same_site lib t url =
     (case host_of lib url of
        Some h \<Rightarrow> pt_page_host t \<noteq> [] \<and> \<not> is_cross_site lib (pt_page_host t) h
      | None \<Rightarrow> False)"

function trim_start_matches :: "string \<Rightarrow> string \<Rightarrow> string" where
  "trim_start_matches pre s =
     (if pre \<noteq> [] \<and> starts_with pre s then trim_start_matches pre (drop (length pre) s) else s)"
  by pat_completeness auto
termination
proof (relation "measure (\<lambda>(pre, s). length s)")
  fix pre s :: string
  assume pre: "pre \<noteq> [] \<and> starts_with pre s"
  then have "s \<noteq> []" by (auto simp: starts_with_def)
  with pre show "((pre, drop (length pre) s), (pre, s)) \<in> measure (\<lambda>(pre, s). length s)" by simp
qed simp

declare trim_start_matches.simps [simp del]

definition judge :: "url_lib \<Rightarrow> millis \<Rightarrow> page_load_tracker \<Rightarrow> page_load \<Rightarrow> string option" where
  "judge lib now t l =
     (if ld_kind l = Kind_Data \<and> \<not> is_same_site lib t (ld_url l) then None
      else
        (case ld_outcome l of
           Load_Pending \<Rightarrow>
             (let age = now - ld_started l
              in if STALLED_AFTER \<le> age then
                   Some (case ld_responded l of
                           Some status \<Rightarrow>
                             ''pending '' @ show_nat (age div 1000) @ ''s, HTTP '' @ show_nat status @ '' body''
                         | None \<Rightarrow> ''pending '' @ show_nat (age div 1000) @ ''s'')
                 else None)
         | Load_Status status \<Rightarrow> Some (''HTTP '' @ show_nat status)
         | Load_Failure error_text canceled blocked_by_us cors \<Rightarrow>
             if canceled \<or> blocked_by_us \<or> contains_sub ''ERR_ABORTED'' error_text then None
             else
               (let error = trim_start_matches ''net::'' error_text
                in if cors then Some (''CORS '' @ error)
                   else if list_ex (\<lambda>e. contains_sub e error_text) CROSS_ORIGIN_BLOCKS \<or>
                           list_ex (\<lambda>e. contains_sub e error_text) TRANSPORT_ERRORS
                   then Some error else None)))"

definition document_marker :: "page_load_tracker \<Rightarrow> string option" where
  "document_marker t =
     (if pt_main_document t \<noteq> None then Some ''main document still loading''
      else if pt_last_document t \<noteq> None \<and> \<not> pt_load_fired t then Some ''load event never fired''
      else None)"

definition load_markers :: "url_lib \<Rightarrow> millis \<Rightarrow> page_load_tracker \<Rightarrow> (millis \<times> string) list" where
  "load_markers lib now t =
     List.map_filter
       (\<lambda>(i, l). map_option
          (\<lambda>reason. (ld_started l, ld_type_label l @ '' '' @ reason @ '' '' @ short_url (ld_url l)))
          (judge lib now t l))
       (pt_loads t)"

definition verdict_at :: "url_lib \<Rightarrow> millis \<Rightarrow> page_load_tracker \<Rightarrow> string list \<times> nat" where
  "verdict_at lib now t =
     (let markers = (case document_marker t of Some m \<Rightarrow> [m] | None \<Rightarrow> []) @
                    map snd (sort_key fst (load_markers lib now t))
      in (take MAX_LISTED markers, length markers))"

section \<open>What the verdict stands on\<close>

definition tracker_inv :: "page_load_tracker \<Rightarrow> bool" where
  "tracker_inv t \<longleftrightarrow>
     hmap_ok (pt_loads t) \<and> length (pt_loads t) \<le> MAX_TRACKED \<and>
     (\<forall>i l s. hget (pt_loads t) i = Some l \<and> ld_outcome l = Load_Status s \<longrightarrow> s \<in> {403, 429})"

lemma tracker_inv_new: "tracker_inv (tracker_for lib url)"
  by (simp add: tracker_inv_def tracker_for_def)

lemma tracker_inv_put:
  assumes "tracker_inv t" "i \<in> hkeys (pt_loads t) \<or> length (pt_loads t) < MAX_TRACKED"
    and "\<And>s. ld_outcome l = Load_Status s \<Longrightarrow> s \<in> {403, 429}"
  shows "tracker_inv (t\<lparr>pt_loads := hput i l (pt_loads t)\<rparr>)"
  using assms by (auto simp: tracker_inv_def length_hput)

lemma tracker_inv_other:
  "tracker_inv t \<Longrightarrow> pt_loads t' = pt_loads t \<Longrightarrow> tracker_inv t'"
  by (simp add: tracker_inv_def)

lemma tracker_inv_known:
  "tracker_inv t \<Longrightarrow> hget (pt_loads t) i = Some l \<Longrightarrow> ld_outcome l = Load_Status s \<Longrightarrow> s \<in> {403, 429}"
  unfolding tracker_inv_def by blast

lemma tracker_inv_step: "tracker_inv (t :: page_load_tracker) \<Longrightarrow> tracker_inv (page_step ev t)"
proof (induction ev)
  case (Page_WillBeSent now i url rt main)
  have clear: "tracker_inv (t\<lparr>pt_loads := hempty\<rparr>)" by (simp add: tracker_inv_def)
  show ?case
  proof (cases main)
    case True
    then show ?thesis
      using Page_WillBeSent tracker_inv_other [OF clear] tracker_inv_other [OF Page_WillBeSent]
      by (simp add: page_will_be_sent_def)
  next
    case False
    then show ?thesis
      using Page_WillBeSent
      by (auto simp: page_will_be_sent_def hkeys_iff intro!: tracker_inv_put split: option.split
          dest: tracker_inv_known)
  qed
next
  case Page_LoadEvent
  then show ?case by (simp add: tracker_inv_def)
next
  case (Page_Response i status)
  then show ?case
    by (auto simp: page_response_def hkeys_iff intro!: tracker_inv_put split: option.split if_splits
        dest: tracker_inv_known)
next
  case (Page_Finished i)
  then show ?case
    using length_hdel_le [of i "pt_loads t"]
    by (auto simp: page_finished_def tracker_inv_def split: option.split)
next
  case (Page_Failed i e canceled blocked cors)
  have "hget (pt_loads t) i = Some l \<Longrightarrow>
      tracker_inv (t\<lparr>pt_loads := hput i (l\<lparr>ld_outcome := Load_Failure e canceled blocked cors\<rparr>) (pt_loads t)\<rparr>)" for l
    by (rule tracker_inv_put [OF Page_Failed]) (auto simp: hkeys_iff)
  then show ?case
    using Page_Failed tracker_inv_other by (auto simp: page_failed_def tracker_inv_def split: option.split)
qed

interpretation tracked: capped_store "\<lambda>t :: page_load_tracker. length (pt_loads t)" page_step MAX_TRACKED
proof
  fix t :: page_load_tracker and ev
  assume "length (pt_loads t) \<le> MAX_TRACKED"
  then show "length (pt_loads (page_step ev t)) \<le> MAX_TRACKED"
    using length_hdel_le [of _ "pt_loads t"]
    by (cases ev)
      (auto simp: page_will_be_sent_def page_response_def page_finished_def page_failed_def length_hput
        hkeys_iff split: option.split intro: order_trans)
qed

lemma tracker_inv_run: "tracker_inv t \<Longrightarrow> tracker_inv (fold page_step es t)"
  by (induction es arbitrary: t) (simp_all add: tracker_inv_step)

lemma length_load_markers:
  "length (load_markers lib now t) = length (filter (\<lambda>(i, l). judge lib now t l \<noteq> None) (pt_loads t))"
proof -
  have "length (List.map_filter (\<lambda>(i, l). map_option (f i l) (P l)) xs) =
      length (filter (\<lambda>(i, l). P l \<noteq> None) xs)" for f P xs
    by (induction xs) (auto simp: map_filter_simps split: option.split)
  then show ?thesis by (simp add: load_markers_def)
qed
lemma page_host_step [simp]: "pt_page_host (page_step ev t) = pt_page_host t"
  by (cases ev)
    (auto simp: page_will_be_sent_def page_response_def page_finished_def page_failed_def split: option.split)

lemma page_host_run [simp]: "pt_page_host (fold page_step es t) = pt_page_host t"
  by (induction es arbitrary: t) simp_all

text \<open>A new main document leaves nothing of the page it replaces.\<close>

lemma replaced_page_forgotten:
  assumes "pt_last_document t \<notin> {None, Some i}" "pt_page_host t = pt_page_host (tracker_for lib url)"
  shows "page_step (Page_WillBeSent now i u rt True) t =
    page_step (Page_WillBeSent now i u rt True) (tracker_for lib url)"
  using assms by (simp add: page_will_be_sent_def tracker_for_def)

lemma judge_Some:
  assumes "judge lib now t l = Some reason"
  shows "(ld_kind l = Kind_Asset \<or> is_same_site lib t (ld_url l)) \<and>
    (case ld_outcome l of
       Load_Pending \<Rightarrow> STALLED_AFTER \<le> now - ld_started l
     | Load_Status s \<Rightarrow> reason = ''HTTP '' @ show_nat s
     | Load_Failure e canceled blocked_by_us cors \<Rightarrow>
         \<not> canceled \<and> \<not> blocked_by_us \<and> \<not> contains_sub ''ERR_ABORTED'' e \<and>
         (cors \<or> (\<exists>m \<in> set (CROSS_ORIGIN_BLOCKS @ TRANSPORT_ERRORS). contains_sub m e)))"
  using assms
  by (cases "ld_kind l")
    (auto simp: judge_def Let_def list_ex_iff split: load_outcome.splits if_splits)

text \<open>
  The verdict on an unfinished page is exact.  For any events it finds one marker for the main
  document, when that is still loading or its load event never fired, and one for each tracked load that
  is judged lost; it lists at most five, the document's first.  No marker rests on another site's data
  request, on a load the browser cancelled or our own block list dropped, on a status other than 403 and
  429, or on a load pending for less than ten seconds; and once another main document is requested nothing
  of the page before it counts any more.
\<close>

theorem page_load_verdict_exact:
  assumes "t = fold page_step es (tracker_for lib url)" and "verdict_at lib now t = (listed, n)"
  shows "n = (if document_marker t = None then 0 else 1) +
      length (filter (\<lambda>(i, l). judge lib now t l \<noteq> None) (pt_loads t)) \<and>
    length listed = min MAX_LISTED n \<and>
    (\<forall>m. document_marker t = Some m \<longrightarrow> listed \<noteq> [] \<and> hd listed = m) \<and>
    (\<forall>i l reason. hget (pt_loads t) i = Some l \<and> judge lib now t l = Some reason \<longrightarrow>
       (ld_kind l = Kind_Asset \<or> is_same_site lib t (ld_url l)) \<and>
       (case ld_outcome l of
          Load_Pending \<Rightarrow> STALLED_AFTER \<le> now - ld_started l
        | Load_Status s \<Rightarrow> s \<in> {403, 429}
        | Load_Failure e canceled blocked_by_us cors \<Rightarrow> \<not> canceled \<and> \<not> blocked_by_us)) \<and>
    (\<forall>ts i u rt. pt_last_document t \<notin> {None, Some i} \<longrightarrow>
       page_step (Page_WillBeSent ts i u rt True) t =
       page_step (Page_WillBeSent ts i u rt True) (tracker_for lib url))"
proof (intro conjI allI impI)
  have v: "n = length (case document_marker t of Some m \<Rightarrow> [m] | None \<Rightarrow> []) + length (load_markers lib now t)"
    "listed = take MAX_LISTED ((case document_marker t of Some m \<Rightarrow> [m] | None \<Rightarrow> []) @
       map snd (sort_key fst (load_markers lib now t)))"
    using assms(2) by (auto simp: verdict_at_def Let_def)
  show "n = (if document_marker t = None then 0 else 1) +
      length (filter (\<lambda>(i, l). judge lib now t l \<noteq> None) (pt_loads t))"
    by (auto simp: v(1) length_load_markers split: option.split)
  show "length listed = min MAX_LISTED n"
    by (simp add: v)
  show "listed \<noteq> []" "hd listed = m" if "document_marker t = Some m" for m
    using that by (simp_all add: v(2) MAX_LISTED_def)
next
  fix i l reason
  assume l: "hget (pt_loads t) i = Some l \<and> judge lib now t l = Some reason"
  then show "ld_kind l = Kind_Asset \<or> is_same_site lib t (ld_url l)"
    using judge_Some by blast
  have "tracker_inv t"
    by (simp add: assms(1) tracker_inv_run tracker_inv_new)
  with l judge_Some [of lib now t l reason] show "case ld_outcome l of
          Load_Pending \<Rightarrow> STALLED_AFTER \<le> now - ld_started l
        | Load_Status s \<Rightarrow> s \<in> {403, 429}
        | Load_Failure e canceled blocked_by_us cors \<Rightarrow> \<not> canceled \<and> \<not> blocked_by_us"
    by (auto split: load_outcome.split dest: tracker_inv_known)
next
  fix ts i u rt
  assume "pt_last_document t \<notin> {None, Some i}"
  then show "page_step (Page_WillBeSent ts i u rt True) t =
      page_step (Page_WillBeSent ts i u rt True) (tracker_for lib url)"
    by (rule replaced_page_forgotten) (simp add: assms(1))
qed

text \<open>Hosts written as URLs of their own: enough to run the tracker on a page.\<close>

definition sample_url_lib :: url_lib where
  "sample_url_lib =
     \<lparr>ul_parse = (\<lambda>u. if u = [] then Inl ''relative URL without a base'' else Inr (''https'', Some u)),
      ul_is_ip = (\<lambda>_. False), ul_domain = (\<lambda>_. None)\<rparr>"

lemma page_load_verdict_exact_witness:
  "let t = fold page_step
         [Page_WillBeSent 0 ''1'' ''a'' (Some RT_Document) True,
          Page_WillBeSent 5 ''2'' ''a'' (Some RT_Fetch) False, Page_Response ''2'' 403,
          Page_WillBeSent 6 ''3'' ''b'' (Some RT_Xhr) False, Page_Finished ''1'', Page_LoadEvent]
         (tracker_for sample_url_lib ''a'')
   in \<exists>listed. verdict_at sample_url_lib 60000 t = (listed, 1) \<and> length listed = 1"
proof -
  define t where "t = fold page_step
         [Page_WillBeSent 0 ''1'' ''a'' (Some RT_Document) True,
          Page_WillBeSent 5 ''2'' ''a'' (Some RT_Fetch) False, Page_Response ''2'' 403,
          Page_WillBeSent 6 ''3'' ''b'' (Some RT_Xhr) False, Page_Finished ''1'', Page_LoadEvent]
         (tracker_for sample_url_lib ''a'')"
  obtain listed n where v: "verdict_at sample_url_lib 60000 t = (listed, n)" by fastforce
  note ev = t_def tracker_for_def sample_url_lib_def host_of_def to_lower_def ascii_lower_def
    page_will_be_sent_def page_response_def page_finished_def kind_of_def hput_def hget_def hdel_def
    MAX_TRACKED_def char_of_def bit_Suc_0_iff
  have "document_marker t = None"
    by (simp add: document_marker_def ev)
  moreover have "length (filter (\<lambda>(i, l). judge sample_url_lib 60000 t l \<noteq> None) (pt_loads t)) = 1"
    by (simp add: ev judge_def is_same_site_def is_cross_site_def registrable_domain_def starts_with_def
        STALLED_AFTER_def)
  ultimately show ?thesis
    unfolding Let_def t_def [symmetric]
    using page_load_verdict_exact [OF t_def v] v by (auto simp: MAX_LISTED_def)
qed

end
