(* ===== verification/Request_Outcome.thy ===== *)
theory Request_Outcome
  imports Page_Load Challenge Config Wait_Params Hive_Types
begin

text \<open>
  \<open>worker/src/service.rs\<close>, the pure part: what the response observer keeps of a request, and how the end
  of a request is judged.

  The listener's events reach the observer one at a time.  URL parsing and the public suffix list are the
  parameter \<open>url_lib\<close>; texts are built as the source builds them.
\<close>

section \<open>The main document\<close>

record observed_documents =
  od_latest :: "main_document option"
  od_request_id :: string
  od_seq :: nat
  od_loaded :: bool

definition observed_none :: observed_documents where
  "observed_none = \<lparr>od_latest = None, od_request_id = [], od_seq = 0, od_loaded = False\<rparr>"

definition observe_response :: "string \<Rightarrow> main_document \<Rightarrow> observed_documents \<Rightarrow> observed_documents" where
  "observe_response i doc docs =
     docs\<lparr>od_latest := Some doc, od_request_id := i, od_seq := Suc (od_seq docs), od_loaded := False\<rparr>"

definition mark_document_loaded :: "string \<Rightarrow> observed_documents \<Rightarrow> observed_documents" where
  "mark_document_loaded i docs =
     (if od_latest docs \<noteq> None \<and> od_request_id docs = i then docs\<lparr>od_loaded := True\<rparr> else docs)"

definition probe_latest :: "observed_documents \<Rightarrow> document_snapshot option" where
  "probe_latest docs =
     map_option (\<lambda>doc. \<lparr>ds_seq = od_seq docs, ds_loaded = od_loaded docs, ds_doc = doc\<rparr>) (od_latest docs)"

definition json_document_request_id :: "observed_documents \<Rightarrow> string option" where
  "json_document_request_id docs =
     (case od_latest docs of
        Some doc \<Rightarrow> if is_json doc then Some (od_request_id docs) else None
      | None \<Rightarrow> None)"

text \<open>The two events of the listener that reach it; \<open>Doc_Ended\<close> is \<open>loadingFinished\<close> or \<open>loadingFailed\<close>.\<close>

datatype document_event = Doc_Response string main_document | Doc_Ended string

primrec observe :: "document_event \<Rightarrow> observed_documents \<Rightarrow> observed_documents" where
  "observe (Doc_Response i doc) docs = observe_response i doc docs"
| "observe (Doc_Ended i) docs = mark_document_loaded i docs"

section \<open>Proxy failures\<close>

definition MAX_PROXY_FAILURE_KINDS :: nat where [cfg_simps]: "MAX_PROXY_FAILURE_KINDS = 8"

definition PROXY_ERRORS :: "string list" where
  "PROXY_ERRORS =
     [''ERR_TUNNEL_CONNECTION_FAILED'', ''ERR_PROXY_CONNECTION_FAILED'', ''ERR_PROXY_AUTH_UNSUPPORTED'',
      ''ERR_PROXY_CERTIFICATE_INVALID'', ''ERR_UNEXPECTED_PROXY_AUTH'',
      ''ERR_MANDATORY_PROXY_CONFIGURATION_FAILED'', ''ERR_SOCKS_CONNECTION_FAILED'',
      ''ERR_SOCKS_CONNECTION_HOST_UNREACHABLE'']"

definition is_proxy_error :: "string \<Rightarrow> bool" where
  "is_proxy_error error_text \<longleftrightarrow> list_ex (\<lambda>e. contains_sub e error_text) PROXY_ERRORS"

record proxy_failures =
  pf_by_kind :: "(string, nat) hmap"
  pf_total :: nat

definition proxy_failures_none :: proxy_failures where
  "proxy_failures_none = \<lparr>pf_by_kind = hempty, pf_total = 0\<rparr>"

definition pf_record :: "string \<Rightarrow> proxy_failures \<Rightarrow> proxy_failures" where
  "pf_record kind f =
     f\<lparr>pf_total := Suc (pf_total f),
       pf_by_kind :=
         (if length (pf_by_kind f) < MAX_PROXY_FAILURE_KINDS \<or> kind \<in> hkeys (pf_by_kind f)
          then hbump kind (pf_by_kind f) else pf_by_kind f)\<rparr>"

definition pf_summary :: "proxy_failures \<Rightarrow> string" where
  "pf_summary f =
     join_with '', ''
       (map (\<lambda>(kind, n). if 1 < n then kind @ '' (x'' @ show_nat n @ '')'' else kind)
         (sort_key fst (pf_by_kind f)))"

text \<open>What the listener does on a failed load.\<close>

definition failure_kind :: "string \<Rightarrow> string \<Rightarrow> string" where
  "failure_kind type_debug error_text = type_debug @ '' '' @ error_text"

definition observe_failed :: "string \<Rightarrow> string \<Rightarrow> proxy_failures \<Rightarrow> proxy_failures" where
  "observe_failed type_debug error_text f =
     (if is_proxy_error error_text then pf_record (failure_kind type_debug error_text) f else f)"

section \<open>Redirects and origins\<close>

definition url_host :: "url_lib \<Rightarrow> string \<Rightarrow> string option" where
  "url_host lib url =
     (case ul_parse lib url of Inr (_, h) \<Rightarrow> map_option to_lower h | Inl _ \<Rightarrow> None)"

definition cross_site_redirect_target :: "url_lib \<Rightarrow> string \<Rightarrow> string \<Rightarrow> string option" where
  "cross_site_redirect_target lib requested_url final_url =
     (case (Option.bind (url_host lib requested_url) (ul_domain lib),
            Option.bind (url_host lib final_url) (ul_domain lib)) of
        (Some requested, Some final) \<Rightarrow> if requested \<noteq> final then Some final else None
      | _ \<Rightarrow> None)"

definition request_quarantine_origin :: "url_lib \<Rightarrow> scope_config \<Rightarrow> string \<Rightarrow> string option" where
  "request_quarantine_origin lib config url =
     (if sc_block_quarantine config = 0 \<or> sc_session_mode config \<noteq> Reusable then None
      else Option.bind (url_host lib url) (ul_domain lib))"

section \<open>Judging the end\<close>

definition em_dash :: string where
  "em_dash = [CHR 0xE2, CHR 0x80, CHR 0x94]"

definition page_load_incomplete ::
  "url_lib \<Rightarrow> millis \<Rightarrow> page_load_tracker option \<Rightarrow> string \<Rightarrow> string option" where
  "page_load_incomplete lib now tracker selector_message =
     (case tracker of
        None \<Rightarrow> None
      | Some t \<Rightarrow>
          (let (listed, n) = verdict_at lib now t
           in if n = 0 then None
              else
                (let more = (if length listed < n
                             then '' (+'' @ show_nat (n - length listed) @ '' more)'' else [])
                 in Some (selector_message @ '' '' @ em_dash @ '' page load incomplete: '' @
                          join_with ''; '' listed @ more))))"

text \<open>A tracker behind a poisoned lock is \<open>None\<close>.\<close>

definition counts_as_failure :: "int \<Rightarrow> bool" where
  "counts_as_failure code \<longleftrightarrow> (if code = code_num EC_CapacityExhausted then False else 5000 \<le> code \<and> code < 6000)"

record request_end =
  re_navigation :: "string + unit"
  re_redirect :: "string option"
  re_final_url :: string
  re_wait :: "string + wait_result"
  re_failures :: proxy_failures
  re_tracker :: "page_load_tracker option"
  re_now :: millis

text \<open>Priority: navigation error, then off-domain redirect, then the wait's result.\<close>

definition base_outcome ::
  "string \<Rightarrow> resolved_wait \<Rightarrow> string \<Rightarrow> request_end \<Rightarrow> bool \<times> string \<times> error_code" where
  "base_outcome url wait sname e =
     (case re_navigation e of
        Inl text \<Rightarrow>
          if is_proxy_error text
          then (False, ''Proxy/tunnel failure while navigating: '' @ text, EC_ProxyError)
          else (False, ''Failed to navigate to URL: '' @ text, EC_NetworkError)
      | Inr _ \<Rightarrow>
          if re_redirect e \<noteq> None then
            (False, ''Redirected to another domain: '' @ re_final_url e @ '' (from '' @ url @ '')'',
             EC_RedirectToAnotherDomain)
          else
            (case re_wait e of
               Inr Wait_Success \<Rightarrow> (True, [], EC_None)
             | Inr Wait_SkipSelectorFound \<Rightarrow>
                 (False, ''Skip selector '' @ [CHR 39] @ rw_skip_selector wait @ [CHR 39] @ '' was found'',
                  EC_SkipSelectorFound)
             | Inr Wait_WaitSelectorNotFound \<Rightarrow>
                 (False, ''Wait selector '' @ [CHR 39] @ rw_wait_selector wait @ [CHR 39] @
                    '' was not found within timeout'', EC_SelectorNotFound)
             | Inl err \<Rightarrow>
                 (False, ''Wait strategy '' @ [CHR 39] @ sname @ [CHR 39] @ '' failed: '' @ err,
                  EC_TimeoutBrowser)))"

definition proxy_override ::
  "proxy_failures \<Rightarrow> string \<times> error_code \<Rightarrow> string \<times> error_code" where
  "proxy_override f m =
     (if 0 < pf_total f \<and> snd m \<in> {EC_SelectorNotFound, EC_TimeoutBrowser} then
        (fst m @ '' '' @ em_dash @ '' '' @ show_nat (pf_total f) @
           '' resource load(s) failed with a proxy/tunnel error: '' @ pf_summary f, EC_ProxyError)
      else m)"

definition page_load_override ::
  "url_lib \<Rightarrow> millis \<Rightarrow> page_load_tracker option \<Rightarrow> string \<times> error_code \<Rightarrow> string \<times> error_code" where
  "page_load_override lib now tracker m =
     (if snd m = EC_SelectorNotFound then
        (case page_load_incomplete lib now tracker (fst m) of
           Some message \<Rightarrow> (message, EC_PageLoadIncomplete)
         | None \<Rightarrow> m)
      else m)"

definition request_outcome ::
  "url_lib \<Rightarrow> string \<Rightarrow> resolved_wait \<Rightarrow> string \<Rightarrow> request_end \<Rightarrow> bool \<times> string \<times> error_code" where
  "request_outcome lib url wait sname e =
     (let (success, message, code) = base_outcome url wait sname e
      in (success,
          page_load_override lib (re_now e) (re_tracker e) (proxy_override (re_failures e) (message, code))))"
section \<open>The observer is exact\<close>

definition responses :: "document_event list \<Rightarrow> (string \<times> main_document) list" where
  "responses es = List.map_filter (\<lambda>e. case e of Doc_Response i d \<Rightarrow> Some (i, d) | Doc_Ended _ \<Rightarrow> None) es"

lemma responses_snoc [simp]:
  "responses (es @ [Doc_Response i d]) = responses es @ [(i, d)]"
  "responses (es @ [Doc_Ended i]) = responses es"
  by (simp_all add: responses_def List.map_filter_def)

text \<open>Whether the body of the latest response has ended since that response.\<close>

fun ended_since :: "document_event list \<Rightarrow> bool" where
  "ended_since [] = False"
| "ended_since (Doc_Response i d # es) = (if responses es = [] then Doc_Ended i \<in> set es else ended_since es)"
| "ended_since (Doc_Ended i # es) = ended_since es"

lemma ended_since_none: "responses es = [] \<Longrightarrow> \<not> ended_since es"
proof (induction es)
  case (Cons e es)
  then show ?case by (cases e) (auto simp: responses_def List.map_filter_def)
qed simp

lemma ended_since_snoc_response [simp]: "\<not> ended_since (es @ [Doc_Response i d])"
proof (induction es)
  case Nil
  then show ?case by (simp add: responses_def List.map_filter_def)
next
  case (Cons e es)
  then show ?case by (cases e) auto
qed

lemma ended_since_snoc_ended [simp]:
  "ended_since (es @ [Doc_Ended i]) \<longleftrightarrow>
     ended_since es \<or> (responses es \<noteq> [] \<and> fst (last (responses es)) = i)"
proof (induction es)
  case (Cons e es)
  show ?case
  proof (cases e)
    case (Doc_Response j d)
    then have r: "responses (e # es) = (j, d) # responses es"
      by (simp add: responses_def List.map_filter_def)
    show ?thesis
      using Cons.IH ended_since_none [of es] by (auto simp: Doc_Response r [unfolded Doc_Response])
  next
    case (Doc_Ended j)
    then have "responses (e # es) = responses es"
      by (simp add: responses_def List.map_filter_def)
    then show ?thesis using Cons.IH Doc_Ended by simp
  qed
qed (simp add: responses_def)

lemma observe_exact:
  "fold observe es observed_none =
     (case responses es of
        [] \<Rightarrow> observed_none
      | r # rs \<Rightarrow> \<lparr>od_latest = Some (snd (last (responses es))), od_request_id = fst (last (responses es)),
                  od_seq = length (responses es), od_loaded = ended_since es\<rparr>)"
proof (induction es rule: rev_induct)
  case Nil
  then show ?case by (simp add: responses_def)
next
  case (snoc e es)
  then show ?case
    by (cases e; cases "responses es")
      (auto simp: observe_response_def mark_document_loaded_def observed_none_def ended_since_none)
qed

interpretation proxy_kinds: capped_store "\<lambda>f. length (pf_by_kind f)" pf_record MAX_PROXY_FAILURE_KINDS
  by unfold_locales (auto simp: pf_record_def hbump_def length_hput)

lemma pf_total_run: "pf_total (fold pf_record kinds f) = pf_total f + length kinds"
  by (induction kinds arbitrary: f) (simp_all add: pf_record_def)

section \<open>The decision\<close>

definition sample_wait :: resolved_wait where
  "sample_wait = \<lparr>rw_strategy = [], rw_timeout_ms = 0, rw_wait_selector = ''#x'', rw_skip_selector = [],
                  rw_challenge_timeout_ms = 0\<rparr>"

lemma page_load_incomplete_None:
  "page_load_incomplete lib now tracker msg = None \<longleftrightarrow>
     (case tracker of None \<Rightarrow> True | Some t \<Rightarrow> snd (verdict_at lib now t) = 0)"
  by (auto simp: page_load_incomplete_def Let_def split: option.split prod.split)

definition page_complete :: "url_lib \<Rightarrow> request_end \<Rightarrow> bool" where
  "page_complete lib e \<longleftrightarrow>
     (case re_tracker e of None \<Rightarrow> True | Some t \<Rightarrow> snd (verdict_at lib (re_now e) t) = 0)"

lemma page_load_override_code:
  "snd (page_load_override lib (re_now e) (re_tracker e) m) =
     (if snd m = EC_SelectorNotFound \<and> \<not> page_complete lib e then EC_PageLoadIncomplete else snd m)"
proof -
  have "page_load_incomplete lib (re_now e) (re_tracker e) (fst m) = None \<longleftrightarrow> page_complete lib e"
    by (simp add: page_complete_def page_load_incomplete_None)
  then show ?thesis
    by (cases "page_load_incomplete lib (re_now e) (re_tracker e) (fst m)")
      (simp_all add: page_load_override_def)
qed

lemma page_load_override_other: "snd m \<noteq> EC_SelectorNotFound \<Longrightarrow> page_load_override lib now tracker m = m"
  by (simp add: page_load_override_def)

lemma proxy_override_code:
  "snd (proxy_override f m) =
     (if 0 < pf_total f \<and> snd m \<in> {EC_SelectorNotFound, EC_TimeoutBrowser} then EC_ProxyError else snd m)"
  by (simp add: proxy_override_def)

lemma proxy_override_other:
  "snd m \<notin> {EC_SelectorNotFound, EC_TimeoutBrowser} \<Longrightarrow> proxy_override f m = m"
  by (auto simp: proxy_override_def)

lemma request_outcome_code:
  "snd (snd (request_outcome lib url wait sname e)) =
     (let code = snd (snd (base_outcome url wait sname e));
          code' = (if 0 < pf_total (re_failures e) \<and> code \<in> {EC_SelectorNotFound, EC_TimeoutBrowser}
                   then EC_ProxyError else code)
      in if code' = EC_SelectorNotFound \<and> \<not> page_complete lib e then EC_PageLoadIncomplete else code')"
  by (simp add: request_outcome_def page_load_override_code proxy_override_code Let_def split: prod.split)

lemma request_outcome_success:
  "fst (request_outcome lib url wait sname e) = fst (base_outcome url wait sname e)"
  by (simp add: request_outcome_def split: prod.split)

lemma request_outcome_message:
  "snd (snd (base_outcome url wait sname e)) = EC_None \<Longrightarrow>
   fst (snd (request_outcome lib url wait sname e)) = fst (snd (base_outcome url wait sname e))"
  by (cases "base_outcome url wait sname e")
    (simp add: request_outcome_def page_load_override_other proxy_override_other)

text \<open>Success and an empty message go with code NONE alone.\<close>

lemma base_outcome_success:
  "fst (base_outcome url wait sname e) \<longleftrightarrow> snd (snd (base_outcome url wait sname e)) = EC_None"
  "snd (snd (base_outcome url wait sname e)) = EC_None \<Longrightarrow> fst (snd (base_outcome url wait sname e)) = []"
  by (cases "re_navigation e"; cases "re_redirect e"; cases "re_wait e";
      auto simp: base_outcome_def split: wait_result.splits if_splits)+

lemma base_outcome_code:
  "snd (snd (base_outcome url wait sname e)) =
     (case re_navigation e of
        Inl text \<Rightarrow> if is_proxy_error text then EC_ProxyError else EC_NetworkError
      | Inr _ \<Rightarrow>
          if re_redirect e \<noteq> None then EC_RedirectToAnotherDomain
          else
            (case re_wait e of
               Inr Wait_Success \<Rightarrow> EC_None
             | Inr Wait_SkipSelectorFound \<Rightarrow> EC_SkipSelectorFound
             | Inr Wait_WaitSelectorNotFound \<Rightarrow> EC_SelectorNotFound
             | Inl _ \<Rightarrow> EC_TimeoutBrowser))"
  by (auto simp: base_outcome_def split: sum.split wait_result.split)

lemma counts_as_failure_code:
  "counts_as_failure (code_num c) \<longleftrightarrow>
     c \<in> {EC_NoWorkersAvailable, EC_WorkerUnreachable, EC_BrowserError, EC_NetworkError,
          EC_ContextCreationFailed, EC_Terminating, EC_ProxyError, EC_PageLoadIncomplete}"
  by (cases c) (simp_all add: counts_as_failure_def)

lemma request_outcome_decision:
  assumes "request_outcome lib url wait sname e = (success, message, code)"
  shows "code =
     (case re_navigation e of
        Inl text \<Rightarrow> if is_proxy_error text then EC_ProxyError else EC_NetworkError
      | Inr _ \<Rightarrow>
          if re_redirect e \<noteq> None then EC_RedirectToAnotherDomain
          else
            (case re_wait e of
               Inr Wait_Success \<Rightarrow> EC_None
             | Inr Wait_SkipSelectorFound \<Rightarrow> EC_SkipSelectorFound
             | Inr Wait_WaitSelectorNotFound \<Rightarrow>
                 if 0 < pf_total (re_failures e) then EC_ProxyError
                 else if page_complete lib e then EC_SelectorNotFound else EC_PageLoadIncomplete
             | Inl _ \<Rightarrow> if 0 < pf_total (re_failures e) then EC_ProxyError else EC_TimeoutBrowser)) \<and>
   success = (code = EC_None) \<and> (success \<longrightarrow> message = []) \<and>
   (counts_as_failure (code_num code) \<longleftrightarrow>
      code \<in> {EC_NetworkError, EC_ProxyError, EC_PageLoadIncomplete})"
proof -
  let ?b = "base_outcome url wait sname e"
  note code = request_outcome_code [of lib url wait sname e, unfolded assms Let_def base_outcome_code, simplified]
  have c: "code = EC_None \<longleftrightarrow> snd (snd ?b) = EC_None"
    by (simp add: code base_outcome_code split: sum.split wait_result.split)
  then have "success = (code = EC_None)" "success \<longrightarrow> message = []"
    using request_outcome_success [of lib url wait sname e] request_outcome_message [of url wait sname e lib]
      base_outcome_success [of url wait sname e] by (auto simp: assms)
  then show ?thesis
    by (intro conjI)
      (simp_all add: code counts_as_failure_code split: sum.split wait_result.split)
qed

text \<open>
  The error code of a finished request follows one decision table.  A failed navigation is a proxy or
  a network error whatever else was seen; else an off-domain redirect is reported and the selectors' verdict
  on the foreign page dropped; else a success stays a success and a found skip selector stays found,
  whatever was lost on the way; else a missing selector or a timed-out wait is the proxy's fault when any
  load died in the proxy; and only then is a missing selector blamed on a page that never finished.
  \<open>success\<close> is set exactly for code NONE, whose message is empty; of all these only network, proxy and
  unfinished-page errors count as failures of the worker.
\<close>

theorem request_outcome_table:
  assumes "request_outcome lib url wait sname e = (success, message, code)"
  shows "code =
     (case re_navigation e of
        Inl text \<Rightarrow> if is_proxy_error text then EC_ProxyError else EC_NetworkError
      | Inr _ \<Rightarrow>
          if re_redirect e \<noteq> None then EC_RedirectToAnotherDomain
          else
            (case re_wait e of
               Inr Wait_Success \<Rightarrow> EC_None
             | Inr Wait_SkipSelectorFound \<Rightarrow> EC_SkipSelectorFound
             | Inr Wait_WaitSelectorNotFound \<Rightarrow>
                 if 0 < pf_total (re_failures e) then EC_ProxyError
                 else if page_complete lib e then EC_SelectorNotFound else EC_PageLoadIncomplete
             | Inl _ \<Rightarrow> if 0 < pf_total (re_failures e) then EC_ProxyError else EC_TimeoutBrowser)) \<and>
   success = (code = EC_None) \<and> (success \<longrightarrow> message = []) \<and>
   (counts_as_failure (code_num code) \<longleftrightarrow>
      code \<in> {EC_NetworkError, EC_ProxyError, EC_PageLoadIncomplete})"
  using assms by (rule request_outcome_decision)

lemma request_outcome_table_witness:
  "let e = \<lparr>re_navigation = Inr (), re_redirect = None, re_final_url = ''u'',
            re_wait = Inr Wait_WaitSelectorNotFound,
            re_failures = pf_record ''Script net::ERR_TUNNEL_CONNECTION_FAILED'' proxy_failures_none,
            re_tracker = None, re_now = 0\<rparr>
   in \<exists>message. request_outcome sample_url_lib ''u'' sample_wait ''network_idle'' e =
        (False, message, EC_ProxyError)"
proof -
  define e where "e = \<lparr>re_navigation = Inr (), re_redirect = None, re_final_url = ''u'',
            re_wait = Inr Wait_WaitSelectorNotFound,
            re_failures = pf_record ''Script net::ERR_TUNNEL_CONNECTION_FAILED'' proxy_failures_none,
            re_tracker = None, re_now = 0\<rparr>"
  obtain success message code where
    r: "request_outcome sample_url_lib ''u'' sample_wait ''network_idle'' e = (success, message, code)"
    by (metis surj_pair)
  show ?thesis
    unfolding Let_def e_def [symmetric]
    using request_outcome_table [OF r] r
    by (auto simp: e_def pf_record_def)
qed

end
