(* ===== verification/Worker_Scrape.thy ===== *)
theory Worker_Scrape
  imports Request_Outcome Browser_Slots Coordinator
begin

text \<open>
  \<open>worker/src/service.rs\<close>, \<open>scrape_page_internal\<close>: one attempt to scrape a page in one context.

  The handler is a sequence of stages, each of which may end the attempt with a response; a stage is its
  result and what it did, in order.  Every answer of Chrome, the clock and other tasks is in the job's
  \<open>scrape_env\<close>; a \<open>tokio::select!\<close> is the branch that won.  Logging, spans and the diagnostics session are
  left out, except that starting one may stall; so are the counters the listener feeds (\<open>Third_Party\<close>).
\<close>

section \<open>Stages\<close>

text \<open>A gRPC error, a panic that unwinds the handler, or a response.\<close>

datatype scrape_end = End_Status string | End_Panic | End_Response worker_response

datatype scrape_effect =
    Fx_Claimed
  | Fx_Used
  | Fx_TabOpened nat "string option"
  | Fx_FetchEnabled nat bool
  | Fx_Authenticated nat "string \<times> string"
  | Fx_Site string
  | Fx_Navigate nat string
  | Fx_CloseTab nat
  | Fx_Destroy string
  | Fx_PoolRecreated
  | Fx_PageRequest string challenge_outcome
  | Fx_Quarantine string millis
  | Fx_Released

type_synonym 'a stage = "(scrape_end + 'a) \<times> scrape_effect list"

definition pass :: "'a \<Rightarrow> 'a stage" where
  "pass x = (Inr x, [])"

definition act :: "scrape_effect \<Rightarrow> unit stage" where
  "act fx = (Inr (), [fx])"

definition stop :: "worker_response \<Rightarrow> 'a stage" where
  "stop r = (Inl (End_Response r), [])"

definition andthen :: "'a stage \<Rightarrow> ('a \<Rightarrow> 'b stage) \<Rightarrow> 'b stage" where
  "andthen m f =
     (case m of
        (Inl a, es) \<Rightarrow> (Inl a, es)
      | (Inr x, es) \<Rightarrow> (case f x of (r, es') \<Rightarrow> (r, es @ es')))"

lemma andthen_laws [simp]:
  "andthen (pass x) f = f x" "andthen m pass = m" "andthen (stop r) f = stop r"
  "andthen (andthen m f) g = andthen m (\<lambda>x. andthen (f x) g)"
  by (auto simp: andthen_def pass_def stop_def split: prod.split sum.split)

lemma andthen_result:
  "andthen (Inl a, es) f = (Inl a, es)"
  "andthen (Inr x, es) f = (case f x of (r, es') \<Rightarrow> (r, es @ es'))"
  by (simp_all add: andthen_def)

text \<open>
  What holds when a stage ends the attempt (\<open>E\<close>) and when it passes a result on (\<open>Q\<close>), with its effects.
\<close>

definition runs ::
  "'a stage \<Rightarrow> (scrape_end \<Rightarrow> scrape_effect list \<Rightarrow> bool) \<Rightarrow> ('a \<Rightarrow> scrape_effect list \<Rightarrow> bool) \<Rightarrow> bool" where
  "runs m E Q \<longleftrightarrow> (case fst m of Inl a \<Rightarrow> E a (snd m) | Inr x \<Rightarrow> Q x (snd m))"

named_theorems runs_intros "rules for the stages"

lemma runs_andthen [runs_intros]:
  assumes "runs m E (\<lambda>x es. runs (f x) (\<lambda>a es'. E a (es @ es')) (\<lambda>y es'. Q y (es @ es')))"
  shows "runs (andthen m f) E Q"
  using assms by (auto simp: runs_def andthen_def split: sum.splits prod.splits)

lemma runs_pass [runs_intros]: "Q x [] \<Longrightarrow> runs (pass x) E Q"
  by (simp add: runs_def pass_def)

lemma runs_act [runs_intros]: "Q () [fx] \<Longrightarrow> runs (act fx) E Q"
  by (simp add: runs_def act_def)

lemma runs_stop [runs_intros]: "E (End_Response r) [] \<Longrightarrow> runs (stop r) E Q"
  by (simp add: runs_def stop_def)

lemma runs_mono:
  assumes "runs m E Q" "\<And>a es. E a es \<Longrightarrow> E' a es" "\<And>x es. Q x es \<Longrightarrow> Q' x es"
  shows "runs m E' Q'"
  using assms by (auto simp: runs_def split: sum.splits)

section \<open>The job\<close>

record worker_config =
  wc_scope :: scope_config
  wc_pod_name :: string
  wc_pod_ip :: string
  wc_detectors :: "challenge_detector list"
  wc_blocked_types :: "string list"
  wc_registry :: strategy_registry
  wc_launch_proxy :: proxy_config

text \<open>The winning branch of a \<open>select!\<close> between shutdown, a hard timeout and a blocking task.\<close>

datatype 'a select_end = Sel_Cancelled | Sel_HardTimeout | Sel_Panicked string | Sel_Done 'a

record wait_env =
  we_challenge :: "probe_obs list"
  we_spent :: millis
  we_json :: "probe_obs list"
  we_idle :: idle_env
  we_fixed :: timeout_env
  we_custom :: "nat \<Rightarrow> (wait_error + wait_result) option"

record scrape_env =
  se_lib :: url_lib
  se_show_instant :: "millis \<Rightarrow> string"
  se_show_wait_error :: "wait_error \<Rightarrow> string"
  se_busy :: bool
  se_elapsed :: nat
  se_lazy_tab :: "cdp_error + nat"
  se_new_tab :: "cdp_error + nat"
  se_recreate :: "string + unit"
  se_fetch :: "cdp_error + unit"
  se_fetch_again :: "cdp_error + unit"
  se_auth :: "string + unit"
  se_network :: "cdp_error + unit"
  se_diagnostics :: "cdp_error + unit"
  se_navigation :: "(string + unit) select_end"
  se_wait_end :: "unit select_end"
  se_wait :: wait_env
  se_docs_at_content :: observed_documents
  se_content_end :: "unit select_end"
  se_json_body :: "string \<Rightarrow> string + string"
  se_outer_html :: "string + string"
  se_docs :: observed_documents
  se_status_fallback :: "cdp_error + nat"
  se_tab_url :: string
  se_failures :: proxy_failures
  se_tracker :: "page_load_tracker option"
  se_now :: millis

record scrape_job =
  sj_worker :: worker_config
  sj_env :: scrape_env
  sj_req :: worker_request
  sj_context :: browser_context

abbreviation sj_scope :: "scrape_job \<Rightarrow> scope_config" where
  "sj_scope j \<equiv> wc_scope (sj_worker j)"

abbreviation sj_id :: "scrape_job \<Rightarrow> string" where
  "sj_id j \<equiv> bc_id (sj_context j)"

definition NAVIGATION_TIMEOUT_SECS :: nat where [cfg_simps]: "NAVIGATION_TIMEOUT_SECS = 20"

definition GET_CONTENT_TIMEOUT_SECS :: nat where [cfg_simps]: "GET_CONTENT_TIMEOUT_SECS = 20"

definition WAIT_STRATEGY_TIMEOUT_MARGIN_SECS :: nat where [cfg_simps]:
  "WAIT_STRATEGY_TIMEOUT_MARGIN_SECS = 10"

definition is_dead_browser_error :: "string \<Rightarrow> bool" where
  "is_dead_browser_error msg \<longleftrightarrow>
     contains_sub ''connection is closed'' msg \<or> contains_sub ''No such process'' msg"

definition is_dead_tab_error :: "string \<Rightarrow> bool" where
  "is_dead_tab_error msg \<longleftrightarrow> contains_sub ''No session with given id'' msg"

primrec cdp_error_text :: "cdp_error \<Rightarrow> string" where
  "cdp_error_text (Cdp_Answered e) = e"
| "cdp_error_text (Cdp_Stalled call reason) =
     (case reason of
        Stall_TimedOut after \<Rightarrow>
          ''CDP call '' @ call @ '' did not answer within '' @ show_nat (after div 1000) @
          ''s - the browser stopped responding''
      | Stall_Panicked \<Rightarrow> ''CDP call '' @ call @ '' panicked'')"

definition addressable_context_id :: "scope_config \<Rightarrow> browser_context \<Rightarrow> string" where
  "addressable_context_id config c =
     (if returns_session_id (sc_session_mode config) then bc_id c else [])"

abbreviation sj_address :: "scrape_job \<Rightarrow> string" where
  "sj_address j \<equiv> addressable_context_id (sj_scope j) (sj_context j)"

text \<open>Every response but the final one: no page, a code and a message.\<close>

definition failed_response ::
  "nat \<Rightarrow> string \<Rightarrow> error_code \<Rightarrow> string \<Rightarrow> string \<Rightarrow> worker_response" where
  "failed_response elapsed ray_id code message context_id =
     \<lparr>wr_success = False, wr_status_code = 0, wr_content = [], wr_error_message = message,
      wr_error_code = code_num code, wr_response_headers = [], wr_execution_time_ms = elapsed,
      wr_context_id = context_id, wr_ray_id = ray_id\<rparr>"

definition fails :: "scrape_job \<Rightarrow> error_code \<Rightarrow> string \<Rightarrow> string \<Rightarrow> 'a stage" where
  "fails j code message context_id =
     stop (failed_response (se_elapsed (sj_env j)) (wq_ray_id (sj_req j)) code message context_id)"

definition after_ms :: "scrape_job \<Rightarrow> string" where
  "after_ms j = '' (after '' @ show_nat (se_elapsed (sj_env j)) @ ''ms)''"

text \<open>\<open>stalled_call_response\<close> and \<open>browser_restarted_response\<close>.\<close>

definition stalled_call :: "scrape_job \<Rightarrow> cdp_error \<Rightarrow> 'a stage" where
  "stalled_call j e =
     andthen (act (Fx_Destroy (sj_id j))) (\<lambda>_.
       fails j EC_BrowserError
         (cdp_error_text e @ '' - context '' @ sj_id j @ '' was removed from the pool'' @ after_ms j) [])"

definition browser_restarted :: "scrape_job \<Rightarrow> 'a stage" where
  "browser_restarted j =
     fails j EC_BrowserError
       (''Browser process died and the pool was recreated; context '' @ sj_id j @ '' is stale'' @ after_ms j) []"

definition replace_pool :: "scrape_job \<Rightarrow> string \<Rightarrow> 'a stage" where
  "replace_pool j during =
     (case se_recreate (sj_env j) of
        Inl e \<Rightarrow>
          fails j EC_BrowserError
            (''Failed to recreate browser pool for scope '' @ [CHR 39] @ sc_name (sj_scope j) @ [CHR 39] @
             during @ '': '' @ e @ after_ms j) (sj_address j)
      | Inr _ \<Rightarrow> andthen (act Fx_PoolRecreated) (\<lambda>_. browser_restarted j))"

definition discarded :: "scrape_job \<Rightarrow> error_code \<Rightarrow> string \<Rightarrow> 'a stage" where
  "discarded j code message =
     andthen (act (Fx_Destroy (sj_id j))) (\<lambda>_. fails j code message [])"

definition shutting_down :: "scrape_job \<Rightarrow> nat \<Rightarrow> 'a stage" where
  "shutting_down j t =
     andthen (act (Fx_CloseTab t)) (\<lambda>_.
       fails j EC_Terminating ''Worker is shutting down, please retry with another instance''
         (sj_address j))"
section \<open>Preparing the tab\<close>

text \<open>
  The busy flag: \<open>claimed\<close> contexts come from the pool with it set; a session continuation sets it here.
\<close>

definition busy_stage :: "scrape_job \<Rightarrow> bool \<Rightarrow> unit stage" where
  "busy_stage j claimed =
     (if claimed \<or> \<not> se_busy (sj_env j) then act Fx_Claimed
      else
        (let m = metadata (sj_context j); show = se_show_instant (sj_env j)
         in fails j EC_SessionBusy
              (''Context '' @ sj_id j @ '' is already busy (created: '' @ show (created_at m) @
               '', last_used: '' @ show (last_used_at m) @ '', total_requests: '' @
               show_nat (total_requests m) @ '', cache_size_mb: '' @ show_nat (cache_size_mb m) @ '')'' @
               after_ms j) (sj_address j)))"

definition domain_stage :: "scrape_job \<Rightarrow> string stage" where
  "domain_stage j =
     (case extract_domain (se_lib (sj_env j)) (wq_url (sj_req j)) of
        Inl e \<Rightarrow> fails j EC_InvalidUrl (''Invalid URL: '' @ e) (sj_address j)
      | Inr d \<Rightarrow> pass d)"

text \<open>The proxy whose credentials the request uses.\<close>

definition proxy_stage :: "scrape_job \<Rightarrow> proxy_config stage" where
  "proxy_stage j =
     (case assigned_proxy_config (metadata (sj_context j)) of
        Some config \<Rightarrow> pass config
      | None \<Rightarrow>
          if pp_supports_per_context_proxy (sc_proxy_provider (sj_scope j)) then
            fails j EC_BrowserError
              (''SECURITY ERROR: Context '' @ sj_id j @ '' has no assigned proxy, but provider '' @ [CHR 39] @
               pp_name (sc_proxy_provider (sj_scope j)) @ [CHR 39] @
               '' requires per-context proxy assignment. This would expose the worker'' @ [CHR 39] @
               ''s real IP address.'' @ after_ms j) (sj_address j)
          else pass (wc_launch_proxy (sj_worker j)))"

definition open_tab :: "scrape_job \<Rightarrow> nat \<Rightarrow> nat stage" where
  "open_tab j t = andthen (act (Fx_TabOpened t (cdp_context_id (sj_context j)))) (\<lambda>_. pass t)"

definition tab_stage :: "scrape_job \<Rightarrow> string \<Rightarrow> nat stage" where
  "tab_stage j domain =
     (case tab (sj_context j) of
        Some t \<Rightarrow> pass t
      | None \<Rightarrow>
          if cdp_context_id (sj_context j) = None \<and> sc_context_isolation (sj_scope j) = Isolated then
            discarded j EC_BrowserError
              (''Context '' @ sj_id j @ '' lost its isolated CDP context and was removed from the pool; '' @
               ''retry to get a fresh one'' @ after_ms j)
          else
            (case se_lazy_tab (sj_env j) of
               Inr t \<Rightarrow> open_tab j t
             | Inl e \<Rightarrow>
                 if is_stalled e then stalled_call j e
                 else if is_dead_browser_error (cdp_error_text e) then replace_pool j []
                 else fails j EC_BrowserError
                   (''Failed to create tab for context '' @ sj_id j @ '' (domain: '' @ domain @ ''): '' @
                    cdp_error_text e @ after_ms j) (sj_address j)))"

definition enable_fetch :: "scrape_job \<Rightarrow> nat \<Rightarrow> bool \<Rightarrow> cdp_error + unit \<Rightarrow> (cdp_error + unit) stage" where
  "enable_fetch j t proxy_auth answer = andthen (act (Fx_FetchEnabled t proxy_auth)) (\<lambda>_. pass answer)"

text \<open>The second \<open>enable_fetch\<close>, on a tab that was just recreated.\<close>

definition fetch_again :: "scrape_job \<Rightarrow> string \<Rightarrow> bool \<Rightarrow> nat \<Rightarrow> nat stage" where
  "fetch_again j domain proxy_auth t =
     andthen (enable_fetch j t proxy_auth (se_fetch_again (sj_env j))) (\<lambda>answer.
       case answer of
         Inr _ \<Rightarrow> pass t
       | Inl e \<Rightarrow>
           if is_stalled e then stalled_call j e
           else fails j EC_BrowserError
             (''Failed to enable fetch after tab recreation for context '' @ sj_id j @ '' (domain: '' @
              domain @ ''): '' @ cdp_error_text e @ after_ms j) (sj_address j))"

text \<open>A tab whose CDP session is gone is replaced in the context's own CDP context.\<close>

definition show_cdp_context :: "string option \<Rightarrow> string" where
  "show_cdp_context cdp =
     (case cdp of None \<Rightarrow> ''None'' | Some i \<Rightarrow> ''Some('' @ [CHR 34] @ i @ [CHR 34] @ '')'')"

definition recreate_dead_tab :: "scrape_job \<Rightarrow> string \<Rightarrow> bool \<Rightarrow> nat stage" where
  "recreate_dead_tab j domain proxy_auth =
     (case se_new_tab (sj_env j) of
        Inr t \<Rightarrow> andthen (open_tab j t) (fetch_again j domain proxy_auth)
      | Inl e \<Rightarrow>
          if is_stalled e then stalled_call j e
          else fails j EC_BrowserError
            (''Failed to recreate tab (cdp_context_id: '' @
             show_cdp_context (cdp_context_id (sj_context j)) @ '') for context '' @ sj_id j @ '': '' @
             cdp_error_text e @ after_ms j) (sj_address j))"

definition recreate_closed_tab :: "scrape_job \<Rightarrow> string \<Rightarrow> bool \<Rightarrow> nat stage" where
  "recreate_closed_tab j domain proxy_auth =
     (case se_new_tab (sj_env j) of
        Inr t \<Rightarrow> andthen (open_tab j t) (fetch_again j domain proxy_auth)
      | Inl e \<Rightarrow>
          if is_stalled e then stalled_call j e
          else if is_dead_browser_error (cdp_error_text e) then replace_pool j '' during tab recreation''
          else fails j EC_BrowserError
            (''Failed to create tab for context '' @ sj_id j @ '' (domain: '' @ domain @ ''): '' @
             cdp_error_text e @ after_ms j) (sj_address j))"

definition fetch_stage :: "scrape_job \<Rightarrow> string \<Rightarrow> proxy_config \<Rightarrow> nat \<Rightarrow> nat stage" where
  "fetch_stage j domain proxy t =
     (case get_credentials proxy of
        None \<Rightarrow> (Inl End_Panic, [])
      | Some credentials \<Rightarrow>
          if credentials = None \<and> wc_blocked_types (sj_worker j) = [] then pass t
          else
            andthen (enable_fetch j t (credentials \<noteq> None) (se_fetch (sj_env j))) (\<lambda>answer.
            andthen
              (case answer of
                 Inr _ \<Rightarrow> pass t
               | Inl e \<Rightarrow>
                   if is_stalled e then stalled_call j e
                   else if is_dead_tab_error (cdp_error_text e) then
                     recreate_dead_tab j domain (credentials \<noteq> None)
                   else if contains_sub ''connection is closed'' (cdp_error_text e) then
                     recreate_closed_tab j domain (credentials \<noteq> None)
                   else fails j EC_BrowserError
                     (''Failed to enable fetch for context '' @ sj_id j @ '' (domain: '' @ domain @ ''): '' @
                      cdp_error_text e @ after_ms j) (sj_address j)) (\<lambda>t'.
            case credentials of
              None \<Rightarrow> pass t'
            | Some creds \<Rightarrow>
                (case se_auth (sj_env j) of
                   Inl e \<Rightarrow>
                     fails j EC_BrowserError
                       (''Failed to set auth for context '' @ sj_id j @ '' (domain: '' @ domain @ ''): '' @ e @
                        after_ms j) (sj_address j)
                 | Inr _ \<Rightarrow> andthen (act (Fx_Authenticated t' creds)) (\<lambda>_. pass t')))))"

text \<open>
  The response observer and diagnostics only matter when they stall; a refused \<open>Network.enable\<close> leaves the
  request without an observer.
\<close>

definition observer_stage :: "scrape_job \<Rightarrow> unit stage" where
  "observer_stage j =
     andthen (act (Fx_Site (case host_of (se_lib (sj_env j)) (wq_url (sj_req j)) of
                              Some h \<Rightarrow> h | None \<Rightarrow> UNKNOWN_SITE))) (\<lambda>_.
     andthen (case se_network (sj_env j) of
                Inl e \<Rightarrow> if is_stalled e then stalled_call j e else pass ()
              | Inr _ \<Rightarrow> pass ()) (\<lambda>_.
     case se_diagnostics (sj_env j) of
       Inl e \<Rightarrow> stalled_call j e
     | Inr _ \<Rightarrow> pass ()))"

section \<open>Loading the page\<close>

definition navigate_stage :: "scrape_job \<Rightarrow> nat \<Rightarrow> (string + unit) stage" where
  "navigate_stage j t =
     andthen (act (Fx_Navigate t (wq_url (sj_req j)))) (\<lambda>_.
     case se_navigation (sj_env j) of
       Sel_Cancelled \<Rightarrow> shutting_down j t
     | Sel_HardTimeout \<Rightarrow>
         discarded j EC_TimeoutBrowser
           (''Navigation stuck - hard timeout after '' @ show_nat NAVIGATION_TIMEOUT_SECS @
            ''s (context discarded)'')
     | Sel_Panicked e \<Rightarrow>
         fails j EC_BrowserError (''Navigation task failed: '' @ e) (sj_address j)
     | Sel_Done nav \<Rightarrow> pass nav)"

definition show_list_quoted :: "string list \<Rightarrow> string" where
  "show_list_quoted xs = ''['' @ join_with '', '' (map (\<lambda>x. [CHR 34] @ x @ [CHR 34]) xs) @ '']''"

text \<open>The wait parameters, checked only now; a bad one is a gRPC error.\<close>

definition wait_params :: "scrape_job \<Rightarrow> resolved_wait \<Rightarrow> (nat \<times> strategy) stage" where
  "wait_params j wait =
     (case (if 0 < rw_timeout_ms wait then validate_timeout (rw_timeout_ms wait)
            else Inr (effective_timeout (rw_timeout_ms wait))) of
        Inl e \<Rightarrow>
          (Inl (End_Status (''Invalid wait_timeout_ms: '' @ e @ ''. Maximum allowed: '' @
             show_nat MAX_WAIT_TIMEOUT_MS @ '' ms'')), [])
      | Inr wait_timeout \<Rightarrow>
          if rw_strategy wait = [] then pass (wait_timeout, default_strategy (wc_registry (sj_worker j)))
          else
            (case registry_get (rw_strategy wait) (wc_registry (sj_worker j)) of
               Some s \<Rightarrow> pass (wait_timeout, s)
             | None \<Rightarrow>
                 (Inl (End_Status (''Unknown wait_strategy: '' @ [CHR 39] @ rw_strategy wait @ [CHR 39] @
                    ''. Available: '' @
                    show_list_quoted (list_strategies (wc_registry (sj_worker j))))), [])))"

definition optional_selector :: "string \<Rightarrow> string option" where
  "optional_selector s = (if s = [] then None else Some s)"

definition challenge_window :: "challenge_detector list \<Rightarrow> resolved_wait \<Rightarrow> nat \<Rightarrow> millis" where
  "challenge_window detectors wait wait_timeout =
     (if detectors = [] then 0 else min (rw_challenge_timeout_ms wait) wait_timeout)"

definition run_strategy ::
  "strategy \<Rightarrow> millis \<Rightarrow> nat \<Rightarrow> string option \<Rightarrow> string option \<Rightarrow> wait_env \<Rightarrow>
   (wait_error + wait_result) option" where
  "run_strategy s spent wait_timeout wait_selector skip_selector env =
     (case s of
        Strategy_NetworkIdle \<Rightarrow> network_idle_run spent wait_timeout wait_selector skip_selector (we_idle env)
      | Strategy_Timeout \<Rightarrow> timeout_run spent wait_timeout wait_selector skip_selector (we_fixed env)
      | Strategy_Custom _ \<Rightarrow> we_custom env (rest_after spent wait_timeout))"

text \<open>
  The blocking task: the challenge, then a JSON body, then the strategy.  Its answer comes with what it
  wrote into the challenge cell; \<open>None\<close> is a task that has not returned.
\<close>

definition wait_task ::
  "challenge_detector list \<Rightarrow> millis \<Rightarrow> nat \<Rightarrow> strategy \<Rightarrow> string option \<Rightarrow> string option \<Rightarrow> wait_env \<Rightarrow>
   ((challenge_outcome \<times> millis) option \<times> (wait_error + wait_result)) option" where
  "wait_task detectors window wait_timeout s wait_selector skip_selector env =
     (case (if window = 0 then Some (Inr None)
            else map_option (map_sum id (\<lambda>out. Some (out, we_spent env)))
                   (wait_out_challenge detectors window (we_challenge env))) of
        None \<Rightarrow> None
      | Some (Inl e) \<Rightarrow> Some (None, Inl e)
      | Some (Inr cell) \<Rightarrow>
          (let spent = (case cell of Some (_, t) \<Rightarrow> t | None \<Rightarrow> 0)
           in case wait_for_json_body (wait_timeout - spent) (we_json env) of
                None \<Rightarrow> None
              | Some (Inl e) \<Rightarrow> Some (cell, Inl e)
              | Some (Inr True) \<Rightarrow> Some (cell, Inr Wait_Success)
              | Some (Inr False) \<Rightarrow>
                  map_option (Pair cell)
                    (run_strategy s spent wait_timeout wait_selector skip_selector env)))"

definition hard_timeout_ms :: "nat \<Rightarrow> nat" where
  "hard_timeout_ms wait_timeout = wait_timeout + WAIT_STRATEGY_TIMEOUT_MARGIN_SECS * 1000"
text \<open>
  The wait, skipped when the navigation failed.  The task's branch of the \<open>select!\<close> can only win when the
  task has returned; one that never does is caught by the hard timeout.
\<close>

definition wait_stage ::
  "scrape_job \<Rightarrow> nat \<Rightarrow> resolved_wait \<Rightarrow> nat \<Rightarrow> strategy \<Rightarrow> string + unit \<Rightarrow>
   ((challenge_outcome \<times> millis) option \<times> (string + wait_result)) stage" where
  "wait_stage j t wait wait_timeout s navigation =
     (case navigation of
        Inl _ \<Rightarrow> pass (None, Inr Wait_Success)
      | Inr _ \<Rightarrow>
          (let stuck = discarded j EC_TimeoutBrowser
                 (''Wait strategy stuck - hard timeout after '' @ show_nat (hard_timeout_ms wait_timeout) @
                  ''ms (context discarded)'')
           in case se_wait_end (sj_env j) of
                Sel_Cancelled \<Rightarrow> shutting_down j t
              | Sel_HardTimeout \<Rightarrow> stuck
              | Sel_Panicked e \<Rightarrow>
                  fails j EC_BrowserError (''Wait strategy task failed: '' @ e) (sj_address j)
              | Sel_Done _ \<Rightarrow>
                  (case wait_task (wc_detectors (sj_worker j))
                          (challenge_window (wc_detectors (sj_worker j)) wait wait_timeout) wait_timeout s
                          (optional_selector (rw_wait_selector wait))
                          (optional_selector (rw_skip_selector wait)) (se_wait (sj_env j)) of
                     None \<Rightarrow> stuck
                   | Some (cell, result) \<Rightarrow>
                       pass (cell, map_sum (se_show_wait_error (sj_env j)) id result))))"

text \<open>A JSON document is returned as its raw body, as long as that is still in the inspector cache.\<close>

definition page_content :: "scrape_env \<Rightarrow> bool \<Rightarrow> string + string" where
  "page_content e navigated =
     (case (if navigated then json_document_request_id (se_docs_at_content e) else None) of
        Some i \<Rightarrow> (case se_json_body e i of Inr body \<Rightarrow> Inr body | Inl _ \<Rightarrow> se_outer_html e)
      | None \<Rightarrow> se_outer_html e)"

definition content_stage :: "scrape_job \<Rightarrow> nat \<Rightarrow> bool \<Rightarrow> string stage" where
  "content_stage j t navigated =
     (case se_content_end (sj_env j) of
        Sel_Cancelled \<Rightarrow> shutting_down j t
      | Sel_HardTimeout \<Rightarrow>
          discarded j EC_BrowserError
            (''get_content stuck - hard timeout after '' @ show_nat GET_CONTENT_TIMEOUT_SECS @
             ''s (context discarded)'')
      | Sel_Panicked e \<Rightarrow>
          fails j EC_BrowserError (''Get content join error: '' @ e) (sj_address j)
      | Sel_Done _ \<Rightarrow>
          (case page_content (sj_env j) navigated of
             Inr content \<Rightarrow> pass content
           | Inl e \<Rightarrow> fails j EC_BrowserError (''Failed to get content: '' @ e) (sj_address j)))"

section \<open>Finishing\<close>

definition early_destroy :: "scrape_job \<Rightarrow> unit stage" where
  "early_destroy j =
     (if sc_session_mode (sj_scope j) = AlwaysNew then act (Fx_Destroy (sj_id j)) else pass ())"

definition no_document :: main_document where
  "no_document = \<lparr>md_status = 0, md_headers = [], md_url = []\<rparr>"

definition final_document :: "scrape_job \<Rightarrow> main_document" where
  "final_document j =
     (case od_latest (se_docs (sj_env j)) of Some d \<Rightarrow> d | None \<Rightarrow> no_document)"

definition record_challenge ::
  "scrape_job \<Rightarrow> main_document \<Rightarrow> bool \<Rightarrow> (challenge_outcome \<times> millis) option \<Rightarrow> unit stage" where
  "record_challenge j doc navigated waited =
     (let detectors = wc_detectors (sj_worker j)
      in if detectors = [] \<or> \<not> navigated then pass ()
         else act (Fx_PageRequest
           (case host_of (se_lib (sj_env j)) (wq_url (sj_req j)) of Some h \<Rightarrow> h | None \<Rightarrow> UNKNOWN_SITE)
           (case waited of
              Some (out, _) \<Rightarrow> out
            | None \<Rightarrow> if is_challenge detectors doc then Challenge_Skipped else Challenge_None)))"

text \<open>The status code, and whether finding it discarded the context.\<close>

definition status_stage :: "scrape_job \<Rightarrow> main_document \<Rightarrow> (nat \<times> bool) stage" where
  "status_stage j doc =
     (if 0 < md_status doc then pass (md_status doc, False)
      else
        (case se_status_fallback (sj_env j) of
           Inr status \<Rightarrow> pass (status, False)
         | Inl e \<Rightarrow>
             if is_stalled e then andthen (act (Fx_Destroy (sj_id j))) (\<lambda>_. pass (0, True))
             else pass (0, False)))"

definition request_end_of ::
  "scrape_job \<Rightarrow> main_document \<Rightarrow> string + unit \<Rightarrow> string + wait_result \<Rightarrow> request_end" where
  "request_end_of j doc navigation wait_result =
     (let final_url = (if md_url doc = [] then se_tab_url (sj_env j) else md_url doc)
      in \<lparr>re_navigation = navigation,
          re_redirect =
            (case navigation of
               Inr _ \<Rightarrow> cross_site_redirect_target (se_lib (sj_env j)) (wq_url (sj_req j)) final_url
             | Inl _ \<Rightarrow> None),
          re_final_url = final_url, re_wait = wait_result, re_failures = se_failures (sj_env j),
          re_tracker = se_tracker (sj_env j), re_now = se_now (sj_env j)\<rparr>)"

definition quarantine_stage :: "scrape_job \<Rightarrow> nat \<Rightarrow> unit stage" where
  "quarantine_stage j status =
     (case request_quarantine_origin (se_lib (sj_env j)) (sj_scope j) (wq_url (sj_req j)) of
        Some origin \<Rightarrow>
          if should_exit_early status
          then act (Fx_Quarantine origin (sc_block_quarantine (sj_scope j))) else pass ()
      | None \<Rightarrow> pass ())"

definition end_session_stage :: "scrape_job \<Rightarrow> nat \<Rightarrow> bool stage" where
  "end_session_stage j status =
     (if sc_destroy_session_on_block (sj_scope j) \<and> sc_session_mode (sj_scope j) = Dedicated \<and>
         should_exit_early status
      then andthen (act (Fx_Destroy (sj_id j))) (\<lambda>_. pass True)
      else pass False)"

definition finish_stage ::
  "scrape_job \<Rightarrow> resolved_wait \<Rightarrow> strategy \<Rightarrow> string + unit \<Rightarrow>
   (challenge_outcome \<times> millis) option \<times> (string + wait_result) \<Rightarrow> string \<Rightarrow> worker_response stage" where
  "finish_stage j wait s navigation waited content =
     (let doc = final_document j
      in andthen (early_destroy j) (\<lambda>_.
         andthen (record_challenge j doc (\<not> isl navigation) (fst waited)) (\<lambda>_.
         andthen (status_stage j doc) (\<lambda>(status, context_discarded).
         (case request_outcome (se_lib (sj_env j)) (wq_url (sj_req j)) wait (strategy_name s)
                 (request_end_of j doc navigation (snd waited)) of
            (success, message, code) \<Rightarrow>
              andthen (quarantine_stage j status) (\<lambda>_.
              andthen (end_session_stage j status) (\<lambda>session_destroyed.
              pass \<lparr>wr_success = success, wr_status_code = status, wr_content = content,
                    wr_error_message = message, wr_error_code = code_num code,
                    wr_response_headers = md_headers doc,
                    wr_execution_time_ms = se_elapsed (sj_env j),
                    wr_context_id =
                      (if session_destroyed \<or> context_discarded then [] else sj_address j),
                    wr_ray_id = wq_ray_id (sj_req j)\<rparr>)))))))"

section \<open>The attempt\<close>

definition load_stage :: "scrape_job \<Rightarrow> nat \<Rightarrow> worker_response stage" where
  "load_stage j t =
     andthen (navigate_stage j t) (\<lambda>navigation.
     (let wait = worker_resolved_wait (sj_req j)
      in andthen (wait_params j wait) (\<lambda>(wait_timeout, s).
         andthen (wait_stage j t wait wait_timeout s navigation) (\<lambda>waited.
         andthen (content_stage j t (\<not> isl navigation)) (\<lambda>content.
         finish_stage j wait s navigation waited content)))))"

definition prepare_stages :: "scrape_job \<Rightarrow> nat stage" where
  "prepare_stages j =
     andthen (domain_stage j) (\<lambda>domain.
     andthen (act Fx_Used) (\<lambda>_.
     andthen (proxy_stage j) (\<lambda>proxy.
     andthen (tab_stage j domain) (\<lambda>t.
     andthen (fetch_stage j domain proxy t) (\<lambda>t'.
     andthen (observer_stage j) (\<lambda>_.
     pass t'))))))"

definition scrape_stages :: "scrape_job \<Rightarrow> worker_response stage" where
  "scrape_stages j = andthen (prepare_stages j) (load_stage j)"

text \<open>
  The guards run on every exit: first the one that closes the tab (when it is still in its slot), then
  the one that releases the busy flag.
\<close>

fun slot_tab :: "nat option \<Rightarrow> scrape_effect list \<Rightarrow> nat option" where
  "slot_tab t [] = t"
| "slot_tab t (fx # es) =
     (case fx of
        Fx_TabOpened n _ \<Rightarrow> slot_tab (Some n) es
      | Fx_Destroy _ \<Rightarrow> slot_tab None es
      | _ \<Rightarrow> slot_tab t es)"

definition drop_guards :: "scrape_job \<Rightarrow> scrape_effect list \<Rightarrow> scrape_effect list" where
  "drop_guards j es =
     (case (if sc_close_tab_after_request (sj_scope j) \<and> sc_session_mode (sj_scope j) = Reusable
            then slot_tab (tab (sj_context j)) es else None) of
        Some t \<Rightarrow> [Fx_CloseTab t]
      | None \<Rightarrow> []) @ [Fx_Released]"

definition attempt_result :: "scrape_end + worker_response \<Rightarrow> scrape_end" where
  "attempt_result r = (case r of Inl a \<Rightarrow> a | Inr resp \<Rightarrow> End_Response resp)"

definition scrape_page_internal :: "scrape_job \<Rightarrow> bool \<Rightarrow> scrape_end \<times> scrape_effect list" where
  "scrape_page_internal j claimed =
     (case busy_stage j claimed of
        (Inl a, es) \<Rightarrow> (a, es)
      | (Inr _, es) \<Rightarrow>
          (case scrape_stages j of
             (r, es') \<Rightarrow> (attempt_result r, es @ es' @ drop_guards j es')))"
section \<open>The context id and the shape of a response\<close>

text \<open>The attempt has left its context where a later request finds it.\<close>

definition kept :: "scrape_job \<Rightarrow> scrape_effect list \<Rightarrow> bool" where
  "kept j es \<longleftrightarrow> Fx_Destroy (sj_id j) \<notin> set es \<and> Fx_PoolRecreated \<notin> set es"

lemma kept_simps [simp]:
  "kept j []" "kept j (es @ es') \<longleftrightarrow> kept j es \<and> kept j es'"
  "kept j (fx # es) \<longleftrightarrow> fx \<noteq> Fx_Destroy (sj_id j) \<and> fx \<noteq> Fx_PoolRecreated \<and> kept j es"
  by (auto simp: kept_def)

definition response_ok :: "scrape_job \<Rightarrow> worker_response \<Rightarrow> bool" where
  "response_ok j r \<longleftrightarrow>
     wr_ray_id r = wq_ray_id (sj_req j) \<and>
     wr_execution_time_ms r = se_elapsed (sj_env j) \<and>
     (wr_success r \<longleftrightarrow> wr_error_code r = code_num EC_None) \<and>
     (wr_success r \<longrightarrow> wr_error_message r = []) \<and>
     wr_error_code r \<in> code_num ` {EC_None, EC_SessionBusy, EC_InvalidUrl, EC_BrowserError, EC_Terminating,
       EC_TimeoutBrowser, EC_NetworkError, EC_ProxyError, EC_RedirectToAnotherDomain,
       EC_SkipSelectorFound, EC_SelectorNotFound, EC_PageLoadIncomplete}"

definition address_ok :: "scrape_job \<Rightarrow> scrape_end \<Rightarrow> scrape_effect list \<Rightarrow> bool" where
  "address_ok j a es \<longleftrightarrow>
     (case a of
        End_Response r \<Rightarrow>
          response_ok j r \<and> wr_context_id r = (if kept j es then sj_address j else [])
      | _ \<Rightarrow> True)"

text \<open>
  A stage that ends well-formed, or passes on without touching the context.  A failed response is also an
  empty page.
\<close>

definition stage_ok :: "scrape_job \<Rightarrow> 'a stage \<Rightarrow> ('a \<Rightarrow> bool) \<Rightarrow> bool" where
  "stage_ok j m P \<longleftrightarrow>
     runs m
       (\<lambda>a es. address_ok j a es \<and>
          (\<forall>r. a = End_Response r \<longrightarrow> wr_status_code r = 0 \<and> wr_content r = [] \<and> \<not> wr_success r) \<and>
          (\<forall>o' d. Fx_Quarantine o' d \<notin> set es))
       (\<lambda>x es. kept j es \<and> (\<forall>o' d. Fx_Quarantine o' d \<notin> set es) \<and> P x)"

named_theorems stage_intros "stages that are fine"

lemma stage_ok_andthen [stage_intros]:
  assumes "stage_ok j m P" "\<And>x. P x \<Longrightarrow> stage_ok j (f x) Q"
  shows "stage_ok j (andthen m f) Q"
proof (cases "fst m")
  case (Inl a)
  with assms(1) show ?thesis
    by (cases m) (simp add: stage_ok_def runs_def andthen_def)
next
  case (Inr x)
  with assms(1) have "kept j (snd m)" "P x" "\<forall>o' d. Fx_Quarantine o' d \<notin> set (snd m)"
    by (simp_all add: stage_ok_def runs_def)
  with assms(2) [of x] Inr show ?thesis
    by (cases m; cases "f x")
      (auto simp: stage_ok_def runs_def andthen_def address_ok_def split: sum.splits scrape_end.splits)
qed

lemma stage_ok_pass [stage_intros]: "P x \<Longrightarrow> stage_ok j (pass x) P"
  by (simp add: stage_ok_def runs_def pass_def)

lemma stage_ok_act [stage_intros]:
  "fx \<noteq> Fx_Destroy (sj_id j) \<Longrightarrow> fx \<noteq> Fx_PoolRecreated \<Longrightarrow> (\<And>o' d. fx \<noteq> Fx_Quarantine o' d) \<Longrightarrow>
   P () \<Longrightarrow> stage_ok j (act fx) P"
  by (auto simp: stage_ok_def runs_def act_def)

lemma stage_ok_fails [stage_intros]:
  assumes "code \<in> {EC_SessionBusy, EC_InvalidUrl, EC_BrowserError, EC_Terminating, EC_TimeoutBrowser}"
  shows "stage_ok j (fails j code message (sj_address j)) P"
  using assms
  by (auto simp: stage_ok_def runs_def fails_def stop_def address_ok_def response_ok_def failed_response_def)

lemma stage_ok_end [stage_intros]:
  "stage_ok j (Inl (End_Status e), []) P" "stage_ok j (Inl End_Panic, []) P"
  by (simp_all add: stage_ok_def runs_def address_ok_def)

lemma stage_ok_discarded [stage_intros]:
  "code \<in> {EC_BrowserError, EC_TimeoutBrowser} \<Longrightarrow> stage_ok j (discarded j code message) P"
  by (auto simp: stage_ok_def runs_def discarded_def andthen_def act_def fails_def stop_def address_ok_def
      response_ok_def failed_response_def kept_def)

lemma stage_ok_stalled [stage_intros]: "stage_ok j (stalled_call j e) P"
  unfolding stalled_call_def discarded_def [symmetric] by (rule stage_ok_discarded) simp

lemma stage_ok_replace [stage_intros]: "stage_ok j (replace_pool j during) P"
  by (auto simp: stage_ok_def runs_def replace_pool_def browser_restarted_def andthen_def act_def fails_def
      stop_def address_ok_def response_ok_def failed_response_def kept_def split: sum.split)

lemma stage_ok_shutting_down [stage_intros]: "stage_ok j (shutting_down j t) P"
  unfolding shutting_down_def
  by (rule stage_ok_andthen [where P = "\<lambda>_. True"]; intro stage_intros) simp_all

lemma stage_ok_sum [stage_intros]:
  "(\<And>e. s = Inl e \<Longrightarrow> stage_ok j (f e) P) \<Longrightarrow> (\<And>x. s = Inr x \<Longrightarrow> stage_ok j (g x) P) \<Longrightarrow>
   stage_ok j (case s of Inl e \<Rightarrow> f e | Inr x \<Rightarrow> g x) P"
  by (cases s) simp_all

lemma stage_ok_option [stage_intros]:
  "(s = None \<Longrightarrow> stage_ok j f P) \<Longrightarrow> (\<And>x. s = Some x \<Longrightarrow> stage_ok j (g x) P) \<Longrightarrow>
   stage_ok j (case s of None \<Rightarrow> f | Some x \<Rightarrow> g x) P"
  by (cases s) simp_all

lemma stage_ok_if [stage_intros]:
  "(b \<Longrightarrow> stage_ok j f P) \<Longrightarrow> (\<not> b \<Longrightarrow> stage_ok j g P) \<Longrightarrow> stage_ok j (if b then f else g) P"
  by simp

lemma stage_ok_select [stage_intros]:
  assumes "stage_ok j a P" "stage_ok j b P" "\<And>e. stage_ok j (c e) P" "\<And>x. stage_ok j (d x) P"
  shows "stage_ok j (case s of Sel_Cancelled \<Rightarrow> a | Sel_HardTimeout \<Rightarrow> b | Sel_Panicked e \<Rightarrow> c e
    | Sel_Done x \<Rightarrow> d x) P"
  using assms by (cases s) simp_all

lemma stage_ok_pair [stage_intros]: "stage_ok j (f (fst p) (snd p)) P \<Longrightarrow> stage_ok j (case p of (x, y) \<Rightarrow> f x y) P"
  by (simp add: case_prod_beta)

lemmas prepare_defs = domain_stage_def proxy_stage_def tab_stage_def fetch_stage_def recreate_dead_tab_def
  recreate_closed_tab_def fetch_again_def enable_fetch_def open_tab_def observer_stage_def

lemma stage_ok_prepare: "stage_ok j (prepare_stages j) (\<lambda>_. True)"
  unfolding prepare_stages_def prepare_defs
  by (intro stage_intros) (auto intro!: stage_intros)
lemma stage_ok_load:
  "stage_ok j (navigate_stage j t) (\<lambda>_. True)"
  "stage_ok j (wait_params j wait) (\<lambda>_. True)"
  "stage_ok j (wait_stage j t wait wait_timeout s navigation) (\<lambda>_. True)"
  "stage_ok j (content_stage j t navigated) (\<lambda>_. True)"
  unfolding navigate_stage_def wait_params_def wait_stage_def content_stage_def Let_def
  by (intro stage_intros; auto intro!: stage_intros)+

text \<open>The last stage: what it destroys, quarantines and answers, branch by branch.\<close>

definition blocked :: "scrape_job \<Rightarrow> nat \<Rightarrow> bool" where
  "blocked j status \<longleftrightarrow> sc_destroy_session_on_block (sj_scope j) \<and> sc_session_mode (sj_scope j) = Dedicated \<and>
     should_exit_early status"

lemma finish_stageE:
  assumes "finish_stage j wait s navigation waited content = (res, es)"
  obtains r discarded code where
    "res = Inr r"
    "request_outcome (se_lib (sj_env j)) (wq_url (sj_req j)) wait (strategy_name s)
       (request_end_of j (final_document j) navigation (snd waited)) =
       (wr_success r, wr_error_message r, code)"
    "wr_error_code r = code_num code" "wr_content r = content" "wr_ray_id r = wq_ray_id (sj_req j)"
    "wr_execution_time_ms r = se_elapsed (sj_env j)"
    "wr_context_id r = (if blocked j (wr_status_code r) \<or> discarded then [] else sj_address j)"
    "discarded \<Longrightarrow> wr_status_code r = 0"
    "es = snd (early_destroy j) @
       snd (record_challenge j (final_document j) (\<not> isl navigation) (fst waited)) @
       (if discarded then [Fx_Destroy (sj_id j)] else []) @
       snd (quarantine_stage j (wr_status_code r)) @
       (if blocked j (wr_status_code r) then [Fx_Destroy (sj_id j)] else [])"
proof -
  let ?doc = "final_document j"
  obtain status dc es where st: "status_stage j ?doc = (Inr (status, dc), es)"
      "es = (if dc then [Fx_Destroy (sj_id j)] else [])" "dc \<Longrightarrow> status = 0"
  proof (cases "md_status ?doc = 0 \<and> (\<exists>e. se_status_fallback (sj_env j) = Inl e \<and> is_stalled e)")
    case True
    then have "status_stage j ?doc = (Inr (0, True), [Fx_Destroy (sj_id j)])"
      by (auto simp: status_stage_def andthen_def act_def pass_def)
    then show thesis using that [of 0 True] by simp
  next
    case False
    then have "\<exists>status. status_stage j ?doc = (Inr (status, False), [])"
      by (auto simp: status_stage_def pass_def split: sum.split)
    then show thesis using that [of _ False] by auto
  qed
  have e: "fst (early_destroy j) = Inr ()" "fst (record_challenge j d n w) = Inr ()"
    "fst (quarantine_stage j st) = Inr ()" for d n w st
    by (auto simp: early_destroy_def record_challenge_def quarantine_stage_def act_def pass_def Let_def
        split: option.split)
  have b: "end_session_stage j st = (Inr (blocked j st), if blocked j st then [Fx_Destroy (sj_id j)] else [])"
    for st
    by (auto simp: end_session_stage_def blocked_def andthen_def act_def pass_def)
  obtain success message code where
    o: "request_outcome (se_lib (sj_env j)) (wq_url (sj_req j)) wait (strategy_name s)
          (request_end_of j ?doc navigation (snd waited)) = (success, message, code)"
    by (metis surj_pair)
  let ?r = "\<lparr>wr_success = success, wr_status_code = status, wr_content = content,
      wr_error_message = message, wr_error_code = code_num code, wr_response_headers = md_headers ?doc,
      wr_execution_time_ms = se_elapsed (sj_env j),
      wr_context_id = (if blocked j status \<or> dc then [] else sj_address j),
      wr_ray_id = wq_ray_id (sj_req j)\<rparr>"
  have "finish_stage j wait s navigation waited content =
      (Inr ?r, snd (early_destroy j) @
       snd (record_challenge j ?doc (\<not> isl navigation) (fst waited)) @
       (if dc then [Fx_Destroy (sj_id j)] else []) @
       snd (quarantine_stage j status) @ (if blocked j status then [Fx_Destroy (sj_id j)] else []))"
    using e by (simp add: finish_stage_def Let_def andthen_def st o b pass_def case_prod_unfold
        prod_eq_iff split: sum.split)
  with assms st(3) o show thesis
    by (intro that [of ?r code dc]) simp_all
qed

lemma request_outcome_codes:
  assumes "request_outcome lib url wait sname e = (success, message, code)"
  shows "code \<in> {EC_None, EC_TimeoutBrowser, EC_NetworkError, EC_ProxyError, EC_RedirectToAnotherDomain,
    EC_SkipSelectorFound, EC_SelectorNotFound, EC_PageLoadIncomplete}"
  using request_outcome_decision [OF assms]
  by (auto split: sum.splits wait_result.splits if_splits)

lemma kept_finish:
  "kept j (snd (early_destroy j)) \<longleftrightarrow> sc_session_mode (sj_scope j) \<noteq> AlwaysNew"
  "kept j (snd (record_challenge j d n w))" "kept j (snd (quarantine_stage j st))"
  by (auto simp: early_destroy_def record_challenge_def quarantine_stage_def act_def pass_def Let_def
      split: option.split)

lemma returns_session_id_iff: "returns_session_id m \<longleftrightarrow> m = Dedicated"
  by (cases m) (simp_all add: returns_session_id_def)

lemma code_num_None: "code_num c = 0 \<longleftrightarrow> c = EC_None"
  by (cases c) simp_all

lemma finish_address_ok:
  assumes "finish_stage j wait s navigation waited content = (res, es)"
  obtains r where "res = Inr r" "address_ok j (End_Response r) es" "wr_content r = content"
  using assms
proof (cases rule: finish_stageE)
  case (1 r discarded code)
  note dec = request_outcome_decision [OF 1(2)] request_outcome_codes [OF 1(2)]
  from dec(1) have dec': "wr_success r = (code = EC_None)" "wr_success r \<longrightarrow> wr_error_message r = []"
    by blast+
  have ok: "code_num code \<in> code_num ` {EC_None, EC_SessionBusy, EC_InvalidUrl, EC_BrowserError,
      EC_Terminating, EC_TimeoutBrowser, EC_NetworkError, EC_ProxyError, EC_RedirectToAnotherDomain,
      EC_SkipSelectorFound, EC_SelectorNotFound, EC_PageLoadIncomplete}"
    using dec(2) by (intro imageI) blast
  have "kept j es \<longleftrightarrow> sc_session_mode (sj_scope j) \<noteq> AlwaysNew \<and> \<not> discarded \<and>
      \<not> blocked j (wr_status_code r)"
    by (simp add: 1(9) kept_finish)
  then have "wr_context_id r = (if kept j es then sj_address j else [])"
    by (auto simp: 1(7) addressable_context_id_def returns_session_id_iff)
  moreover have "response_ok j r"
    unfolding response_ok_def using dec' ok 1(3,5,6) by (simp add: code_num_None del: image_insert)
  ultimately show thesis
    by (intro that [of r]) (simp_all add: 1(1,4) address_ok_def)
qed

lemma address_ok_append:
  "kept j es \<Longrightarrow> address_ok j a es' \<Longrightarrow> address_ok j a (es @ es')"
  "kept j es \<Longrightarrow> address_ok j a es' \<Longrightarrow> address_ok j a (es' @ es)"
  by (cases a; simp add: address_ok_def)+

text \<open>Every attempt ends as its stages end, between the claim and the guards.\<close>

definition stages_end :: "scrape_job \<Rightarrow> scrape_end \<Rightarrow> scrape_effect list \<Rightarrow> bool" where
  "stages_end j a es \<longleftrightarrow> (\<exists>r. scrape_stages j = (r, es) \<and> attempt_result r = a)"

lemma scrape_page_internal_cases:
  assumes "scrape_page_internal j claimed = (a, es)"
  obtains (Busy) "\<not> claimed" "se_busy (sj_env j)" "busy_stage j claimed = (Inl a, es)" "es = []"
    "address_ok j a es"
  | (Ran) es' where "claimed \<or> \<not> se_busy (sj_env j)" "stages_end j a es'"
    "es = Fx_Claimed # es' @ drop_guards j es'"
proof (cases "claimed \<or> \<not> se_busy (sj_env j)")
  case True
  then show thesis
    using assms that(2)
    by (auto simp: scrape_page_internal_def busy_stage_def act_def stages_end_def split: prod.splits)
next
  case False
  have "stage_ok j (busy_stage j claimed) (\<lambda>_. True)"
    unfolding busy_stage_def Let_def by (intro stage_intros) auto
  moreover obtain r where "busy_stage j claimed = (Inl (End_Response r), [])"
    using False by (auto simp: busy_stage_def Let_def fails_def stop_def)
  ultimately show thesis
    using False assms that(1) by (auto simp: scrape_page_internal_def stage_ok_def runs_def)
qed

definition page_stages ::
  "scrape_job \<Rightarrow> (strategy \<times> (string + unit) \<times>
     ((challenge_outcome \<times> millis) option \<times> (string + wait_result)) \<times> string) stage" where
  "page_stages j =
     andthen (prepare_stages j) (\<lambda>t.
     andthen (navigate_stage j t) (\<lambda>navigation.
     andthen (wait_params j (worker_resolved_wait (sj_req j))) (\<lambda>p.
     andthen (wait_stage j t (worker_resolved_wait (sj_req j)) (fst p) (snd p) navigation) (\<lambda>waited.
     andthen (content_stage j t (\<not> isl navigation)) (\<lambda>content.
     pass (snd p, navigation, waited, content))))))"

lemma stage_ok_page: "stage_ok j (page_stages j) (\<lambda>_. True)"
  unfolding page_stages_def by (rule stage_ok_prepare stage_ok_load stage_intros | simp)+

lemma scrape_stages_page:
  "scrape_stages j =
     andthen (page_stages j) (\<lambda>(s, navigation, waited, content).
       finish_stage j (worker_resolved_wait (sj_req j)) s navigation waited content)"
  by (simp add: page_stages_def scrape_stages_def load_stage_def [abs_def] Let_def case_prod_unfold)

lemma scrape_stages_split:
  assumes "stages_end j a es"
  obtains (Early) "address_ok j a es"
      "\<And>r. a = End_Response r \<Longrightarrow> wr_status_code r = 0 \<and> wr_content r = [] \<and> \<not> wr_success r"
      "\<And>o' d. Fx_Quarantine o' d \<notin> set es"
    | (Finished) es1 es2 wait s navigation waited content r where
      "es = es1 @ es2" "kept j es1" "\<And>o' d. Fx_Quarantine o' d \<notin> set es1"
      "finish_stage j wait s navigation waited content = (Inr r, es2)" "a = End_Response r"
proof -
  note ok = stage_ok_page [of j] and split = scrape_stages_page [of j]
  obtain r where r: "scrape_stages j = (r, es)" "attempt_result r = a"
    using assms by (auto simp: stages_end_def)
  show thesis
  proof (cases "page_stages j")
    case (Pair m es1)
    show thesis
    proof (cases m)
      case (Inl a')
      then have "r = Inl a'" "es = es1"
        using r(1) by (simp_all add: split Pair Inl andthen_result)
      with r(2) ok Pair Inl show thesis
        by (intro that(1)) (simp_all add: stage_ok_def runs_def attempt_result_def)
    next
      case (Inr x)
      obtain s navigation waited content where x: "x = (s, navigation, waited, content)"
        by (metis surj_pair)
      obtain res es2 where f:
        "finish_stage j (worker_resolved_wait (sj_req j)) s navigation waited content = (res, es2)"
        by (metis surj_pair)
      obtain r' where res: "res = Inr r'"
        using finish_address_ok [OF f] by blast
      have "r = Inr r'" "es = es1 @ es2"
        using r(1) by (simp_all add: split Pair Inr x f res andthen_result)
      moreover have "kept j es1" "\<forall>o' d. Fx_Quarantine o' d \<notin> set es1"
        using ok Pair Inr by (simp_all add: stage_ok_def runs_def)
      ultimately show thesis
        using r(2) f res by (intro that(2)) (auto simp: attempt_result_def)
    qed
  qed
qed

lemma stages_address_ok:
  assumes "stages_end j a es"
  shows "address_ok j a es"
  using assms
proof (cases rule: scrape_stages_split)
  case (Finished es1 es2 wait s navigation waited content r)
  from finish_address_ok [OF Finished(4)] have "address_ok j (End_Response r) es2"
    by blast
  with Finished(1,2,5) show ?thesis by (simp add: address_ok_append)
qed

lemma attempt_address_ok:
  assumes "scrape_page_internal j claimed = (a, es)"
  shows "address_ok j a es"
  using assms
proof (cases rule: scrape_page_internal_cases)
  case (Ran es')
  have "kept j (drop_guards j es')"
    by (auto simp: drop_guards_def split: option.split)
  with stages_address_ok [OF Ran(2)] have "address_ok j a ([Fx_Claimed] @ es' @ drop_guards j es')"
    by (intro address_ok_append) simp_all
  then show ?thesis by (simp add: Ran(3))
qed
end
