(* ===== verification/Scrape_Props.thy ===== *)
theory Scrape_Props
  imports Worker_Scrape
begin

text \<open>What one attempt guarantees: the address it returns, its answer, its slot, blocks, and its guards.\<close>

section \<open>The address and the answer\<close>

text \<open>
  C10: A response names its context exactly when a later request can come back to it.  An attempt returns
  the context's id if the scope hands out sessions and the attempt neither removed the context nor replaced
  the pool; in every other case, in every branch, the id is empty, so that no client keeps the address of a
  context that is gone and none loses one that is still there.
\<close>

theorem attempt_context_id_contract:
  assumes "scrape_page_internal j claimed = (End_Response r, es)"
  shows "wr_context_id r =
    (if sc_session_mode (sj_scope j) = Dedicated \<and> Fx_Destroy (sj_id j) \<notin> set es \<and>
        Fx_PoolRecreated \<notin> set es
     then sj_id j else [])"
  using attempt_address_ok [OF assms]
  by (simp add: address_ok_def kept_def addressable_context_id_def returns_session_id_iff)

lemma stages_response_shape:
  assumes "stages_end j (End_Response r) es"
  shows "(wr_status_code r = 0 \<and> wr_content r = [] \<and> \<not> wr_success r \<and> (\<forall>o' d. Fx_Quarantine o' d \<notin> set es)) \<or>
    (\<exists>es1 es2 wait s navigation waited.
       es = es1 @ es2 \<and> kept j es1 \<and> (\<forall>o' d. Fx_Quarantine o' d \<notin> set es1) \<and>
       finish_stage j wait s navigation waited (wr_content r) = (Inr r, es2))"
  using assms
proof (cases rule: scrape_stages_split)
  case Early
  then show ?thesis by auto
next
  case (Finished es1 es2 wait s navigation waited content r')
  moreover have "content = wr_content r'"
    using finish_address_ok [OF Finished(4)] by (metis sum.inject(2))
  ultimately show ?thesis by blast
qed

text \<open>
  C35: Every response of an attempt is well-formed: it carries the request's ray id and the time taken, is a
  success exactly when its code is NONE (and then has no message), and its code is one of the twelve a
  worker may answer once it has bound a context.  A status other than zero, content or success comes from
  the last stage alone, which judges the page by \<open>request_outcome\<close>.
\<close>

theorem attempt_responses_well_formed:
  assumes "scrape_page_internal j claimed = (End_Response r, es)"
  shows "wr_ray_id r = wq_ray_id (sj_req j) \<and> wr_execution_time_ms r = se_elapsed (sj_env j) \<and>
    (wr_success r \<longleftrightarrow> wr_error_code r = 0) \<and> (wr_success r \<longrightarrow> wr_error_message r = []) \<and>
    wr_error_code r \<in> code_num ` {EC_None, EC_SessionBusy, EC_InvalidUrl, EC_BrowserError, EC_Terminating,
       EC_TimeoutBrowser, EC_NetworkError, EC_ProxyError, EC_RedirectToAnotherDomain,
       EC_SkipSelectorFound, EC_SelectorNotFound, EC_PageLoadIncomplete} \<and>
    (wr_status_code r \<noteq> 0 \<or> wr_content r \<noteq> [] \<or> wr_success r \<longrightarrow>
      (\<exists>es' wait s navigation waited.
         finish_stage j wait s navigation waited (wr_content r) = (Inr r, es')))"
proof -
  have "wr_status_code r \<noteq> 0 \<or> wr_content r \<noteq> [] \<or> wr_success r \<longrightarrow>
      (\<exists>es' wait s navigation waited. finish_stage j wait s navigation waited (wr_content r) = (Inr r, es'))"
    using assms
  proof (cases rule: scrape_page_internal_cases)
    case Busy
    then show ?thesis
      by (auto simp: busy_stage_def Let_def fails_def stop_def failed_response_def)
  next
    case (Ran es')
    from stages_response_shape [OF Ran(2)] show ?thesis
      by (elim disjE exE conjE) (simp, meson)
  qed
  then show ?thesis
    using attempt_address_ok [OF assms] by (simp add: address_ok_def response_ok_def del: image_insert)
qed

section \<open>Blocked answers\<close>

lemma early_statuses: "should_exit_early status \<longleftrightarrow> status \<in> {403, 429}"
  by (auto simp: should_exit_early_def EARLY_EXIT_STATUS_CODES_def)

text \<open>The quarantines of a trace, in order.\<close>

fun quarantines :: "scrape_effect list \<Rightarrow> (string \<times> millis) list" where
  "quarantines [] = []"
| "quarantines (Fx_Quarantine origin cooldown # es) = (origin, cooldown) # quarantines es"
| "quarantines (_ # es) = quarantines es"

lemma quarantines_append [simp]: "quarantines (es @ es') = quarantines es @ quarantines es'"
  by (induction es rule: quarantines.induct) simp_all

lemma no_quarantines: "\<forall>o' d. Fx_Quarantine o' d \<notin> set es \<Longrightarrow> quarantines es = []"
  by (induction es rule: quarantines.induct) auto

definition destroys_for_block :: "scrape_job \<Rightarrow> nat \<Rightarrow> nat" where
  "destroys_for_block j status =
     (case sc_session_mode (sj_scope j) of
        AlwaysNew \<Rightarrow> 1
      | Reusable \<Rightarrow> 0
      | Dedicated \<Rightarrow> if sc_destroy_session_on_block (sj_scope j) \<and> status \<in> {403, 429} then 1 else 0)"

lemma finish_counts:
  assumes "finish_stage j wait s navigation waited content = (Inr r, es)"
  shows "quarantines es =
      (case request_quarantine_origin (se_lib (sj_env j)) (sj_scope j) (wq_url (sj_req j)) of
         Some origin \<Rightarrow> if wr_status_code r \<in> {403, 429} then [(origin, sc_block_quarantine (sj_scope j))] else []
       | None \<Rightarrow> [])"
    "wr_status_code r \<noteq> 0 \<Longrightarrow>
      count_list es (Fx_Destroy (sj_id j)) = destroys_for_block j (wr_status_code r) \<and> Fx_PoolRecreated \<notin> set es"
proof -
  have r: "\<exists>discarded. (discarded \<longrightarrow> wr_status_code r = 0) \<and>
      es = snd (early_destroy j) @
       snd (record_challenge j (final_document j) (\<not> isl navigation) (fst waited)) @
       (if discarded then [Fx_Destroy (sj_id j)] else []) @
       snd (quarantine_stage j (wr_status_code r)) @
       (if blocked j (wr_status_code r) then [Fx_Destroy (sj_id j)] else [])"
    using assms by (rule finish_stageE) auto
  then obtain discarded where d: "discarded \<Longrightarrow> wr_status_code r = 0"
      "es = snd (early_destroy j) @
       snd (record_challenge j (final_document j) (\<not> isl navigation) (fst waited)) @
       (if discarded then [Fx_Destroy (sj_id j)] else []) @
       snd (quarantine_stage j (wr_status_code r)) @
       (if blocked j (wr_status_code r) then [Fx_Destroy (sj_id j)] else [])"
    by blast
  have q: "quarantines (snd (early_destroy j)) = []" "quarantines (snd (record_challenge j doc nav w)) = []"
    "quarantines (snd (quarantine_stage j status)) =
       (case request_quarantine_origin (se_lib (sj_env j)) (sj_scope j) (wq_url (sj_req j)) of
          Some origin \<Rightarrow> if status \<in> {403, 429} then [(origin, sc_block_quarantine (sj_scope j))] else []
        | None \<Rightarrow> [])" for doc nav w status
    by (auto simp: early_destroy_def record_challenge_def quarantine_stage_def early_statuses act_def pass_def Let_def
        split: option.split)
  show "quarantines es =
      (case request_quarantine_origin (se_lib (sj_env j)) (sj_scope j) (wq_url (sj_req j)) of
         Some origin \<Rightarrow> if wr_status_code r \<in> {403, 429} then [(origin, sc_block_quarantine (sj_scope j))] else []
       | None \<Rightarrow> [])"
    unfolding d(2) by (simp add: q)
  have c: "count_list (snd (record_challenge j doc nav w)) (Fx_Destroy (sj_id j)) = 0"
    "count_list (snd (quarantine_stage j status)) (Fx_Destroy (sj_id j)) = 0"
    "count_list (snd (early_destroy j)) (Fx_Destroy (sj_id j)) =
       (if sc_session_mode (sj_scope j) = AlwaysNew then 1 else 0)"
    "Fx_PoolRecreated \<notin> set (snd (record_challenge j doc nav w))"
    "Fx_PoolRecreated \<notin> set (snd (quarantine_stage j status))" "Fx_PoolRecreated \<notin> set (snd (early_destroy j))"
    for doc nav w status
    by (auto simp: early_destroy_def record_challenge_def quarantine_stage_def act_def pass_def Let_def
        split: option.split)
  show "count_list es (Fx_Destroy (sj_id j)) = destroys_for_block j (wr_status_code r) \<and> Fx_PoolRecreated \<notin> set es"
    if "wr_status_code r \<noteq> 0"
    using that d(1) unfolding d(2) destroys_for_block_def
    by (cases "sc_session_mode (sj_scope j)") (auto simp: c blocked_def early_statuses)
qed

text \<open>
  C12: A block (403 or 429) is acted on once and only as the mode allows.  A request quarantines its context
  exactly once, for the site of the request and for the configured time, when it was answered with a block in a
  reusable scope that quarantines and the URL has a registrable domain, and otherwise never.  An answer
  that carries a status at all leaves the context as the mode says: a reusable one is never removed; a
  dedicated session is destroyed, once, exactly when it was blocked and the scope says so; an
  always-new context is destroyed once whatever the answer.  Nothing else removes it (the pool is not
  rebuilt under it by this request), and a response whose context was destroyed names no context.
\<close>

theorem blocked_answer_handled:
  assumes "scrape_page_internal j claimed = (End_Response r, es)"
  shows "quarantines es =
      (case Option.bind (url_host (se_lib (sj_env j)) (wq_url (sj_req j))) (ul_domain (se_lib (sj_env j))) of
         Some origin \<Rightarrow>
           if wr_status_code r \<in> {403, 429} \<and> sc_session_mode (sj_scope j) = Reusable \<and>
             sc_block_quarantine (sj_scope j) \<noteq> 0
           then [(origin, sc_block_quarantine (sj_scope j))] else []
       | None \<Rightarrow> []) \<and>
    (wr_status_code r \<noteq> 0 \<longrightarrow>
       count_list es (Fx_Destroy (sj_id j)) =
         (case sc_session_mode (sj_scope j) of
            AlwaysNew \<Rightarrow> 1
          | Reusable \<Rightarrow> 0
          | Dedicated \<Rightarrow> if sc_destroy_session_on_block (sj_scope j) \<and> wr_status_code r \<in> {403, 429} then 1 else 0) \<and>
       Fx_PoolRecreated \<notin> set es) \<and>
    (Fx_Destroy (sj_id j) \<in> set es \<longrightarrow> wr_context_id r = [])"
proof -
  have ctx: "Fx_Destroy (sj_id j) \<in> set es \<longrightarrow> wr_context_id r = []"
    using attempt_address_ok [OF assms] by (simp add: address_ok_def kept_def)
  have origin: "request_quarantine_origin (se_lib (sj_env j)) (sj_scope j) (wq_url (sj_req j)) =
      (if sc_session_mode (sj_scope j) = Reusable \<and> sc_block_quarantine (sj_scope j) \<noteq> 0
       then Option.bind (url_host (se_lib (sj_env j)) (wq_url (sj_req j))) (ul_domain (se_lib (sj_env j)))
       else None)"
    by (auto simp: request_quarantine_origin_def)
  from assms show ?thesis
  proof (cases rule: scrape_page_internal_cases)
    case Busy
    then show ?thesis
      by (auto simp: busy_stage_def Let_def fails_def stop_def failed_response_def split: option.split)
  next
    case (Ran es')
    have g: "quarantines (drop_guards j es') = []" "count_list (drop_guards j es') (Fx_Destroy (sj_id j)) = 0"
      "Fx_PoolRecreated \<notin> set (drop_guards j es')"
      by (auto simp: drop_guards_def split: option.split)
    from stages_response_shape [OF Ran(2)] show ?thesis
    proof (elim disjE exE conjE)
      fix es1 es2 wait s navigation waited
      assume *: "es' = es1 @ es2" "kept j es1" "\<forall>o' d. Fx_Quarantine o' d \<notin> set es1"
        "finish_stage j wait s navigation waited (wr_content r) = (Inr r, es2)"
      have "quarantines es1 = []" "count_list es1 (Fx_Destroy (sj_id j)) = 0" "Fx_PoolRecreated \<notin> set es1"
        using *(2) no_quarantines [OF *(3)] by (simp_all add: kept_def count_list_0_iff)
      then show ?thesis
        using finish_counts [OF *(4)] ctx g unfolding Ran(3) *(1) origin destroys_for_block_def
        by (auto split: option.split)
    next
      assume "wr_status_code r = 0" "\<forall>o' d. Fx_Quarantine o' d \<notin> set es'"
      then show ?thesis
        using ctx no_quarantines [of es'] by (simp add: Ran(3) g split: option.split)
    qed
  qed
qed

section \<open>The page is loaded through the context's own slot\<close>

text \<open>Every effect of a stage satisfies \<open>F\<close>.\<close>

definition emits :: "(scrape_effect \<Rightarrow> bool) \<Rightarrow> 'a stage \<Rightarrow> bool" where
  "emits F m \<longleftrightarrow> (\<forall>fx \<in> set (snd m). F fx)"

lemma emits_andthen:
  assumes "emits F m" "\<And>x. fst m = Inr x \<Longrightarrow> emits F (f x)"
  shows "emits F (andthen m f)"
  using assms by (cases m; cases "fst m") (auto simp: emits_def andthen_def split: prod.split)

lemma emits_leaf:
  "emits F (pass x)" "emits F (stop r)" "emits F (fails j code msg cid)" "emits F (Inl a, [])"
  "F fx \<Longrightarrow> emits F (act fx)"
  by (simp_all add: emits_def pass_def stop_def fails_def act_def)

text \<open>Of the effects that matter here, a stage after the navigation has none.\<close>

definition late :: "scrape_effect \<Rightarrow> bool" where
  "late fx \<longleftrightarrow> (\<forall>n cdp. fx \<noteq> Fx_TabOpened n cdp) \<and> (\<forall>t url. fx \<noteq> Fx_Navigate t url)"

definition early :: "scrape_job \<Rightarrow> scrape_effect \<Rightarrow> bool" where
  "early j fx \<longleftrightarrow>
     (\<forall>n cdp. fx = Fx_TabOpened n cdp \<longrightarrow>
        cdp = cdp_context_id (sj_context j) \<and>
        (sc_context_isolation (sj_scope j) = Isolated \<and> tab (sj_context j) = None \<longrightarrow> cdp \<noteq> None)) \<and>
     (\<forall>t url. fx \<noteq> Fx_Navigate t url)"

lemma emits_ends:
  assumes "F (Fx_Destroy (sj_id j))" "F Fx_PoolRecreated" "\<And>t. F (Fx_CloseTab t)"
  shows "emits F (stalled_call j e)" "emits F (discarded j code msg)" "emits F (replace_pool j during)"
    "emits F (shutting_down j t)"
  using assms unfolding stalled_call_def discarded_def replace_pool_def browser_restarted_def shutting_down_def
  by (auto simp: emits_leaf intro!: emits_andthen split: sum.split)

lemma late_simps [simp]:
  "late (Fx_Destroy i)" "late Fx_PoolRecreated" "late (Fx_CloseTab t)" "late (Fx_PageRequest s out)"
  "late (Fx_Quarantine d c)" "\<not> late (Fx_TabOpened t cdp)" "\<not> late (Fx_Navigate t url)"
  by (auto simp: late_def)

lemma late_record_challenge: "\<forall>fx \<in> set (snd (record_challenge j doc nav waited)). late fx"
  by (simp add: record_challenge_def act_def pass_def Let_def)

lemma late_quarantine: "\<forall>fx \<in> set (snd (quarantine_stage j status)). late fx"
  by (simp add: quarantine_stage_def act_def pass_def split: option.split)

lemma late_early_destroy: "\<forall>fx \<in> set (snd (early_destroy j)). late fx"
  by (simp add: early_destroy_def act_def pass_def)

lemma emits_late:
  "emits late (wait_params j wait)" "emits late (wait_stage j t wait wt s nav)"
  "emits late (content_stage j t navigated)" "emits late (finish_stage j wait s nav waited content)"
proof -
  note ends = emits_ends [of late, simplified] emits_leaf
  show "emits late (wait_params j wait)" "emits late (wait_stage j t wait wt s nav)"
    "emits late (content_stage j t navigated)"
    unfolding wait_params_def wait_stage_def content_stage_def Let_def
    by (auto simp: ends split: sum.split option.split select_end.split)
  show "emits late (finish_stage j wait s nav waited content)"
  proof (cases "finish_stage j wait s nav waited content")
    case (Pair res es)
    then show ?thesis
    proof (cases rule: finish_stageE)
      case (1 r discarded code)
      have "\<forall>fx \<in> set es. late fx"
        unfolding 1(9)
        using late_record_challenge late_quarantine late_early_destroy by (simp add: ball_Un)
      then show ?thesis by (simp add: emits_def Pair)
    qed
  qed
qed

lemma load_stage_trace:
  "\<exists>rest. snd (load_stage j t) = Fx_Navigate t (wq_url (sj_req j)) # rest \<and> (\<forall>fx \<in> set rest. late fx)"
proof -
  let ?nav = "case se_navigation (sj_env j) of
       Sel_Cancelled \<Rightarrow> shutting_down j t
     | Sel_HardTimeout \<Rightarrow>
         discarded j EC_TimeoutBrowser
           (''Navigation stuck - hard timeout after '' @ show_nat NAVIGATION_TIMEOUT_SECS @
            ''s (context discarded)'')
     | Sel_Panicked e \<Rightarrow>
         fails j EC_BrowserError (''Navigation task failed: '' @ e) (sj_address j)
     | Sel_Done nav \<Rightarrow> pass nav"
  define m where "m = andthen ?nav (\<lambda>navigation.
     andthen (wait_params j (worker_resolved_wait (sj_req j))) (\<lambda>(wait_timeout, s).
         andthen (wait_stage j t (worker_resolved_wait (sj_req j)) wait_timeout s navigation) (\<lambda>waited.
         andthen (content_stage j t (\<not> isl navigation)) (\<lambda>content.
         finish_stage j (worker_resolved_wait (sj_req j)) s navigation waited content))))"
  have "load_stage j t = andthen (act (Fx_Navigate t (wq_url (sj_req j)))) (\<lambda>_. m)"
    by (simp add: load_stage_def navigate_stage_def m_def Let_def)
  moreover have "emits late ?nav"
    by (auto simp: emits_leaf emits_ends split: select_end.split)
  then have "emits late m"
    unfolding m_def by (intro emits_andthen) (auto intro: emits_andthen emits_late)
  ultimately show ?thesis
    by (cases m) (simp add: andthen_def act_def emits_def)
qed

lemma slot_tab_append: "slot_tab t (es @ es') = slot_tab (slot_tab t es) es'"
  by (induction es arbitrary: t) (simp_all split: scrape_effect.split)

text \<open>The proxy whose credentials the request may use.\<close>

definition request_proxy :: "scrape_job \<Rightarrow> proxy_config \<Rightarrow> bool" where
  "request_proxy j proxy \<longleftrightarrow>
     (case assigned_proxy_config (metadata (sj_context j)) of
        Some p \<Rightarrow> proxy = p
      | None \<Rightarrow> \<not> pp_supports_per_context_proxy (sc_proxy_provider (sj_scope j)) \<and>
                proxy = wc_launch_proxy (sj_worker j))"

text \<open>What the preparing stages have done when they pass on tab \<open>t\<close>.\<close>

definition own_cdp :: "scrape_job \<Rightarrow> bool" where
  "own_cdp j \<longleftrightarrow>
     sc_context_isolation (sj_scope j) = Isolated \<and> tab (sj_context j) = None \<longrightarrow>
     cdp_context_id (sj_context j) \<noteq> None"

lemma early_simps [simp]:
  "early j (Fx_Destroy i)" "early j Fx_PoolRecreated" "early j (Fx_CloseTab t)" "early j Fx_Used"
  "early j (Fx_FetchEnabled t b)" "early j (Fx_Authenticated t cr)" "early j (Fx_Site s)"
  "\<not> early j (Fx_Navigate t url)" "own_cdp j \<Longrightarrow> early j (Fx_TabOpened t (cdp_context_id (sj_context j)))"
  by (auto simp: early_def own_cdp_def)

lemma runs_emits: "runs m E Q \<Longrightarrow> emits F m \<Longrightarrow>
   runs m (\<lambda>a es. E a es \<and> (\<forall>fx \<in> set es. F fx)) (\<lambda>x es. Q x es \<and> (\<forall>fx \<in> set es. F fx))"
  by (auto simp: runs_def emits_def split: sum.splits)

lemma emits_open_tab: "own_cdp j \<Longrightarrow> emits (early j) (open_tab j t)"
  by (simp add: emits_def open_tab_def andthen_def act_def pass_def)

lemma emits_cases:
  "(\<And>e. s = Inl e \<Longrightarrow> emits F (f e)) \<Longrightarrow> (\<And>x. s = Inr x \<Longrightarrow> emits F (g x)) \<Longrightarrow>
   emits F (case s of Inl e \<Rightarrow> f e | Inr x \<Rightarrow> g x)"
  "(p \<Longrightarrow> emits F a) \<Longrightarrow> (\<not> p \<Longrightarrow> emits F b) \<Longrightarrow> emits F (if p then a else b)"
  "(v = None \<Longrightarrow> emits F c) \<Longrightarrow> (\<And>z. v = Some z \<Longrightarrow> emits F (d z)) \<Longrightarrow>
   emits F (case v of None \<Rightarrow> c | Some z \<Rightarrow> d z)"
  by (auto split: sum.split option.split)

lemmas ends_early = emits_ends [of "early j" j for j, simplified] emits_leaf emits_open_tab

lemma emits_tab_stage:
  shows "emits (early j) (tab_stage j domain)"
    "fst (tab_stage j domain) = Inr t \<Longrightarrow> own_cdp j"
    "fst (tab_stage j domain) = Inr t \<Longrightarrow> slot_tab (tab (sj_context j)) (snd (tab_stage j domain)) = Some t"
proof -
  have own: "own_cdp j" if "\<not> (cdp_context_id (sj_context j) = None \<and> sc_context_isolation (sj_scope j) = Isolated)"
    using that by (auto simp: own_cdp_def)
  show "emits (early j) (tab_stage j domain)"
    unfolding tab_stage_def by (intro emits_cases ends_early own)
  show "own_cdp j" if "fst (tab_stage j domain) = Inr t"
    using that own
    by (auto simp: own_cdp_def tab_stage_def discarded_def andthen_def act_def fails_def stop_def split: option.splits if_splits)
  show "slot_tab (tab (sj_context j)) (snd (tab_stage j domain)) = Some t" if "fst (tab_stage j domain) = Inr t"
    using that
    by (auto simp: tab_stage_def discarded_def stalled_call_def replace_pool_def browser_restarted_def
        andthen_def act_def fails_def stop_def pass_def open_tab_def split: option.splits if_splits sum.splits)
qed

lemma emits_fetch_stage:
  assumes "own_cdp j"
  shows "emits (early j) (fetch_stage j domain proxy t)"
  unfolding fetch_stage_def recreate_dead_tab_def recreate_closed_tab_def fetch_again_def enable_fetch_def
  by (intro emits_cases ends_early emits_andthen assms early_simps)

text \<open>Ending stages pass nothing on.\<close>

lemma passes_nothing [simp]:
  "fst (stalled_call j e) \<noteq> Inr x" "fst (discarded j code msg) \<noteq> Inr x" "fst (replace_pool j during) \<noteq> Inr x"
  "fst (fails j code msg cid) \<noteq> Inr x" "fst (shutting_down j t) \<noteq> Inr x"
  by (simp_all add: stalled_call_def discarded_def replace_pool_def browser_restarted_def shutting_down_def
      andthen_def act_def fails_def stop_def split: sum.split)

lemma passes_andthen:
  "fst (andthen m f) = Inr y \<longleftrightarrow> (\<exists>x. fst m = Inr x \<and> fst (f x) = Inr y)"
  "fst m = Inr x \<Longrightarrow> snd (andthen m f) = snd m @ snd (f x)"
  by (cases m; cases "fst m"; auto simp: andthen_def split: prod.split)+

lemma fetch_again_passes:
  "fst (fetch_again j domain b t) = Inr t' \<Longrightarrow> t' = t \<and> snd (fetch_again j domain b t) = [Fx_FetchEnabled t b]"
  by (auto simp: fetch_again_def enable_fetch_def passes_andthen act_def pass_def split: sum.splits if_splits)

lemma recreate_passes:
  "fst (recreate_dead_tab j domain b) = Inr t' \<Longrightarrow> snd (recreate_dead_tab j domain b) =
     [Fx_TabOpened t' (cdp_context_id (sj_context j)), Fx_FetchEnabled t' b]"
  "fst (recreate_closed_tab j domain b) = Inr t' \<Longrightarrow> snd (recreate_closed_tab j domain b) =
     [Fx_TabOpened t' (cdp_context_id (sj_context j)), Fx_FetchEnabled t' b]"
  by (auto simp: recreate_dead_tab_def recreate_closed_tab_def open_tab_def passes_andthen act_def pass_def
      dest!: fetch_again_passes split: sum.splits if_splits)

definition fetched :: "scrape_job \<Rightarrow> proxy_config \<Rightarrow> nat \<Rightarrow> scrape_effect list \<Rightarrow> bool" where
  "fetched j proxy t es \<longleftrightarrow>
     (\<exists>credentials. get_credentials proxy = Some credentials \<and>
        (\<forall>creds. credentials = Some creds \<longrightarrow> Fx_FetchEnabled t True \<in> set es \<and> Fx_Authenticated t creds \<in> set es) \<and>
        (wc_blocked_types (sj_worker j) \<noteq> [] \<longrightarrow> Fx_FetchEnabled t (credentials \<noteq> None) \<in> set es))"

lemma fetch_stage_passes:
  assumes "fst (fetch_stage j domain proxy t) = Inr t'"
  shows "slot_tab (Some t) (snd (fetch_stage j domain proxy t)) = Some t' \<and>
    fetched j proxy t' (snd (fetch_stage j domain proxy t))"
proof (cases "get_credentials proxy")
  case None
  with assms show ?thesis by (simp add: fetch_stage_def)
next
  case creds: (Some credentials)
  show ?thesis
  proof (cases "credentials = None \<and> wc_blocked_types (sj_worker j) = []")
    case True
    with assms creds show ?thesis by (auto simp: fetch_stage_def pass_def fetched_def)
  next
    case False
    define fetch where "fetch =
      (case se_fetch (sj_env j) of
         Inr _ \<Rightarrow> pass t
       | Inl e \<Rightarrow>
           if is_stalled e then stalled_call j e
           else if is_dead_tab_error (cdp_error_text e) then recreate_dead_tab j domain (credentials \<noteq> None)
           else if contains_sub ''connection is closed'' (cdp_error_text e) then
             recreate_closed_tab j domain (credentials \<noteq> None)
           else fails j EC_BrowserError
             (''Failed to enable fetch for context '' @ sj_id j @ '' (domain: '' @ domain @ ''): '' @
              cdp_error_text e @ after_ms j) (sj_address j))"
    define auth where "auth t'' =
      (case credentials of
         None \<Rightarrow> pass t''
       | Some creds \<Rightarrow>
           (case se_auth (sj_env j) of
              Inl e \<Rightarrow>
                fails j EC_BrowserError
                  (''Failed to set auth for context '' @ sj_id j @ '' (domain: '' @ domain @ ''): '' @ e @
                   after_ms j) (sj_address j)
            | Inr _ \<Rightarrow> andthen (act (Fx_Authenticated t'' creds)) (\<lambda>_. pass t'')))" for t''
    have stage: "fetch_stage j domain proxy t =
        andthen (act (Fx_FetchEnabled t (credentials \<noteq> None))) (\<lambda>_. andthen fetch auth)"
      unfolding fetch_stage_def creds option.case if_not_P [OF False] enable_fetch_def
      by (simp add: fetch_def auth_def [abs_def])
    from assms obtain t'' where f: "fst fetch = Inr t''" "fst (auth t'') = Inr t'"
      by (auto simp: stage passes_andthen)
    have es: "snd (fetch_stage j domain proxy t) =
        Fx_FetchEnabled t (credentials \<noteq> None) # snd fetch @ snd (auth t'')"
      using f by (simp add: stage passes_andthen(2) [OF f(1)] andthen_def act_def case_prod_beta)
    have a: "t'' = t'" "snd (auth t'') = (case credentials of None \<Rightarrow> [] | Some c \<Rightarrow> [Fx_Authenticated t' c])"
      using f(2) by (auto simp: auth_def pass_def andthen_def act_def fails_def stop_def split: option.splits sum.splits)
    have "t'' = t \<and> snd fetch = [] \<or>
        snd fetch = [Fx_TabOpened t'' (cdp_context_id (sj_context j)), Fx_FetchEnabled t'' (credentials \<noteq> None)]"
      using f(1) by (auto simp: fetch_def pass_def dest: recreate_passes split: sum.splits if_splits)
    then show ?thesis
      using creds a(1) unfolding es a(2) fetched_def by (auto split: option.split)
  qed
qed

lemma prepare_passes:
  assumes "fst (prepare_stages j) = Inr t"
  shows "slot_tab (tab (sj_context j)) (snd (prepare_stages j)) = Some t"
    "\<exists>proxy. request_proxy j proxy \<and> fetched j proxy t (snd (prepare_stages j))"
proof -
  from assms obtain domain proxy t0 where p:
    "fst (domain_stage j) = Inr domain" "fst (proxy_stage j) = Inr proxy"
    "fst (tab_stage j domain) = Inr t0" "fst (fetch_stage j domain proxy t0) = Inr t"
    "fst (observer_stage j) = Inr ()"
    by (auto simp: prepare_stages_def passes_andthen pass_def)
  have quiet: "snd (domain_stage j) = []" "snd (proxy_stage j) = []"
    using p(1,2) by (auto simp: domain_stage_def proxy_stage_def pass_def fails_def stop_def split: sum.split option.split)
  have obs: "\<exists>s. snd (observer_stage j) = [Fx_Site s]"
  proof -
    have "\<not> (\<exists>e. se_network (sj_env j) = Inl e \<and> is_stalled e)" "\<exists>x. se_diagnostics (sj_env j) = Inr x"
      using p(5) by (auto simp: observer_stage_def passes_andthen split: sum.splits if_splits)
    then show ?thesis
      by (auto simp: observer_stage_def andthen_def act_def pass_def split: sum.split)
  qed
  have es: "snd (prepare_stages j) = Fx_Used # snd (tab_stage j domain) @ snd (fetch_stage j domain proxy t0) @
      snd (observer_stage j)"
    using p by (simp add: prepare_stages_def passes_andthen act_def pass_def quiet)
  have "request_proxy j proxy"
    using p(2) by (auto simp: proxy_stage_def request_proxy_def pass_def split: option.splits if_splits)
  moreover note fetch_stage_passes [OF p(4)] emits_tab_stage(3) [OF p(3)]
  ultimately show "slot_tab (tab (sj_context j)) (snd (prepare_stages j)) = Some t"
    "\<exists>proxy. request_proxy j proxy \<and> fetched j proxy t (snd (prepare_stages j))"
    using obs by (auto simp: es slot_tab_append fetched_def)
qed

lemma emits_prepare: "emits (early j) (prepare_stages j)"
proof -
  have "emits (early j) (domain_stage j)" "emits (early j) (proxy_stage j)" "emits (early j) (observer_stage j)"
    unfolding domain_stage_def proxy_stage_def observer_stage_def
    by (intro emits_cases ends_early emits_andthen early_simps)+
  then show ?thesis
    unfolding prepare_stages_def
    by (intro emits_andthen ends_early emits_tab_stage emits_fetch_stage early_simps)
      (auto dest: emits_tab_stage(2))
qed

lemma scrape_stages_trace:
  assumes "stages_end j a es"
  obtains (Unprepared) x where "fst (prepare_stages j) = Inl x" "es = snd (prepare_stages j)"
    | (Loaded) t rest where "fst (prepare_stages j) = Inr t"
      "es = snd (prepare_stages j) @ Fx_Navigate t (wq_url (sj_req j)) # rest" "\<forall>fx \<in> set rest. late fx"
proof -
  have es: "es = snd (scrape_stages j)"
    using assms by (auto simp: stages_end_def)
  show thesis
  proof (cases "fst (prepare_stages j)")
    case (Inl x)
    then have "es = snd (prepare_stages j)"
      by (cases "prepare_stages j") (simp add: es scrape_stages_def andthen_def)
    with Inl show thesis by (rule that(1))
  next
    case (Inr t)
    with load_stage_trace [of j t] show thesis
      by (auto intro!: that(2) [of t] simp: es scrape_stages_def passes_andthen)
  qed
qed

lemma late_guards: "\<forall>fx \<in> set (drop_guards j es). late fx"
  by (auto simp: drop_guards_def late_def split: option.split)

lemma guards_navigate: "Fx_Navigate t url \<notin> set (drop_guards j es)"
  using late_guards [of j es] by auto

lemma guards_open: "Fx_TabOpened n cdp \<notin> set (drop_guards j es)"
  using late_guards [of j es] by auto


section \<open>The guards\<close>

definition inner :: "scrape_effect \<Rightarrow> bool" where
  "inner fx \<longleftrightarrow> fx \<noteq> Fx_Claimed \<and> fx \<noteq> Fx_Released"

lemma inner_simps [simp]: "inner fx \<longleftrightarrow> fx \<noteq> Fx_Claimed \<and> fx \<noteq> Fx_Released"
  by (simp add: inner_def)

lemma emits_inner: "emits inner (scrape_stages j)"
proof -
  note ends = emits_ends [of inner, simplified] emits_leaf
  have "emits inner (prepare_stages j)"
    unfolding prepare_stages_def prepare_defs
    by (intro emits_andthen emits_cases ends) simp_all
  moreover have "emits inner (finish_stage j wait s nav waited content)" for wait s nav waited content
  proof (cases "finish_stage j wait s nav waited content")
    case (Pair res es)
    then show ?thesis
    proof (cases rule: finish_stageE)
      case (1 r discarded code)
      have "\<forall>fx \<in> set (snd (record_challenge j doc n w)). inner fx" for doc n w
        by (simp add: record_challenge_def act_def pass_def Let_def)
      moreover have "\<forall>fx \<in> set (snd (quarantine_stage j st)). inner fx" for st
        by (simp add: quarantine_stage_def act_def pass_def split: option.split)
      moreover have "\<forall>fx \<in> set (snd (early_destroy j)). inner fx"
        by (simp add: early_destroy_def act_def pass_def)
      ultimately have "\<forall>fx \<in> set es. inner fx"
        unfolding 1(9) by (simp add: ball_Un)
      then show ?thesis by (simp add: emits_def Pair)
    qed
  qed
  moreover have "emits inner (navigate_stage j t)" "emits inner (wait_params j wait)"
    "emits inner (wait_stage j t wait wt s nav)" "emits inner (content_stage j t navigated)"
    for t wait wt s nav navigated
    unfolding navigate_stage_def wait_params_def wait_stage_def content_stage_def Let_def
    by (auto simp: ends intro!: emits_andthen split: sum.split option.split select_end.split)
  ultimately show ?thesis
    unfolding scrape_stages_def load_stage_def [abs_def] Let_def case_prod_unfold
    by (intro emits_andthen) auto
qed

lemma attempt_guarded:
  assumes "scrape_page_internal j claimed = (a, es)"
  shows "if claimed \<or> \<not> se_busy (sj_env j)
    then \<exists>mid. es = Fx_Claimed # mid @ [Fx_Released] \<and> Fx_Claimed \<notin> set mid \<and> Fx_Released \<notin> set mid \<and>
      (sc_close_tab_after_request (sj_scope j) \<and> sc_session_mode (sj_scope j) = Reusable \<longrightarrow>
        (\<forall>t. slot_tab (tab (sj_context j)) mid = Some t \<longrightarrow> mid \<noteq> [] \<and> last mid = Fx_CloseTab t))
    else es = [] \<and> (\<exists>r. a = End_Response r \<and> wr_error_code r = code_num EC_SessionBusy)"
  using assms
proof (cases rule: scrape_page_internal_cases)
  case Busy
  then show ?thesis
    by (auto simp: busy_stage_def Let_def fails_def stop_def failed_response_def)
next
  case (Ran es')
  obtain closing where c: "drop_guards j es' = closing @ [Fx_Released]"
      "closing = (case (if sc_close_tab_after_request (sj_scope j) \<and> sc_session_mode (sj_scope j) = Reusable
            then slot_tab (tab (sj_context j)) es' else None) of Some t \<Rightarrow> [Fx_CloseTab t] | None \<Rightarrow> [])"
    by (simp add: drop_guards_def)
  have "\<forall>fx \<in> set es'. inner fx"
    using Ran(2) emits_inner [of j] by (auto simp: stages_end_def emits_def)
  then have "Fx_Claimed \<notin> set (es' @ closing)" "Fx_Released \<notin> set (es' @ closing)"
    by (auto simp: c(2) split: option.splits if_splits)
  moreover have "slot_tab (tab (sj_context j)) (es' @ closing) = slot_tab (tab (sj_context j)) es'"
    by (auto simp: slot_tab_append c(2) split: option.split)
  ultimately show ?thesis
    using Ran(1) by (auto simp: Ran(3) c intro!: exI [of _ "es' @ closing"] split: option.split)
qed

text \<open>
  C14: An attempt that gets its context gives it back, however it ends.  Responses, gRPC errors and panics
  alike release the busy flag last, exactly once and after everything else, and a reusable scope that
  closes its tabs closes the one then in the slot just before; an attempt that finds a session's context
  busy touches nothing and answers SESSION_BUSY.
\<close>

theorem attempt_releases_context:
  assumes "scrape_page_internal j claimed = (a, es)"
  shows "if claimed \<or> \<not> se_busy (sj_env j)
    then \<exists>mid. es = Fx_Claimed # mid @ [Fx_Released] \<and> Fx_Claimed \<notin> set mid \<and> Fx_Released \<notin> set mid \<and>
      (sc_close_tab_after_request (sj_scope j) \<and> sc_session_mode (sj_scope j) = Reusable \<longrightarrow>
        (\<forall>t. slot_tab (tab (sj_context j)) mid = Some t \<longrightarrow> mid \<noteq> [] \<and> last mid = Fx_CloseTab t))
    else es = [] \<and> (\<exists>r. a = End_Response r \<and> wr_error_code r = code_num EC_SessionBusy)"
  using attempt_guarded [OF assms] .

section \<open>Late validation and the hard timeout\<close>

text \<open>
  A wait strategy nobody registered is refused only after the page was loaded: the context stays as it is,
  and the gRPC error names no context, so a session opened by this request is held by nobody until it idles out.
\<close>

lemma unknown_strategy_strands_context:
  assumes "fst (prepare_stages j) = Inr t" "se_navigation (sj_env j) = Sel_Done nav"
    and "rw_timeout_ms (worker_resolved_wait (sj_req j)) = 0"
      "rw_strategy (worker_resolved_wait (sj_req j)) \<noteq> []"
      "registry_get (rw_strategy (worker_resolved_wait (sj_req j))) (wc_registry (sj_worker j)) = None"
  shows "\<exists>e es. scrape_page_internal j True = (End_Status e, es) \<and>
    Fx_Navigate t (wq_url (sj_req j)) \<in> set es \<and> kept j es"
proof -
  obtain msg where w: "wait_params j (worker_resolved_wait (sj_req j)) = (Inl (End_Status msg), [])"
    using assms(3-5) by (auto simp: wait_params_def)
  have nav: "navigate_stage j t = (Inr nav, [Fx_Navigate t (wq_url (sj_req j))])"
    using assms(2) by (simp add: navigate_stage_def andthen_def act_def pass_def)
  have "load_stage j t = (Inl (End_Status msg), [Fx_Navigate t (wq_url (sj_req j))])"
    by (simp add: load_stage_def Let_def nav w andthen_result)
  then have stages: "scrape_stages j =
      (Inl (End_Status msg), snd (prepare_stages j) @ [Fx_Navigate t (wq_url (sj_req j))])"
    using assms(1) by (cases "prepare_stages j") (simp add: scrape_stages_def andthen_result)
  have "kept j (snd (prepare_stages j))"
    using stage_ok_prepare [of j] assms(1) by (simp add: stage_ok_def runs_def)
  moreover have "kept j (drop_guards j es)" for es
    by (auto simp: drop_guards_def split: option.split)
  ultimately show ?thesis
    by (simp add: scrape_page_internal_def busy_stage_def act_def stages attempt_result_def)
qed

text \<open>
  With a selector to wait for, the network-idle strategy takes the default budget whatever the request asked
  for, so a request with less than thirty seconds is discarded by the hard timeout while its strategy is
  still within its own budget.
\<close>

lemma hard_timeout_below_strategy_budget:
  "hard_timeout_ms wait_timeout < network_idle_total wait_timeout (Some selector) \<longleftrightarrow> wait_timeout < 30000"
  by (simp add: hard_timeout_ms_def network_idle_total_def cfg_simps)

section \<open>A concrete attempt\<close>

text \<open>
  The site blocks the request with a 403; the scope quarantines, destroys blocked sessions and closes its
  tabs, and the context, whose tab is opened lazily, has a proxy with credentials.
\<close>

definition blocking_worker :: "session_mode \<Rightarrow> worker_config" where
  "blocking_worker mode =
     \<lparr>wc_scope = (sample_scope mode 0 2)\<lparr>sc_destroy_session_on_block := True,
        sc_block_quarantine := 60000, sc_close_tab_after_request := True\<rparr>,
      wc_pod_name = ''pod'', wc_pod_ip = ''10.0.0.1'', wc_detectors = [], wc_blocked_types = [],
      wc_registry = registry_register (Strategy_Custom ''plain'') registry_new,
      wc_launch_proxy = (sample_proxy ''http://launch:1'')\<rparr>"

definition blocked_page :: observed_documents where
  "blocked_page =
     observe_response ''1'' \<lparr>md_status = 403, md_headers = [], md_url = ''shop''\<rparr> observed_none"

definition sample_scrape_env :: scrape_env where
  "sample_scrape_env =
     \<lparr>se_lib = sample_url_lib\<lparr>ul_domain := Some\<rparr>, se_show_instant = (\<lambda>_. []), se_show_wait_error = (\<lambda>_. []),
      se_busy = False, se_elapsed = 5, se_lazy_tab = Inr 7, se_new_tab = Inr 8, se_recreate = Inr (),
      se_fetch = Inr (), se_fetch_again = Inr (), se_auth = Inr (), se_network = Inr (),
      se_diagnostics = Inr (), se_navigation = Sel_Done (Inr ()), se_wait_end = Sel_Done (),
      se_wait = \<lparr>we_challenge = [], we_spent = 0,
        we_json = [\<lparr>pb_cancelled = False, pb_latest = None, pb_elapsed = 0\<rparr>],
        we_idle = sample_idle, we_fixed = sample_polls, we_custom = (\<lambda>_. Some (Inr Wait_Success))\<rparr>,
      se_docs_at_content = blocked_page, se_content_end = Sel_Done (), se_json_body = (\<lambda>_. Inl []),
      se_outer_html = Inr ''<html>'', se_docs = blocked_page, se_status_fallback = Inr 0,
      se_tab_url = ''shop'', se_failures = proxy_failures_none, se_tracker = None, se_now = 5\<rparr>"

definition sample_job :: "session_mode \<Rightarrow> scrape_job" where
  "sample_job mode =
     \<lparr>sj_worker = blocking_worker mode, sj_env = sample_scrape_env,
      sj_req = \<lparr>wq_url = ''shop'', wq_timeout_seconds = 30, wq_context_id = [], wq_wait_strategy = ''plain'',
        wq_wait_timeout_ms = 0, wq_wait_selector = [], wq_skip_selector = [], wq_ray_id = ''r1'',
        wq_country_code = [], wq_wait = None\<rparr>,
      sj_context = (sample_context ''c1'' 0)
        \<lparr>cdp_context_id := Some ''ctx'',
         metadata := (context_meta_new ''c1'' 0)\<lparr>assigned_proxy_config := Some
           ((sample_proxy ''http://own:2'')\<lparr>username := Some ''u'', password := Some ''p''\<rparr>)\<rparr>\<rparr>\<rparr>"

lemmas sample_job_defs = sample_job_def blocking_worker_def sample_scrape_env_def blocked_page_def
  sample_defs sample_proxy_def observe_response_def observed_none_def

lemma sample_prepares:
  "prepare_stages (sample_job mode) =
     (Inr 7, [Fx_Used, Fx_TabOpened 7 (Some ''ctx''), Fx_FetchEnabled 7 True,
        Fx_Authenticated 7 (''u'', ''p''), Fx_Site ''shop''])"
  by (simp add: prepare_stages_def prepare_defs sample_job_defs andthen_def act_def pass_def extract_domain_def
      host_of_def sample_url_lib_def get_credentials_def extract_credentials_from_url_def to_lower_def
      ascii_lower_def char_of_def bit_Suc_0_iff)

abbreviation sample_answered :: "string \<Rightarrow> worker_response" where
  "sample_answered context_id \<equiv>
     \<lparr>wr_success = True, wr_status_code = 403, wr_content = ''<html>'', wr_error_message = [], wr_error_code = 0,
      wr_response_headers = [], wr_execution_time_ms = 5, wr_context_id = context_id, wr_ray_id = ''r1''\<rparr>"

lemma sample_wait_resolved:
  "worker_resolved_wait (sj_req (sample_job mode)) =
     \<lparr>rw_strategy = ''plain'', rw_timeout_ms = 0, rw_wait_selector = [], rw_skip_selector = [],
      rw_challenge_timeout_ms = 0\<rparr>"
  by (simp add: sample_job_def worker_resolved_wait_def resolve_wait_def pick_def)

lemma sample_outcome:
  "request_outcome (se_lib (sj_env (sample_job mode))) (wq_url (sj_req (sample_job mode)))
     (worker_resolved_wait (sj_req (sample_job mode))) s
     (request_end_of (sample_job mode) (final_document (sample_job mode)) (Inr ()) (Inr Wait_Success)) =
   (True, [], EC_None)"
proof -
  have e: "re_navigation e = Inr () \<Longrightarrow> re_redirect e = None \<Longrightarrow> re_wait e = Inr Wait_Success \<Longrightarrow>
      request_outcome lib url wait s e = (True, [], EC_None)" for lib url wait e
    by (simp add: request_outcome_def base_outcome_def proxy_override_def page_load_override_def)
  have "cross_site_redirect_target (sample_url_lib\<lparr>ul_domain := Some\<rparr>) ''shop'' ''shop'' = None"
    by (simp add: cross_site_redirect_target_def sample_url_lib_def url_host_def to_lower_def ascii_lower_def
        registrable_domain_def is_cross_site_def host_of_def split: option.split)
  then show ?thesis
    by (intro e) (simp_all add: request_end_of_def final_document_def sample_job_defs Let_def)
qed

lemma sample_sel [simp]:
  "sc_session_mode (sj_scope (sample_job mode)) = mode" "sc_destroy_session_on_block (sj_scope (sample_job mode))"
  "sc_block_quarantine (sj_scope (sample_job mode)) = 60000" "sj_id (sample_job mode) = ''c1''"
  "tab (sj_context (sample_job mode)) = None" "wq_url (sj_req (sample_job mode)) = ''shop''"
  "sc_close_tab_after_request (sj_scope (sample_job mode))" "wc_detectors (sj_worker (sample_job mode)) = []"
  "se_elapsed (sj_env (sample_job mode)) = 5" "wq_ray_id (sj_req (sample_job mode)) = ''r1''"
  "final_document (sample_job mode) = \<lparr>md_status = 403, md_headers = [], md_url = ''shop''\<rparr>"
  "request_quarantine_origin (se_lib (sj_env (sample_job mode))) (sj_scope (sample_job mode)) ''shop'' =
     (if mode = Reusable then Some ''shop'' else None)"
  by (simp_all add: sample_job_defs final_document_def request_quarantine_origin_def url_host_def
      sample_url_lib_def to_lower_def ascii_lower_def char_of_def bit_Suc_0_iff)

lemma sample_finishes:
  "finish_stage (sample_job mode) (worker_resolved_wait (sj_req (sample_job mode))) s (Inr ())
     (None, Inr Wait_Success) ''<html>'' =
   (Inr (sample_answered []), case mode of
      Reusable \<Rightarrow> [Fx_Quarantine ''shop'' 60000] | _ \<Rightarrow> [Fx_Destroy ''c1''])"
  unfolding finish_stage_def Let_def
  by (cases mode)
    (simp_all add: sample_outcome [unfolded sample_sel] early_destroy_def record_challenge_def status_stage_def
      quarantine_stage_def end_session_stage_def addressable_context_id_def returns_session_id_def
      should_exit_early_def EARLY_EXIT_STATUS_CODES_def andthen_def act_def pass_def)

lemma sample_loads:
  "load_stage (sample_job mode) 7 =
     (Inr (sample_answered []), Fx_Navigate 7 ''shop'' # (case mode of
        Reusable \<Rightarrow> [Fx_Quarantine ''shop'' 60000] | _ \<Rightarrow> [Fx_Destroy ''c1'']))"
proof -
  let ?j = "sample_job mode"
  have nav: "navigate_stage ?j 7 = (Inr (Inr ()), [Fx_Navigate 7 ''shop''])"
    by (simp add: navigate_stage_def sample_job_defs andthen_def act_def pass_def)
  have reg: "registry_get ''plain'' (wc_registry (sj_worker ?j)) = Some (Strategy_Custom ''plain'')"
    by (simp add: sample_job_defs registry_get_def registry_register_def strategy_name_def)
  have params: "wait_params ?j (worker_resolved_wait (sj_req ?j)) =
      (Inr (effective_timeout 0, Strategy_Custom ''plain''), [])"
    unfolding sample_wait_resolved by (simp add: wait_params_def reg pass_def)
  have waits: "wait_stage ?j 7 (worker_resolved_wait (sj_req ?j)) wt (Strategy_Custom n) (Inr ()) =
      (Inr (None, Inr Wait_Success), [])" for wt n
    unfolding sample_wait_resolved
    by (simp add: wait_stage_def sample_job_defs wait_task_def challenge_window_def wait_for_json_body_def
        json_step_def run_strategy_def pass_def)
  have content: "content_stage ?j 7 True = (Inr ''<html>'', [])"
    by (simp add: content_stage_def page_content_def sample_job_defs json_document_request_id_def is_json_def
        document_header_def pass_def)
  show ?thesis
    by (simp add: load_stage_def Let_def nav params waits content sample_finishes andthen_result)
qed

lemma sample_attempt_ends:
  "scrape_page_internal (sample_job mode) True = (End_Response (sample_answered []),
     [Fx_Claimed, Fx_Used, Fx_TabOpened 7 (Some ''ctx''), Fx_FetchEnabled 7 True,
      Fx_Authenticated 7 (''u'', ''p''), Fx_Site ''shop'', Fx_Navigate 7 ''shop''] @
     (case mode of
        Reusable \<Rightarrow> [Fx_Quarantine ''shop'' 60000, Fx_CloseTab 7]
      | _ \<Rightarrow> [Fx_Destroy ''c1'']) @ [Fx_Released])"
  by (cases mode)
    (simp_all add: scrape_page_internal_def busy_stage_def scrape_stages_def sample_prepares sample_loads
      andthen_result act_def attempt_result_def drop_guards_def)

lemma attempt_context_id_contract_witness:
  "fst (scrape_page_internal (sample_job Dedicated) True) = End_Response (sample_answered []) \<and>
   Fx_Destroy (sj_id (sample_job Dedicated)) \<in> set (snd (scrape_page_internal (sample_job Dedicated) True))"
  using attempt_context_id_contract [OF sample_attempt_ends [of Dedicated]]
  by (simp add: sample_attempt_ends)

lemma attempt_responses_well_formed_witness:
  "\<exists>es wait s navigation waited.
     finish_stage (sample_job Reusable) wait s navigation waited ''<html>'' = (Inr (sample_answered []), es)"
  using attempt_responses_well_formed [OF sample_attempt_ends [of Reusable]] by auto

lemma blocked_answer_handled_witness:
  "quarantines (snd (scrape_page_internal (sample_job Reusable) True)) = [(''shop'', 60000)] \<and>
   count_list (snd (scrape_page_internal (sample_job Reusable) True)) (Fx_Destroy ''c1'') = 0 \<and>
   count_list (snd (scrape_page_internal (sample_job Dedicated) True)) (Fx_Destroy ''c1'') = 1"
  using blocked_answer_handled [OF sample_attempt_ends [of Reusable]]
    blocked_answer_handled [OF sample_attempt_ends [of Dedicated]]
  by (simp add: sample_attempt_ends)

text \<open>
  The same attempt on a context whose tab lost its CDP session: the tab is recreated; then the navigation hangs.
\<close>

definition recreating_job :: scrape_job where
  "recreating_job = (sample_job Reusable)
     \<lparr>sj_context := (sj_context (sample_job Reusable))\<lparr>tab := Some 3\<rparr>,
      sj_env := sample_scrape_env
        \<lparr>se_fetch := Inl (Cdp_Answered ''No session with given id''), se_navigation := Sel_HardTimeout\<rparr>\<rparr>"

lemma recreating_attempt:
  "snd (scrape_page_internal recreating_job True) =
     [Fx_Claimed, Fx_Used, Fx_FetchEnabled 3 True, Fx_TabOpened 8 (Some ''ctx''), Fx_FetchEnabled 8 True,
      Fx_Authenticated 8 (''u'', ''p''), Fx_Site ''shop'', Fx_Navigate 8 ''shop'', Fx_Destroy ''c1'', Fx_Released]"
proof -
  have prep: "prepare_stages recreating_job =
     (Inr 8, [Fx_Used, Fx_FetchEnabled 3 True, Fx_TabOpened 8 (Some ''ctx''), Fx_FetchEnabled 8 True,
        Fx_Authenticated 8 (''u'', ''p''), Fx_Site ''shop''])"
    by (simp add: prepare_stages_def prepare_defs recreating_job_def sample_job_defs andthen_def act_def pass_def
        extract_domain_def host_of_def sample_url_lib_def get_credentials_def extract_credentials_from_url_def
        to_lower_def ascii_lower_def char_of_def bit_Suc_0_iff is_dead_tab_error_def is_stalled_def contains_sub_def)
  have load: "\<exists>a. load_stage recreating_job 8 = (Inl a, [Fx_Navigate 8 ''shop'', Fx_Destroy ''c1''])"
    by (simp add: load_stage_def navigate_stage_def recreating_job_def sample_job_def sample_scrape_env_def
        andthen_def act_def discarded_def fails_def stop_def sample_context_def context_meta_new_def Let_def)
  then show ?thesis
    by (auto simp: scrape_page_internal_def busy_stage_def scrape_stages_def prep andthen_result act_def
        drop_guards_def)
qed


lemma attempt_releases_context_witness:
  "\<exists>mid. snd (scrape_page_internal (sample_job Reusable) True) = Fx_Claimed # mid @ [Fx_Released] \<and>
     Fx_Released \<notin> set mid"
  using attempt_releases_context [OF sample_attempt_ends [of Reusable]]
  by (auto simp: sample_attempt_ends)

end
