(* ===== verification/Worker_Service.thy ===== *)
theory Worker_Service
  imports Scrape_Props
begin

text \<open>
  The gRPC handlers of \<open>worker/src/service.rs\<close>: \<open>scrape_page\<close> with context selection, pool recovery, the
  single retry and the counters, \<open>health_check\<close> and \<open>get_stats\<close>.

  The handler runs on the worker's state: the pool behind its lock, the pool generation and the counters.
  Other tasks may change the pool and its generation while an attempt runs (\<open>sv_meanwhile\<close>).
\<close>

section \<open>State\<close>

type_synonym pool_state = "browser_pool \<times> nat"

record worker_state =
  sv_pool :: pool_state
  sv_active :: nat
  sv_total :: nat
  sv_failed :: nat
  sv_ready :: bool
  sv_cancelled :: bool

text \<open>What building contexts and recreating the pool answer during one acquisition.\<close>

record acquire_env =
  ae_now :: millis
  ae_elapsed :: nat
  ae_built :: "string + browser_context"
  ae_recreated :: "string + browser_context list"
  ae_built_again :: "string + browser_context"

record service_env =
  sv_acquire :: acquire_env
  sv_scrape :: scrape_env
  sv_now :: millis
  sv_fresh :: "browser_context list"
  sv_meanwhile :: "pool_state \<Rightarrow> pool_state"
  sv_acquire_again :: acquire_env
  sv_scrape_again :: scrape_env
  sv_show_duration :: "millis \<Rightarrow> string"

section \<open>Acquiring a context\<close>

definition recreate_browser_pool :: "browser_context list \<Rightarrow> pool_state \<Rightarrow> pool_state" where
  "recreate_browser_pool built = (\<lambda>(p, generation). (pool_start (bp_config p) built, generation + 1))"

definition acquire_context ::
  "millis \<Rightarrow> proxy_params \<Rightarrow> string option \<Rightarrow> string + browser_context \<Rightarrow> browser_pool \<Rightarrow>
   (string + browser_context option) \<times> browser_pool" where
  "acquire_context now params origin built p =
     (case sc_session_mode (bp_config p) of
        AlwaysNew \<Rightarrow> create_always_new_context built p
      | Reusable \<Rightarrow> get_or_create_context now params origin built p
      | Dedicated \<Rightarrow> create_dedicated_context built p)"

definition capacity_exhausted_message :: "(millis \<Rightarrow> string) \<Rightarrow> scope_config \<Rightarrow> bool \<Rightarrow> string" where
  "capacity_exhausted_message show config after_recovery =
     (let suffix = (if after_recovery then '' after pool recreation'' else []);
          limit = show_nat (sc_max_contexts config)
      in case sc_session_mode config of
           AlwaysNew \<Rightarrow>
             ''No available slots'' @ suffix @ '' - max contexts limit ('' @ limit @ '') reached''
         | Reusable \<Rightarrow> ''No available contexts'' @ suffix @ '' - all '' @ limit @ '' contexts are busy''
         | Dedicated \<Rightarrow>
             ''No available session slots'' @ suffix @ '' - all '' @ limit @
             '' contexts are claimed by sessions (a session holds its slot until it goes idle for '' @
             show (max_idle_time (sc_lifecycle config)) @ '')'')"

text \<open>
  A dead browser is recovered from once: the pool is replaced, then the acquisition repeated.  The other
  answers are refusals without a context.
\<close>

definition acquire_context_with_recovery ::
  "acquire_env \<Rightarrow> (millis \<Rightarrow> string) \<Rightarrow> (error_code \<Rightarrow> string \<Rightarrow> worker_response) \<Rightarrow> proxy_params \<Rightarrow>
   string option \<Rightarrow> pool_state \<Rightarrow> (worker_response + browser_context) \<times> pool_state" where
  "acquire_context_with_recovery env show refuse params origin s =
     (let config = bp_config (fst s)
      in case acquire_context (ae_now env) params origin (ae_built env) (fst s) of
           (Inr (Some c), p) \<Rightarrow> (Inr c, (p, snd s))
         | (Inr None, p) \<Rightarrow>
             (Inl (refuse EC_CapacityExhausted (capacity_exhausted_message show config False)), (p, snd s))
         | (Inl e, p) \<Rightarrow>
             if is_dead_browser_error e then
               (case ae_recreated env of
                  Inl e' \<Rightarrow>
                    (Inl (refuse EC_BrowserError
                       (''Failed to recreate browser pool for scope '' @ [CHR 39] @ sc_name config @ [CHR 39] @
                        '': '' @ e' @ '' (original error: '' @ e @ '')'')), (p, snd s))
                | Inr fresh \<Rightarrow>
                    (let (p', generation) = recreate_browser_pool fresh (p, snd s)
                     in case acquire_context (ae_now env) params origin (ae_built_again env) p' of
                          (Inr (Some c), p'') \<Rightarrow> (Inr c, (p'', generation))
                        | (Inr None, p'') \<Rightarrow>
                            (Inl (refuse EC_CapacityExhausted (capacity_exhausted_message show config True)),
                             (p'', generation))
                        | (Inl e', p'') \<Rightarrow>
                            (Inl (refuse EC_ContextCreationFailed
                               (''Failed to create context after pool recreation: '' @ e')),
                             (p'', generation))))
             else (Inl (refuse EC_ContextCreationFailed (''Failed to create context: '' @ e)), (p, snd s)))"

definition surviving_session_context_id :: "string \<Rightarrow> browser_pool \<Rightarrow> string" where
  "surviving_session_context_id i p =
     (if i = [] \<or> \<not> returns_session_id (sc_session_mode (bp_config p)) then []
      else (case find_context_by_id i p of Some c \<Rightarrow> bc_id c | None \<Rightarrow> []))"

section \<open>One attempt on the pool\<close>

text \<open>What each effect of \<open>scrape_page_internal\<close> does to the pool.\<close>

definition in_pool :: "string \<Rightarrow> (browser_context \<Rightarrow> browser_context) \<Rightarrow> pool_state \<Rightarrow> pool_state" where
  "in_pool i f = (\<lambda>(p, generation). (p\<lparr>bp_contexts := update_context i f (bp_contexts p)\<rparr>, generation))"

definition remove_from_pool :: "string \<Rightarrow> pool_state \<Rightarrow> pool_state" where
  "remove_from_pool i = (\<lambda>(p, generation). (snd (destroy_context i p), generation))"

primrec apply_effect ::
  "millis \<Rightarrow> browser_context list \<Rightarrow> string \<Rightarrow> scrape_effect \<Rightarrow> pool_state \<Rightarrow> pool_state" where
  "apply_effect now fresh i Fx_Claimed = in_pool i (mark_busy True)"
| "apply_effect now fresh i Fx_Used = in_pool i (count_request now)"
| "apply_effect now fresh i (Fx_TabOpened t cdp) = in_pool i (\<lambda>c. c\<lparr>tab := Some t\<rparr>)"
| "apply_effect now fresh i (Fx_FetchEnabled t auth) = id"
| "apply_effect now fresh i (Fx_Authenticated t creds) = id"
| "apply_effect now fresh i (Fx_Site s) = in_pool i (\<lambda>c. c\<lparr>site := Some s\<rparr>)"
| "apply_effect now fresh i (Fx_Navigate t url) = id"
| "apply_effect now fresh i (Fx_CloseTab t) = id"
| "apply_effect now fresh i (Fx_Destroy i') = remove_from_pool i'"
| "apply_effect now fresh i Fx_PoolRecreated = recreate_browser_pool fresh"
| "apply_effect now fresh i (Fx_PageRequest s out) = id"
| "apply_effect now fresh i (Fx_Quarantine origin cooldown) =
     in_pool i (\<lambda>c. c\<lparr>metadata := quarantine_origin now origin cooldown (metadata c)\<rparr>)"
| "apply_effect now fresh i Fx_Released = in_pool i (mark_busy False \<circ> stamp_last_used now)"

text \<open>
  One attempt: other tasks act before its effects do; closing the tab at the end also empties the slot.
\<close>

definition run_attempt ::
  "service_env \<Rightarrow> scrape_env \<Rightarrow> worker_config \<Rightarrow> worker_request \<Rightarrow> browser_context \<Rightarrow> bool \<Rightarrow> pool_state \<Rightarrow>
   scrape_end \<times> pool_state" where
  "run_attempt env scrape_env config q c claimed s =
     (let j = \<lparr>sj_worker = config, sj_env = scrape_env\<lparr>se_busy := bc_busy c\<rparr>, sj_req = q, sj_context = c\<rparr>
      in case scrape_page_internal j claimed of
           (a, es) \<Rightarrow>
             (let s' = fold (apply_effect (sv_now env) (sv_fresh env) (bc_id c)) es s;
                  closes = sc_close_tab_after_request (sj_scope j) \<and> sc_session_mode (sj_scope j) = Reusable \<and>
                    es \<noteq> []
              in (a, if closes then in_pool (bc_id c) (\<lambda>c. c\<lparr>tab := None\<rparr>) s' else s')))"

text \<open>\<open>AlwaysNewContextGuard\<close>: the removal runs on whatever pool is there when it drops.\<close>

definition drop_always_new_guard :: "scope_config \<Rightarrow> browser_context \<Rightarrow> pool_state \<Rightarrow> pool_state" where
  "drop_always_new_guard config c s =
     (if sc_session_mode config = AlwaysNew then remove_from_pool (bc_id c) s else s)"

section \<open>The handlers\<close>

definition refusal :: "acquire_env \<Rightarrow> worker_request \<Rightarrow> error_code \<Rightarrow> string \<Rightarrow> worker_response" where
  "refusal env q code message = failed_response (ae_elapsed env) (wq_ray_id q) code message []"

definition request_params :: "worker_request \<Rightarrow> proxy_params" where
  "request_params q =
     (if wq_country_code q = [] then proxy_params_default else with_country (wq_country_code q))"

text \<open>Only \<open>Dedicated\<close> follows the context id of a request.\<close>

definition continues_session :: "worker_config \<Rightarrow> worker_request \<Rightarrow> bool" where
  "continues_session config q \<longleftrightarrow>
     wq_context_id q \<noteq> [] \<and> returns_session_id (sc_session_mode (wc_scope config))"

definition acquire_for ::
  "service_env \<Rightarrow> acquire_env \<Rightarrow> worker_config \<Rightarrow> worker_request \<Rightarrow> pool_state \<Rightarrow>
   (worker_response + browser_context) \<times> pool_state" where
  "acquire_for env acq config q =
     acquire_context_with_recovery acq (sv_show_duration env) (refusal acq q) (request_params q)
       (request_quarantine_origin (se_lib (sv_scrape env)) (wc_scope config) (wq_url q))"

definition bind_context ::
  "service_env \<Rightarrow> worker_config \<Rightarrow> worker_request \<Rightarrow> pool_state \<Rightarrow>
   (worker_response + browser_context) \<times> pool_state" where
  "bind_context env config q s =
     (if continues_session config q then
        (let gone = Inl (refusal (sv_acquire env) q EC_SessionNotFound
               (''Context not found or expired: '' @ wq_context_id q))
         in case find_context_by_id (wq_context_id q) (fst s) of
              None \<Rightarrow> (gone, s)
            | Some c \<Rightarrow>
                (case end_session_if_used_up (ae_now (sv_acquire env)) c (fst s) of
                   (True, p) \<Rightarrow> (gone, (p, snd s))
                 | (False, p) \<Rightarrow> (Inr c, (p, snd s))))
      else acquire_for env (sv_acquire env) config q s)"

definition pool_was_replaced :: "nat \<Rightarrow> scrape_end \<Rightarrow> pool_state \<Rightarrow> bool" where
  "pool_was_replaced generation_at_start a s \<longleftrightarrow>
     snd s \<noteq> generation_at_start \<and>
     (case a of End_Response r \<Rightarrow> \<not> wr_success r | _ \<Rightarrow> False)"

text \<open>
  The attempts on a bound context: a second one, on a fresh context, exactly when the pool was replaced
  under a failed first one.  Also answers the attempts made.
\<close>

definition attempts_on ::
  "service_env \<Rightarrow> worker_config \<Rightarrow> worker_request \<Rightarrow> browser_context \<Rightarrow> bool \<Rightarrow> pool_state \<Rightarrow>
   scrape_end \<times> pool_state \<times> (browser_context \<times> bool \<times> scrape_end) list" where
  "attempts_on env config q c claimed s =
     (case run_attempt env (sv_scrape env) config q c claimed (sv_meanwhile env s) of
        (a, s1) \<Rightarrow>
          (let s2 = drop_always_new_guard (wc_scope config) c s1
           in if pool_was_replaced (snd s) a s1 then
                (case acquire_for env (sv_acquire_again env) config q s2 of
                   (Inl r, s3) \<Rightarrow> (End_Response r, s3, [(c, claimed, a)])
                 | (Inr c', s3) \<Rightarrow>
                     (case run_attempt env (sv_scrape_again env) config q c' True s3 of
                        (a', s4) \<Rightarrow>
                          (a', drop_always_new_guard (wc_scope config) c' s4,
                           [(c, claimed, a), (c', True, a')])))
              else (a, s2, [(c, claimed, a)])))"

definition record_failed_if_5xxx :: "worker_response \<Rightarrow> worker_state \<Rightarrow> worker_state" where
  "record_failed_if_5xxx r s =
     (if counts_as_failure (wr_error_code r) then s\<lparr>sv_failed := sv_failed s + 1\<rparr> else s)"

definition record_end :: "scrape_end \<Rightarrow> worker_state \<Rightarrow> worker_state" where
  "record_end a s =
     (case a of
        End_Response r \<Rightarrow> record_failed_if_5xxx r s
      | End_Status _ \<Rightarrow> s\<lparr>sv_failed := sv_failed s + 1\<rparr>
      | End_Panic \<Rightarrow> s)"

text \<open>The body of the handler, between the two moves of \<open>ActiveRequestGuard\<close>.\<close>

definition handle_scrape ::
  "service_env \<Rightarrow> worker_config \<Rightarrow> worker_request \<Rightarrow> worker_state \<Rightarrow>
   scrape_end \<times> worker_state \<times> (browser_context \<times> bool \<times> scrape_end) list" where
  "handle_scrape env config q s =
     (if sv_cancelled s \<or> \<not> sv_ready s then
        (End_Response (refusal (sv_acquire env) q EC_Terminating
           ''Worker is shutting down, please retry with another instance''), s, [])
      else
        (let s1 = s\<lparr>sv_total := sv_total s + 1\<rparr>
         in case extract_domain (se_lib (sv_scrape env)) (wq_url q) of
              Inl e \<Rightarrow>
                (End_Response (failed_response (ae_elapsed (sv_acquire env)) (wq_ray_id q) EC_InvalidUrl
                   (''Invalid URL: '' @ e)
                   (surviving_session_context_id (wq_context_id q) (fst (sv_pool s1)))), s1, [])
            | Inr _ \<Rightarrow>
                (case bind_context env config q (sv_pool s1) of
                   (Inl r, p) \<Rightarrow>
                     (End_Response r,
                      (if continues_session config q then id else record_failed_if_5xxx r)
                        (s1\<lparr>sv_pool := p\<rparr>), [])
                 | (Inr c, p) \<Rightarrow>
                     (case attempts_on env config q c (\<not> continues_session config q) p of
                        (a, p', tried) \<Rightarrow> (a, record_end a (s1\<lparr>sv_pool := p'\<rparr>), tried)))))"

definition worker_scrape_page ::
  "service_env \<Rightarrow> worker_config \<Rightarrow> worker_request \<Rightarrow> worker_state \<Rightarrow>
   scrape_end \<times> worker_state \<times> (browser_context \<times> bool \<times> scrape_end) list" where
  "worker_scrape_page env config q s =
     (case handle_scrape env config q (s\<lparr>sv_active := sv_active s + 1\<rparr>) of
        (a, s', tried) \<Rightarrow> (a, s'\<lparr>sv_active := sv_active s' - 1\<rparr>, tried))"

definition health_check :: "scope_config \<Rightarrow> worker_state \<Rightarrow> bool \<times> string" where
  "health_check config s =
     (sv_ready s \<and> \<not> sv_cancelled s,
      if sv_cancelled s then ''Worker is terminating''
      else if \<not> sv_ready s then ''Worker is not ready''
      else ''Worker healthy for scope: '' @ sc_name config)"

text \<open>
  The counters are read one after another while requests run: requests, failures, then requests again.  The
  subtraction wraps at the machine's word (release builds do not check it).
\<close>

definition success_rate :: "64 word \<Rightarrow> 64 word \<Rightarrow> 64 word \<Rightarrow> rat" where
  "success_rate requests failed requests_again =
     (if requests_again \<noteq> 0 then of_nat (unat (requests - failed)) / of_nat (unat requests_again) else 1)"

definition worker_get_stats ::
  "worker_config \<Rightarrow> browser_pool \<Rightarrow> 64 word \<Rightarrow> 64 word \<Rightarrow> 64 word \<Rightarrow> worker_stats" where
  "worker_get_stats config p requests failed requests_again =
     (let st = pool_get_stats p
      in \<lparr>ws_scope_name = sc_name (wc_scope config), ws_pod_name = wc_pod_name config,
          ws_pod_ip = wc_pod_ip config, ws_total_contexts = ps_total_contexts st,
          ws_available_slots = ps_available_slots st, ws_active_requests = ps_active_requests st,
          ws_total_requests = ps_total_requests st,
          ws_total_contexts_created = ps_total_contexts_created st,
          ws_total_contexts_recycled = ps_total_contexts_recycled st,
          ws_success_rate = success_rate requests failed requests_again\<rparr>)"

section \<open>The counters\<close>

definition attempt_failed :: "scrape_end \<Rightarrow> bool" where
  "attempt_failed a \<longleftrightarrow>
     (case a of End_Response r \<Rightarrow> counts_as_failure (wr_error_code r) | End_Status _ \<Rightarrow> True | End_Panic \<Rightarrow> False)"

lemma record_end_simps [simp]:
  "sv_total (record_end a s) = sv_total s" "sv_active (record_end a s) = sv_active s"
  "sv_failed (record_end a s) = sv_failed s + (if attempt_failed a then 1 else 0)"
  "sv_pool (record_end a s) = sv_pool s"
  by (simp_all add: record_end_def record_failed_if_5xxx_def attempt_failed_def split: scrape_end.split)

lemma bind_session_gone:
  assumes "continues_session config q" "bind_context env config q s = (Inl r, s')"
  shows "r = refusal (sv_acquire env) q EC_SessionNotFound
    (''Context not found or expired: '' @ wq_context_id q)"
  using assms by (auto simp: bind_context_def Let_def split: option.splits prod.splits bool.splits)

lemma refusal_code [simp]: "wr_error_code (refusal env q code msg) = code_num code"
  by (simp add: refusal_def failed_response_def)

text \<open>
  Every request is counted once, and its failure at most once.  A request taken in raises the total by
  one, and raises the failures exactly when it ends with a gRPC error or with a worker-side code (5xxx other
  than CAPACITY_EXHAUSTED), however many attempts it made; a request turned away by a worker that is shutting
  down is counted in neither; and the number of active requests is back to what it was.
\<close>

theorem worker_request_counted:
  "case worker_scrape_page env config q s of (a, s', tried) \<Rightarrow>
     sv_total s' = sv_total s + (if sv_ready s \<and> \<not> sv_cancelled s then 1 else 0) \<and>
     sv_failed s' = sv_failed s + (if sv_ready s \<and> \<not> sv_cancelled s \<and> attempt_failed a then 1 else 0) \<and>
     sv_active s' = sv_active s"
proof (cases "sv_ready s \<and> \<not> sv_cancelled s")
  case False
  then show ?thesis by (auto simp: worker_scrape_page_def handle_scrape_def)
next
  case ok: True
  show ?thesis
  proof (cases "extract_domain (se_lib (sv_scrape env)) (wq_url q)")
    case (Inl e)
    then show ?thesis
      using ok by (simp add: worker_scrape_page_def handle_scrape_def Let_def attempt_failed_def
          failed_response_def counts_as_failure_def)
  next
    case domain: (Inr d)
    show ?thesis
    proof (cases "bind_context env config q (sv_pool s)")
      case bind: (fields b p n)
      show ?thesis
      proof (cases b)
        case (Inl r)
        show ?thesis
        proof (cases "continues_session config q")
          case True
          then have "\<not> counts_as_failure (wr_error_code r)"
            using bind_session_gone [OF True bind [unfolded Inl]] by (simp add: counts_as_failure_def)
          then show ?thesis
            using ok domain bind Inl True
            by (simp add: worker_scrape_page_def handle_scrape_def Let_def attempt_failed_def)
        next
          case False
          then show ?thesis
            using ok domain bind Inl
            by (simp add: worker_scrape_page_def handle_scrape_def Let_def attempt_failed_def
                record_failed_if_5xxx_def)
        qed
      next
        case (Inr c)
        then show ?thesis
          using ok domain bind
          by (simp add: worker_scrape_page_def handle_scrape_def Let_def split: prod.split)
      qed
    qed
  qed
qed

section \<open>The attempts\<close>

lemma attempts_on_cases:
  assumes "attempts_on env config q c claimed s = (a, s', tried)"
  obtains (Once) s1 where "tried = [(c, claimed, a)]"
      "run_attempt env (sv_scrape env) config q c claimed (sv_meanwhile env s) = (a, s1)"
      "\<not> pool_was_replaced (snd s) a s1" "s' = drop_always_new_guard (wc_scope config) c s1"
    | (Refused) a1 s1 r where "tried = [(c, claimed, a1)]" "a = End_Response r"
      "run_attempt env (sv_scrape env) config q c claimed (sv_meanwhile env s) = (a1, s1)"
      "pool_was_replaced (snd s) a1 s1"
      "acquire_for env (sv_acquire_again env) config q (drop_always_new_guard (wc_scope config) c s1) =
        (Inl r, s')"
    | (Twice) a1 s1 c' s3 s4 where "tried = [(c, claimed, a1), (c', True, a)]"
      "run_attempt env (sv_scrape env) config q c claimed (sv_meanwhile env s) = (a1, s1)"
      "pool_was_replaced (snd s) a1 s1"
      "acquire_for env (sv_acquire_again env) config q (drop_always_new_guard (wc_scope config) c s1) =
        (Inr c', s3)"
      "run_attempt env (sv_scrape_again env) config q c' True s3 = (a, s4)"
      "s' = drop_always_new_guard (wc_scope config) c' s4"
  using assms
  by (auto simp: attempts_on_def Let_def split: prod.splits sum.splits if_splits)

lemma handle_scrape_cases:
  assumes "worker_scrape_page env config q s = (a, s', tried)"
  obtains (Away) "tried = []" "sv_pool s' = sv_pool s"
    | (Refused) r where "tried = []" "a = End_Response r"
      "bind_context env config q (sv_pool s) = (Inl r, sv_pool s')"
    | (Tried) c p where "bind_context env config q (sv_pool s) = (Inr c, p)"
      "attempts_on env config q c (\<not> continues_session config q) p = (a, sv_pool s', tried)"
proof -
  obtain t where t: "handle_scrape env config q (s\<lparr>sv_active := sv_active s + 1\<rparr>) = (a, t, tried)"
      "s' = t\<lparr>sv_active := sv_active t - 1\<rparr>"
    using assms by (auto simp: worker_scrape_page_def split: prod.splits)
  show thesis
  proof (cases "(sv_cancelled s \<or> \<not> sv_ready s) \<or> (\<exists>e. extract_domain (se_lib (sv_scrape env)) (wq_url q) = Inl e)")
    case True
    then show thesis
      using t that(1) by (cases "sv_cancelled s \<or> \<not> sv_ready s") (auto simp: handle_scrape_def)
  next
    case False
    then obtain d where d: "extract_domain (se_lib (sv_scrape env)) (wq_url q) = Inr d"
      by (metis sum.exhaust)
    obtain b p where b: "bind_context env config q (sv_pool s) = (b, p)"
      by (metis surj_pair)
    show thesis
    proof (cases b)
      case (Inl r)
      then show thesis
        using t False d b by (intro that(2) [of r]) (auto simp: handle_scrape_def Let_def record_failed_if_5xxx_def)
    next
      case (Inr c)
      then show thesis
        using t False d b by (intro that(3) [of c p]) (auto simp: handle_scrape_def Let_def split: prod.splits)
    qed
  qed
qed

lemma bind_continues:
  assumes "continues_session config q" "bind_context env config q s = (Inr c, p)"
  shows "bc_id c = wq_context_id q" "find_context_by_id (wq_context_id q) (fst s) = Some c" "p = s"
proof -
  from assms show *: "find_context_by_id (wq_context_id q) (fst s) = Some c"
    by (auto simp: bind_context_def Let_def split: option.splits prod.splits bool.splits)
  then show "bc_id c = wq_context_id q"
    by (auto simp: find_context_by_id_def find_Some_iff)
  from assms show "p = s"
    by (auto simp: bind_context_def Let_def end_session_if_used_up_def
        split: option.splits prod.splits bool.splits if_splits)
qed

text \<open>
  C9: A page is never loaded twice for one answer.  A request makes at most two attempts; a success is always
  the last attempt and the answer the client gets; a second attempt follows only an unsuccessful response
  whose pool was replaced meanwhile, always on a context claimed for it, and then its end is the answer.  A
  continuation's first attempt is on the very context the request names, and is the only attempt that has to
  win the busy flag itself.
\<close>

theorem worker_retries_at_most_once:
  assumes "worker_scrape_page env config q s = (a, s', tried)"
  shows "length tried \<le> 2 \<and>
    (\<forall>c claimed r. (c, claimed, End_Response r) \<in> set tried \<and> wr_success r \<longrightarrow>
       a = End_Response r \<and> (c, claimed, End_Response r) = last tried) \<and>
    (\<forall>c1 claimed1 a1 c2 claimed2 a2. tried = [(c1, claimed1, a1), (c2, claimed2, a2)] \<longrightarrow>
       claimed2 \<and> a2 = a \<and> (\<exists>r s1. a1 = End_Response r \<and> \<not> wr_success r \<and>
         run_attempt env (sv_scrape env) config q c1 claimed1
           (sv_meanwhile env (snd (bind_context env config q (sv_pool s)))) = (a1, s1) \<and>
         snd s1 \<noteq> snd (snd (bind_context env config q (sv_pool s))))) \<and>
    (\<forall>c claimed a1 rest. tried = (c, claimed, a1) # rest \<longrightarrow>
       claimed = (\<not> continues_session config q) \<and> (continues_session config q \<longrightarrow> bc_id c = wq_context_id q))"
  using assms
proof (cases rule: handle_scrape_cases)
  case (Tried c p)
  have name: "continues_session config q \<Longrightarrow> bc_id c = wq_context_id q"
    using bind_continues(1) Tried(1) by blast
  from Tried(2) show ?thesis
  proof (cases rule: attempts_on_cases)
    case (Once s1)
    then show ?thesis using name by auto
  next
    case (Refused a1 s1 r)
    then show ?thesis using name by (auto simp: pool_was_replaced_def)
  next
    case (Twice a1 s1 c' s3 s4)
    then show ?thesis
      using name Tried(1) by (cases s1) (auto simp: pool_was_replaced_def split: scrape_end.splits)
  qed
qed simp_all

section \<open>What a request leaves behind\<close>

definition busy_ids :: "pool_state \<Rightarrow> string set" where
  "busy_ids s = bc_id ` {c \<in> set (bp_contexts (fst s)). bc_busy c}"

abbreviation pool_ids :: "pool_state \<Rightarrow> string set" where
  "pool_ids s \<equiv> bc_id ` set (bp_contexts (fst s))"

lemma in_pool_contexts:
  "bp_contexts (fst (in_pool i f s)) = update_context i f (bp_contexts (fst s))"
  "bp_contexts (fst (remove_from_pool i s)) = filter (\<lambda>c. bc_id c \<noteq> i) (bp_contexts (fst s))"
  by (simp_all add: in_pool_def remove_from_pool_def destroy_context_def case_prod_beta)

lemma pool_ids_in_pool:
  assumes "\<And>c. bc_id (f c) = bc_id c"
  shows "bc_id ` set (bp_contexts (fst (in_pool i f s))) = bc_id ` set (bp_contexts (fst s))"
proof -
  have "bc_id (if bc_id c = i then f c else c) = bc_id c" for c
    using assms by simp
  then show ?thesis
    unfolding in_pool_contexts update_context_def set_map image_image by (simp only:)
qed

lemma busy_ids_iff: "x \<in> busy_ids s \<longleftrightarrow> (\<exists>c \<in> set (bp_contexts (fst s)). bc_id c = x \<and> bc_busy c)"
  by (auto simp: busy_ids_def)

lemma busy_ids_update:
  assumes "\<And>c. bc_id (f c) = bc_id c"
  shows "x \<in> busy_ids (in_pool i f s) \<longleftrightarrow>
    (\<exists>c \<in> set (bp_contexts (fst s)). bc_id c = x \<and> (if x = i then bc_busy (f c) else bc_busy c))"
proof -
  have "x \<in> busy_ids (in_pool i f s) \<longleftrightarrow> (\<exists>c \<in> set (bp_contexts (fst s)).
      bc_id (if bc_id c = i then f c else c) = x \<and> bc_busy (if bc_id c = i then f c else c))"
    unfolding busy_ids_iff in_pool_contexts update_context_def set_map by blast
  moreover have "bc_id (if bc_id c = i then f c else c) = bc_id c" for c
    using assms by simp
  ultimately show ?thesis by (simp, metis)
qed

lemma busy_ids_in_pool:
  assumes "\<And>c. bc_id (f c) = bc_id c" "\<And>c. bc_busy (f c) = bc_busy c"
  shows "busy_ids (in_pool i f s) = busy_ids s"
proof (intro set_eqI)
  fix x
  show "x \<in> busy_ids (in_pool i f s) \<longleftrightarrow> x \<in> busy_ids s"
    unfolding busy_ids_update [OF assms(1)] busy_ids_iff [of x s] using assms(2) by auto
qed

lemma busy_ids_claim: "busy_ids (in_pool i (mark_busy True) s) \<subseteq> insert i (busy_ids s)"
  by (rule subsetI, subst (asm) busy_ids_update) (auto simp: busy_ids_iff mark_busy_def)

lemma busy_ids_release: "busy_ids (in_pool i (mark_busy False \<circ> stamp_last_used now) s) \<subseteq> busy_ids s - {i}"
  by (rule subsetI, subst (asm) busy_ids_update)
    (auto simp: busy_ids_iff mark_busy_def stamp_last_used_def split: if_splits)

lemma busy_ids_remove: "busy_ids (remove_from_pool i s) = busy_ids s - {i}"
  by (rule set_eqI) (auto simp: busy_ids_iff in_pool_contexts)

lemma busy_ids_guard: "busy_ids (drop_always_new_guard config c s) \<subseteq> busy_ids s"
  by (auto simp: drop_always_new_guard_def busy_ids_remove)

lemma busy_ids_recreate:
  assumes "\<forall>c \<in> set built. \<not> bc_busy c"
  shows "busy_ids (recreate_browser_pool built s) = {}"
proof -
  have "set (bp_contexts (fst (recreate_browser_pool built s))) \<subseteq> set built"
    using set_take_subset [of _ built]
    by (simp add: recreate_browser_pool_def pool_start_def populate_initial_contexts_def Let_def case_prod_beta)
  then show ?thesis using assms by (auto simp: busy_ids_def)
qed

lemma apply_effect_busy:
  assumes "inner fx" "\<forall>c \<in> set fresh. \<not> bc_busy c"
  shows "busy_ids (apply_effect now fresh i fx s) \<subseteq> busy_ids s"
  using assms
  by (cases fx) (simp_all add: busy_ids_in_pool busy_ids_remove busy_ids_recreate count_request_def
      quarantine_origin_def Diff_subset)

lemma effects_busy:
  assumes "\<forall>fx \<in> set es. inner fx" "\<forall>c \<in> set fresh. \<not> bc_busy c"
  shows "busy_ids (fold (apply_effect now fresh i) es s) \<subseteq> busy_ids s"
  using assms(1)
proof (induction es arbitrary: s)
  case (Cons fx es)
  have "busy_ids (fold (apply_effect now fresh i) es (apply_effect now fresh i fx s)) \<subseteq>
      busy_ids (apply_effect now fresh i fx s)"
    using Cons by simp
  also have "\<dots> \<subseteq> busy_ids s"
    using Cons.prems assms(2) by (intro apply_effect_busy) simp_all
  finally show ?case by simp
qed simp

text \<open>An attempt on a context it holds leaves it idle; one that finds it busy leaves everything as it was.\<close>

lemma run_attempt_busy:
  assumes "run_attempt env scrape_env config q c claimed s = (a, s')"
    and "\<forall>c \<in> set (sv_fresh env). \<not> bc_busy c"
  shows "busy_ids s' \<subseteq> (if claimed \<or> \<not> bc_busy c then busy_ids s - {bc_id c} else busy_ids s)"
proof -
  define j where "j = \<lparr>sj_worker = config, sj_env = scrape_env\<lparr>se_busy := bc_busy c\<rparr>, sj_req = q, sj_context = c\<rparr>"
  obtain es where es: "scrape_page_internal j claimed = (a, es)"
      "busy_ids s' = busy_ids (fold (apply_effect (sv_now env) (sv_fresh env) (bc_id c)) es s)"
    using assms(1)
    by (auto simp: run_attempt_def j_def [symmetric] Let_def busy_ids_in_pool split: prod.splits if_splits)
  note guarded = attempt_guarded [OF es(1)]
  have busy: "se_busy (sj_env j) = bc_busy c"
    by (simp add: j_def)
  show ?thesis
  proof (cases "claimed \<or> \<not> bc_busy c")
    case True
    then obtain mid where mid: "es = Fx_Claimed # mid @ [Fx_Released]" "Fx_Claimed \<notin> set mid" "Fx_Released \<notin> set mid"
      using guarded busy by auto
    have "\<forall>fx \<in> set mid. inner fx"
      using mid(2,3) by auto
    then have within: "busy_ids (fold (apply_effect (sv_now env) (sv_fresh env) (bc_id c)) mid
        (in_pool (bc_id c) (mark_busy True) s)) \<subseteq> busy_ids (in_pool (bc_id c) (mark_busy True) s)"
      by (rule effects_busy [OF _ assms(2)])
    have "busy_ids (fold (apply_effect (sv_now env) (sv_fresh env) (bc_id c)) es s) \<subseteq>
        busy_ids (fold (apply_effect (sv_now env) (sv_fresh env) (bc_id c)) mid
          (in_pool (bc_id c) (mark_busy True) s)) - {bc_id c}"
      unfolding mid(1) by (simp add: busy_ids_release [unfolded comp_def] busy_ids_release)
    also have "\<dots> \<subseteq> busy_ids (in_pool (bc_id c) (mark_busy True) s) - {bc_id c}"
      using within by blast
    also have "\<dots> \<subseteq> busy_ids s - {bc_id c}"
      using busy_ids_claim by blast
    finally show ?thesis using True es(2) by simp
  next
    case False
    then have "es = []" using guarded busy by auto
    then show ?thesis using False es(2) by simp
  qed
qed

lemma acquire_context_cases:
  assumes "acquire_context now params origin built p = (res, p')"
  obtains (Reused) c where "res = Inr (Some (mark_busy True c))" "p' = claim_in_pool (bc_id c) p"
      "c \<in> set (bp_contexts p)"
    | (Built) c rest where "built = Inr c" "res = Inr (Some (mark_busy True c))" "set rest \<subseteq> set (bp_contexts p)"
      "bp_contexts p' = rest @ [mark_busy True c]" "bp_pending p' = bp_pending p" "bp_config p' = bp_config p"
    | (Nothing) "res = Inr None \<or> (\<exists>e. res = Inl e)" "set (bp_contexts p') \<subseteq> set (bp_contexts p)"
      "bp_pending p' = bp_pending p" "bp_config p' = bp_config p"
proof -
  have build: thesis
    if "map_prod (map_sum id Some) id (build_reserved_context built p'') = (res, p')"
      "set (bp_contexts p'') \<subseteq> set (bp_contexts p)" "bp_pending p'' = Suc (bp_pending p)"
      "bp_config p'' = bp_config p" for p''
  proof (cases built)
    case (Inl e)
    then show thesis
      using that by (intro Nothing)
        (auto simp: build_reserved_context_def drop_reservation_def)
  next
    case (Inr c)
    show thesis
      using that by (intro Built [of c "bp_contexts p''"])
        (auto simp: Inr build_reserved_context_def drop_reservation_def Let_def)
  qed
  show thesis
  proof (cases "sc_session_mode (bp_config p)")
    case AlwaysNew
    show thesis
    proof (cases "acquire_always_new p")
      case (fields acq leaked p1)
      then have "set (bp_contexts p1) \<subseteq> set (bp_contexts p) \<and> bp_config p1 = bp_config p \<and>
          (acq = Acq_Full \<and> bp_pending p1 = bp_pending p \<or> acq = Acq_Build \<and> bp_pending p1 = Suc (bp_pending p))"
        by (auto simp: acquire_always_new_def reclaim_leaked_always_new_contexts_def Let_def take_reservation_def
            split: if_splits)
      then show thesis
        using assms fields AlwaysNew
        by (auto simp: acquire_context_def create_always_new_context_def intro: build Nothing)
    qed
  next
    case Dedicated
    then show thesis
      using assms
      by (auto simp: acquire_context_def create_dedicated_context_def acquire_dedicated_def take_reservation_def
          intro: build Nothing split: if_splits)
  next
    case Reusable
    then have get: "get_or_create_context now params origin built p = (res, p')"
      using assms by (simp add: acquire_context_def)
    obtain r p1 where o: "acquire_optimistic now {} params origin p = (r, p1)"
      by (metis surj_pair)
    from o show thesis
    proof (cases rule: acquire_optimistic_cases)
      case 1
      obtain acq p2 where l: "acquire_locked now {} params origin p = (acq, p2)"
        by (metis surj_pair)
      from l show thesis
      proof (cases rule: acquire_locked_cases)
        case (1 c)
        then show thesis
          using get o \<open>r = None\<close> \<open>p1 = p\<close> l by (intro Reused [of c]) (simp_all add: get_or_create_context_def)
      next
        case 2
        then show thesis
          using get o \<open>r = None\<close> \<open>p1 = p\<close> l
          by (intro build [of p2]) (simp_all add: get_or_create_context_def take_reservation_def)
      next
        case (3 c)
        then show thesis
          using get o \<open>r = None\<close> \<open>p1 = p\<close> l
          by (intro build [of p2]) (auto simp: get_or_create_context_def take_reservation_def)
      next
        case 4
        then show thesis
          using get o \<open>r = None\<close> \<open>p1 = p\<close> l by (intro Nothing) (simp_all add: get_or_create_context_def)
      qed
    next
      case (2 c)
      then show thesis
        using get o by (intro Reused [of c]) (simp_all add: get_or_create_context_def)
    qed
  qed
qed

text \<open>The contexts an acquisition may create.\<close>

definition created_by :: "acquire_env \<Rightarrow> browser_context set" where
  "created_by acq =
     {c. ae_built acq = Inr c \<or> ae_built_again acq = Inr c} \<union>
     (case ae_recreated acq of Inr built \<Rightarrow> set built | Inl _ \<Rightarrow> {})"

text \<open>What a request did to the pool: which ids it may have added, and which it may hold busy.\<close>

definition bounded_by :: "string set \<Rightarrow> string set \<Rightarrow> pool_state \<Rightarrow> pool_state \<Rightarrow> bool" where
  "bounded_by new held s s' \<longleftrightarrow>
     busy_ids s' \<subseteq> busy_ids s \<union> held \<and> pool_ids s' \<subseteq> pool_ids s \<union> new \<and>
     bp_pending (fst s') \<le> bp_pending (fst s)"

lemma subset_Un_trans: "B \<subseteq> A \<union> X \<Longrightarrow> C \<subseteq> B \<union> Y \<Longrightarrow> C \<subseteq> A \<union> (X \<union> Y)"
  by blast

lemma bounded_by_trans:
  assumes "bounded_by new held s s'" "bounded_by new' held' s' s''"
  shows "bounded_by (new \<union> new') (held \<union> held') s s''"
proof -
  have s: "busy_ids s' \<subseteq> busy_ids s \<union> held" "pool_ids s' \<subseteq> pool_ids s \<union> new" "bp_pending (fst s') \<le> bp_pending (fst s)"
    using assms(1) by (simp_all add: bounded_by_def)
  have s': "busy_ids s'' \<subseteq> busy_ids s' \<union> held'" "pool_ids s'' \<subseteq> pool_ids s' \<union> new'"
    "bp_pending (fst s'') \<le> bp_pending (fst s')"
    using assms(2) by (simp_all add: bounded_by_def)
  show ?thesis
    unfolding bounded_by_def
    using subset_Un_trans [OF s(1) s'(1)] subset_Un_trans [OF s(2) s'(2)] order_trans [OF s'(3) s(3)] by blast
qed

lemma bounded_by_mono: "bounded_by new held s s' \<Longrightarrow> new \<subseteq> new' \<Longrightarrow> held \<subseteq> held' \<Longrightarrow> bounded_by new' held' s s'"
  unfolding bounded_by_def by blast

lemma acquire_context_bounded:
  assumes "acquire_context now params origin built p = (res, p')"
  shows "bounded_by {bc_id c |c. built = Inr c} {bc_id c |c. res = Inr (Some c)} (p, n) (p', n)"
  using assms
proof (cases rule: acquire_context_cases)
  case (Reused c)
  have "(p', n) = in_pool (bc_id c) (mark_busy True) (p, n)"
    by (simp add: Reused(2) claim_in_pool_def in_pool_def)
  moreover have "bc_id (mark_busy True c) = bc_id c"
    by (simp add: mark_busy_def)
  moreover have "bp_pending (fst (in_pool (bc_id c) (mark_busy True) (p, n))) = bp_pending p"
    by (simp add: in_pool_def)
  ultimately show ?thesis
    using busy_ids_claim [of "bc_id c" "(p, n)"] pool_ids_in_pool [of "mark_busy True" "bc_id c" "(p, n)"]
    unfolding bounded_by_def by (auto simp: Reused(1) mark_busy_def)
next
  case (Built c rest)
  have m: "bc_id (mark_busy True c) = bc_id c"
    by (simp add: mark_busy_def)
  have "busy_ids (p', n) \<subseteq> busy_ids (p, n) \<union> {bc_id c}" "pool_ids (p', n) \<subseteq> pool_ids (p, n) \<union> {bc_id c}"
    using Built(3) by (auto simp: busy_ids_def Built(4) m)
  then show ?thesis
    by (simp add: bounded_by_def Built m)
next
  case Nothing
  have "busy_ids (p', n) \<subseteq> busy_ids (p, n)" "pool_ids (p', n) \<subseteq> pool_ids (p, n)"
    using Nothing(2) by (auto simp: busy_ids_def)
  then show ?thesis
    using Nothing by (auto simp: bounded_by_def)
qed

lemma pool_ids_recreate: "pool_ids (recreate_browser_pool built s) \<subseteq> bc_id ` set built"
  "bp_pending (fst (recreate_browser_pool built s)) = 0"
  using set_take_subset [of _ built]
  by (auto simp: recreate_browser_pool_def pool_start_def populate_initial_contexts_def Let_def case_prod_beta)

lemma recreate_bounded:
  assumes "\<forall>c \<in> set built. \<not> bc_busy c"
  shows "bounded_by (bc_id ` set built) {} s (recreate_browser_pool built s)"
  using pool_ids_recreate [of built s] busy_ids_recreate [OF assms, of s] by (auto simp: bounded_by_def)

lemma acquire_for_bounded:
  assumes "acquire_for env acq config q s = (b, s')"
    and "\<forall>built c. ae_recreated acq = Inr built \<and> c \<in> set built \<longrightarrow> \<not> bc_busy c"
  shows "bounded_by (bc_id ` created_by acq) {bc_id c |c. b = Inr c} s s'"
proof -
  obtain p n where s: "s = (p, n)" by fastforce
  let ?acquire = "acquire_context (ae_now acq) (request_params q)
    (request_quarantine_origin (se_lib (sv_scrape env)) (wc_scope config) (wq_url q))"
  obtain res p1 where r: "?acquire (ae_built acq) p = (res, p1)"
    by fastforce
  note first = acquire_context_bounded [OF r, of n]
  show ?thesis
  proof (cases "(\<exists>e built. res = Inl e \<and> is_dead_browser_error e \<and> ae_recreated acq = Inr built)")
    case True
    then obtain e built where e: "res = Inl e" "is_dead_browser_error e" "ae_recreated acq = Inr built"
      by blast
    obtain p2 m where p2: "recreate_browser_pool built (p1, n) = (p2, m)"
      by fastforce
    obtain res' p3 where r': "?acquire (ae_built_again acq) p2 = (res', p3)"
      by fastforce
    have out: "s' = (p3, m)" "{bc_id c |c. b = Inr c} = {bc_id c |c. res' = Inr (Some c)}"
      using assms(1) e r r' p2
      by (auto simp: s acquire_for_def acquire_context_with_recovery_def Let_def split: sum.splits option.splits)
    have "bounded_by (bc_id ` set built) {} (p1, n) (p2, m)"
      using recreate_bounded [of built "(p1, n)"] assms(2) e(3) by (auto simp: p2)
    from bounded_by_trans [OF bounded_by_trans [OF first this] acquire_context_bounded [OF r', of m]]
    show ?thesis
      unfolding s out by (rule bounded_by_mono) (auto simp: e created_by_def)
  next
    case False
    then have "s' = (p1, n)" "{bc_id c |c. b = Inr c} = {bc_id c |c. res = Inr (Some c)}"
      using assms(1) r
      by (auto simp: s acquire_for_def acquire_context_with_recovery_def Let_def
          split: sum.splits option.splits if_splits)
    with first show ?thesis
      by (auto simp: s created_by_def intro: bounded_by_mono)
  qed
qed

lemma pending_kept [simp]:
  "bp_pending (fst (in_pool i f s)) = bp_pending (fst s)"
  "bp_pending (fst (remove_from_pool i s)) = bp_pending (fst s)"
  by (simp_all add: in_pool_def remove_from_pool_def destroy_context_def case_prod_beta)

lemma apply_effect_shape:
  "pool_ids (apply_effect now fresh i fx s) \<subseteq> pool_ids s \<union> bc_id ` set fresh \<and>
   bp_pending (fst (apply_effect now fresh i fx s)) \<le> bp_pending (fst s)"
proof (cases fx)
  case Fx_PoolRecreated
  then show ?thesis using pool_ids_recreate [of fresh s] by auto
next
  case (Fx_Destroy i')
  then show ?thesis by (auto simp: in_pool_contexts)
qed (simp_all add: pool_ids_in_pool mark_busy_def count_request_def quarantine_origin_def stamp_last_used_def)

lemma effects_shape:
  "pool_ids (fold (apply_effect now fresh i) es s) \<subseteq> pool_ids s \<union> bc_id ` set fresh \<and>
   bp_pending (fst (fold (apply_effect now fresh i) es s)) \<le> bp_pending (fst s)"
proof (induction es arbitrary: s)
  case (Cons fx es)
  show ?case
    using Cons.IH [of "apply_effect now fresh i fx s"] apply_effect_shape [of now fresh i fx s]
    unfolding fold_simps by (meson Un_least dual_order.trans sup_ge2)
qed simp

lemma run_attempt_bounded:
  assumes "run_attempt env scrape_env config q c claimed s = (a, s')"
    and "\<forall>c \<in> set (sv_fresh env). \<not> bc_busy c"
  shows "bounded_by (bc_id ` set (sv_fresh env)) {} s s'"
    "claimed \<or> \<not> bc_busy c \<Longrightarrow> bc_id c \<notin> busy_ids s'"
proof -
  obtain es where "pool_ids s' = pool_ids (fold (apply_effect (sv_now env) (sv_fresh env) (bc_id c)) es s)"
    "bp_pending (fst s') = bp_pending (fst (fold (apply_effect (sv_now env) (sv_fresh env) (bc_id c)) es s))"
    using assms(1) by (auto simp: run_attempt_def Let_def pool_ids_in_pool split: prod.splits if_splits)
  then show "bounded_by (bc_id ` set (sv_fresh env)) {} s s'"
    using effects_shape [of "sv_now env" "sv_fresh env" "bc_id c" es s] run_attempt_busy [OF assms]
    by (auto simp: bounded_by_def split: if_splits)
  show "claimed \<or> \<not> bc_busy c \<Longrightarrow> bc_id c \<notin> busy_ids s'"
    using run_attempt_busy [OF assms] by auto
qed

lemma guard_bounded: "bounded_by {} {} s (drop_always_new_guard config c s)"
  by (auto simp: bounded_by_def drop_always_new_guard_def busy_ids_remove in_pool_contexts)

lemma guard_removes: "sc_session_mode config = AlwaysNew \<Longrightarrow> bc_id c \<notin> pool_ids (drop_always_new_guard config c s)"
  by (auto simp: drop_always_new_guard_def in_pool_contexts)

text \<open>The contexts other tasks hold busy at the end of the attempt they may have disturbed.\<close>

definition disturbs :: "service_env \<Rightarrow> string set \<Rightarrow> bool" where
  "disturbs env others \<longleftrightarrow>
     (\<forall>s. busy_ids (sv_meanwhile env s) \<subseteq> busy_ids s \<union> others \<and>
        bp_pending (fst (sv_meanwhile env s)) \<le> bp_pending (fst s))"

lemma bind_bounded:
  assumes "bind_context env config q s = (b, s')"
    and "\<forall>built c. ae_recreated (sv_acquire env) = Inr built \<and> c \<in> set built \<longrightarrow> \<not> bc_busy c"
  shows "bounded_by (bc_id ` created_by (sv_acquire env))
    (if continues_session config q then {} else {bc_id c |c. b = Inr c}) s s'"
proof (cases "continues_session config q")
  case True
  have "bounded_by {} {} s (p, snd s)"
    if "end_session_if_used_up now c (fst s) = (gone, p)" for now c gone p
  proof -
    from that have "p = fst s \<or> p = snd (destroy_context (bc_id c) (fst s))"
      by (auto simp: end_session_if_used_up_def split: if_splits option.splits)
    then show ?thesis by (auto simp: bounded_by_def busy_ids_iff destroy_context_def)
  qed
  moreover have "bounded_by {} {} s s" by (simp add: bounded_by_def)
  moreover have "s' = s \<or> (\<exists>now c gone p. end_session_if_used_up now c (fst s) = (gone, p) \<and> s' = (p, snd s))"
    using assms(1) unfolding bind_context_def if_P [OF True] Let_def
    by (auto split: option.splits prod.splits bool.splits)
  ultimately have "bounded_by {} {} s s'" by blast
  then show ?thesis by (rule bounded_by_mono) simp_all
next
  case False
  then show ?thesis
    using assms acquire_for_bounded by (simp add: bind_context_def)
qed

lemma attempts_give_back:
  assumes tried: "attempts_on env config q c claimed s = (a, s', tried)"
    and idle: "\<forall>c \<in> set (sv_fresh env). \<not> bc_busy c"
      "\<forall>built c. ae_recreated (sv_acquire_again env) = Inr built \<and> c \<in> set built \<longrightarrow> \<not> bc_busy c"
    and others: "disturbs env others"
    and held: "busy_ids s \<subseteq> B \<union> {bc_id c}" "claimed \<or> \<not> bc_busy c \<or> bc_id c \<in> B"
  shows "busy_ids s' \<subseteq> B \<union> others \<and> bp_pending (fst s') \<le> bp_pending (fst s) \<and>
    (sc_session_mode (wc_scope config) = AlwaysNew \<and>
       bc_id (fst (hd tried)) \<notin> bc_id ` (created_by (sv_acquire_again env) \<union> set (sv_fresh env)) \<longrightarrow>
     (\<forall>t \<in> set tried. bc_id (fst t) \<notin> pool_ids s'))"
proof -
  let ?new = "bc_id ` (created_by (sv_acquire_again env) \<union> set (sv_fresh env))"
  let ?drop = "drop_always_new_guard (wc_scope config)"
  define s0 where "s0 = sv_meanwhile env s"
  have s0: "busy_ids s0 \<subseteq> B \<union> {bc_id c} \<union> others" "bp_pending (fst s0) \<le> bp_pending (fst s)"
    using others held(1) unfolding disturbs_def s0_def by blast+
  have first: "busy_ids (?drop c s1) \<subseteq> B \<union> others" "bp_pending (fst (?drop c s1)) \<le> bp_pending (fst s)"
    if "run_attempt env (sv_scrape env) config q c claimed s0 = (a1, s1)" for a1 s1
  proof -
    note r = run_attempt_bounded [OF that idle(1)]
    have "busy_ids s1 \<subseteq> B \<union> others"
      using r held(2) s0(1) by (auto simp: bounded_by_def)
    then show "busy_ids (?drop c s1) \<subseteq> B \<union> others"
      using busy_ids_guard by blast
    show "bp_pending (fst (?drop c s1)) \<le> bp_pending (fst s)"
      using r(1) guard_bounded [of s1 "wc_scope config" c] s0(2) unfolding bounded_by_def by linarith
  qed
  have gone: "bc_id c \<notin> pool_ids (?drop c s1)" if "sc_session_mode (wc_scope config) = AlwaysNew" for s1
    using that by (rule guard_removes)
  from tried show ?thesis
  proof (cases rule: attempts_on_cases)
    case (Once s1)
    then show ?thesis
      using first [of a s1] gone [of s1] by (simp add: s0_def)
  next
    case (Refused a1 s1 r)
    have acq: "bounded_by (bc_id ` created_by (sv_acquire_again env)) {} (?drop c s1) s'"
      using acquire_for_bounded [OF Refused(5) idle(2)] by simp
    then show ?thesis
      using first [of a1 s1] gone [of s1] Refused(1,3) by (auto simp: s0_def bounded_by_def)
  next
    case (Twice a1 s1 c' s3 s4)
    have acq: "bounded_by (bc_id ` created_by (sv_acquire_again env)) {bc_id c'} (?drop c s1) s3"
      using acquire_for_bounded [OF Twice(4) idle(2)] by simp
    note run = run_attempt_bounded [OF Twice(5) idle(1)] and drop = guard_bounded [of s4 "wc_scope config" c']
    have "busy_ids s3 \<subseteq> B \<union> others \<union> {bc_id c'}"
      using acq first(1) [of a1 s1] Twice(2) by (auto simp: s0_def bounded_by_def)
    then have "busy_ids s' \<subseteq> B \<union> others"
      using run busy_ids_guard [of "wc_scope config" c' s4] unfolding Twice(6) bounded_by_def by blast
    moreover have "bp_pending (fst s') \<le> bp_pending (fst s)"
    proof -
      have "bp_pending (fst s') \<le> bp_pending (fst s4)" "bp_pending (fst s4) \<le> bp_pending (fst s3)"
        "bp_pending (fst s3) \<le> bp_pending (fst (?drop c s1))" "bp_pending (fst (?drop c s1)) \<le> bp_pending (fst s)"
        using drop run(1) acq first(2) [of a1 s1] Twice(2) by (simp_all add: Twice(6) bounded_by_def s0_def)
      then show ?thesis by linarith
    qed
    moreover have "pool_ids s' \<subseteq> pool_ids (?drop c s1) \<union> ?new"
    proof -
      have *: "pool_ids s' \<subseteq> pool_ids s4" "pool_ids s4 \<subseteq> pool_ids s3 \<union> bc_id ` set (sv_fresh env)"
        "pool_ids s3 \<subseteq> pool_ids (?drop c s1) \<union> bc_id ` created_by (sv_acquire_again env)"
        using drop run(1) acq by (simp_all add: Twice(6) bounded_by_def)
      from order_trans [OF *(1) order_trans [OF *(2) Un_mono [OF *(3) subset_refl]]]
      show ?thesis by (simp only: image_Un Un_assoc)
    qed
    moreover have "\<forall>t \<in> set tried. bc_id (fst t) \<notin> pool_ids s'"
      if "sc_session_mode (wc_scope config) = AlwaysNew" "bc_id (fst (hd tried)) \<notin> ?new"
        "pool_ids s' \<subseteq> pool_ids (?drop c s1) \<union> ?new"
    proof -
      have "bc_id c \<notin> pool_ids s'"
        using gone [OF that(1), of s1] that(2,3) unfolding Twice(1) list.sel fst_conv by (meson UnE subsetD)
      then show ?thesis
        using guard_removes [OF that(1), of c' s4] unfolding Twice(1,6) by simp
    qed
    ultimately show ?thesis by blast
  qed
qed

text \<open>
  C8: A request gives everything back.  However it ends, by answer, gRPC error or panic, with one attempt or
  two, through recreated pools or not, the contexts busy afterwards were busy before it or are held by the
  tasks that ran beside it, no slot reservation is left over, and in an always-new scope every context it
  was bound to is out of the pool.
\<close>

theorem worker_request_gives_everything_back:
  assumes "worker_scrape_page env config q s = (a, s', tried)"
    and "\<forall>c \<in> set (sv_fresh env). \<not> bc_busy c"
    and "\<forall>acq \<in> {sv_acquire env, sv_acquire_again env}. \<forall>built c.
      ae_recreated acq = Inr built \<and> c \<in> set built \<longrightarrow> \<not> bc_busy c"
    and "disturbs env others"
  shows "busy_ids (sv_pool s') \<subseteq> busy_ids (sv_pool s) \<union> others \<and>
    bp_pending (fst (sv_pool s')) \<le> bp_pending (fst (sv_pool s)) \<and>
    (sc_session_mode (wc_scope config) = AlwaysNew \<and>
       bc_id (fst (hd tried)) \<notin> bc_id ` (created_by (sv_acquire_again env) \<union> set (sv_fresh env)) \<longrightarrow>
     (\<forall>t \<in> set tried. bc_id (fst t) \<notin> pool_ids (sv_pool s')))"
proof -
  have idle: "\<forall>built c. ae_recreated (sv_acquire env) = Inr built \<and> c \<in> set built \<longrightarrow> \<not> bc_busy c"
    "\<forall>built c. ae_recreated (sv_acquire_again env) = Inr built \<and> c \<in> set built \<longrightarrow> \<not> bc_busy c"
    using assms(3) by blast+
  note bound = bind_bounded [OF _ idle(1)]
  from assms(1) show ?thesis
  proof (cases rule: handle_scrape_cases)
    case (Refused r)
    note b = bound [OF Refused(3)]
    show ?thesis
      using b unfolding Refused(1) bounded_by_def by (auto split: if_splits)
  next
    case (Tried c p)
    note b = bound [OF Tried(1)]
    have held: "busy_ids p \<subseteq> busy_ids (sv_pool s) \<union> {bc_id c}"
      using b by (auto simp: bounded_by_def split: if_splits)
    have "\<not> continues_session config q \<or> \<not> bc_busy c \<or> bc_id c \<in> busy_ids (sv_pool s)"
    proof (cases "continues_session config q \<and> bc_busy c")
      case True
      then have "List.find (\<lambda>d. bc_id d = wq_context_id q) (bp_contexts (fst (sv_pool s))) = Some c"
        using bind_continues(2) [OF _ Tried(1)] by (simp add: find_context_by_id_def)
      then have "c \<in> set (bp_contexts (fst (sv_pool s)))"
        by (auto simp: find_Some_iff)
      with True show ?thesis by (auto simp: busy_ids_def)
    qed auto
    note g = attempts_give_back [OF Tried(2) assms(2) idle(2) assms(4) held this]
    have "bp_pending (fst p) \<le> bp_pending (fst (sv_pool s))"
      using b by (simp add: bounded_by_def)
    with g show ?thesis by (meson order_trans)
  qed auto
qed

section \<open>A concrete request\<close>

text \<open>An always-new scope with an empty pool, no other tasks, and the blocked page of \<open>sample_job\<close>.\<close>

definition sample_acquire :: "string \<Rightarrow> acquire_env" where
  "sample_acquire i =
     \<lparr>ae_now = 0, ae_elapsed = 1, ae_built = Inr (sample_context i 0), ae_recreated = Inr [],
      ae_built_again = Inr (sample_context i 0)\<rparr>"

definition sample_service :: service_env where
  "sample_service =
     \<lparr>sv_acquire = sample_acquire ''c1'', sv_scrape = sample_scrape_env, sv_now = 5, sv_fresh = [],
      sv_meanwhile = id, sv_acquire_again = sample_acquire ''c2'', sv_scrape_again = sample_scrape_env,
      sv_show_duration = (\<lambda>_. [])\<rparr>"

definition sample_state :: worker_state where
  "sample_state =
     \<lparr>sv_pool = (pool_start (wc_scope (blocking_worker AlwaysNew)) [], 0), sv_active = 0, sv_total = 0,
      sv_failed = 0, sv_ready = True, sv_cancelled = False\<rparr>"

abbreviation sample_handled :: "scrape_end \<times> worker_state \<times> (browser_context \<times> bool \<times> scrape_end) list" where
  "sample_handled \<equiv>
     worker_scrape_page sample_service (blocking_worker AlwaysNew) (sj_req (sample_job AlwaysNew)) sample_state"

lemma sample_binds:
  "\<exists>p. bind_context sample_service (blocking_worker AlwaysNew) (sj_req (sample_job AlwaysNew)) (sv_pool sample_state) =
     (Inr (mark_busy True (sample_context ''c1'' 0)), p)"
  by (simp add: bind_context_def continues_session_def sample_job_def blocking_worker_def sample_state_def
      sample_service_def sample_acquire_def acquire_for_def acquire_context_with_recovery_def acquire_context_def
      create_always_new_context_def acquire_always_new_def reclaim_leaked_always_new_contexts_def
      build_reserved_context_def pool_eval)

lemma sample_tries:
  assumes "sample_handled = (a, s', tried)"
  shows "tried \<noteq> [] \<and> bc_id (fst (hd tried)) = ''c1''"
proof -
  obtain d where domain: "extract_domain (se_lib (sv_scrape sample_service)) (wq_url (sj_req (sample_job AlwaysNew))) = Inr d"
    by (simp add: sample_service_def sample_scrape_env_def sample_job_def extract_domain_def sample_url_lib_def)
  obtain p where b: "bind_context sample_service (blocking_worker AlwaysNew) (sj_req (sample_job AlwaysNew))
      (sv_pool sample_state) = (Inr (mark_busy True (sample_context ''c1'' 0)), p)"
    using sample_binds by blast
  obtain a' p' tried' where t: "attempts_on sample_service (blocking_worker AlwaysNew) (sj_req (sample_job AlwaysNew))
      (mark_busy True (sample_context ''c1'' 0))
      (\<not> continues_session (blocking_worker AlwaysNew) (sj_req (sample_job AlwaysNew))) p = (a', p', tried')"
    by (metis surj_pair)
  have "tried' = tried"
    using assms domain b t
    by (simp add: worker_scrape_page_def handle_scrape_def Let_def) (simp add: sample_state_def)
  with t show ?thesis
    by (auto elim!: attempts_on_cases simp: mark_busy_def sample_context_def context_meta_new_def)
qed

lemma worker_retries_at_most_once_witness:
  "\<exists>a s' tried. sample_handled = (a, s', tried) \<and> tried \<noteq> [] \<and> length tried \<le> 2"
proof -
  obtain a s' tried where r: "sample_handled = (a, s', tried)"
    by (metis surj_pair)
  with worker_retries_at_most_once [OF r] sample_tries [OF r] show ?thesis by blast
qed

lemma worker_request_gives_everything_back_witness:
  "\<exists>a s' tried. sample_handled = (a, s', tried) \<and> busy_ids (sv_pool s') = {} \<and> ''c1'' \<notin> pool_ids (sv_pool s')"
proof -
  obtain a s' tried where r: "sample_handled = (a, s', tried)"
    by (metis surj_pair)
  have idle: "\<forall>c \<in> set (sv_fresh sample_service). \<not> bc_busy c"
    "\<forall>acq \<in> {sv_acquire sample_service, sv_acquire_again sample_service}. \<forall>built c.
       ae_recreated acq = Inr built \<and> c \<in> set built \<longrightarrow> \<not> bc_busy c"
    by (auto simp: sample_service_def sample_acquire_def)
  have others: "disturbs sample_service {}"
    by (simp add: disturbs_def sample_service_def)
  have empty: "busy_ids (sv_pool sample_state) = {}"
    by (simp add: busy_ids_def sample_state_def pool_start_def blocking_worker_def sample_scope_def)
  have new: "''c1'' \<notin> bc_id ` (created_by (sv_acquire_again sample_service) \<union> set (sv_fresh sample_service))"
    by (auto simp: created_by_def sample_service_def sample_acquire_def sample_context_def context_meta_new_def)
  have mode: "sc_session_mode (wc_scope (blocking_worker AlwaysNew)) = AlwaysNew"
    by (simp add: blocking_worker_def sample_scope_def)
  note given = worker_request_gives_everything_back [OF r idle others]
  have "hd tried \<in> set tried" "bc_id (fst (hd tried)) = ''c1''"
    using sample_tries [OF r] by simp_all
  then have "''c1'' \<notin> pool_ids (sv_pool s')"
    using given mode new by (metis (no_types, lifting))
  moreover have "busy_ids (sv_pool s') = {}"
    using given empty by (metis Un_empty subset_empty)
  ultimately show ?thesis using r by blast
qed

section \<open>Statistics\<close>

text \<open>Read at one moment, the rate is the share of requests that did not fail.\<close>

lemma success_rate_is_a_share:
  assumes "failed \<le> requests"
  shows "0 \<le> success_rate requests failed requests \<and> success_rate requests failed requests \<le> 1"
proof -
  have "unat (requests - failed) \<le> unat requests"
    using assms by (metis diff_le_self unat_sub)
  then have "(of_nat (unat (requests - failed)) :: rat) \<le> of_nat (unat requests)"
    by (simp only: of_nat_le_iff)
  then show ?thesis
    unfolding success_rate_def by (auto simp del: of_nat_unat simp: divide_le_eq)
qed

text \<open>A request that arrives and fails between the reads makes the rate astronomically large.\<close>

lemma success_rate_can_exceed_one: "success_rate 0 1 1 = 18446744073709551615"
proof -
  have "unat (0 - 1 :: 64 word) = 18446744073709551615"
    by (simp add: unsigned_minus_1_eq_mask mask_eq_exp_minus_1)
  then show ?thesis
    unfolding success_rate_def by (simp del: of_nat_unat)
qed

end
