(* ===== verification/Hive_System.thy ===== *)
theory Hive_System
  imports Coordinator_Props Worker_Service
begin

text \<open>
  The coordinator and its workers together.

  Each attempt of the coordinator's \<open>scrape_page\<close> is answered by the worker's \<open>scrape_page\<close> at the
  attempted endpoint, in whatever state that worker is by then and whatever its browser answers.  The
  channel between them may fail in every way the handler tells apart: the connection is refused, the call
  breaks before, while or after the worker works (the worker's answer, successful or not, is then lost; an
  answer over the size limit is one of these), or the answer arrives.  A handler that panics is a failed
  call, whose text the transport makes up.
\<close>

section \<open>Workers behind endpoints\<close>

record hive_worker =
  hw_config :: worker_config
  hw_env :: "nat \<Rightarrow> service_env"
  hw_state :: "nat \<Rightarrow> worker_state"

definition worker_run ::
  "(string \<Rightarrow> hive_worker) \<Rightarrow> nat \<Rightarrow> string \<Rightarrow> worker_request \<Rightarrow>
   scrape_end \<times> worker_state \<times> (browser_context \<times> bool \<times> scrape_end) list" where
  "worker_run hive n endpoint q =
     worker_scrape_page (hw_env (hive endpoint) n) (hw_config (hive endpoint)) q (hw_state (hive endpoint) n)"

primrec grpc_reply :: "string \<Rightarrow> scrape_end \<Rightarrow> attempt_reply" where
  "grpc_reply panic (End_Status e) = Rpc_InvalidArgument e"
| "grpc_reply panic End_Panic = Rpc_Failed panic"
| "grpc_reply panic (End_Response r) = Reply r"

text \<open>
  What the channel does with an attempt.  \<open>Broken e k\<close>: the call ends with the error \<open>e\<close>, at a moment when
  \<open>k\<close> of the worker's page loads had ended (all of them, if there are fewer).
\<close>

datatype delivery =
    Refused string
  | is_Broken: Broken string nat
  | Delivered

type_synonym channel = "nat \<Rightarrow> string \<Rightarrow> delivery"

primrec deliver :: "delivery \<Rightarrow> attempt_reply \<Rightarrow> attempt_reply" where
  "deliver (Refused e) reply = Connect_Failed e"
| "deliver (Broken e k) reply = Rpc_Failed e"
| "deliver Delivered reply = reply"

definition served_by :: "string \<Rightarrow> (string \<Rightarrow> hive_worker) \<Rightarrow> channel \<Rightarrow> coord_env \<Rightarrow> coord_env" where
  "served_by panic hive ch ce =
     ce\<lparr>ce_attempts := \<lambda>n. (ce_attempts ce n)
       \<lparr>ae_reply := \<lambda>endpoint q.
          deliver (ch n endpoint) (grpc_reply panic (fst (worker_run hive n endpoint q)))\<rparr>\<rparr>"

section \<open>The attempts on pages, over the whole request\<close>

text \<open>The requests sent, each with the number of its attempt; a refused connection sends none.\<close>

fun sent_at :: "nat \<Rightarrow> coord_effect list \<Rightarrow> (nat \<times> string \<times> worker_request) list" where
  "sent_at n [] = []"
| "sent_at n (Eff_Attempt w endpoint # es) = sent_at (Suc n) es"
| "sent_at n (Eff_Send endpoint q # es) = (n, endpoint, q) # sent_at n es"
| "sent_at n (_ # es) = sent_at n es"

lemma sent_at_append: "sent_at n (es @ es') = sent_at n es @ sent_at (n + length (attempts es)) es'"
  by (induction n es rule: sent_at.induct) simp_all

lemma sent_requests_sent_at: "(n, endpoint, q) \<in> set (sent_at m es) \<Longrightarrow> (endpoint, q) \<in> set (sent_requests es)"
  by (induction m es rule: sent_at.induct) auto

text \<open>How the page loads of one request sent ended, on its worker, in order.\<close>

abbreviation worker_loads :: "(string \<Rightarrow> hive_worker) \<Rightarrow> nat \<Rightarrow> string \<Rightarrow> worker_request \<Rightarrow> scrape_end list" where
  "worker_loads hive n endpoint q \<equiv> map (\<lambda>(c, claimed, a). a) (snd (snd (worker_run hive n endpoint q)))"

definition page_loads_of ::
  "(string \<Rightarrow> hive_worker) \<Rightarrow> channel \<Rightarrow> nat \<times> string \<times> worker_request \<Rightarrow> scrape_end list" where
  "page_loads_of hive ch = (\<lambda>(n, endpoint, q).
     case ch n endpoint of
       Refused e \<Rightarrow> []
     | Broken e k \<Rightarrow> take k (worker_loads hive n endpoint q)
     | Delivered \<Rightarrow> worker_loads hive n endpoint q)"

text \<open>All page loads a request caused on all workers, and those whose outcome the coordinator never heard of.\<close>

definition page_loads ::
  "(string \<Rightarrow> hive_worker) \<Rightarrow> channel \<Rightarrow> (nat \<times> string \<times> worker_request) list \<Rightarrow> scrape_end list" where
  "page_loads hive ch sent = concat (map (page_loads_of hive ch) sent)"

definition lost_loads ::
  "(string \<Rightarrow> hive_worker) \<Rightarrow> channel \<Rightarrow> (nat \<times> string \<times> worker_request) list \<Rightarrow> scrape_end list" where
  "lost_loads hive ch sent = page_loads hive ch (filter (\<lambda>(n, endpoint, q). is_Broken (ch n endpoint)) sent)"

lemma loads_append [simp]:
  "page_loads hive ch (sent @ sent') = page_loads hive ch sent @ page_loads hive ch sent'"
  "lost_loads hive ch (sent @ sent') = lost_loads hive ch sent @ lost_loads hive ch sent'"
  by (simp_all add: page_loads_def lost_loads_def)

fun success_contents :: "scrape_end list \<Rightarrow> string list" where
  "success_contents [] = []"
| "success_contents (End_Response r # as) = (if wr_success r then [wr_content r] else []) @ success_contents as"
| "success_contents (_ # as) = success_contents as"

lemma success_contents_append [simp]: "success_contents (as @ bs) = success_contents as @ success_contents bs"
  by (induction as rule: success_contents.induct) simp_all

abbreviation unsuccessful :: "scrape_end \<Rightarrow> bool" where
  "unsuccessful a \<equiv> success_contents [a] = []"

lemma acquire_for_refuses: "acquire_for env acq config q s = (Inl r, s') \<Longrightarrow> \<not> wr_success r"
  by (auto simp: acquire_for_def acquire_context_with_recovery_def refusal_def failed_response_def Let_def
      split: sum.splits option.splits prod.splits if_splits)

lemma bind_context_refuses: "bind_context env config q s = (Inl r, s') \<Longrightarrow> \<not> wr_success r"
  by (auto simp: bind_context_def refusal_def failed_response_def Let_def acquire_for_refuses
      split: option.splits prod.splits bool.splits if_splits)

lemma replaced_unsuccessful: "pool_was_replaced n a s \<Longrightarrow> unsuccessful a"
  by (auto simp: pool_was_replaced_def split: scrape_end.splits)

lemma attempts_on_successes:
  assumes "attempts_on env config q c claimed s = (a, s', tried)"
  shows "success_contents (map (\<lambda>(c, claimed, a). a) tried) = success_contents [a]"
  using assms
proof (cases rule: attempts_on_cases)
  case (Refused a1 s1 r)
  then show ?thesis
    using replaced_unsuccessful [OF Refused(4)] acquire_for_refuses [OF Refused(5)] by simp
next
  case (Twice a1 s1 c' s3 s4)
  then show ?thesis
    using replaced_unsuccessful [OF Twice(3)] success_contents_append [of "[a1]" "[a]"] by simp
qed simp

lemma worker_successes:
  assumes "worker_scrape_page env config q s = (a, s', tried)"
  shows "success_contents (map (\<lambda>(c, claimed, a). a) tried) = success_contents [a]"
proof (cases "(sv_cancelled s \<or> \<not> sv_ready s) \<or> (\<exists>e. extract_domain (se_lib (sv_scrape env)) (wq_url q) = Inl e)")
  case True
  then show ?thesis
    using assms by (cases "sv_cancelled s \<or> \<not> sv_ready s")
      (auto simp: worker_scrape_page_def handle_scrape_def refusal_def failed_response_def)
next
  case False
  show ?thesis
    using assms
  proof (cases rule: handle_scrape_cases)
    case Away
    then show ?thesis
      using False assms
      by (auto dest: bind_context_refuses simp: worker_scrape_page_def handle_scrape_def Let_def attempts_on_def
          split: sum.splits prod.splits if_splits)
  next
    case (Refused r)
    then show ?thesis using bind_context_refuses [OF Refused(3)] by simp
  next
    case (Tried c p)
    then show ?thesis by (simp add: attempts_on_successes)
  qed
qed

lemma run_attempt_code:
  assumes "run_attempt env scrape_env config q c claimed s = (End_Response r, s')" "wr_success r"
  shows "wr_error_code r = code_num EC_None"
proof -
  obtain j es where "scrape_page_internal j claimed = (End_Response r, es)"
    using assms(1) by (auto simp: run_attempt_def Let_def split: prod.splits)
  from attempt_address_ok [OF this] assms(2) show ?thesis
    by (simp add: address_ok_def response_ok_def del: image_insert)
qed

text \<open>Only an attempt answers with success, and then with the code the coordinator never retries.\<close>

lemma worker_success_code:
  assumes "worker_scrape_page env config q s = (End_Response r, s', tried)" "wr_success r"
  shows "wr_error_code r = code_num EC_None"
proof -
  have "tried \<noteq> []"
    using worker_successes [OF assms(1)] assms(2) by auto
  from assms(1) show ?thesis
  proof (cases rule: handle_scrape_cases)
    case (Tried c p)
    from Tried(2) show ?thesis
    proof (cases rule: attempts_on_cases)
      case (Refused a1 s1 r')
      then show ?thesis using acquire_for_refuses assms(2) by blast
    qed (use run_attempt_code assms(2) in blast)+
  qed (use \<open>tried \<noteq> []\<close> in simp_all)
qed

section \<open>Successful page loads\<close>

abbreviation contents_of_result :: "loop_result \<Rightarrow> string list" where
  "contents_of_result res \<equiv>
     (case res of Loop_Done (Answered r) _ _ \<Rightarrow> success_contents [End_Response r] | _ \<Rightarrow> [])"

lemma served_reply:
  "loop_reply (served_by panic hive ch ce) q ray_id n endpoint =
     deliver (ch n endpoint) (grpc_reply panic (fst (worker_run hive n endpoint
       (forwarded_request (served_by panic hive ch ce) q ray_id
         (ae_now_send (ce_attempts (served_by panic hive ch ce) n))))))"
  by (simp add: loop_reply_def served_by_def)

lemma served_sent:
  "sent_at n (loop_start (served_by panic hive ch ce) q ray_id n w endpoint) =
     (case ch (n + 1) endpoint of
        Refused e \<Rightarrow> []
      | _ \<Rightarrow> [(n + 1, endpoint, forwarded_request (served_by panic hive ch ce) q ray_id
               (ae_now_send (ce_attempts (served_by panic hive ch ce) (n + 1))))])"
  unfolding loop_start_def served_reply attempt_effects_def
  by (cases "fst (worker_run hive (n + 1) endpoint (forwarded_request (served_by panic hive ch ce) q ray_id
        (ae_now_send (ce_attempts (served_by panic hive ch ce) (n + 1)))))") (simp_all split: delivery.split)

lemma sent_at_end [simp]: "sent_at n (attempt_end q m) = []"
  by (simp add: attempt_end_def)

lemma take_successes: "length (success_contents (take k as)) \<le> length (success_contents as)"
  by (metis append_take_drop_id length_append le_add1 success_contents_append)

lemma one_success: "length (success_contents [a]) \<le> 1"
  by (cases a) simp_all

text \<open>
  One attempt: its successful loads are those the coordinator does not hear of, and the one it answers with.
\<close>

lemma served_attempt:
  fixes panic hive ch ce q ray_id n w endpoint
  defines "ce' \<equiv> served_by panic hive ch ce"
  defines "sent \<equiv> sent_at n (loop_start ce' q ray_id n w endpoint)"
  shows "success_contents (page_loads hive ch sent) =
      success_contents (lost_loads hive ch sent) @ contents_of_result (loop_final ce' q ray_id n w endpoint)"
    "length (success_contents (page_loads hive ch sent)) \<le> 1"
    "\<not> is_Broken (ch (n + 1) endpoint) \<Longrightarrow> lost_loads hive ch sent = []"
proof -
  let ?q = "forwarded_request ce' q ray_id (ae_now_send (ce_attempts ce' (n + 1)))"
  obtain a s' tried where run: "worker_run hive (n + 1) endpoint ?q = (a, s', tried)"
    by (metis prod_cases3)
  then have *: "success_contents (map (\<lambda>(c, claimed, a). a) tried) = success_contents [a]"
    unfolding worker_run_def by (rule worker_successes)
  have final: "loop_reply ce' q ray_id (n + 1) endpoint = deliver (ch (n + 1) endpoint) (grpc_reply panic a)"
    using run unfolding ce'_def by (simp add: served_reply)
  have sent: "sent = (case ch (n + 1) endpoint of Refused e \<Rightarrow> [] | _ \<Rightarrow> [(n + 1, endpoint, ?q)])"
    unfolding sent_def ce'_def by (rule served_sent)
  show "success_contents (page_loads hive ch sent) =
      success_contents (lost_loads hive ch sent) @ contents_of_result (loop_final ce' q ray_id n w endpoint)"
    using run * final
    by (cases "ch (n + 1) endpoint"; cases a)
      (simp_all add: sent loop_final_def outcome_of_def page_loads_def page_loads_of_def lost_loads_def)
  show "length (success_contents (page_loads hive ch sent)) \<le> 1"
    using run * one_success [of a] take_successes [of _ "map (\<lambda>(c, claimed, a). a) tried"]
    by (cases "ch (n + 1) endpoint")
      (auto simp: sent page_loads_def page_loads_of_def intro: order_trans)
  show "\<not> is_Broken (ch (n + 1) endpoint) \<Longrightarrow> lost_loads hive ch sent = []"
    by (cases "ch (n + 1) endpoint") (simp_all add: sent lost_loads_def page_loads_def)
qed

text \<open>An attempt that is followed by another one did not answer with success.\<close>

lemma served_success_ends:
  assumes "loop_next (served_by panic hive ch ce) q ray_id ex n w endpoint = Some x"
  shows "contents_of_result (loop_final (served_by panic hive ch ce) q ray_id n w endpoint) = []"
proof (cases "loop_reply (served_by panic hive ch ce) q ray_id (n + 1) endpoint")
  case (Reply r)
  let ?q = "forwarded_request (served_by panic hive ch ce) q ray_id
    (ae_now_send (ce_attempts (served_by panic hive ch ce) (n + 1)))"
  have "fst (worker_run hive (n + 1) endpoint ?q) = End_Response r"
    using Reply unfolding served_reply
    by (cases "ch (n + 1) endpoint"; cases "fst (worker_run hive (n + 1) endpoint ?q)") simp_all
  then obtain s' tried where run: "worker_run hive (n + 1) endpoint ?q = (End_Response r, s', tried)"
    by (metis prod.collapse)
  have "\<not> wr_success r"
  proof
    assume "wr_success r"
    then have "wr_error_code r = code_num EC_None"
      using run [unfolded worker_run_def] worker_success_code by blast
    then show False
      using assms Reply
      by (simp add: loop_next_def outcome_of_def next_worker_def retry_plan_of_def classify_retry_def
          split: prod.splits)
  qed
  then show ?thesis using Reply by (simp add: loop_final_def outcome_of_def)
qed (simp_all add: loop_final_def outcome_of_def)

text \<open>Losing an answer is survived once, by a request without a session, on its first attempt.\<close>

lemma broken_ends:
  assumes "loop_next (served_by panic hive ch ce) q ray_id ex n w endpoint = Some x"
    and "is_Broken (ch (n + 1) endpoint)"
  shows "n = 0 \<and> cq_session_id q = []"
proof -
  obtain e k where b: "ch (n + 1) endpoint = Broken e k"
    using assms(2) by (cases "ch (n + 1) endpoint") simp_all
  have lost: "loop_reply (served_by panic hive ch ce) q ray_id (n + 1) endpoint = Rpc_Failed e"
    unfolding served_reply b by simp
  obtain w' ep' reason where "x = (w', ep', reason)"
    by (cases x)
  with assms(1) have "next_worker (served_by panic hive ch ce) q (ce_attempts (served_by panic hive ch ce) (n + 1))
      (insert w ex) (n + 1) (outcome_of w (Rpc_Failed e)) = Some (w', ep', reason)"
    using lost by (simp add: loop_next_def)
  then show ?thesis
    by (rule next_worker_Some)
      (auto simp: retry_plan_of_def outcome_of_def classify_unreachable_retry_def MAX_UNREACHABLE_ATTEMPTS_def
        split: if_splits)
qed

lemma retry_loop_loads:
  fixes panic hive ch ce q ray_id scope
  defines "L \<equiv> \<lambda>ex n w ep. retry_loop (served_by panic hive ch ce) q ray_id scope ex n w ep"
  shows "success_contents (page_loads hive ch (sent_at n (snd (L ex n w ep)))) =
      success_contents (lost_loads hive ch (sent_at n (snd (L ex n w ep)))) @ contents_of_result (fst (L ex n w ep))
    \<and> length (success_contents (page_loads hive ch (sent_at n (snd (L ex n w ep))))) \<le>
      (if n = 0 \<and> cq_session_id q = [] \<and> is_Broken (ch 1 ep) then 2 else 1)"
  unfolding L_def
proof (induction ex n w ep
    rule: retry_loop_rule [where ce = "served_by panic hive ch ce" and q = q and ray_id = ray_id])
  case (stop ex n w ep)
  then show ?case
    using served_attempt(1,2) [where hive = hive and ch = ch and n = n and panic = panic and ce = ce and q = q and ray_id = ray_id and w = w and endpoint = ep]
    by (auto simp: retry_loop_stop sent_at_append)
next
  case (again ex n w ep w' ep' reason)
  let ?L = "retry_loop (served_by panic hive ch ce) q ray_id scope (insert w ex) (n + 1) w' ep'"
  let ?start = "sent_at n (loop_start (served_by panic hive ch ce) q ray_id n w ep)"
  note one = served_attempt [where hive = hive and ch = ch and n = n and panic = panic and ce = ce and q = q and ray_id = ray_id and w = w and endpoint = ep]
  have heard: "success_contents (page_loads hive ch ?start) = success_contents (lost_loads hive ch ?start)"
    using one(1) served_success_ends [OF again(1)] by simp
  have sent: "sent_at n (snd (retry_loop (served_by panic hive ch ce) q ray_id scope ex n w ep)) =
      ?start @ sent_at (n + 1) (snd ?L)"
    using again(1) by (simp add: retry_loop_again sent_at_append attempt_end_def)
  have result: "fst (retry_loop (served_by panic hive ch ce) q ray_id scope ex n w ep) = fst ?L"
    using again(1) by (simp add: retry_loop_again)
  have tail: "length (success_contents (page_loads hive ch (sent_at (n + 1) (snd ?L)))) \<le> 1"
    using again.IH [THEN conjunct2] by simp
  have few: "length (success_contents (page_loads hive ch ?start)) \<le>
      (if n = 0 \<and> cq_session_id q = [] \<and> is_Broken (ch 1 ep) then 1 else 0)"
    using one(2) heard one(3) broken_ends [OF again(1)] by (cases "is_Broken (ch (n + 1) ep)") auto
  show ?case
    unfolding sent result loads_append success_contents_append
  proof (intro conjI)
    show "length (success_contents (page_loads hive ch ?start) @ success_contents (page_loads hive ch (sent_at (n + 1) (snd ?L))))
        \<le> (if n = 0 \<and> cq_session_id q = [] \<and> is_Broken (ch 1 ep) then 2 else 1)"
      unfolding length_append by (rule order_trans [OF add_mono [OF few tail]]) simp
  qed (use again.IH [THEN conjunct1] heard in simp)
qed

section \<open>A session stays on its context\<close>

text \<open>A context Chrome built for this very acquisition, claimed for the request before it entered the pool.\<close>

definition built_for :: "acquire_env \<Rightarrow> browser_context \<Rightarrow> bool" where
  "built_for acq c \<longleftrightarrow> (\<exists>b. (ae_built acq = Inr b \<or> ae_built_again acq = Inr b) \<and> c = mark_busy True b)"

lemma reserved_built:
  "map_prod (map_sum id Some) id (build_reserved_context built p) = (Inr (Some c), p') \<Longrightarrow>
   \<exists>b. built = Inr b \<and> c = mark_busy True b"
  by (auto simp: build_reserved_context_def Let_def split: sum.splits)

lemma acquire_for_dedicated:
  assumes "acquire_for env acq config q s = (Inr c, s')" "sc_session_mode (bp_config (fst s)) = Dedicated"
  shows "built_for acq c"
proof -
  let ?acquire = "acquire_context (ae_now acq) (request_params q)
    (request_quarantine_origin (se_lib (sv_scrape env)) (wc_scope config) (wq_url q))"
  have built: "\<exists>b. built = Inr b \<and> c = mark_busy True b"
    if "?acquire built p = (Inr (Some c), p')" "sc_session_mode (bp_config p) = Dedicated" for built p p'
    using that by (auto simp: acquire_context_def create_dedicated_context_def dest: reserved_built
        split: prod.splits acquisition.splits)
  have kept: "sc_session_mode (bp_config p') = Dedicated"
    if "?acquire built p = (r, p')" "sc_session_mode (bp_config p) = Dedicated" for built p r p'
    using that(1) by (cases rule: acquire_context_cases) (simp_all add: that(2) claim_in_pool_def)
  obtain p n where s: "s = (p, n)" by fastforce
  obtain r p1 where r: "?acquire (ae_built acq) p = (r, p1)" by fastforce
  have p1: "sc_session_mode (bp_config p1) = Dedicated"
    using kept [OF r] assms(2) by (simp add: s)
  have fresh: "sc_session_mode (bp_config (fst (recreate_browser_pool f (p1, m)))) = Dedicated" for f m
    using p1 by (simp add: recreate_browser_pool_def pool_start_def populate_initial_contexts_def Let_def)
  show ?thesis
    using assms r built [of "ae_built acq" p] built [of "ae_built_again acq"] fresh
    unfolding s built_for_def acquire_for_def acquire_context_with_recovery_def
    by (auto simp: Let_def split: sum.splits option.splits if_splits prod.splits) (metis fst_conv)+
qed

lemma pool_config_kept:
  "bp_config (fst (apply_effect now fresh i fx s)) = bp_config (fst s)"
  by (cases fx) (simp_all add: in_pool_def remove_from_pool_def destroy_context_def recreate_browser_pool_def
      pool_start_def populate_initial_contexts_def Let_def case_prod_beta)

lemma run_attempt_config:
  assumes "run_attempt env scrape_env config q c claimed s = (a, s')"
  shows "bp_config (fst s') = bp_config (fst s)"
proof -
  have "bp_config (fst (fold (apply_effect now fresh i) es s)) = bp_config (fst s)" for now fresh i es
    by (induction es arbitrary: s) (simp_all add: pool_config_kept)
  then show ?thesis
    using assms by (auto simp: run_attempt_def Let_def in_pool_def case_prod_beta split: prod.splits if_splits)
qed

text \<open>
  A worker of a scope with dedicated sessions: its pool is configured so, and the tasks beside a request
  leave the configuration alone.
\<close>

definition serves_dedicated :: "hive_worker \<Rightarrow> bool" where
  "serves_dedicated hw \<longleftrightarrow>
     sc_session_mode (wc_scope (hw_config hw)) = Dedicated \<and>
     (\<forall>n. sc_session_mode (bp_config (fst (sv_pool (hw_state hw n)))) = Dedicated) \<and>
     (\<forall>n s. bp_config (fst (sv_meanwhile (hw_env hw n) s)) = bp_config (fst s))"

lemma dedicated_attempts:
  assumes hw: "serves_dedicated (hive endpoint)" and i: "wq_context_id q \<noteq> []"
    and run: "worker_run hive n endpoint q = (a, s', (c, claimed, a1) # rest)"
  shows "bc_id c = wq_context_id q \<and> \<not> claimed \<and>
    list_all (\<lambda>(c', claimed', a'). claimed' \<and> built_for (sv_acquire_again (hw_env (hive endpoint) n)) c') rest"
proof -
  have session: "continues_session (hw_config (hive endpoint)) q"
    using hw i by (simp add: continues_session_def serves_dedicated_def returns_session_id_def)
  from run [unfolded worker_run_def] show ?thesis
  proof (cases rule: handle_scrape_cases)
    case (Tried d p)
    note d = bind_continues [OF session Tried(1)]
    have mode: "sc_session_mode (bp_config (fst p)) = Dedicated"
      using hw d(3) by (simp add: serves_dedicated_def)
    from Tried(2) show ?thesis
    proof (cases rule: attempts_on_cases)
      case (Twice b1 s1 c' s3 s4)
      have "bp_config (fst s1) = bp_config (fst p)"
        using run_attempt_config [OF Twice(2)] hw unfolding serves_dedicated_def by metis
      then have "sc_session_mode (bp_config (fst (drop_always_new_guard (wc_scope (hw_config (hive endpoint))) d s1))) =
          Dedicated"
        using mode by (simp add: drop_always_new_guard_def remove_from_pool_def destroy_context_def case_prod_beta)
      from acquire_for_dedicated [OF Twice(4) this] show ?thesis
        using Twice(1) d(1) session by simp
    qed (use d(1) session in simp_all)
  qed simp_all
qed

end
