(* ===== verification/Page_Activity.thy ===== *)
theory Page_Activity
  imports Page_Load
begin

text \<open>
  \<open>worker/src/page_activity.rs\<close>: what a page did while it loaded, for the diagnostics.  Byte counts are
  naturals; the rendering of a duration and of a size (\<open>{:.1}\<close> of a float) are parameters of the reports.
\<close>

section \<open>State\<close>

definition MAX_DATA_REQUESTS :: nat where [cfg_simps]: "MAX_DATA_REQUESTS = 40"

definition MAX_ACTIVITY_LOADS :: nat where [cfg_simps]: "MAX_ACTIVITY_LOADS = 512"

definition MAX_PENDING_LISTED :: nat where [cfg_simps]: "MAX_PENDING_LISTED = 15"

definition TIMELINE_EVENTS :: "string list" where
  "TIMELINE_EVENTS = [''DOMContentLoaded'', ''load'', ''networkAlmostIdle'', ''networkIdle'']"

datatype data_state =
    Data_Pending
  | Data_Finished millis nat
  | Data_Failed millis string

record data_request =
  dr_method :: string
  dr_url :: string
  dr_label :: string
  dr_started :: millis
  dr_status :: "nat option"
  dr_responded :: "millis option"
  dr_received :: nat
  dr_state :: data_state

record activity_load =
  al_label :: string
  al_url :: string
  al_started :: millis

record page_activity =
  pa_started :: millis
  pa_requests :: "(string, data_request) hmap"
  pa_untracked :: nat
  pa_pending :: "(string, activity_load) hmap"
  pa_pending_untracked :: nat
  pa_timeline :: "millis option list"

definition page_activity_new :: "millis \<Rightarrow> page_activity" where
  "page_activity_new started =
     \<lparr>pa_started = started, pa_requests = hempty, pa_untracked = 0, pa_pending = hempty,
      pa_pending_untracked = 0, pa_timeline = replicate (length TIMELINE_EVENTS) None\<rparr>"

definition offset :: "millis \<Rightarrow> page_activity \<Rightarrow> millis" where
  "offset now a = now - pa_started a"

section \<open>Events\<close>

text \<open>A type is what Chrome names it; \<open>None\<close> is an event without one.\<close>

definition other_will_be_sent ::
  "string \<Rightarrow> string \<Rightarrow> string option \<Rightarrow> millis \<Rightarrow> page_activity \<Rightarrow> page_activity" where
  "other_will_be_sent i url type_name now a =
     (case hget (pa_pending a) i of
        Some l \<Rightarrow> a\<lparr>pa_pending := hput i (l\<lparr>al_url := url\<rparr>) (pa_pending a)\<rparr>
      | None \<Rightarrow>
          if MAX_ACTIVITY_LOADS \<le> length (pa_pending a)
          then a\<lparr>pa_pending_untracked := pa_pending_untracked a + 1\<rparr>
          else a\<lparr>pa_pending := hput i
                   \<lparr>al_label = (case type_name of Some t \<Rightarrow> t | None \<Rightarrow> ''Other''), al_url = url,
                    al_started = offset now a\<rparr> (pa_pending a)\<rparr>)"

definition data_label :: "string option \<Rightarrow> string option" where
  "data_label type_name =
     (if type_name = Some ''Xhr'' then Some ''XHR''
      else if type_name = Some ''Fetch'' then Some ''Fetch'' else None)"

definition activity_will_be_sent ::
  "string \<Rightarrow> string \<Rightarrow> string \<Rightarrow> string option \<Rightarrow> millis \<Rightarrow> page_activity \<Rightarrow> page_activity" where
  "activity_will_be_sent i method url type_name now a =
     (case data_label type_name of
        None \<Rightarrow> other_will_be_sent i url type_name now a
      | Some label \<Rightarrow>
          (case hget (pa_requests a) i of
             Some r \<Rightarrow> a\<lparr>pa_requests := hput i (r\<lparr>dr_url := url\<rparr>) (pa_requests a)\<rparr>
           | None \<Rightarrow>
               if MAX_DATA_REQUESTS \<le> length (pa_requests a)
               then a\<lparr>pa_untracked := pa_untracked a + 1\<rparr>
               else a\<lparr>pa_requests := hput i
                        \<lparr>dr_method = method, dr_url = url, dr_label = label, dr_started = offset now a,
                         dr_status = None, dr_responded = None, dr_received = 0,
                         dr_state = Data_Pending\<rparr> (pa_requests a)\<rparr>))"

definition change_request ::
  "string \<Rightarrow> (data_request \<Rightarrow> data_request) \<Rightarrow> page_activity \<Rightarrow> page_activity" where
  "change_request i f a =
     (case hget (pa_requests a) i of
        Some r \<Rightarrow> a\<lparr>pa_requests := hput i (f r) (pa_requests a)\<rparr>
      | None \<Rightarrow> a)"

definition activity_response :: "string \<Rightarrow> nat \<Rightarrow> millis \<Rightarrow> page_activity \<Rightarrow> page_activity" where
  "activity_response i status now a =
     change_request i (\<lambda>r. r\<lparr>dr_status := Some status, dr_responded := Some (offset now a)\<rparr>) a"

definition data_received :: "string \<Rightarrow> nat \<Rightarrow> page_activity \<Rightarrow> page_activity" where
  "data_received i bytes = change_request i (\<lambda>r. r\<lparr>dr_received := min (2 ^ 64 - 1) (dr_received r + bytes)\<rparr>)"

definition activity_finished :: "string \<Rightarrow> nat \<Rightarrow> millis \<Rightarrow> page_activity \<Rightarrow> page_activity" where
  "activity_finished i bytes now a =
     change_request i (\<lambda>r. r\<lparr>dr_state := Data_Finished (offset now a - dr_started r) bytes\<rparr>)
       (a\<lparr>pa_pending := hdel i (pa_pending a)\<rparr>)"

definition activity_failed :: "string \<Rightarrow> string \<Rightarrow> bool \<Rightarrow> millis \<Rightarrow> page_activity \<Rightarrow> page_activity" where
  "activity_failed i error blocked_by_us now a =
     (let a' = a\<lparr>pa_pending := hdel i (pa_pending a)\<rparr>
      in if blocked_by_us then a'\<lparr>pa_requests := hdel i (pa_requests a')\<rparr>
         else change_request i
           (\<lambda>r. r\<lparr>dr_state := Data_Failed (offset now a - dr_started r) (trim_start_matches ''net::'' error)\<rparr>) a')"

fun position :: "'a \<Rightarrow> 'a list \<Rightarrow> nat option" where
  "position x [] = None"
| "position x (y # ys) = (if y = x then Some 0 else map_option Suc (position x ys))"

definition lifecycle :: "string \<Rightarrow> millis \<Rightarrow> page_activity \<Rightarrow> page_activity" where
  "lifecycle name now a =
     (case position name TIMELINE_EVENTS of
        Some i \<Rightarrow> a\<lparr>pa_timeline := (pa_timeline a)[i := Some (offset now a)]\<rparr>
      | None \<Rightarrow> a)"

datatype activity_event =
    Act_WillBeSent string string string "string option" millis
  | Act_Response string nat millis
  | Act_Data string nat
  | Act_Finished string nat millis
  | Act_Failed string string bool millis
  | Act_Lifecycle string millis

primrec activity_step :: "activity_event \<Rightarrow> page_activity \<Rightarrow> page_activity" where
  "activity_step (Act_WillBeSent i verb url t now) a = activity_will_be_sent i verb url t now a"
| "activity_step (Act_Response i status now) a = activity_response i status now a"
| "activity_step (Act_Data i bytes) a = data_received i bytes a"
| "activity_step (Act_Finished i bytes now) a = activity_finished i bytes now a"
| "activity_step (Act_Failed i e blocked now) a = activity_failed i e blocked now a"
| "activity_step (Act_Lifecycle name now) a = lifecycle name now a"

section \<open>Reports\<close>

record renderer =
  rd_secs :: "millis \<Rightarrow> string"
  rd_size :: "nat \<Rightarrow> string"

definition arrow :: string where
  "arrow = [CHR 0xE2, CHR 0x86, CHR 0x92]"

definition describe :: "renderer \<Rightarrow> millis \<Rightarrow> data_request \<Rightarrow> string" where
  "describe rd now r =
     (let status = (case dr_status r of Some s \<Rightarrow> show_nat s @ '' '' | None \<Rightarrow> []);
          outcome = (case dr_state r of
            Data_Pending \<Rightarrow>
              (let pending = rd_secs rd (now - dr_started r)
               in case dr_responded r of
                    Some at_headers \<Rightarrow>
                      status @ ''after '' @ rd_secs rd (at_headers - dr_started r) @ '', '' @
                      rd_size rd (dr_received r) @ '' received, pending '' @ pending
                  | None \<Rightarrow> status @ ''pending '' @ pending)
          | Data_Finished took bytes \<Rightarrow> status @ ''in '' @ rd_secs rd took @ '', '' @ rd_size rd bytes
          | Data_Failed took error \<Rightarrow> status @ ''failed after '' @ rd_secs rd took @ '': '' @ error)
      in dr_label r @ '' '' @ dr_method r @ '' '' @ short_url (dr_url r) @ '' +'' @ rd_secs rd (dr_started r) @
         '' '' @ arrow @ '' '' @ outcome)"

text \<open>A report is its counts and its entries; \<open>None\<close> when there is nothing to report.\<close>

definition data_requests_report ::
  "renderer \<Rightarrow> millis \<Rightarrow> page_activity \<Rightarrow> (nat \<times> nat \<times> nat \<times> string list) option" where
  "data_requests_report rd now a =
     (if pa_requests a = [] then None
      else
        (let requests = sort_key dr_started (map snd (pa_requests a))
         in Some (length requests, length (filter (\<lambda>r. dr_state r = Data_Pending) requests),
                  pa_untracked a, map (describe rd (offset now a)) requests)))"

definition pending_loads_report ::
  "renderer \<Rightarrow> millis \<Rightarrow> page_activity \<Rightarrow> (nat \<times> nat \<times> string list) option" where
  "pending_loads_report rd now a =
     (if pa_pending a = [] then None
      else
        (let loads = sort_key al_started (map snd (pa_pending a))
         in Some (length loads, pa_pending_untracked a,
                  map (\<lambda>l. al_label l @ '' '' @ short_url (al_url l) @ '' +'' @ rd_secs rd (al_started l) @ '' '' @
                         arrow @ '' pending '' @ rd_secs rd (offset now a - al_started l))
                    (take MAX_PENDING_LISTED loads))))"

definition timeline_report :: "renderer \<Rightarrow> page_activity \<Rightarrow> string" where
  "timeline_report rd a =
     join_with '', '' (map (\<lambda>(name, reached). case reached of
         Some t \<Rightarrow> name @ '' +'' @ rd_secs rd t
       | None \<Rightarrow> name @ '' not reached'') (zip TIMELINE_EVENTS (pa_timeline a)))"

section \<open>Bounds\<close>

definition activity_inv :: "page_activity \<Rightarrow> bool" where
  "activity_inv a \<longleftrightarrow>
     hmap_ok (pa_requests a) \<and> hmap_ok (pa_pending a) \<and> length (pa_requests a) \<le> MAX_DATA_REQUESTS \<and>
     length (pa_pending a) \<le> MAX_ACTIVITY_LOADS \<and> length (pa_timeline a) = length TIMELINE_EVENTS"

lemma activity_inv_new: "activity_inv (page_activity_new now)"
  by (simp add: activity_inv_def page_activity_new_def)

lemma activity_inv_change: "activity_inv a \<Longrightarrow> activity_inv (change_request i f a)"
  by (auto simp: activity_inv_def change_request_def length_hput hkeys_iff split: option.split)

lemma activity_inv_hdel: "activity_inv a \<Longrightarrow> activity_inv (a\<lparr>pa_pending := hdel i (pa_pending a)\<rparr>)"
  using length_hdel_le [of i "pa_pending a"] by (simp add: activity_inv_def)

text \<open>However many loads a page makes, the activity of a request stays within its caps.\<close>

lemma activity_inv_step:
  assumes "activity_inv a"
  shows "activity_inv (activity_step e a)"
proof (cases e)
  case (Act_WillBeSent i verb url t now)
  then show ?thesis
    using assms
    by (auto simp: activity_inv_def activity_will_be_sent_def other_will_be_sent_def length_hput hkeys_iff
        split: option.split)
next
  case (Act_Failed i error blocked now)
  then show ?thesis
    using activity_inv_change [OF activity_inv_hdel [OF assms]] activity_inv_hdel [OF assms, of i]
      length_hdel_le [of i "pa_requests a"]
    by (auto simp: activity_failed_def Let_def activity_inv_def)
next
  case (Act_Finished i bytes now)
  then show ?thesis
    using activity_inv_change [OF activity_inv_hdel [OF assms]] by (simp add: activity_finished_def)
next
  case (Act_Lifecycle name now)
  then show ?thesis
    using assms by (simp add: lifecycle_def activity_inv_def split: option.split)
qed (simp_all add: assms activity_inv_change activity_response_def data_received_def)

lemma activity_run_inv: "activity_inv (fold activity_step es (page_activity_new now))"
proof -
  have "activity_inv a \<Longrightarrow> activity_inv (fold activity_step es a)" for a
    by (induction es arbitrary: a) (simp_all add: activity_inv_step)
  then show ?thesis by (simp add: activity_inv_new)
qed

text \<open>A load whose end was seen is never listed as pending.\<close>

lemma ended_load_not_pending:
  "hget (pa_pending (activity_finished i bytes now a)) i = None"
  "hget (pa_pending (activity_failed i error blocked now a)) i = None"
  by (auto simp: activity_finished_def activity_failed_def change_request_def Let_def split: option.split)

end
