(* ===== verification/Diagnostics.thy ===== *)
theory Diagnostics
  imports Config Page_Activity Request_Outcome
begin

text \<open>
  \<open>worker/src/diagnostics.rs\<close>: the capped, collapsed record of a page's complaints, and when it is logged.

  Registering the listener, enabling CDP domains and the two snapshot scripts are calls into Chrome.
\<close>

section \<open>Entries\<close>

definition MAX_ENTRY_CHARS :: nat where [cfg_simps]: "MAX_ENTRY_CHARS = 500"

definition MAX_TRACKED_REQUESTS :: nat where [cfg_simps]: "MAX_TRACKED_REQUESTS = 512"

text \<open>\<open>str::rfind\<close>, as a search in the reversed text.\<close>

definition rfind :: "'a list \<Rightarrow> 'a list \<Rightarrow> nat option" where
  "rfind pat s = map_option (\<lambda>i. length s - i - length pat) (find_sub (rev pat) (rev s))"

definition entry_body :: "string \<Rightarrow> string" where
  "entry_body entry =
     (case rfind '' (x'' entry of
        Some i \<Rightarrow> if ends_with '')'' entry then take i entry else entry
      | None \<Rightarrow> entry)"

definition entry_count :: "string \<Rightarrow> nat" where
  "entry_count entry =
     (case rfind '' (x'' entry of
        Some i \<Rightarrow>
          if ends_with '')'' entry
          then (case parse_unsigned 64 (take (length entry - 1 - (i + 3)) (drop (i + 3) entry)) of
                  Some n \<Rightarrow> n | None \<Rightarrow> 1)
          else 1
      | None \<Rightarrow> 1)"

text \<open>Characters are bytes here, as in \<open>short_url\<close>.\<close>

definition truncate_text :: "string \<Rightarrow> nat \<Rightarrow> string" where
  "truncate_text text max_chars =
     (let t = trim text
      in if length t \<le> max_chars then t
         else take max_chars t @ [CHR 0xE2, CHR 0x80, CHR 0xA6] @ ''[truncated]'')"

text \<open>One category of the buffer, with the number of entries dropped over the cap.\<close>

fun collapse :: "string \<Rightarrow> string list \<Rightarrow> string list option" where
  "collapse text [] = None"
| "collapse text (e # es) =
     (if entry_body e = text then Some ((text @ '' (x'' @ show_nat (entry_count e + 1) @ '')'') # es)
      else map_option ((#) e) (collapse text es))"

definition push_entry :: "nat \<Rightarrow> string \<Rightarrow> string list \<times> nat \<Rightarrow> string list \<times> nat" where
  "push_entry max_entries raw c =
     (let text = truncate_text raw MAX_ENTRY_CHARS
      in case collapse text (fst c) of
           Some es \<Rightarrow> (es, snd c)
         | None \<Rightarrow> if max_entries \<le> length (fst c) then (fst c, snd c + 1) else (fst c @ [text], snd c))"

datatype category = Cat_JsError | Cat_FailedRequest | Cat_ConsoleError | Cat_ConsoleMessage

record diagnostics_buffer =
  db_js_errors :: "string list"
  db_failed_requests :: "string list"
  db_console_errors :: "string list"
  db_console_messages :: "string list"
  db_dropped :: nat
  db_request_urls :: "(string, string) hmap"
  db_page_state :: "string option"
  db_headless_markers :: "string option"
  db_activity :: page_activity

definition buffer_push :: "category \<Rightarrow> string \<Rightarrow> nat \<Rightarrow> diagnostics_buffer \<Rightarrow> diagnostics_buffer" where
  "buffer_push cat text max_entries b =
     (case cat of
        Cat_JsError \<Rightarrow>
          (let (es, d) = push_entry max_entries text (db_js_errors b, db_dropped b)
           in b\<lparr>db_js_errors := es, db_dropped := d\<rparr>)
      | Cat_FailedRequest \<Rightarrow>
          (let (es, d) = push_entry max_entries text (db_failed_requests b, db_dropped b)
           in b\<lparr>db_failed_requests := es, db_dropped := d\<rparr>)
      | Cat_ConsoleError \<Rightarrow>
          (let (es, d) = push_entry max_entries text (db_console_errors b, db_dropped b)
           in b\<lparr>db_console_errors := es, db_dropped := d\<rparr>)
      | Cat_ConsoleMessage \<Rightarrow>
          (let (es, d) = push_entry max_entries text (db_console_messages b, db_dropped b)
           in b\<lparr>db_console_messages := es, db_dropped := d\<rparr>))"

definition total_entries :: "diagnostics_buffer \<Rightarrow> nat" where
  "total_entries b =
     length (db_js_errors b) + length (db_failed_requests b) + length (db_console_errors b) +
     length (db_console_messages b)"

section \<open>Events\<close>

text \<open>The listener's events; enumerations of Chrome come with the name their \<open>Debug\<close> prints.\<close>

datatype console_level = Level_Error | Level_Warning | Level_Other

datatype diag_event =
    Ev_Log console_level bool string string "string option" "nat option"
  | Ev_WillBeSent string string string "string option" millis
  | Ev_Response string nat millis
  | Ev_Data string nat
  | Ev_Finished string nat millis
  | Ev_Lifecycle string millis
  | Ev_Failed string string string "string option" bool "(string \<times> string) option" millis
  | Ev_Exception "string option" string "string option" nat
  | Ev_Console bool string "string list"

text \<open>
  \<open>Ev_Log\<close> says whether its source is the network and what the source prints as; \<open>Ev_Failed\<close> carries the
  type, the error, the blocked reason, whether it was canceled and the CORS error; \<open>Ev_Console\<close> whether its
  type is an error, an assertion or a warning.
\<close>

definition log_location :: "string option \<Rightarrow> nat option \<Rightarrow> string" where
  "log_location url line =
     (case (url, line) of
        (Some u, Some n) \<Rightarrow> '' @ '' @ u @ '':'' @ show_nat n
      | (Some u, None) \<Rightarrow> '' @ '' @ u
      | _ \<Rightarrow> [])"

definition failed_text ::
  "string \<Rightarrow> string \<Rightarrow> string option \<Rightarrow> bool \<Rightarrow> (string \<times> string) option \<Rightarrow> string \<Rightarrow> string" where
  "failed_text type_name error blocked canceled cors url =
     ''['' @ type_name @ ''] '' @ error @
     (case blocked of Some reason \<Rightarrow> '' blocked='' @ reason | None \<Rightarrow> []) @
     (case cors of
        Some (e, parameter) \<Rightarrow>
          '' cors='' @ e @ (if parameter = [] then [] else ''('' @ parameter @ '')'')
      | None \<Rightarrow> []) @
     (if canceled then '' canceled'' else []) @ '' '' @ em_dash @ '' '' @ url"

definition on_activity :: "activity_event \<Rightarrow> diagnostics_buffer \<Rightarrow> diagnostics_buffer" where
  "on_activity e b = b\<lparr>db_activity := activity_step e (db_activity b)\<rparr>"

primrec diag_step :: "nat \<Rightarrow> bool \<Rightarrow> diag_event \<Rightarrow> diagnostics_buffer \<Rightarrow> diagnostics_buffer" where
  "diag_step limit console (Ev_Log level network source text url line) b =
     (if level = Level_Other \<or> contains_sub ''ERR_BLOCKED_BY_CLIENT'' text then b
      else buffer_push (if network then Cat_FailedRequest else Cat_JsError)
             (''['' @ source @ ''] '' @ text @ log_location url line) limit b)"
| "diag_step limit console (Ev_WillBeSent i method url t now) b =
     on_activity (Act_WillBeSent i method url t now)
       (if length (db_request_urls b) < MAX_TRACKED_REQUESTS
        then b\<lparr>db_request_urls := hput i url (db_request_urls b)\<rparr> else b)"
| "diag_step limit console (Ev_Response i status now) b = on_activity (Act_Response i status now) b"
| "diag_step limit console (Ev_Data i bytes) b = on_activity (Act_Data i bytes) b"
| "diag_step limit console (Ev_Finished i bytes now) b = on_activity (Act_Finished i bytes now) b"
| "diag_step limit console (Ev_Lifecycle name now) b = on_activity (Act_Lifecycle name now) b"
| "diag_step limit console (Ev_Failed i t error blocked canceled cors now) b =
     (let b' = on_activity (Act_Failed i error (blocked = Some ''Inspector'') now) b
      in if blocked = Some ''Inspector'' then b'
         else buffer_push Cat_FailedRequest
           (failed_text t error blocked canceled cors
              (case hget (db_request_urls b') i of Some u \<Rightarrow> u | None \<Rightarrow> ''(unknown url)'')) limit b')"
| "diag_step limit console (Ev_Exception description text url line) b =
     (if \<not> console then b
      else buffer_push Cat_JsError
        (''[uncaught] '' @ (case description of Some d \<Rightarrow> d | None \<Rightarrow> text) @
         (case url of Some u \<Rightarrow> '' @ '' @ u @ '':'' @ show_nat line | None \<Rightarrow> [])) limit b)"
| "diag_step limit console (Ev_Console is_error type_name args) b =
     (if \<not> console then b
      else buffer_push (if is_error then Cat_ConsoleError else Cat_ConsoleMessage)
        (''['' @ type_name @ ''] '' @ join_with '' '' args) limit b)"

section \<open>The limiter\<close>

record limiter_state =
  ls_window_start :: millis
  ls_used :: nat
  ls_suppressed :: nat

definition limiter_new :: "millis \<Rightarrow> limiter_state" where
  "limiter_new now = \<lparr>ls_window_start = now, ls_used = 0, ls_suppressed = 0\<rparr>"

definition limiter_acquire :: "nat \<Rightarrow> millis \<Rightarrow> limiter_state \<Rightarrow> nat option \<times> limiter_state" where
  "limiter_acquire max_per_minute now s =
     (if max_per_minute = 0 then (Some 0, s)
      else
        (let s' = (if 60000 \<le> now - ls_window_start s then s\<lparr>ls_window_start := now, ls_used := 0\<rparr> else s)
         in if max_per_minute \<le> ls_used s' then (None, s'\<lparr>ls_suppressed := ls_suppressed s' + 1\<rparr>)
            else (Some (ls_suppressed s'), s'\<lparr>ls_used := ls_used s' + 1, ls_suppressed := 0\<rparr>)))"

section \<open>The session\<close>

record diagnostics_session =
  dn_config :: diagnostics_config
  dn_succeeded :: bool
  dn_error_code :: "int option"

definition wants_snapshots :: "int option \<Rightarrow> diagnostics_session \<Rightarrow> bool" where
  "wants_snapshots provisional d \<longleftrightarrow>
     (case provisional of
        Some code \<Rightarrow> logs_error_code (dn_config d) code
      | None \<Rightarrow> dc_mode (dn_config d) = Diag_Always \<or> dc_error_codes (dn_config d) = [])"

definition should_emit :: "diagnostics_session \<Rightarrow> bool" where
  "should_emit d \<longleftrightarrow>
     (case dc_mode (dn_config d) of
        Diag_Off \<Rightarrow> False
      | Diag_Always \<Rightarrow> True
      | Diag_OnError \<Rightarrow>
          \<not> dn_succeeded d \<and>
          (case dn_error_code d of
             Some code \<Rightarrow> logs_error_code (dn_config d) code
           | None \<Rightarrow> dc_error_codes (dn_config d) = []))"

text \<open>What the handler tells the session when the request is judged.\<close>

definition session_end :: "bool \<Rightarrow> error_code \<Rightarrow> diagnostics_session \<Rightarrow> diagnostics_session" where
  "session_end success code d =
     d\<lparr>dn_error_code := Some (code_num code),
       dn_succeeded := dn_succeeded d \<or> success \<or> code = EC_SkipSelectorFound\<rparr>"

definition emit_summary :: "diagnostics_buffer \<Rightarrow> nat \<Rightarrow> string" where
  "emit_summary b suppressed =
     ''Browser diagnostics: '' @
     (if total_entries b = 0 then ''no browser-side signals captured''
      else show_nat (length (db_js_errors b)) @ '' JS error(s), '' @
           show_nat (length (db_failed_requests b)) @ '' failed request(s), '' @
           show_nat (length (db_console_errors b)) @ '' console error(s), '' @
           show_nat (length (db_console_messages b)) @ '' console message(s)'') @
     (if 0 < db_dropped b then '', '' @ show_nat (db_dropped b) @ '' entr(ies) dropped over cap'' else []) @
     (if 0 < suppressed
      then '', '' @ show_nat suppressed @ '' earlier report(s) suppressed by rate limit'' else [])"

text \<open>Dropping the session: the summary line, when it may be logged, and the limiter afterwards.\<close>

definition session_drop ::
  "diagnostics_session \<Rightarrow> diagnostics_buffer \<Rightarrow> millis \<Rightarrow> limiter_state \<Rightarrow> string option \<times> limiter_state" where
  "session_drop d b now s =
     (if \<not> should_emit d then (None, s)
      else (case limiter_acquire (dc_max_per_minute (dn_config d)) now s of
              (None, s') \<Rightarrow> (None, s')
            | (Some suppressed, s') \<Rightarrow> (Some (emit_summary b suppressed), s')))"

section \<open>Reading the marker back\<close>

lemma find_sub_skip:
  assumes "p \<notin> set pre"
  shows "find_sub (p # ps) (pre @ rest) = map_option ((+) (length pre)) (find_sub (p # ps) rest)"
  using assms by (induction pre) (cases "find_sub (p # ps) rest"; auto)+

lemma find_sub_here: "find_sub pat (pat @ rest) = Some 0"
proof (cases "pat @ rest")
  case (Cons a l)
  then have "take (length pat) (a # l) = pat"
    by (metis append_eq_conv_conj)
  then show ?thesis
    unfolding Cons by simp
qed simp

lemma rfind_marker:
  assumes "last pat \<notin> set post" "pat \<noteq> []"
  shows "rfind pat (pre @ pat @ post) = Some (length pre)"
proof -
  obtain p ps where rev: "rev pat = p # ps" "p = last pat"
    using assms(2) by (metis hd_rev list.sel(1) neq_Nil_conv rev_is_Nil_conv)
  have "find_sub (rev pat) (rev (pre @ pat @ post)) = Some (length post)"
    using assms(1) find_sub_skip [of p "rev post" ps "rev pat @ rev pre"] find_sub_here [of "rev pat" "rev pre"]
    by (simp add: rev)
  then show ?thesis by (simp add: rfind_def)
qed

lemma show_nat_digits: "set (show_nat n) \<subseteq> set ''0123456789''"
proof (induction n rule: show_nat.induct)
  case (1 n)
  have "''0123456789'' ! k \<in> set ''0123456789''" if "k < 10" for k :: nat
    using that by (intro nth_mem) simp
  with 1 show ?case by (subst show_nat.simps) auto
qed

lemma digits_val_snoc:
  "digits_val acc (xs @ [c]) =
     (case digits_val acc xs of
        Some v \<Rightarrow> if is_digit c then Some (10 * v + (of_char c - 48)) else None
      | None \<Rightarrow> None)"
  by (induction xs arbitrary: acc) auto

lemma digit_char:
  assumes "k < 10"
  shows "is_digit (''0123456789'' ! k) \<and> (of_char (''0123456789'' ! k) :: nat) - 48 = k"
proof -
  have "k \<in> {0, 1, 2, 3, 4, 5, 6, 7, 8, 9}"
    using assms by auto
  then show ?thesis by (elim insertE emptyE) (simp_all add: is_digit_def)
qed

lemma digits_val_show [simp]: "digits_val 0 (show_nat n) = Some n"
proof (induction n rule: show_nat.induct)
  case (1 n)
  show ?case
  proof (cases "n < 10")
    case True
    then show ?thesis
      using digit_char [OF True] by (subst show_nat.simps) simp
  next
    case False
    then have "digits_val 0 (show_nat (n div 10)) = Some (n div 10)"
      using 1 by simp
    then show ?thesis
      using False digit_char [of "n mod 10"] by (subst show_nat.simps) (simp add: digits_val_snoc)
  qed
qed

lemma parse_show_nat:
  assumes "n < 2 ^ bits"
  shows "parse_unsigned bits (show_nat n) = Some n"
proof -
  have "show_nat n \<noteq> []"
    by (subst show_nat.simps) simp
  then obtain c cs where s: "show_nat n = c # cs"
    by (metis neq_Nil_conv)
  have "c \<noteq> CHR ''+''"
    using show_nat_digits [of n] by (auto simp: s)
  moreover note assms digits_val_show [of n, unfolded s]
  ultimately show ?thesis
    unfolding s parse_unsigned_def by simp
qed

text \<open>An entry as its text and count.\<close>

definition encode_entry :: "string \<times> nat \<Rightarrow> string" where
  "encode_entry e = (if snd e = 1 then fst e else fst e @ '' (x'' @ show_nat (snd e) @ '')'')"

definition plain :: "string \<Rightarrow> bool" where
  "plain text \<longleftrightarrow> entry_body text = text \<and> entry_count text = 1"

lemma encode_reads_back:
  assumes "plain text" "0 < n" "n < 2 ^ 64"
  shows "entry_body (encode_entry (text, n)) = text" "entry_count (encode_entry (text, n)) = n"
proof -
  have "CHR ''x'' \<notin> set (show_nat n)"
    using show_nat_digits [of n] by auto
  then have r: "rfind '' (x'' (text @ '' (x'' @ show_nat n @ '')'') = Some (length text)"
    by (intro rfind_marker) simp_all
  have e: "ends_with '')'' (text @ '' (x'' @ show_nat n @ '')'')"
    by (simp add: ends_with_def starts_with_def)
  show "entry_body (encode_entry (text, n)) = text"
    using assms(1) by (simp add: encode_entry_def plain_def entry_body_def [of "text @ _"] r [simplified] e [simplified])
  show "entry_count (encode_entry (text, n)) = n"
    using assms parse_show_nat [OF assms(3)]
    by (simp add: encode_entry_def plain_def entry_count_def [of "text @ _"] r [simplified] e [simplified])
qed

section \<open>Collapsing is counting\<close>

text \<open>The abstract category: a map from texts to counts, closed for new texts at the cap.\<close>

definition count_entry :: "nat \<Rightarrow> string \<Rightarrow> (string, nat) hmap \<times> nat \<Rightarrow> (string, nat) hmap \<times> nat" where
  "count_entry max_entries text c =
     (if text \<in> hkeys (fst c) \<or> length (fst c) < max_entries
      then (hbump text (fst c), snd c) else (fst c, snd c + 1))"

definition entries_ok :: "nat \<Rightarrow> (string, nat) hmap \<Rightarrow> bool" where
  "entries_ok bound m \<longleftrightarrow> hmap_ok m \<and> (\<forall>(t, n) \<in> set m. plain t \<and> 0 < n \<and> n \<le> bound)"

lemma collapse_encoded:
  assumes "\<forall>(t, n) \<in> set m. plain t \<and> 0 < n \<and> n < 2 ^ 64" "plain text" "hmap_ok m"
  shows "collapse text (map encode_entry m) =
    (if text \<in> hkeys m then Some (map encode_entry (hbump text m)) else None)"
  using assms(1,3)
proof (induction m)
  case (Cons e m)
  obtain t n where e: "e = (t, n)" by fastforce
  have ok: "plain t" "0 < n" "n < 2 ^ 64" "hmap_ok m" "t \<notin> hkeys m"
    using Cons.prems by (auto simp: e hmap_ok_def hkeys_def)
  note read = encode_reads_back [OF ok(1-3)]
  show ?case
  proof (cases "t = text")
    case True
    have "map (\<lambda>kv. if fst kv = text then (text, n + 1) else kv) m = m"
      using ok(5) True by (intro map_idI) (auto simp: hkeys_def)
    then show ?thesis
      using True ok(2) read
      by (simp add: e hkeys_def hbump_def hcount_def hput_def hget_def encode_entry_def)
  next
    case False
    then show ?thesis
      using Cons.IH Cons.prems ok(4) read
      by (auto simp: e hkeys_def hbump_def hcount_def hput_def hget_def)
  qed
qed (simp add: hkeys_def)

lemma push_counts:
  assumes "entries_ok bound m" "bound < 2 ^ 64" "plain (truncate_text raw MAX_ENTRY_CHARS)"
  shows "push_entry max_entries raw (map encode_entry m, d) =
    map_prod (map encode_entry) id (count_entry max_entries (truncate_text raw MAX_ENTRY_CHARS) (m, d))"
proof -
  let ?t = "truncate_text raw MAX_ENTRY_CHARS"
  have "collapse ?t (map encode_entry m) = (if ?t \<in> hkeys m then Some (map encode_entry (hbump ?t m)) else None)"
    using assms by (intro collapse_encoded) (auto simp: entries_ok_def)
  moreover have "?t \<notin> hkeys m \<Longrightarrow> hbump ?t m = m @ [(?t, 1)]"
    by (simp add: hbump_def hput_fresh hcount_def hget_None_iff [THEN iffD2])
  ultimately show ?thesis
    by (auto simp: push_entry_def count_entry_def Let_def encode_entry_def)
qed

lemma count_keeps_ok:
  assumes "entries_ok bound m" "plain text"
  shows "entries_ok (Suc bound) (fst (count_entry max_entries text (m, d)))"
proof -
  have "hcount m text \<le> bound"
    using assms(1) hget_SomeD [of m "text"] by (fastforce simp: hcount_def entries_ok_def split: option.split)
  then show ?thesis
    using assms by (auto simp: count_entry_def entries_ok_def hbump_def set_hput)
qed

text \<open>
  The diagnostics buffer counts instead of repeating itself.  As long as no message looks like one of its
  own repetition markers, a category holds exactly the first distinct messages up to its cap, in the order
  they first came, each with the number of times it came, and every other message is counted as dropped:
  rewriting the marker text behind each entry is the same as counting in a map.
\<close>

theorem diagnostics_counts_repetitions:
  assumes "\<forall>raw \<in> set raws. plain (truncate_text raw MAX_ENTRY_CHARS)" "length raws < 2 ^ 64"
  shows "fold (push_entry max_entries) raws ([], 0) =
    map_prod (map encode_entry) id
      (fold (\<lambda>raw. count_entry max_entries (truncate_text raw MAX_ENTRY_CHARS)) raws (hempty, 0))"
proof -
  let ?count = "\<lambda>raw. count_entry max_entries (truncate_text raw MAX_ENTRY_CHARS)"
  have "fold (push_entry max_entries) raws ([], 0) =
      map_prod (map encode_entry) id (fold ?count raws (hempty, 0)) \<and>
    entries_ok (length raws) (fst (fold ?count raws (hempty, 0)))"
    using assms
  proof (induction raws rule: rev_induct)
    case Nil
    then show ?case by (simp add: entries_ok_def)
  next
    case (snoc raw raws)
    obtain m d where c: "fold ?count raws (hempty, 0) = (m, d)" by fastforce
    have IH: "fold (push_entry max_entries) raws ([], 0) = (map encode_entry m, d)" "entries_ok (length raws) m"
      using snoc by (simp_all add: c)
    have ok: "plain (truncate_text raw MAX_ENTRY_CHARS)" "length raws < 2 ^ 64"
      using snoc.prems by simp_all
    show ?case
      using push_counts [OF IH(2) ok(2,1), of max_entries d] count_keeps_ok [OF IH(2) ok(1), of max_entries d]
      by (simp add: c IH(1) id_def)
  qed
  then show ?thesis ..
qed

lemma diagnostics_counts_repetitions_witness:
  "fold (push_entry 1) [''a'', ''b'', ''a''] ([], 0) = ([''a (x2)''], 1)"
proof -
  have p: "plain (truncate_text raw MAX_ENTRY_CHARS)" if "raw \<in> {''a'', ''b''}" for raw
    using that by (auto simp: plain_def truncate_text_def trim_def is_space_def entry_body_def entry_count_def
        rfind_def MAX_ENTRY_CHARS_def)
  have t: "truncate_text ''a'' MAX_ENTRY_CHARS = ''a''" "truncate_text ''b'' MAX_ENTRY_CHARS = ''b''"
    by (simp_all add: truncate_text_def trim_def is_space_def MAX_ENTRY_CHARS_def)
  have "fold (push_entry 1) [''a'', ''b'', ''a''] ([], 0) =
    map_prod (map encode_entry) id
      (fold (\<lambda>raw. count_entry 1 (truncate_text raw MAX_ENTRY_CHARS)) [''a'', ''b'', ''a''] (hempty, 0))"
    using p by (intro diagnostics_counts_repetitions) auto
  then show ?thesis
    by (simp add: t count_entry_def hkeys_def hbump_def hcount_def hput_def hget_def encode_entry_def
        show_nat.simps)
qed

text \<open>A message that looks like a marker is overwritten by one that equals its start.\<close>

lemma marker_lookalike_is_overwritten:
  "fold (push_entry 9) [''error (xhr aborted)'', ''error''] ([], 0) = ([''error (x2)''], 0)"
  by (simp add: push_entry_def truncate_text_def trim_def is_space_def entry_body_def entry_count_def rfind_def
      ends_with_def starts_with_def parse_unsigned_def is_digit_def MAX_ENTRY_CHARS_def show_nat.simps Let_def)

interpretation category_entries: capped_store "\<lambda>c. length (fst c)" "count_entry cap" cap for cap
  by unfold_locales (auto simp: count_entry_def hbump_def length_hput)

section \<open>The limiter is exact\<close>

text \<open>A run of requests for a slot: when each came, the window it fell into, and its answer.\<close>

definition limiter_log ::
  "nat \<Rightarrow> millis list \<Rightarrow> limiter_state \<Rightarrow> (millis \<times> millis \<times> nat option) list \<times> limiter_state" where
  "limiter_log max_per_minute moments s =
     fold (\<lambda>now (entries, s). case limiter_acquire max_per_minute now s of
             (r, s') \<Rightarrow> (entries @ [(now, ls_window_start s', r)], s')) moments ([], s)"

definition allowed_in :: "millis \<Rightarrow> (millis \<times> millis \<times> nat option) list \<Rightarrow> nat" where
  "allowed_in w entries = length (filter (\<lambda>(t, w', r). w' = w \<and> r \<noteq> None) entries)"

definition suppressions :: "(millis \<times> millis \<times> nat option) list \<Rightarrow> nat" where
  "suppressions entries = length (filter (\<lambda>(t, w, r). r = None) entries)"

definition reported :: "(millis \<times> millis \<times> nat option) list \<Rightarrow> nat" where
  "reported entries = sum_list (map (\<lambda>(t, w, r). case r of Some n \<Rightarrow> n | None \<Rightarrow> 0) entries)"

lemma log_counts_snoc [simp]:
  "allowed_in w (es @ [(t, w', r)]) = allowed_in w es + (if w' = w \<and> r \<noteq> None then 1 else 0)"
  "suppressions (es @ [(t, w', r)]) = suppressions es + (if r = None then 1 else 0)"
  "reported (es @ [(t, w', r)]) = reported es + (case r of Some n \<Rightarrow> n | None \<Rightarrow> 0)"
  by (auto simp: allowed_in_def suppressions_def reported_def)

definition limiter_inv :: "nat \<Rightarrow> (millis \<times> millis \<times> nat option) list \<Rightarrow> limiter_state \<Rightarrow> bool" where
  "limiter_inv cap es s \<longleftrightarrow>
     (\<forall>w. allowed_in w es \<le> cap) \<and> (\<forall>w > ls_window_start s. allowed_in w es = 0) \<and>
     allowed_in (ls_window_start s) es = ls_used s \<and>
     reported es + ls_suppressed s = suppressions es \<and> (\<forall>(t, w, r) \<in> set es. t < w + 60000)"

lemma limiter_inv_step:
  assumes "limiter_inv cap es s" "0 < cap" "limiter_acquire cap now s = (r, s')"
  shows "limiter_inv cap (es @ [(now, ls_window_start s', r)]) s'"
proof -
  define s1 where "s1 = (if 60000 \<le> now - ls_window_start s then s\<lparr>ls_window_start := now, ls_used := 0\<rparr> else s)"
  have inv: "limiter_inv cap es s1"
    using assms(1) by (auto simp: limiter_inv_def s1_def)
  have recent: "now < ls_window_start s1 + 60000"
    by (auto simp: s1_def)
  have step: "r = (if cap \<le> ls_used s1 then None else Some (ls_suppressed s1)) \<and>
      s' = (if cap \<le> ls_used s1 then s1\<lparr>ls_suppressed := ls_suppressed s1 + 1\<rparr>
            else s1\<lparr>ls_used := ls_used s1 + 1, ls_suppressed := 0\<rparr>)"
    using assms(2,3) by (simp add: limiter_acquire_def s1_def Let_def split: if_splits)
  show ?thesis
  proof (cases "cap \<le> ls_used s1")
    case True
    then show ?thesis
      using inv recent step by (simp add: limiter_inv_def)
  next
    case False
    then show ?thesis
      using inv recent step by (auto simp: limiter_inv_def)
  qed
qed

text \<open>
  A page that fails everywhere cannot flood the log, and nothing suppressed goes unreported.  In any window
  at most the configured number of reports is allowed, a window never answers for a report more than a minute
  after it began, and the numbers given with the allowed reports add up, with the one still to be given, to
  exactly the reports that were suppressed.
\<close>

theorem diagnostics_limiter_exact:
  assumes "0 < max_per_minute" "limiter_log max_per_minute moments (limiter_new start) = (es, s)"
  shows "(\<forall>w. allowed_in w es \<le> max_per_minute) \<and> (\<forall>(t, w, r) \<in> set es. t < w + 60000) \<and>
    reported es + ls_suppressed s = suppressions es"
proof -
  have "limiter_inv max_per_minute es s"
    using assms(2)
  proof (induction moments arbitrary: es s rule: rev_induct)
    case Nil
    then show ?case
      by (auto simp: limiter_log_def limiter_inv_def limiter_new_def allowed_in_def reported_def suppressions_def)
  next
    case (snoc now moments)
    obtain es0 s0 where l: "limiter_log max_per_minute moments (limiter_new start) = (es0, s0)" by fastforce
    obtain r s1 where a: "limiter_acquire max_per_minute now s0 = (r, s1)" by fastforce
    have "es = es0 @ [(now, ls_window_start s1, r)]" "s = s1"
      using snoc.prems l a by (auto simp: limiter_log_def)
    with limiter_inv_step [OF snoc.IH [OF l] assms(1) a] show ?case by simp
  qed
  then show ?thesis by (simp add: limiter_inv_def)
qed

lemma diagnostics_limiter_exact_witness:
  "\<exists>es s. limiter_log 1 [0, 5, 9, 70000] (limiter_new 0) = (es, s) \<and> suppressions es = 2 \<and> reported es = 2"
proof -
  obtain es s where l: "limiter_log 1 [0, 5, 9, 70000] (limiter_new 0) = (es, s)" by fastforce
  have "suppressions es = 2" "ls_suppressed s = 0"
    using l by (auto simp: limiter_log_def limiter_new_def limiter_acquire_def suppressions_def)
  moreover have "reported es + ls_suppressed s = suppressions es"
    using diagnostics_limiter_exact [OF _ l] by simp
  ultimately show ?thesis using l by simp
qed

section \<open>What is logged\<close>

text \<open>
  A report goes out exactly when the request's mode and error code ask for it; a request judged a success, or
  one whose skip selector was found, is only reported in the mode that reports everything.
\<close>

lemma success_is_not_reported:
  assumes "dc_mode (dn_config d) = Diag_OnError" "success \<or> code = EC_SkipSelectorFound"
  shows "\<not> should_emit (session_end success code d)"
  using assms by (auto simp: should_emit_def session_end_def)

lemma session_drop_silent: "\<not> should_emit d \<Longrightarrow> session_drop d b now s = (None, s)"
  by (simp add: session_drop_def)

end
