(* ===== verification/Shutdown.thy ===== *)
theory Shutdown
  imports Polling
begin

text \<open>
  \<open>worker/src/shutdown.rs\<close>: how long the worker waits for its requests before it cancels them.

  One reading of the drain loop is the moment, the requests then in flight, and whether the second signal
  won the following \<open>select!\<close> (with the requests in flight at that moment).  Waiting for the signals themselves
  and the logging are left out.
\<close>

definition DEFAULT_DRAIN_TIMEOUT :: millis where [cfg_simps]: "DEFAULT_DRAIN_TIMEOUT = 25000"

definition MIN_UNROUTABLE_PAUSE :: millis where [cfg_simps]: "MIN_UNROUTABLE_PAUSE = 3000"

definition DRAIN_POLL_INTERVAL :: millis where [cfg_simps]: "DRAIN_POLL_INTERVAL = 500"

definition parse_drain_timeout :: "string option \<Rightarrow> millis" where
  "parse_drain_timeout value_text =
     (case value_text of
        None \<Rightarrow> DEFAULT_DRAIN_TIMEOUT
      | Some v \<Rightarrow>
          (case parse_unsigned 64 (trim v) of
             Some secs \<Rightarrow> secs * 1000
           | None \<Rightarrow> DEFAULT_DRAIN_TIMEOUT))"

datatype drain_outcome = Drained | TimedOut nat | Interrupted nat

record drain_obs =
  do_now :: millis
  do_active :: nat
  do_interrupt :: "nat option"

definition drain_step :: "millis \<Rightarrow> millis \<Rightarrow> millis \<Rightarrow> unit \<Rightarrow> drain_obs \<Rightarrow> (unit, drain_outcome) poll_step" where
  "drain_step start min_pause timeout u ob =
     (let deadline = start + timeout; pause_end = start + min min_pause timeout
      in if do_active ob = 0 \<and> pause_end \<le> do_now ob then Poll_Done Drained
         else if deadline \<le> do_now ob then Poll_Done (TimedOut (do_active ob))
         else (case do_interrupt ob of
                 Some remaining \<Rightarrow> Poll_Done (Interrupted remaining)
               | None \<Rightarrow> Poll_Next ()))"

definition drain :: "millis \<Rightarrow> millis \<Rightarrow> millis \<Rightarrow> drain_obs list \<Rightarrow> drain_outcome option" where
  "drain start min_pause timeout = poll_loop (drain_step start min_pause timeout) ()"

text \<open>
  The sleep of an iteration ends at the next poll or at the deadline, so readings are as far apart at most.
\<close>

definition next_reading :: "millis \<Rightarrow> millis \<Rightarrow> millis \<Rightarrow> millis" where
  "next_reading start timeout now = min (now + DRAIN_POLL_INTERVAL) (start + timeout)"

text \<open>
  \<open>shutdown_signal\<close> after the first signal: unhealthy at once, then the drain, then the token, then the wait
  for the handlers (the readings of the counter until it is zero).
\<close>

datatype shutdown_action = Mark_Unhealthy | Cancel_Requests | Close_Server

definition await_handlers :: "nat list \<Rightarrow> unit option" where
  "await_handlers actives = poll_loop (\<lambda>u n. if n = 0 then Poll_Done () else Poll_Next ()) () actives"

definition shutdown_signal ::
  "millis \<Rightarrow> millis \<Rightarrow> drain_obs list \<Rightarrow> nat list \<Rightarrow> (shutdown_action list \<times> drain_outcome option)" where
  "shutdown_signal start drain_timeout obs actives =
     (case drain start MIN_UNROUTABLE_PAUSE drain_timeout obs of
        None \<Rightarrow> ([Mark_Unhealthy], None)
      | Some out \<Rightarrow>
          ([Mark_Unhealthy, Cancel_Requests] @ (if await_handlers actives = None then [] else [Close_Server]),
           Some out))"

interpretation draining: budgeted_poll "drain_step start min_pause timeout" "\<lambda>ob. start + timeout \<le> do_now ob"
  for start min_pause timeout
  by unfold_locales (simp add: drain_step_def Let_def)

lemma drain_outcomeE:
  assumes "drain start min_pause timeout obs = Some out"
  obtains xs ob ys where "obs = xs @ ob # ys" "drain_step start min_pause timeout () ob = Poll_Done out"
  using assms poll_loop_SomeE [of "drain_step start min_pause timeout" "()" obs out]
  unfolding drain_def by (metis (full_types) old.unit.exhaust)



text \<open>No reading is later than the deadline, and a reading before it is at most one poll after the last.\<close>

lemma next_reading_bounds:
  "next_reading start timeout now \<le> start + timeout"
  "now < start + timeout \<Longrightarrow> now < next_reading start timeout now"
  by (auto simp: next_reading_def DRAIN_POLL_INTERVAL_def)

lemma await_handlers_iff: "await_handlers actives \<noteq> None \<longleftrightarrow> 0 \<in> set actives"
  by (induction actives) (auto simp: await_handlers_def)

lemma shutdown_order:
  assumes "shutdown_signal start t obs actives = (acts, Some out)"
  shows "\<exists>rest. acts = Mark_Unhealthy # Cancel_Requests # rest \<and> (rest = [Close_Server] \<longleftrightarrow> 0 \<in> set actives)"
  using assms await_handlers_iff [of actives]
  by (cases "await_handlers actives") (simp_all add: shutdown_signal_def split: option.splits, blast+)

end
