(* ===== verification/Browser_Cdp.thy ===== *)
theory Browser_Cdp
  imports Third_Party
begin

text \<open>
  The browser-level CDP client: \<open>worker/src/browser_cdp.rs\<close>.

  What the socket delivers is input: for each read of an attempt, whether the deadline has passed
  before it, and what is read.  A call returns with the trace of what it did to the socket.  A JSON
  message is its \<open>id\<close>, its \<open>error\<close> and the fields the callers read.
\<close>

section \<open>Waiting for the answer\<close>

definition MAX_FRAMES_PER_CALL :: nat where [cfg_simps]: "MAX_FRAMES_PER_CALL = 512"

record result_fields =
  rf_browser_context_id :: "string option"
  rf_target_infos :: "(string \<Rightarrow> string option) list option"
  rf_browser_context_ids :: "string list option"

record cdp_message =
  cm_id :: "nat option"
  cm_error :: "string option"
  cm_result :: result_fields

datatype socket_reading =
    Rd_Failed string
  | Rd_NotText
  | Rd_NotJson string
  | Rd_Message cdp_message

datatype client_error =
    Poisoned
  | Not_Opened string
  | Send_Failed string
  | Read_Failed string
  | Parse_Failed string
  | Timed_Out string
  | Rejected string string
  | No_Response string
  | After_Reconnect string client_error
  | Missing_Field string

fun await_response :: "string \<Rightarrow> nat \<Rightarrow> (nat \<Rightarrow> bool \<times> socket_reading) \<Rightarrow> nat \<Rightarrow> nat \<Rightarrow> client_error + cdp_message" where
  "await_response call_name i frames k 0 = Inl (No_Response call_name)"
| "await_response call_name i frames k (Suc n) =
     (if fst (frames k) then Inl (Timed_Out call_name)
      else
        (case snd (frames k) of
           Rd_Failed e \<Rightarrow> Inl (Read_Failed e)
         | Rd_NotText \<Rightarrow> await_response call_name i frames (Suc k) n
         | Rd_NotJson e \<Rightarrow> Inl (Parse_Failed e)
         | Rd_Message m \<Rightarrow>
             if cm_id m \<noteq> Some i then await_response call_name i frames (Suc k) n
             else (case cm_error m of Some e \<Rightarrow> Inl (Rejected call_name e) | None \<Rightarrow> Inr m)))"

section \<open>One call\<close>

record cdp_client =
  cl_connected :: bool
  cl_next_id :: nat

definition client_connect :: "string + unit \<Rightarrow> client_error + cdp_client" where
  "client_connect opened =
     (case opened of Inl e \<Rightarrow> Inl (Not_Opened e) | Inr _ \<Rightarrow> Inr \<lparr>cl_connected = True, cl_next_id = 1\<rparr>)"

datatype socket_event = Sk_Opened | Sk_Sent nat string | Sk_Closed

record attempt_io =
  ai_poisoned :: bool
  ai_open :: "string + unit"
  ai_send :: "string + unit"
  ai_frames :: "nat \<Rightarrow> bool \<times> socket_reading"

text \<open>A send that fails may still have reached the browser; it is in the trace.\<close>

definition call_once ::
  "string \<Rightarrow> attempt_io \<Rightarrow> cdp_client \<Rightarrow> (client_error + cdp_message) \<times> cdp_client \<times> socket_event list" where
  "call_once call_name io cl =
     (let i = cl_next_id cl; cl = cl\<lparr>cl_next_id := Suc i\<rparr> in
      if ai_poisoned io then (Inl Poisoned, cl, [])
      else
        (case (if cl_connected cl then Inr () else ai_open io) of
           Inl e \<Rightarrow> (Inl (Not_Opened e), cl, [])
         | Inr _ \<Rightarrow>
             ((case ai_send io of
                 Inl e \<Rightarrow> Inl (Send_Failed e)
               | Inr _ \<Rightarrow> await_response call_name i (ai_frames io) 0 MAX_FRAMES_PER_CALL),
              cl\<lparr>cl_connected := True\<rparr>,
              (if cl_connected cl then [] else [Sk_Opened]) @ [Sk_Sent i call_name])))"

definition drop_socket :: "bool \<Rightarrow> cdp_client \<Rightarrow> cdp_client \<times> socket_event list" where
  "drop_socket poisoned cl =
     (if poisoned \<or> \<not> cl_connected cl then (cl, []) else (cl\<lparr>cl_connected := False\<rparr>, [Sk_Closed]))"

text \<open>A mutex stays poisoned, so both attempts find it so.\<close>

definition cdp_call ::
  "string \<Rightarrow> attempt_io \<Rightarrow> attempt_io \<Rightarrow> cdp_client \<Rightarrow> (client_error + cdp_message) \<times> cdp_client \<times> socket_event list" where
  "cdp_call call_name io io' cl =
     (case call_once call_name io cl of
        (Inr m, cl, tr) \<Rightarrow> (Inr m, cl, tr)
      | (Inl _, cl, tr) \<Rightarrow>
          (let (cl, closed) = drop_socket (ai_poisoned io) cl;
               (answer, cl, tr') = call_once call_name (io'\<lparr>ai_poisoned := ai_poisoned io\<rparr>) cl
           in ((case answer of Inr m \<Rightarrow> Inr m | Inl e \<Rightarrow> Inl (After_Reconnect call_name e)), cl, tr @ closed @ tr')))"

section \<open>The methods\<close>

definition read_result :: "string \<Rightarrow> (result_fields \<Rightarrow> 'a option) \<Rightarrow>
   (client_error + cdp_message) \<times> cdp_client \<times> socket_event list \<Rightarrow>
   (client_error + 'a) \<times> cdp_client \<times> socket_event list" where
  "read_result missing f = (\<lambda>(answer, rest).
     ((case answer of
         Inl e \<Rightarrow> Inl e
       | Inr m \<Rightarrow> (case f (cm_result m) of None \<Rightarrow> Inl (Missing_Field missing) | Some x \<Rightarrow> Inr x)), rest))"

definition create_browser_context where
  "create_browser_context io io' cl =
     read_result ''createBrowserContext returned no browserContextId'' rf_browser_context_id
       (cdp_call ''Target.createBrowserContext'' io io' cl)"

definition dispose_browser_context where
  "dispose_browser_context io io' cl =
     read_result [] (\<lambda>_. Some ()) (cdp_call ''Target.disposeBrowserContext'' io io' cl)"

definition target_of :: "(string \<Rightarrow> string option) \<Rightarrow> target_info" where
  "target_of info =
     (let field = (\<lambda>f. case info f of Some v \<Rightarrow> v | None \<Rightarrow> [])
      in \<lparr>ti_id = field ''targetId'', ti_type = field ''type'', ti_url = field ''url'',
          ti_context = info ''browserContextId''\<rparr>)"

definition cdp_targets where
  "cdp_targets io io' cl =
     read_result ''getTargets returned no targetInfos'' (\<lambda>r. map_option (map target_of) (rf_target_infos r))
       (cdp_call ''Target.getTargets'' io io' cl)"

definition browser_context_count where
  "browser_context_count io io' cl =
     read_result ''getBrowserContexts returned no browserContextIds'' (\<lambda>r. map_option length (rf_browser_context_ids r))
       (cdp_call ''Target.getBrowserContexts'' io io' cl)"

section \<open>An answer belongs to its request\<close>

lemma await_response_own:
  "await_response call_name i frames k n = Inr m \<Longrightarrow>
     cm_id m = Some i \<and> cm_error m = None \<and> (\<exists>j. snd (frames j) = Rd_Message m)"
proof (induction n arbitrary: k)
  case (Suc n)
  then show ?case
    by (auto split: if_splits socket_reading.splits option.splits)
qed simp

definition sent_ids :: "socket_event list \<Rightarrow> nat list" where
  "sent_ids tr = List.map_filter (\<lambda>e. case e of Sk_Sent i _ \<Rightarrow> Some i | _ \<Rightarrow> None) tr"

lemma sent_ids_simps [simp]:
  "sent_ids [] = []"
  "sent_ids (a @ b) = sent_ids a @ sent_ids b"
  "sent_ids (Sk_Opened # tr) = sent_ids tr"
  "sent_ids (Sk_Sent i s # tr) = i # sent_ids tr"
  "sent_ids (Sk_Closed # tr) = sent_ids tr"
  by (simp_all add: sent_ids_def map_filter_def)

lemma call_once_ids:
  assumes "call_once call_name io cl = (answer, cl', tr)"
  shows "cl_next_id cl' = Suc (cl_next_id cl) \<and> sent_ids tr \<in> {[], [cl_next_id cl]} \<and>
    (\<forall>m. answer = Inr m \<longrightarrow> cm_id m = Some (cl_next_id cl) \<and> cm_error m = None \<and> sent_ids tr = [cl_next_id cl])"
  using assms
  by (auto simp: call_once_def Let_def dest!: await_response_own split: if_splits sum.splits)

lemma drop_socket_ids [simp]:
  "cl_next_id (fst (drop_socket p cl)) = cl_next_id cl" "sent_ids (snd (drop_socket p cl)) = []"
  by (simp_all add: drop_socket_def)

lemma cdp_call_cases:
  assumes "cdp_call call_name io io' cl = (answer, cl', tr)"
  obtains (first) m where "answer = Inr m" "call_once call_name io cl = (Inr m, cl', tr)"
  | (again) e cl1 tr1 answer2 tr2 where
      "call_once call_name io cl = (Inl e, cl1, tr1)"
      "call_once call_name (io'\<lparr>ai_poisoned := ai_poisoned io\<rparr>) (fst (drop_socket (ai_poisoned io) cl1)) = (answer2, cl', tr2)"
      "answer = (case answer2 of Inr m \<Rightarrow> Inr m | Inl e \<Rightarrow> Inl (After_Reconnect call_name e))"
      "tr = tr1 @ snd (drop_socket (ai_poisoned io) cl1) @ tr2"
  using assms by (auto simp: cdp_call_def Let_def split: prod.splits sum.splits)

text \<open>
  C39: A call takes its answer only from a message without an error that carries the id of its own last
  request; it sends at most two requests, each under an id never used before on this client, and the
  next call starts above all of them.
\<close>

theorem browser_call_answers_its_own_request:
  assumes "cdp_call call_name io io' cl = (answer, cl', tr)"
  shows "distinct (sent_ids tr) \<and> length (sent_ids tr) \<le> 2 \<and>
    list_all (\<lambda>i. cl_next_id cl \<le> i \<and> i < cl_next_id cl') (sent_ids tr) \<and>
    (case answer of Inl _ \<Rightarrow> True
     | Inr m \<Rightarrow> sent_ids tr \<noteq> [] \<and> cm_id m = Some (last (sent_ids tr)) \<and> cm_error m = None)"
  using assms
proof (cases rule: cdp_call_cases)
  case (first m)
  then show ?thesis using call_once_ids [OF first(2)] by auto
next
  case (again e cl1 tr1 answer2 tr2)
  then show ?thesis
    using call_once_ids [OF again(1)] call_once_ids [OF again(2)] by (auto split: sum.splits)
qed

abbreviation answered :: "nat \<Rightarrow> string option \<Rightarrow> string option \<Rightarrow> cdp_message" where
  "answered i e c \<equiv> \<lparr>cm_id = Some i, cm_error = e, cm_result =
     \<lparr>rf_browser_context_id = c, rf_target_infos = None, rf_browser_context_ids = None\<rparr>\<rparr>"

abbreviation reads :: "(bool \<times> socket_reading) list \<Rightarrow> attempt_io" where
  "reads rs \<equiv> \<lparr>ai_poisoned = False, ai_open = Inr (), ai_send = Inr (),
     ai_frames = (\<lambda>k. if k < length rs then rs ! k else (True, Rd_NotText))\<rparr>"

abbreviation fresh_client :: cdp_client where
  "fresh_client \<equiv> \<lparr>cl_connected = True, cl_next_id = 1\<rparr>"

lemma late_answer_call:
  "cdp_call ''Target.createBrowserContext'' (reads [(False, Rd_NotText), (True, Rd_NotText)])
     (reads [(False, Rd_Message (answered 1 None (Some ''A''))), (False, Rd_Message (answered 2 None (Some ''B'')))])
     fresh_client =
   (Inr (answered 2 None (Some ''B'')), \<lparr>cl_connected = True, cl_next_id = 3\<rparr>,
    [Sk_Sent 1 ''Target.createBrowserContext'', Sk_Closed, Sk_Opened, Sk_Sent 2 ''Target.createBrowserContext''])"
  by (simp add: cdp_call_def call_once_def drop_socket_def MAX_FRAMES_PER_CALL_def eval_nat_numeral)

theorem browser_call_answers_its_own_request_witness:
  "cm_id (answered 2 None (Some ''B'')) = Some (last [1, 2])"
  using browser_call_answers_its_own_request [OF late_answer_call] by simp

text \<open>
  The documentation promises a reconnect when the socket turned out to be dead.  Every failure is
  retried: a method that the browser refused is sent again, and so is a context creation whose answer
  was late, whose first context nobody will ever dispose of.
\<close>

lemma refused_call_is_sent_again:
  "snd (snd (create_browser_context (reads [(False, Rd_Message (answered 1 (Some ''bad proxy'') None))])
     (reads [(False, Rd_Message (answered 2 (Some ''bad proxy'') None))]) fresh_client)) =
   [Sk_Sent 1 ''Target.createBrowserContext'', Sk_Closed, Sk_Opened, Sk_Sent 2 ''Target.createBrowserContext'']"
  by (simp add: create_browser_context_def read_result_def cdp_call_def call_once_def drop_socket_def
      MAX_FRAMES_PER_CALL_def eval_nat_numeral)

lemma late_creation_makes_two_contexts:
  "sent_ids (snd (snd (create_browser_context (reads [(False, Rd_NotText), (True, Rd_NotText)])
     (reads [(False, Rd_Message (answered 1 None (Some ''A''))), (False, Rd_Message (answered 2 None (Some ''B'')))])
     fresh_client))) = [1, 2]"
  unfolding create_browser_context_def late_answer_call read_result_def by simp

end
