(* ===== verification/Browser_Process.thy ===== *)
theory Browser_Process
  imports Hive_Prelude
begin

text \<open>
  Processes and switches of the browser: \<open>worker/src/launch_args.rs\<close>, \<open>child_reaper.rs\<close> and the pure part
  of \<open>browser_resources.rs\<close>.

  What \<open>/proc\<close> and \<open>waitpid\<close> answer is input; a process is its pid.
\<close>

section \<open>Launch arguments\<close>

definition DISABLE_FEATURES :: string where "DISABLE_FEATURES = ''--disable-features=''"

definition strip_prefix :: "string \<Rightarrow> string \<Rightarrow> string option" where
  "strip_prefix pre s = (if starts_with pre s then Some (drop (length pre) s) else None)"

definition disabled_features :: "string \<Rightarrow> string list option" where
  "disabled_features arg =
     map_option (\<lambda>features. filter (\<lambda>f. f \<noteq> []) (map trim (split_on (CHR '','') features)))
       (strip_prefix DISABLE_FEATURES arg)"

definition add_feature :: "string \<Rightarrow> string list \<Rightarrow> string list" where
  "add_feature f features = (if f \<in> set features then features else features @ [f])"

record merged_args =
  ma_args :: "string list"
  ma_disable_features :: "string option"
  ma_ignored_defaults :: "string list"

definition features_of :: "string list \<Rightarrow> string list" where
  "features_of args = concat (map (\<lambda>arg. case disabled_features arg of Some fs \<Rightarrow> fs | None \<Rightarrow> []) args)"

definition merge_disable_features :: "string list \<Rightarrow> string list \<Rightarrow> string list \<Rightarrow> merged_args" where
  "merge_disable_features crate_defaults args extra =
     (let ignored = filter (\<lambda>arg. disabled_features arg \<noteq> None) crate_defaults;
          own = filter (\<lambda>arg. disabled_features arg \<noteq> None) args;
          kept = filter (\<lambda>arg. disabled_features arg = None) args;
          features = fold add_feature (features_of ignored @ features_of own @ extra) []
      in if own = [] \<and> extra = [] then
           \<lparr>ma_args = kept, ma_disable_features = None, ma_ignored_defaults = []\<rparr>
         else
           \<lparr>ma_args = kept, ma_disable_features = Some (DISABLE_FEATURES @ join_with '','' features),
            ma_ignored_defaults = ignored\<rparr>)"

section \<open>The process tree\<close>

definition children_of :: "(nat \<times> nat) list \<Rightarrow> nat \<Rightarrow> nat list" where
  "children_of parents p = map fst (filter (\<lambda>(pid, ppid). ppid = p) parents)"

type_synonym walk_state = "nat list \<times> nat set \<times> nat list"

definition visit_child :: "nat \<Rightarrow> walk_state \<Rightarrow> walk_state" where
  "visit_child child = (\<lambda>(found, seen, queue).
     if child \<in> seen then (found, seen, queue) else (found @ [child], insert child seen, queue @ [child]))"

abbreviation walk_work :: "(nat \<times> nat) list \<Rightarrow> walk_state \<Rightarrow> nat" where
  "walk_work parents st \<equiv> 2 * card (fst ` set parents - fst (snd st)) + length (snd (snd st))"

lemma visit_child_work:
  assumes "child \<in> fst ` set parents"
  shows "walk_work parents (visit_child child st) \<le> walk_work parents st"
proof (cases st)
  case (fields found seen queue)
  show ?thesis
  proof (cases "child \<in> seen")
    case False
    have "fst ` set parents - insert child seen = (fst ` set parents - seen) - {child}" by blast
    then have "card (fst ` set parents - insert child seen) = card (fst ` set parents - seen) - 1"
      using assms False by (simp add: card_Diff_singleton)
    moreover have "0 < card (fst ` set parents - seen)"
      using assms False by (auto simp: card_gt_0_iff)
    ultimately show ?thesis by (simp add: fields visit_child_def False)
  qed (simp add: fields visit_child_def)
qed

lemma visit_children_work:
  "set cs \<subseteq> fst ` set parents \<Longrightarrow> walk_work parents (fold visit_child cs st) \<le> walk_work parents st"
proof (induction cs arbitrary: st)
  case (Cons c cs)
  have "walk_work parents (fold visit_child cs (visit_child c st)) \<le> walk_work parents (visit_child c st)"
    using Cons.prems by (intro Cons.IH) simp
  also have "\<dots> \<le> walk_work parents st"
    using Cons.prems by (intro visit_child_work) simp
  finally show ?case by (simp only: fold_simps)
qed simp

lemma children_of_subset: "set (children_of parents p) \<subseteq> fst ` set parents"
  by (auto simp: children_of_def)

text \<open>The queue of \<open>descendants\<close>: a breadth-first walk that visits a process once.\<close>

function walk :: "(nat \<times> nat) list \<Rightarrow> walk_state \<Rightarrow> nat list" where
  "walk parents (found, seen, []) = found"
| "walk parents (found, seen, p # queue) =
     walk parents (fold visit_child (children_of parents p) (found, seen, queue))"
  by pat_completeness auto
termination
proof (relation "measure (\<lambda>(parents, st). walk_work parents st)")
  fix parents found seen p queue
  have "walk_work parents (fold visit_child (children_of parents p) (found, seen, queue)) \<le>
      walk_work parents (found, seen, queue)"
    by (rule visit_children_work [OF children_of_subset])
  then show "((parents, fold visit_child (children_of parents p) (found, seen, queue)), parents, found, seen, p # queue)
      \<in> measure (\<lambda>(parents, st). walk_work parents st)"
    by (simp only: in_measure prod.case) simp
qed simp

definition descendants :: "nat \<Rightarrow> (nat \<times> nat) list \<Rightarrow> nat list" where
  "descendants ancestor parents = walk parents ([], {ancestor}, [ancestor])"

subsection \<open>What the walk finds\<close>

abbreviation child_rel :: "(nat \<times> nat) list \<Rightarrow> (nat \<times> nat) set" where
  "child_rel parents \<equiv> (set parents)\<inverse>"

lemma set_children_of: "set (children_of parents p) = child_rel parents `` {p}"
  by (force simp: children_of_def)

lemma visit_children:
  "\<exists>new. fold visit_child cs (found, seen, queue) = (found @ new, seen \<union> set cs, queue @ new) \<and>
     distinct new \<and> set new = set cs - seen"
proof (induction cs arbitrary: found seen queue)
  case (Cons c cs)
  show ?case
  proof (cases "c \<in> seen")
    case True
    then show ?thesis using Cons [of found seen queue] by (auto simp: visit_child_def)
  next
    case False
    obtain new where new: "fold visit_child cs (found @ [c], insert c seen, queue @ [c]) =
        ((found @ [c]) @ new, insert c seen \<union> set cs, (queue @ [c]) @ new)"
      "distinct new" "set new = set cs - insert c seen"
      using Cons [of "found @ [c]" "insert c seen" "queue @ [c]"] by blast
    have "fold visit_child (c # cs) (found, seen, queue) =
        (found @ c # new, seen \<union> set (c # cs), queue @ c # new)"
      using new(1) False by (simp add: visit_child_def)
    moreover have "distinct (c # new)" "set (c # new) = set (c # cs) - seen"
      using new(2,3) False by auto
    ultimately show ?thesis by blast
  qed
qed simp

text \<open>Found is reachable and found once; what has left the queue has all its children found.\<close>

definition walk_inv :: "(nat \<times> nat) list \<Rightarrow> nat \<Rightarrow> walk_state \<Rightarrow> bool" where
  "walk_inv parents a = (\<lambda>(found, seen, queue).
     seen = insert a (set found) \<and> distinct (a # found) \<and> set queue \<subseteq> seen \<and>
     set found \<subseteq> (child_rel parents)\<^sup>* `` {a} \<and> child_rel parents `` (seen - set queue) \<subseteq> seen)"

lemma walk_inv_step:
  assumes "walk_inv parents a (found, seen, p # queue)"
  shows "walk_inv parents a (fold visit_child (children_of parents p) (found, seen, queue))"
proof -
  obtain new where step: "fold visit_child (children_of parents p) (found, seen, queue) =
      (found @ new, seen \<union> set (children_of parents p), queue @ new)"
    and new: "distinct new" "set new = child_rel parents `` {p} - seen"
    using visit_children [of "children_of parents p" found seen queue] by (auto simp: set_children_of)
  have "p \<in> (child_rel parents)\<^sup>* `` {a}"
    using assms by (auto simp: walk_inv_def)
  then have "child_rel parents `` {p} \<subseteq> (child_rel parents)\<^sup>* `` {a}"
    by (auto intro: rtrancl_into_rtrancl)
  with assms new have "set (found @ new) \<subseteq> (child_rel parents)\<^sup>* `` {a}"
    by (auto simp: walk_inv_def)
  moreover have "seen \<union> set (children_of parents p) = insert a (set (found @ new))"
    using assms new by (auto simp: walk_inv_def set_children_of)
  moreover have "distinct (a # found @ new)" "set (queue @ new) \<subseteq> seen \<union> set (children_of parents p)"
    using assms new by (auto simp: walk_inv_def set_children_of)
  moreover have "child_rel parents `` (seen \<union> set (children_of parents p) - set (queue @ new)) \<subseteq>
      seen \<union> set (children_of parents p)"
    using assms new(2) by (auto simp: walk_inv_def set_children_of)
  ultimately show ?thesis
    unfolding step walk_inv_def by simp
qed

lemma walk_inv_complete:
  assumes "walk_inv parents a (found, seen, [])"
  shows "set found = (child_rel parents)\<^sup>* `` {a} - {a}"
proof -
  have "(child_rel parents)\<^sup>* `` {a} \<subseteq> insert a (set found)"
  proof -
    have "child_rel parents `` insert a (set found) \<subseteq> insert a (set found)"
      using assms unfolding walk_inv_def by auto
    then have "(child_rel parents)\<^sup>* `` insert a (set found) = insert a (set found)"
      by (rule Image_closed_trancl)
    then show ?thesis by blast
  qed
  then show ?thesis using assms unfolding walk_inv_def by auto
qed

lemma walk_finds:
  "walk_inv parents a st \<Longrightarrow>
     set (walk parents st) = (child_rel parents)\<^sup>* `` {a} - {a} \<and> distinct (walk parents st)"
proof (induction parents st rule: walk.induct)
  case (1 parents found seen)
  have "distinct found" using 1 by (simp add: walk_inv_def)
  then show ?case using walk_inv_complete [OF 1] by simp
next
  case (2 parents found seen p queue)
  then show ?case by (simp add: walk_inv_step)
qed

lemma process_descendants_exact:
  "set (descendants a parents) = (child_rel parents)\<^sup>* `` {a} - {a} \<and> distinct (descendants a parents)"
  unfolding descendants_def by (rule walk_finds) (simp add: walk_inv_def)

section \<open>Reading \<open>/proc\<close>\<close>

function split_where :: "('a \<Rightarrow> bool) \<Rightarrow> 'a list \<Rightarrow> 'a list list" where
  "split_where P [] = []"
| "split_where P (c # cs) =
     (if P c then split_where P cs
      else (c # takeWhile (\<lambda>x. \<not> P x) cs) # split_where P (dropWhile (\<lambda>x. \<not> P x) cs))"
  by pat_completeness auto
termination
  by (relation "measure (\<lambda>(P, s). length s)") (auto simp: le_imp_less_Suc length_dropWhile_le)

definition split_spaces :: "string \<Rightarrow> string list" where
  "split_spaces = split_where is_space"

definition after_last :: "'a \<Rightarrow> 'a list \<Rightarrow> 'a list option" where
  "after_last c s = (if c \<in> set s then Some (rev (takeWhile (\<lambda>x. x \<noteq> c) (rev s))) else None)"

definition parse_state_and_ppid :: "string \<Rightarrow> (char \<times> nat) option" where
  "parse_state_and_ppid stat =
     (case after_last (CHR '')'') stat of
        None \<Rightarrow> None
      | Some rest \<Rightarrow>
          (case split_spaces rest of
             (state # _) # ppid # _ \<Rightarrow> map_option (Pair state) (parse_unsigned 32 ppid)
           | _ \<Rightarrow> None))"

definition parse_ppid :: "string \<Rightarrow> nat option" where
  "parse_ppid stat = map_option snd (parse_state_and_ppid stat)"

definition split_args :: "string \<Rightarrow> string list" where
  "split_args = split_where (\<lambda>c. c = CHR 0x00 \<or> (is_space c \<and> c \<noteq> CHR 0x0B))"

definition value_of :: "string \<Rightarrow> string list \<Rightarrow> string option" where
  "value_of flag args = (case List.map_filter (strip_prefix flag) args of [] \<Rightarrow> None | v # _ \<Rightarrow> Some v)"

definition classify_process :: "string \<Rightarrow> string" where
  "classify_process cmdline =
     (let args = split_args cmdline
      in case value_of ''--type='' args of
           None \<Rightarrow> ''browser''
         | Some t \<Rightarrow>
             if t = ''renderer'' \<and> ''--extension-process'' \<in> set args then ''extension''
             else if t = ''renderer'' then ''renderer''
             else if t = ''gpu-process'' then ''gpu''
             else if t = ''zygote'' then ''zygote''
             else if t = ''utility'' then
               (case value_of ''--utility-sub-type='' args of
                  Some sub \<Rightarrow>
                    if starts_with ''network.'' sub then ''network''
                    else if starts_with ''storage.'' sub then ''storage'' else ''utility''
                | None \<Rightarrow> ''utility'')
             else ''other'')"

definition PROCESS_TYPES :: "string list" where
  "PROCESS_TYPES = [''browser'', ''renderer'', ''extension'', ''gpu'', ''zygote'', ''network'', ''storage'', ''utility'', ''other'']"

definition TARGET_TYPES :: "string list" where
  "TARGET_TYPES = [''page'', ''iframe'', ''worker'', ''shared_worker'', ''service_worker'', ''browser_ui'', ''other'']"

definition classify_target :: "string \<Rightarrow> string" where
  "classify_target t = (if t \<in> set TARGET_TYPES then t else ''other'')"

definition count_target_types :: "string list \<Rightarrow> (string, nat) hmap" where
  "count_target_types types = fold (\<lambda>t. hbump (classify_target t)) types hempty"

record process_group =
  pg_count :: nat
  pg_pss :: nat
  pg_max_pss :: nat

text \<open>One process: its command line and its memory, where they could still be read.\<close>

definition count_process :: "string option \<times> nat option \<Rightarrow> (string, process_group) hmap \<Rightarrow> (string, process_group) hmap" where
  "count_process = (\<lambda>(cmdline, pss_kib) groups.
     case cmdline of
       None \<Rightarrow> groups
     | Some cmd \<Rightarrow>
         if cmd = [] then groups
         else
           (let pss = (case pss_kib of Some kib \<Rightarrow> kib * 1024 | None \<Rightarrow> 0); label = classify_process cmd;
                g = (case hget groups label of Some g \<Rightarrow> g | None \<Rightarrow> \<lparr>pg_count = 0, pg_pss = 0, pg_max_pss = 0\<rparr>)
            in hput label \<lparr>pg_count = pg_count g + 1, pg_pss = pg_pss g + pss, pg_max_pss = max (pg_max_pss g) pss\<rparr>
                 groups))"

section \<open>The reaper\<close>

record registry =
  rg_launching :: nat
  rg_launched :: "nat set"

definition begin_launch :: "registry \<Rightarrow> registry" where
  "begin_launch r = r\<lparr>rg_launching := rg_launching r + 1\<rparr>"

text \<open>\<open>launched\<close> consumes the guard; a launch that fails only drops it.\<close>

definition end_launch :: "nat option \<Rightarrow> registry \<Rightarrow> registry" where
  "end_launch pid r =
     (case pid of Some p \<Rightarrow> r\<lparr>rg_launched := insert p (rg_launched r)\<rparr> | None \<Rightarrow> r)
       \<lparr>rg_launching := rg_launching r - 1\<rparr>"

record proc_entry =
  pe_pid :: nat
  pe_stat :: "(char \<times> nat) option"
  pe_waited :: bool

text \<open>\<open>pe_waited\<close> is what \<open>waitpid\<close> answers; it is only asked for a pid that fits \<open>pid_t\<close>.\<close>

definition reap :: "proc_entry \<Rightarrow> bool" where
  "reap e \<longleftrightarrow> pe_pid e < 2 ^ 31 \<and> pe_waited e"

definition reapable :: "nat \<Rightarrow> registry \<Rightarrow> proc_entry \<Rightarrow> bool" where
  "reapable me r e \<longleftrightarrow> pe_stat e = Some (CHR ''Z'', me) \<and> pe_pid e \<notin> rg_launched r"

text \<open>The pids a sweep waits for, and how many of the waits collected one; \<open>None\<close> is no \<open>/proc\<close>.\<close>

definition reap_orphan_zombies ::
  "nat \<Rightarrow> proc_entry list option \<Rightarrow> registry \<Rightarrow> nat list \<times> nat \<times> registry" where
  "reap_orphan_zombies me entries r =
     (if 0 < rg_launching r then ([], 0, r)
      else (case entries of
              None \<Rightarrow> ([], 0, r)
            | Some es \<Rightarrow>
                (let due = filter (reapable me r) es
                 in (map pe_pid due, length (filter reap due),
                     r\<lparr>rg_launched := rg_launched r \<inter> pe_pid ` set es\<rparr>))))"

subsection \<open>No sweep takes a process that headless_chrome owns\<close>

text \<open>
  The worker around the registry: one guard per launch in progress, holding the pid once the crate
  has started the process, and the processes the crate still has to wait for. Rules: a launch begins;
  its process starts; it is registered; it fails, and the crate has collected what it started; the
  crate collects a process; a sweep, which sees every process nobody has waited for.
\<close>

record reaper_world =
  rw_registry :: registry
  rw_guards :: "nat option list"
  rw_owned :: "nat set"

definition remove_nth :: "nat \<Rightarrow> 'a list \<Rightarrow> 'a list" where
  "remove_nth i xs = take i xs @ drop (Suc i) xs"

definition reaper_start :: reaper_world where
  "reaper_start = \<lparr>rw_registry = \<lparr>rg_launching = 0, rg_launched = {}\<rparr>, rw_guards = [], rw_owned = {}\<rparr>"

inductive reaper_reachable :: "nat \<Rightarrow> reaper_world \<Rightarrow> bool" for me where
  start: "reaper_reachable me reaper_start"
| begun: "reaper_reachable me w \<Longrightarrow>
    reaper_reachable me (w\<lparr>rw_registry := begin_launch (rw_registry w), rw_guards := rw_guards w @ [None]\<rparr>)"
| spawned: "\<lbrakk>reaper_reachable me w; i < length (rw_guards w); rw_guards w ! i = None; pid \<notin> rw_owned w\<rbrakk> \<Longrightarrow>
    reaper_reachable me (w\<lparr>rw_guards := (rw_guards w)[i := Some pid], rw_owned := insert pid (rw_owned w)\<rparr>)"
| launched: "\<lbrakk>reaper_reachable me w; i < length (rw_guards w)\<rbrakk> \<Longrightarrow>
    reaper_reachable me (w\<lparr>rw_registry := end_launch (rw_guards w ! i) (rw_registry w),
      rw_guards := remove_nth i (rw_guards w)\<rparr>)"
| failed: "\<lbrakk>reaper_reachable me w; i < length (rw_guards w)\<rbrakk> \<Longrightarrow>
    reaper_reachable me (w\<lparr>rw_registry := end_launch None (rw_registry w),
      rw_guards := remove_nth i (rw_guards w), rw_owned := rw_owned w - set_option (rw_guards w ! i)\<rparr>)"
| collected: "reaper_reachable me w \<Longrightarrow> reaper_reachable me (w\<lparr>rw_owned := rw_owned w - {pid}\<rparr>)"
| swept: "\<lbrakk>reaper_reachable me w; \<forall>es. entries = Some es \<longrightarrow> rw_owned w \<subseteq> pe_pid ` set es\<rbrakk> \<Longrightarrow>
    reaper_reachable me (w\<lparr>rw_registry := snd (snd (reap_orphan_zombies me entries (rw_registry w)))\<rparr>)"

definition reaper_inv :: "reaper_world \<Rightarrow> bool" where
  "reaper_inv w \<longleftrightarrow> rg_launching (rw_registry w) = length (rw_guards w) \<and>
     (\<forall>pid\<in>rw_owned w. pid \<in> rg_launched (rw_registry w) \<or> Some pid \<in> set (rw_guards w))"

lemma set_remove_nth: "i < length xs \<Longrightarrow> set xs = insert (xs ! i) (set (remove_nth i xs))"
  by (subst (1 2) id_take_nth_drop [of i xs]) (auto simp: remove_nth_def nth_append)

lemma length_remove_nth: "i < length xs \<Longrightarrow> length (remove_nth i xs) = length xs - 1"
  by (simp add: remove_nth_def)

lemma set_update_keeps: "\<lbrakk>x \<in> set xs; xs ! i \<noteq> x\<rbrakk> \<Longrightarrow> x \<in> set (xs[i := y])"
  by (metis in_set_conv_nth length_list_update nth_list_update_neq)

lemma reaper_inv_sweep:
  assumes "reaper_inv w" "\<forall>es. entries = Some es \<longrightarrow> rw_owned w \<subseteq> pe_pid ` set es"
  shows "reaper_inv (w\<lparr>rw_registry := snd (snd (reap_orphan_zombies me entries (rw_registry w)))\<rparr>)"
  using assms by (auto simp: reaper_inv_def reap_orphan_zombies_def Let_def split: option.splits)

lemma reaper_reachable_inv: "reaper_reachable me w \<Longrightarrow> reaper_inv w"
proof (induction rule: reaper_reachable.induct)
  case start
  then show ?case by (simp add: reaper_inv_def reaper_start_def)
next
  case (begun w)
  then show ?case by (auto simp: reaper_inv_def begin_launch_def)
next
  case (spawned w i pid)
  then show ?case
    by (auto simp: reaper_inv_def intro: set_update_memI) (metis option.distinct(1) set_update_keeps)
next
  case (launched w i)
  then show ?case
    using set_remove_nth [OF launched.hyps(2)]
    by (auto simp: reaper_inv_def end_launch_def length_remove_nth split: option.splits)
next
  case (failed w i)
  then show ?case
    using set_remove_nth [OF failed.hyps(2)]
    by (auto simp: reaper_inv_def end_launch_def length_remove_nth)
next
  case (collected w pid)
  then show ?case by (auto simp: reaper_inv_def)
next
  case (swept w entries)
  then show ?case by (blast intro: reaper_inv_sweep)
qed

text \<open>
  The reaper never waits for a process that headless_chrome owns, whatever launches are under way
  and in whatever order they start, are registered, fail and are collected; what it waits for is a
  zombie child of the worker.
\<close>

theorem reaper_spares_launched:
  assumes "reaper_reachable me w"
    and "pid \<in> set (fst (reap_orphan_zombies me entries (rw_registry w)))"
  shows "pid \<notin> rw_owned w \<and>
    (\<exists>es. entries = Some es \<and> (\<exists>e\<in>set es. pe_pid e = pid \<and> pe_stat e = Some (CHR ''Z'', me)))"
  using reaper_reachable_inv [OF assms(1)] assms(2)
  by (auto simp: reaper_inv_def reap_orphan_zombies_def reapable_def Let_def split: if_splits option.splits)

definition sample_world :: reaper_world where
  "sample_world = \<lparr>rw_registry = \<lparr>rg_launching = 0, rg_launched = {7}\<rparr>, rw_guards = [], rw_owned = {7}\<rparr>"

lemma sample_world_reachable: "reaper_reachable 1 sample_world"
proof -
  let ?b = "\<lparr>rw_registry = \<lparr>rg_launching = 1, rg_launched = {}\<rparr>, rw_guards = [None], rw_owned = {}\<rparr>"
  let ?s = "\<lparr>rw_registry = \<lparr>rg_launching = 1, rg_launched = {}\<rparr>, rw_guards = [Some 7], rw_owned = {7}\<rparr>"
  have "reaper_reachable 1 ?b"
    using begun [OF start, of 1] by (simp add: reaper_start_def begin_launch_def)
  then have "reaper_reachable 1 ?s"
    using spawned [of 1 ?b 0 7] by simp
  then show ?thesis
    using launched [of 1 ?s 0] by (simp add: sample_world_def end_launch_def remove_nth_def)
qed

theorem reaper_spares_launched_witness:
  "(8 :: nat) \<notin> rw_owned sample_world \<and> fst (reap_orphan_zombies 1
     (Some [\<lparr>pe_pid = 7, pe_stat = Some (CHR ''Z'', 1), pe_waited = True\<rparr>,
       \<lparr>pe_pid = 8, pe_stat = Some (CHR ''Z'', 1), pe_waited = True\<rparr>]) (rw_registry sample_world)) = [8]"
  (is "_ \<and> fst (reap_orphan_zombies 1 ?es _) = _")
proof -
  have due: "fst (reap_orphan_zombies 1 ?es (rw_registry sample_world)) = [8]"
    by (simp add: reap_orphan_zombies_def reapable_def sample_world_def)
  then show ?thesis
    using reaper_spares_launched [OF sample_world_reachable, of 8 ?es] by simp
qed

end
