(* ===== verification/Worker_Metrics.thy ===== *)
theory Worker_Metrics
  imports Browser_Pool Browser_Process Third_Party
begin

text \<open>
  The gauges a Prometheus scrape of the worker refreshes: \<open>worker/src/browser_resources.rs\<close> collects
  them, \<open>worker/src/metrics.rs\<close> writes them.

  What \<open>/proc\<close> holds is input, read per pid; so is what the browser answers the target probe.  A gauge
  is the map from its label values to the value a scrape exposes; values stay below \<open>2\<^sup>6\<^sup>3\<close>, so the
  conversion to \<open>i64\<close> keeps them.
\<close>

section \<open>Collecting\<close>

definition lines_of :: "string \<Rightarrow> string list" where
  "lines_of s =
     (let parts = split_on (CHR 0x0A) s;
          parts = (if last parts = [] then butlast parts else parts)
      in map (\<lambda>l. if l \<noteq> [] \<and> last l = CHR 0x0D then butlast l else l) parts)"

definition parse_status_number :: "string \<Rightarrow> string \<Rightarrow> nat option" where
  "parse_status_number content field =
     (case List.map_filter (strip_prefix field) (lines_of content) of
        [] \<Rightarrow> None
      | rest # _ \<Rightarrow> (case split_spaces rest of [] \<Rightarrow> None | number # _ \<Rightarrow> parse_unsigned 64 number))"

record worker_process =
  wp_resident_bytes :: nat
  wp_threads :: nat

definition parse_worker_status :: "string \<Rightarrow> worker_process option" where
  "parse_worker_status status =
     (case parse_status_number status ''VmRSS:'' of
        None \<Rightarrow> None
      | Some kib \<Rightarrow>
          (case parse_status_number status ''Threads:'' of
             None \<Rightarrow> None
           | Some threads \<Rightarrow> Some \<lparr>wp_resident_bytes = kib * 1024, wp_threads = threads\<rparr>))"

text \<open>\<open>/proc\<close>: its pids (\<open>None\<close> where it cannot be listed) and the files of each.\<close>

record proc_fs =
  pf_pids :: "nat list option"
  pf_stat :: "nat \<Rightarrow> string option"
  pf_cmdline :: "nat \<Rightarrow> string option"
  pf_rollup :: "nat \<Rightarrow> string option"
  pf_self_status :: "string option"

definition process_parents :: "proc_fs \<Rightarrow> (nat \<times> nat) list option" where
  "process_parents fs =
     map_option (List.map_filter (\<lambda>pid. map_option (Pair pid) (Option.bind (pf_stat fs pid) parse_ppid)))
       (pf_pids fs)"

definition process_descendants :: "proc_fs \<Rightarrow> nat \<Rightarrow> nat list" where
  "process_descendants fs ancestor = (case process_parents fs of None \<Rightarrow> [] | Some ps \<Rightarrow> descendants ancestor ps)"

definition read_process :: "proc_fs \<Rightarrow> nat \<Rightarrow> string option \<times> nat option" where
  "read_process fs pid =
     (pf_cmdline fs pid, Option.bind (pf_rollup fs pid) (\<lambda>rollup. parse_status_number rollup ''Pss:''))"

definition collect_browser_processes :: "proc_fs \<Rightarrow> nat \<Rightarrow> (string, process_group) hmap option" where
  "collect_browser_processes fs me =
     map_option (\<lambda>ps. fold count_process (map (read_process fs) (descendants me ps)) hempty) (process_parents fs)"

record process_snapshot =
  psn_browser :: "(string, process_group) hmap option"
  psn_worker :: "worker_process option"

definition collect_processes :: "proc_fs \<Rightarrow> nat \<Rightarrow> process_snapshot" where
  "collect_processes fs me =
     \<lparr>psn_browser = collect_browser_processes fs me,
      psn_worker = Option.bind (pf_self_status fs) parse_worker_status\<rparr>"

record target_snapshot =
  tsn_targets :: "(string, nat) hmap"
  tsn_contexts :: nat

text \<open>
  \<open>BrowserTargetProbe::snapshot\<close>: the endpoint its connection is open to (\<open>None\<close> before the first probe
  and after a connection that failed), and the new one.
\<close>

definition probe_snapshot ::
  "bool \<Rightarrow> string \<Rightarrow> string + unit \<Rightarrow> string + target_info list \<Rightarrow> string + nat \<Rightarrow> string option \<Rightarrow>
   (string + target_snapshot) \<times> string option" where
  "probe_snapshot running ws_url dialled targets contexts client =
     (if running then (Inl ''the previous target probe is still running'', client)
      else
        (case (if client = Some ws_url then Inr () else dialled) of
           Inl e \<Rightarrow> (Inl e, None)
         | Inr _ \<Rightarrow>
             (case targets of
                Inl e \<Rightarrow> (Inl e, Some ws_url)
              | Inr ts \<Rightarrow>
                  (case contexts of
                     Inl e \<Rightarrow> (Inl e, Some ws_url)
                   | Inr n \<Rightarrow>
                       (Inr \<lparr>tsn_targets = count_target_types (map ti_type ts), tsn_contexts = n\<rparr>, Some ws_url)))))"

section \<open>Refreshing the gauges\<close>

type_synonym gauge = "(string list, int) hmap"

record worker_gauges =
  wg_browser_processes :: gauge
  wg_browser_process_pss_bytes :: gauge
  wg_browser_process_max_pss_bytes :: gauge
  wg_browser_targets :: gauge
  wg_browser_contexts :: gauge
  wg_process_resident_memory_bytes :: gauge
  wg_process_threads :: gauge

definition set_gauges :: "string \<Rightarrow> (string \<Rightarrow> nat) \<Rightarrow> string list \<Rightarrow> gauge \<Rightarrow> gauge" where
  "set_gauges scope v types g = fold (\<lambda>t. hput [scope, t] (int (v t))) types g"

definition group_of :: "(string, process_group) hmap \<Rightarrow> string \<Rightarrow> process_group" where
  "group_of groups t = (case hget groups t of Some g \<Rightarrow> g | None \<Rightarrow> \<lparr>pg_count = 0, pg_pss = 0, pg_max_pss = 0\<rparr>)"

definition refresh_process_gauges :: "string \<Rightarrow> (string, process_group) hmap option \<Rightarrow> worker_gauges \<Rightarrow> worker_gauges" where
  "refresh_process_gauges scope browser g =
     (case browser of
        Some groups \<Rightarrow>
          g\<lparr>wg_browser_processes := set_gauges scope (\<lambda>t. pg_count (group_of groups t)) PROCESS_TYPES (wg_browser_processes g),
            wg_browser_process_pss_bytes :=
              set_gauges scope (\<lambda>t. pg_pss (group_of groups t)) PROCESS_TYPES (wg_browser_process_pss_bytes g),
            wg_browser_process_max_pss_bytes :=
              set_gauges scope (\<lambda>t. pg_max_pss (group_of groups t)) PROCESS_TYPES (wg_browser_process_max_pss_bytes g)\<rparr>
      | None \<Rightarrow>
          g\<lparr>wg_browser_processes := hempty, wg_browser_process_pss_bytes := hempty,
            wg_browser_process_max_pss_bytes := hempty\<rparr>)"

definition refresh_target_gauges :: "string \<Rightarrow> target_snapshot option \<Rightarrow> worker_gauges \<Rightarrow> worker_gauges" where
  "refresh_target_gauges scope targets g =
     (case targets of
        Some snapshot \<Rightarrow>
          g\<lparr>wg_browser_targets := set_gauges scope (hcount (tsn_targets snapshot)) TARGET_TYPES (wg_browser_targets g),
            wg_browser_contexts := hput [scope] (int (tsn_contexts snapshot)) (wg_browser_contexts g)\<rparr>
      | None \<Rightarrow> g\<lparr>wg_browser_targets := hempty, wg_browser_contexts := hempty\<rparr>)"

definition refresh_worker_gauges :: "string \<Rightarrow> worker_process option \<Rightarrow> worker_gauges \<Rightarrow> worker_gauges" where
  "refresh_worker_gauges scope worker g =
     (case worker of
        Some w \<Rightarrow>
          g\<lparr>wg_process_resident_memory_bytes := hput [scope] (int (wp_resident_bytes w)) (wg_process_resident_memory_bytes g),
            wg_process_threads := hput [scope] (int (wp_threads w)) (wg_process_threads g)\<rparr>
      | None \<Rightarrow> g\<lparr>wg_process_resident_memory_bytes := hempty, wg_process_threads := hempty\<rparr>)"

text \<open>A collector that panicked or ran past its budget yields nothing (\<open>within_budget\<close>).\<close>

definition refresh_browser_gauges ::
  "string \<Rightarrow> process_snapshot option \<Rightarrow> (string + target_snapshot) option \<Rightarrow> worker_gauges \<Rightarrow> worker_gauges" where
  "refresh_browser_gauges scope processes targets g =
     (let ps = (case processes of Some ps \<Rightarrow> ps | None \<Rightarrow> \<lparr>psn_browser = None, psn_worker = None\<rparr>);
          ts = (case targets of Some (Inr t) \<Rightarrow> Some t | _ \<Rightarrow> None)
      in refresh_worker_gauges scope (psn_worker ps)
           (refresh_target_gauges scope ts (refresh_process_gauges scope (psn_browser ps) g)))"

record pool_gauges =
  pgs_total_contexts :: int
  pgs_active_contexts :: int
  pgs_claimed_contexts :: int
  pgs_available_slots :: int
  pgs_total_slots :: int

definition refresh_pool_gauges :: "browser_pool \<Rightarrow> pool_gauges" where
  "refresh_pool_gauges pool =
     (let stats = pool_get_stats pool
      in \<lparr>pgs_total_contexts = int (ps_total_contexts stats), pgs_active_contexts = int (ps_active_requests stats),
          pgs_claimed_contexts = int (ps_claimed_contexts stats), pgs_available_slots = int (ps_available_slots stats),
          pgs_total_slots = int (ps_total_slots stats)\<rparr>)"

section \<open>No process and no target is lost\<close>

lemma classify_process_known: "classify_process cmdline \<in> set PROCESS_TYPES"
  by (simp add: classify_process_def PROCESS_TYPES_def Let_def split: option.splits)

lemma classify_target_known: "classify_target t \<in> set TARGET_TYPES"
  by (simp add: classify_target_def TARGET_TYPES_def)

lemma distinct_types: "distinct PROCESS_TYPES" "distinct TARGET_TYPES"
  by (simp_all add: PROCESS_TYPES_def TARGET_TYPES_def)

text \<open>A process counts when its command line could be read and is not empty.\<close>

definition counts :: "string option \<times> nat option \<Rightarrow> bool" where
  "counts p \<longleftrightarrow> (\<exists>cmd. fst p = Some cmd \<and> cmd \<noteq> [])"

definition class_of :: "string option \<times> nat option \<Rightarrow> string" where
  "class_of p = classify_process (the (fst p))"

definition pss_of :: "string option \<times> nat option \<Rightarrow> nat" where
  "pss_of p = (case snd p of Some kib \<Rightarrow> kib * 1024 | None \<Rightarrow> 0)"

lemma group_of_count_process:
  "group_of (count_process p groups) t =
     (if counts p \<and> class_of p = t
      then \<lparr>pg_count = pg_count (group_of groups t) + 1, pg_pss = pg_pss (group_of groups t) + pss_of p,
            pg_max_pss = max (pg_max_pss (group_of groups t)) (pss_of p)\<rparr>
      else group_of groups t)"
  by (cases p) (auto simp: count_process_def group_of_def counts_def class_of_def pss_of_def Let_def
      split: option.splits)

abbreviation of_type :: "string \<Rightarrow> (string option \<times> nat option) list \<Rightarrow> (string option \<times> nat option) list" where
  "of_type t ps \<equiv> filter (\<lambda>p. counts p \<and> class_of p = t) ps"

lemma group_of_fold:
  "pg_count (group_of (fold count_process ps groups) t) = pg_count (group_of groups t) + length (of_type t ps) \<and>
   pg_pss (group_of (fold count_process ps groups) t) = pg_pss (group_of groups t) + sum_list (map pss_of (of_type t ps)) \<and>
   pg_max_pss (group_of (fold count_process ps groups) t) =
     fold max (map pss_of (of_type t ps)) (pg_max_pss (group_of groups t))"
  by (induction ps arbitrary: groups) (simp_all add: group_of_count_process max.commute)

lemma group_of_empty: "group_of [] t = \<lparr>pg_count = 0, pg_pss = 0, pg_max_pss = 0\<rparr>"
  by (simp add: group_of_def)

lemma hget_set_gauges:
  "hget (set_gauges scope v types g) k =
     (case k of [s, t] \<Rightarrow> if s = scope \<and> t \<in> set types then Some (int (v t)) else hget g k | _ \<Rightarrow> hget g k)"
proof (induction types arbitrary: g)
  case Nil
  then show ?case by (auto simp: set_gauges_def split: list.splits)
next
  case (Cons t types)
  have "set_gauges scope v (t # types) g = set_gauges scope v types (hput [scope, t] (int (v t)) g)"
    by (simp add: set_gauges_def)
  then show ?case by (auto simp: Cons split: list.splits)
qed

lemma sum_of_types:
  "\<lbrakk>distinct types; \<forall>p\<in>set ps. counts p \<longrightarrow> class_of p \<in> set types\<rbrakk> \<Longrightarrow>
     (\<Sum>t\<leftarrow>types. length (of_type t ps)) = length (filter counts ps)"
proof (induction ps)
  case (Cons p ps)
  have "(\<Sum>t\<leftarrow>types. length (of_type t (p # ps))) =
      (\<Sum>t\<leftarrow>types. if counts p \<and> class_of p = t then 1 else 0) + (\<Sum>t\<leftarrow>types. length (of_type t ps))"
    by (simp add: sum_list_addf [symmetric] if_distrib cong: if_cong) (rule arg_cong [where f = sum_list], simp)
  moreover have "(\<Sum>t\<leftarrow>types. if counts p \<and> class_of p = t then 1 else (0::nat)) = (if counts p then 1 else 0)"
    using Cons.prems by (auto simp: sum_list_distinct_conv_sum_set sum.delta)
  ultimately show ?case using Cons by auto
qed simp

definition after_scrape ::
  "proc_fs \<Rightarrow> nat \<Rightarrow> string \<Rightarrow> (string + target_snapshot) option \<Rightarrow> worker_gauges \<Rightarrow> worker_gauges" where
  "after_scrape fs me scope targets g = refresh_browser_gauges scope (Some (collect_processes fs me)) targets g"

lemma sum_list_int: "(\<Sum>t\<leftarrow>ts. int (f t)) = int (\<Sum>t\<leftarrow>ts. f t)"
  by (induction ts) simp_all

abbreviation gauge_at :: "gauge \<Rightarrow> string \<Rightarrow> string \<Rightarrow> int option" where
  "gauge_at g scope t \<equiv> hget g [scope, t]"

lemmas refresh_simps = refresh_browser_gauges_def refresh_worker_gauges_def refresh_target_gauges_def
  refresh_process_gauges_def Let_def

lemma refresh_keeps_process_gauges:
  "wg_browser_processes (refresh_browser_gauges scope (Some ps) targets g) =
     (case psn_browser ps of None \<Rightarrow> []
      | Some groups \<Rightarrow> set_gauges scope (\<lambda>t. pg_count (group_of groups t)) PROCESS_TYPES (wg_browser_processes g))"
  "wg_browser_process_pss_bytes (refresh_browser_gauges scope (Some ps) targets g) =
     (case psn_browser ps of None \<Rightarrow> []
      | Some groups \<Rightarrow> set_gauges scope (\<lambda>t. pg_pss (group_of groups t)) PROCESS_TYPES (wg_browser_process_pss_bytes g))"
  by (simp_all add: refresh_simps split: option.splits)

text \<open>
  After a scrape every type of the closed set has its gauges: the number of the worker's
  descendant processes of that type and the sum of their memory, zero included; together they count
  every descendant whose command line could be read, once.  Where \<open>/proc\<close> cannot be listed the
  gauges are absent.
\<close>

theorem browser_gauges_account_for_every_process:
  "case process_parents fs of
     None \<Rightarrow> wg_browser_processes (after_scrape fs me scope targets g) = [] \<and>
       wg_browser_process_pss_bytes (after_scrape fs me scope targets g) = []
   | Some parents \<Rightarrow>
       list_all (\<lambda>t.
           gauge_at (wg_browser_processes (after_scrape fs me scope targets g)) scope t =
             Some (int (length (of_type t (map (read_process fs) (descendants me parents))))) \<and>
           gauge_at (wg_browser_process_pss_bytes (after_scrape fs me scope targets g)) scope t =
             Some (int (sum_list (map pss_of (of_type t (map (read_process fs) (descendants me parents)))))))
         PROCESS_TYPES \<and>
       (\<Sum>t\<leftarrow>PROCESS_TYPES. the (gauge_at (wg_browser_processes (after_scrape fs me scope targets g)) scope t)) =
         int (length (filter counts (map (read_process fs) (descendants me parents))))"
proof (cases "process_parents fs")
  case None
  then show ?thesis
    by (simp add: after_scrape_def refresh_keeps_process_gauges collect_processes_def collect_browser_processes_def)
next
  case (Some parents)
  let ?ps = "map (read_process fs) (descendants me parents)"
  let ?g = "refresh_browser_gauges scope (Some (collect_processes fs me)) targets g"
  have at_type: "gauge_at (wg_browser_processes ?g) scope t = Some (int (length (of_type t ?ps)))"
    "gauge_at (wg_browser_process_pss_bytes ?g) scope t = Some (int (sum_list (map pss_of (of_type t ?ps))))"
    if "t \<in> set PROCESS_TYPES" for t
    using that Some group_of_fold [of ?ps "[]" t]
    by (simp_all add: refresh_keeps_process_gauges collect_processes_def collect_browser_processes_def
        hget_set_gauges group_of_empty)
  have "(\<Sum>t\<leftarrow>PROCESS_TYPES. the (gauge_at (wg_browser_processes ?g) scope t)) =
      (\<Sum>t\<leftarrow>PROCESS_TYPES. int (length (of_type t ?ps)))"
    by (rule arg_cong [where f = sum_list], rule map_cong [OF refl]) (simp only: at_type option.sel)
  also have "\<dots> = int (\<Sum>t\<leftarrow>PROCESS_TYPES. length (of_type t ?ps))"
    by (rule sum_list_int)
  also have "(\<Sum>t\<leftarrow>PROCESS_TYPES. length (of_type t ?ps)) = length (filter counts ?ps)"
    by (rule sum_of_types) (simp_all add: distinct_types class_of_def classify_process_known)
  finally show ?thesis
    using Some at_type by (simp add: after_scrape_def list_all_iff)
qed

end
