(* ===== verification/Middleware.thy ===== *)
theory Middleware
  imports Browser_Process
begin

text \<open>
  What shapes a browser before a page is loaded: the launch arguments (\<open>BrowserPool::new\<close>,
  \<open>common/src/browser_middleware.rs\<close>) and the middlewares that run on every new tab.

  A binary-params middleware is a function from the headless flag and the arguments so far to the
  arguments; the two of the library are given.  \<open>headless_chrome\<close>'s default arguments are input.
\<close>

section \<open>One switch for the disabled features\<close>

lemma fold_add_feature:
  "distinct acc \<Longrightarrow> distinct (fold add_feature fs acc) \<and> set (fold add_feature fs acc) = set acc \<union> set fs"
  by (induction fs arbitrary: acc) (auto simp: add_feature_def)

abbreviation plain_feature :: "string \<Rightarrow> bool" where
  "plain_feature f \<equiv> f \<noteq> [] \<and> trim f = f \<and> CHR '','' \<notin> set f"

lemma set_trim: "set (trim s) \<subseteq> set s"
  by (auto simp: trim_def dest!: set_dropWhileD)

lemma disabled_features_plain: "\<lbrakk>disabled_features arg = Some fs; f \<in> set fs\<rbrakk> \<Longrightarrow> plain_feature f"
  using set_trim set_split_on by (fastforce simp: disabled_features_def trim_trim)

lemma features_of_plain: "f \<in> set (features_of args) \<Longrightarrow> plain_feature f"
proof (induction args)
  case (Cons arg args)
  then show ?case
    using disabled_features_plain [of arg _ f] by (cases "disabled_features arg") (auto simp: features_of_def)
qed (simp add: features_of_def)

lemma features_of_filter [simp]:
  "features_of (filter (\<lambda>arg. \<exists>y. disabled_features arg = Some y) args) = features_of args"
  by (induction args) (auto simp: features_of_def)

lemma strip_prefix_append [simp]: "strip_prefix p (p @ s) = Some s"
  by (simp add: strip_prefix_def starts_with_def)

lemma disabled_features_join:
  assumes "\<forall>f\<in>set fs. plain_feature f"
  shows "disabled_features (DISABLE_FEATURES @ join_with '','' fs) = Some fs"
proof (cases "fs = []")
  case False
  then have "split_on (CHR '','') (join_with '','' fs) = fs"
    using assms by (intro split_join) auto
  then show ?thesis
    using assms by (simp add: disabled_features_def map_idI cong: map_cong)
next
  case True
  then show ?thesis
    using strip_prefix_append [of DISABLE_FEATURES "[]"] by (simp add: disabled_features_def trim_def)
qed

text \<open>
  Chromium honours only its last \<open>--disable-features\<close> switch. When the arguments or the pool ask
  for one, the merged switch names exactly the features that the crate's defaults, the middlewares
  and the pool disable, once each, and no other such switch is left on the command line.
\<close>

theorem merged_switch_disables_everything:
  assumes "ma_disable_features (merge_disable_features defaults args extra) = Some switch"
    and "\<forall>f\<in>set extra. plain_feature f"
  shows "(\<exists>fs. disabled_features switch = Some fs \<and> distinct fs \<and>
      set fs = set (features_of defaults) \<union> set (features_of args) \<union> set extra) \<and>
    (\<forall>arg \<in> set (ma_args (merge_disable_features defaults args extra)) \<union>
       (set defaults - set (ma_ignored_defaults (merge_disable_features defaults args extra))).
       disabled_features arg = None)"
proof -
  let ?fs = "fold add_feature (features_of defaults @ features_of args @ extra) []"
  have fs: "distinct ?fs" "set ?fs = set (features_of defaults) \<union> set (features_of args) \<union> set extra"
    using fold_add_feature [of "[]" "features_of defaults @ features_of args @ extra"] by auto
  then have "disabled_features (DISABLE_FEATURES @ join_with '','' ?fs) = Some ?fs"
    using assms(2) by (intro disabled_features_join) (auto dest: features_of_plain)
  then show ?thesis
    using assms(1) fs by (auto simp: merge_disable_features_def Let_def split: if_splits)
qed

theorem merged_switch_disables_everything_witness:
  "disabled_features ''--disable-features=Translate,IsolateOrigins,BackForwardCache'' =
     Some [''Translate'', ''IsolateOrigins'', ''BackForwardCache'']"
proof -
  let ?m = "merge_disable_features [''--disable-features=Translate''] [''--a'', ''--disable-features=IsolateOrigins'']
    [''BackForwardCache'']"
  have m: "ma_disable_features ?m = Some ''--disable-features=Translate,IsolateOrigins,BackForwardCache''"
    by code_simp
  have plain: "\<forall>f\<in>set [''BackForwardCache'']. plain_feature f"
    by code_simp
  obtain fs where "disabled_features ''--disable-features=Translate,IsolateOrigins,BackForwardCache'' = Some fs"
    using merged_switch_disables_everything [OF m plain] by blast
  then show ?thesis by code_simp
qed

section \<open>Launching the browser\<close>

definition default_apply_args :: "bool \<Rightarrow> string list \<Rightarrow> string list" where
  "default_apply_args headless args =
     args @
     [''--no-sandbox'', ''--disable-dev-shm-usage'',
      ''--disable-blink-features=AutomationControlled'', ''--exclude-switches=enable-automation'',
      ''--window-size=1920,1080'',
      ''--no-first-run'', ''--no-default-browser-check'',
      ''--disable-background-timer-throttling'', ''--disable-backgrounding-occluded-windows'',
      ''--disable-renderer-backgrounding'',
      ''--disk-cache-dir=/chrome-data/cache'', ''--disk-cache-size=524288000'', ''--media-cache-size=104857600'',
      ''--enable-features=TabDiscarding'', ''--js-flags=--max-old-space-size=512''] @
     (if \<not> headless then [''--disable-infobars'', ''--disable-features=IsolateOrigins,site-per-process''] else [])"

definition brave_apply_args :: "bool \<Rightarrow> string list \<Rightarrow> string list" where
  "brave_apply_args headless args =
     args @
     [''--no-sandbox'', ''--disable-dev-shm-usage'',
      ''--disable-blink-features=AutomationControlled'', ''--exclude-switches=enable-automation'',
      ''--disable-brave-extension'',
      ''--window-size=1920,1080'',
      ''--no-first-run'', ''--no-default-browser-check'',
      ''--disable-background-timer-throttling'', ''--disable-backgrounding-occluded-windows'',
      ''--disable-renderer-backgrounding'',
      ''--disk-cache-dir=/chrome-data/cache'', ''--disk-cache-size=524288000'', ''--media-cache-size=104857600'',
      ''--enable-features=TabDiscarding'', ''--js-flags=--max-old-space-size=512''] @
     (if \<not> headless then [''--disable-infobars'', ''--disable-features=IsolateOrigins,site-per-process''] else [])"

record launch_options =
  lo_headless :: bool
  lo_proxy_server :: "string option"
  lo_idle_browser_timeout :: millis
  lo_ignore_default_args :: "string list"
  lo_args :: "string list"
  lo_path :: "string option"

text \<open>The options \<open>BrowserPool::new\<close> launches with; the path stays unset for the crate to choose.\<close>

definition launch_with ::
  "string list \<Rightarrow> (bool \<Rightarrow> string list \<Rightarrow> string list) list \<Rightarrow> bool \<Rightarrow> bool \<Rightarrow> string option \<Rightarrow> string option \<Rightarrow>
   launch_options" where
  "launch_with defaults middlewares headless disable_bfcache proxy_server path =
     (let args = fold (\<lambda>apply_args. apply_args headless) middlewares [];
          merged = merge_disable_features defaults args (if disable_bfcache then [''BackForwardCache''] else [])
      in \<lparr>lo_headless = headless, lo_proxy_server = proxy_server, lo_idle_browser_timeout = 3600000,
          lo_ignore_default_args = ma_ignored_defaults merged,
          lo_args = ma_args merged @ (case ma_disable_features merged of Some s \<Rightarrow> [s] | None \<Rightarrow> []),
          lo_path = path\<rparr>)"

section \<open>Tab-init middlewares\<close>

text \<open>What a middleware asks of the new tab, in order.\<close>

datatype tab_call =
    TC_EvaluateUserAgent
  | TC_SetUserAgentOverride string
  | TC_NetworkEnable
  | TC_SetBlockedURLs "string list"
  | TC_EnableRequestInterception

text \<open>\<open>str::replace\<close>: the leftmost matches that do not overlap.\<close>

function replace_sub :: "string \<Rightarrow> string \<Rightarrow> string \<Rightarrow> string" where
  "replace_sub pat by [] = []"
| "replace_sub pat by (c # cs) =
     (if pat \<noteq> [] \<and> starts_with pat (c # cs) then by @ replace_sub pat by (drop (length pat) (c # cs))
      else c # replace_sub pat by cs)"
  by pat_completeness auto
termination
  by (relation "measure (\<lambda>(pat, by, s). length s)") (auto simp: Suc_le_eq)

datatype ua_answer = UA_Failed string | UA_NoValue | UA_NotString | UA_String string

text \<open>
  \<open>DefaultTabInitMiddleware\<close>: the cache, what the page answers and whether the override is accepted;
  the calls, the new cache and the error the tab's creation logs.
\<close>

definition default_tab_init ::
  "bool \<Rightarrow> string option \<Rightarrow> ua_answer \<Rightarrow> string + unit \<Rightarrow> tab_call list \<times> string option \<times> (string + unit)" where
  "default_tab_init headless cache answer override =
     (if \<not> headless then ([], cache, Inr ())
      else (case cache of
              Some ua \<Rightarrow> ([TC_SetUserAgentOverride ua], cache, override)
            | None \<Rightarrow>
                (case answer of
                   UA_Failed e \<Rightarrow>
                     ([TC_EvaluateUserAgent], None, Inl (''Failed to evaluate navigator.userAgent: '' @ e))
                 | UA_NoValue \<Rightarrow>
                     ([TC_EvaluateUserAgent], None,
                      Inl ''Could not extract UA string from navigator.userAgent (no value)'')
                 | UA_NotString \<Rightarrow>
                     ([TC_EvaluateUserAgent], None,
                      Inl ''Could not extract UA string from navigator.userAgent (not a string)'')
                 | UA_String original \<Rightarrow>
                     (let ua = replace_sub ''HeadlessChrome'' ''Chrome'' original
                      in ([TC_EvaluateUserAgent, TC_SetUserAgentOverride ua], Some ua, override)))))"

text \<open>The patterns \<open>BlockedUrlsMiddleware::new\<close> warns about; all of them are kept.\<close>

definition warned_patterns :: "string list \<Rightarrow> string list" where
  "warned_patterns patterns = filter (\<lambda>p. CHR ''*'' \<notin> set p) patterns"

definition blocked_urls_init :: "string list \<Rightarrow> string + unit \<Rightarrow> string + unit \<Rightarrow> tab_call list \<times> (string + unit)" where
  "blocked_urls_init patterns enabled installed =
     (if patterns = [] then ([], Inr ())
      else (case enabled of
              Inl e \<Rightarrow> ([TC_NetworkEnable], Inl e)
            | Inr _ \<Rightarrow> ([TC_NetworkEnable, TC_SetBlockedURLs patterns], installed)))"

section \<open>Blocked resource types\<close>

datatype cdp_type =
    CT_Document | CT_Stylesheet | CT_Image | CT_Media | CT_Font | CT_Script | CT_TextTrack | CT_Xhr | CT_Fetch
  | CT_Prefetch | CT_EventSource | CT_WebSocket | CT_Manifest | CT_SignedExchange | CT_Ping
  | CT_CspViolationReport | CT_Preflight | CT_FedCm | CT_Other

datatype type_support = Safe | Risky | Unsupported

definition RESOURCE_TYPES :: "(string \<times> cdp_type \<times> type_support) list" where
  "RESOURCE_TYPES =
     [(''document'', CT_Document, Risky), (''stylesheet'', CT_Stylesheet, Risky), (''image'', CT_Image, Risky),
      (''media'', CT_Media, Safe), (''font'', CT_Font, Safe), (''script'', CT_Script, Risky),
      (''texttrack'', CT_TextTrack, Unsupported), (''xhr'', CT_Xhr, Risky), (''fetch'', CT_Fetch, Risky),
      (''prefetch'', CT_Prefetch, Unsupported), (''eventsource'', CT_EventSource, Risky),
      (''websocket'', CT_WebSocket, Unsupported), (''manifest'', CT_Manifest, Unsupported),
      (''signedexchange'', CT_SignedExchange, Unsupported), (''ping'', CT_Ping, Risky),
      (''cspviolationreport'', CT_CspViolationReport, Safe), (''preflight'', CT_Preflight, Unsupported),
      (''fedcm'', CT_FedCm, Unsupported), (''other'', CT_Other, Risky)]"

record blocked_type =
  bt_type :: cdp_type
  bt_label :: string

text \<open>One name of the list: trimmed, any case; unknown and unsupported types are dropped, repeats collapse.\<close>

definition add_blocked_name :: "string \<Rightarrow> blocked_type list \<Rightarrow> blocked_type list" where
  "add_blocked_name raw types =
     (let name = trim raw
      in if name = [] then types
         else (case map_of RESOURCE_TYPES (to_lower name) of
                 None \<Rightarrow> types
               | Some (t, support) \<Rightarrow>
                   if support = Unsupported \<or> to_lower name \<in> bt_label ` set types then types
                   else types @ [\<lparr>bt_type = t, bt_label = to_lower name\<rparr>]))"

definition blocked_types_new :: "string list \<Rightarrow> blocked_type list" where
  "blocked_types_new names = fold add_blocked_name names []"

definition blocked_types_from_env :: "string option \<Rightarrow> blocked_type list" where
  "blocked_types_from_env var =
     blocked_types_new (split_on (CHR '','') (case var of Some raw \<Rightarrow> raw | None \<Rightarrow> []))"

definition blocked_types_init :: "blocked_type list \<Rightarrow> string + unit \<Rightarrow> tab_call list \<times> (string + unit)" where
  "blocked_types_init types installed =
     (if types = [] then ([], Inr ()) else ([TC_EnableRequestInterception], installed))"

datatype paused_decision = Fail_BlockedByClient | Continue_Request

definition request_paused :: "blocked_type list \<Rightarrow> cdp_type \<Rightarrow> paused_decision" where
  "request_paused types t = (if t \<in> set (map bt_type types) then Fail_BlockedByClient else Continue_Request)"

text \<open>\<open>ScopeConfig::blocked_resource_types\<close>: the types of every middleware of the scope.\<close>

definition scope_blocked_types :: "blocked_type list list \<Rightarrow> blocked_type list" where
  "scope_blocked_types middlewares = concat middlewares"

text \<open>What \<open>enable_fetch\<close> asks Chrome to pause: the blocked types, or everything when a proxy authenticates.\<close>

definition fetch_patterns :: "bool \<Rightarrow> blocked_type list \<Rightarrow> cdp_type list option" where
  "fetch_patterns proxy_auth types = (if \<not> proxy_auth then Some (map bt_type types) else None)"

definition pauses :: "cdp_type list option \<Rightarrow> cdp_type \<Rightarrow> bool" where
  "pauses patterns t = (case patterns of None \<Rightarrow> True | Some ts \<Rightarrow> t \<in> set ts)"

definition type_named :: "string list \<Rightarrow> string \<Rightarrow> cdp_type \<Rightarrow> bool" where
  "type_named names label t \<longleftrightarrow>
     (\<exists>name\<in>set names. to_lower (trim name) = label) \<and>
     (\<exists>support. map_of RESOURCE_TYPES label = Some (t, support) \<and> support \<noteq> Unsupported)"

lemma no_empty_type_name [simp]: "map_of RESOURCE_TYPES [] = None"
  by (simp add: RESOURCE_TYPES_def)

lemma to_lower_Nil [simp]: "to_lower [] = []"
  by (simp add: to_lower_def)

lemma add_blocked_name_distinct:
  "distinct (map bt_label types) \<Longrightarrow> distinct (map bt_label (add_blocked_name raw types))"
  by (auto simp: add_blocked_name_def Let_def split: option.splits)

lemma set_add_blocked_name:
  assumes "\<forall>b\<in>set types. \<exists>s. map_of RESOURCE_TYPES (bt_label b) = Some (bt_type b, s)"
  shows "set (add_blocked_name raw types) = set types \<union> {b. type_named [raw] (bt_label b) (bt_type b)}"
proof -
  have known: "b \<in> set types \<Longrightarrow> bt_label b = l \<Longrightarrow> map_of RESOURCE_TYPES l = Some (t, s) \<Longrightarrow> bt_type b = t"
    for b l t s
    using assms by fastforce
  show ?thesis
  proof (cases "map_of RESOURCE_TYPES (to_lower (trim raw))")
    case None
    then show ?thesis by (auto simp: add_blocked_name_def type_named_def Let_def)
  next
    case (Some ts)
    then obtain t support where ts: "map_of RESOURCE_TYPES (to_lower (trim raw)) = Some (t, support)"
      by (cases ts) auto
    then have "trim raw \<noteq> []" by auto
    with ts show ?thesis
      by (auto simp: add_blocked_name_def type_named_def Let_def intro: known dest: known)
        (metis (full_types) blocked_type.surjective known old.unit.exhaust)
  qed
qed

lemma sample_blocked_types:
  "map bt_label (blocked_types_new ['' Media'', ''FONT'', [], ''media'', ''video'', ''prefetch'', ''textTrack'', ''image'']) =
     [''media'', ''font'', ''image'']"
  by code_simp

text \<open>
  From a list of names the interceptor blocks exactly the resource types that a name of the list
  denotes in any letter case and that Chrome's Fetch filter accepts, each once; with or without proxy
  authentication Chrome pauses every load the interceptor wants to drop.
\<close>

theorem blocked_types_exact:
  "distinct (map bt_label (blocked_types_new names)) \<and>
   (request_paused (blocked_types_new names) t = Fail_BlockedByClient \<longleftrightarrow> (\<exists>label. type_named names label t)) \<and>
   (request_paused (blocked_types_new names) t = Continue_Request \<or>
      pauses (fetch_patterns proxy_auth (blocked_types_new names)) t)"
proof -
  have all: "distinct (map bt_label (fold add_blocked_name names types)) \<and>
      set (fold add_blocked_name names types) = set types \<union> {b. type_named names (bt_label b) (bt_type b)}"
    if "distinct (map bt_label types)"
      "\<forall>b\<in>set types. \<exists>s. map_of RESOURCE_TYPES (bt_label b) = Some (bt_type b, s)" for types
    using that
  proof (induction names arbitrary: types)
    case (Cons n names)
    have "\<forall>b\<in>set (add_blocked_name n types). \<exists>s. map_of RESOURCE_TYPES (bt_label b) = Some (bt_type b, s)"
      unfolding set_add_blocked_name [OF Cons.prems(2)] using Cons.prems(2) by (auto simp: type_named_def)
    from Cons.IH [OF add_blocked_name_distinct [OF Cons.prems(1)] this]
    show ?case
      unfolding set_add_blocked_name [OF Cons.prems(2)] fold_simps by (auto simp: type_named_def)
  qed (simp add: type_named_def)
  have blocks: "t \<in> set (map bt_type (blocked_types_new names)) \<longleftrightarrow> (\<exists>label. type_named names label t)"
  proof -
    have "set (blocked_types_new names) = {b. type_named names (bt_label b) (bt_type b)}"
      using all [of "[]"] by (simp add: blocked_types_new_def)
    then show ?thesis
      by (auto simp: image_iff) (metis blocked_type.select_convs)
  qed
  show ?thesis
    using all [of "[]"] blocks
    by (auto simp: request_paused_def pauses_def fetch_patterns_def blocked_types_new_def)
qed

end
