(* ===== verification/Worker_Main.thy ===== *)
theory Worker_Main
  imports Config Middleware
begin

text \<open>
  The worker binary's configuration from the environment (\<open>worker/src/main.rs\<close>).

  A variable is set, unset, or set to bytes that are not UTF-8.  A startup error is the variable it
  names; its text is left out.
\<close>

section \<open>Reading variables\<close>

datatype env_value = Env_Set string | Env_Unset | Env_NotUnicode

type_synonym environment = "string \<Rightarrow> env_value"

text \<open>\<open>env_parsed\<close> and \<open>env_enum\<close> differ in the error text only.\<close>

definition env_parsed :: "environment \<Rightarrow> string \<Rightarrow> (string \<Rightarrow> 'a option) \<Rightarrow> 'a \<Rightarrow> string + 'a" where
  "env_parsed env key parse dflt =
     (case env key of
        Env_Set raw \<Rightarrow> (case parse (trim raw) of Some v \<Rightarrow> Inr v | None \<Rightarrow> Inl key)
      | Env_Unset \<Rightarrow> Inr dflt
      | Env_NotUnicode \<Rightarrow> Inl key)"

definition env_or :: "environment \<Rightarrow> string \<Rightarrow> string \<Rightarrow> string" where
  "env_or env key dflt = (case env key of Env_Set s \<Rightarrow> s | _ \<Rightarrow> dflt)"

definition env_ok :: "environment \<Rightarrow> string \<Rightarrow> string option" where
  "env_ok env key = (case env key of Env_Set s \<Rightarrow> Some s | _ \<Rightarrow> None)"

text \<open>The question mark.\<close>

definition or_fail :: "string + 'a \<Rightarrow> ('a \<Rightarrow> string + 'b) \<Rightarrow> string + 'b" where
  "or_fail r k = (case r of Inl e \<Rightarrow> Inl e | Inr v \<Rightarrow> k v)"

section \<open>The configuration\<close>

record deployment =
  dp_scope :: scope_config
  dp_browser_path :: "string option"
  dp_blocked_types :: "blocked_type list"
  dp_grpc_port :: nat
  dp_pod_name :: string
  dp_pod_ip :: string

definition load_config_from_env :: "proxy_provider \<Rightarrow> environment \<Rightarrow> string + deployment" where
  "load_config_from_env provider env =
     or_fail (env_parsed env ''WORKER_GRPC_PORT'' (parse_unsigned 16) 50052) (\<lambda>grpc_port.
     or_fail (env_parsed env ''WORKER_MAX_CONTEXTS'' (parse_unsigned 16) 3) (\<lambda>max_contexts.
     or_fail (env_parsed env ''WORKER_SESSION_MODE'' session_mode_from_str Reusable) (\<lambda>mode.
     or_fail (env_parsed env ''WORKER_MIN_CONTEXTS'' (parse_unsigned 16) 0) (\<lambda>min_contexts.
     or_fail (env_parsed env ''WORKER_HEADLESS'' parse_bool True) (\<lambda>headless.
     or_fail (env_parsed env ''WORKER_CONTEXT_ISOLATION'' context_isolation_from_str Isolated) (\<lambda>isolation.
     or_fail (env_parsed env ''WORKER_MAX_IDLE_TIME_SECS'' (parse_unsigned 64)
       (if mode = Dedicated then DEFAULT_DEDICATED_MAX_IDLE_TIME_SECS else DEFAULT_MAX_IDLE_TIME_SECS)) (\<lambda>idle_secs.
     or_fail (env_parsed env ''WORKER_DESTROY_SESSION_ON_BLOCK'' parse_bool (mode = Dedicated)) (\<lambda>destroy.
     or_fail (env_parsed env ''WORKER_BLOCK_QUARANTINE_SECS'' (parse_unsigned 64)
       (if mode = Reusable then DEFAULT_BLOCK_QUARANTINE_SECS else 0)) (\<lambda>quarantine_secs.
     or_fail (env_parsed env ''WORKER_DISABLE_BACK_FORWARD_CACHE'' parse_bool False) (\<lambda>disable_bfcache.
     or_fail (env_parsed env ''WORKER_CLOSE_TAB_AFTER_REQUEST'' parse_bool False) (\<lambda>close_tab.
       Inr \<lparr>dp_scope =
              \<lparr>sc_name = env_or env ''WORKER_SCOPE_NAME'' ''local_dev'', sc_proxy_provider = provider,
               sc_min_contexts = min_contexts, sc_max_contexts = max_contexts, sc_session_mode = mode,
               sc_headless = headless,
               sc_lifecycle =
                 \<lparr>max_lifetime = 6 * 3600 * 1000, max_requests = 10000, max_cache_size_mb = 500,
                  max_idle_time = idle_secs * 1000, rotation_strategy = Hybrid\<rparr>,
               sc_diagnostics = diagnostics_from_env (env_ok env), sc_context_isolation = isolation,
               sc_destroy_session_on_block = destroy, sc_block_quarantine = quarantine_secs * 1000,
               sc_disable_back_forward_cache = disable_bfcache, sc_close_tab_after_request = close_tab,
               sc_challenge_detectors = 0\<rparr>,
            dp_browser_path = env_ok env ''WORKER_BROWSER_PATH'',
            dp_blocked_types = blocked_types_from_env (env_ok env ''WORKER_BLOCKED_RESOURCE_TYPES''),
            dp_grpc_port = grpc_port,
            dp_pod_name = env_or env ''POD_NAME'' ''worker-local'',
            dp_pod_ip = env_or env ''POD_IP'' ''0.0.0.0''\<rparr>)))))))))))"

section \<open>A typo is never a silent default\<close>

text \<open>The variables with a type, in the order they are read, with the values each accepts.\<close>

definition TYPED_VARS :: "(string \<times> (string \<Rightarrow> bool)) list" where
  "TYPED_VARS =
     [(''WORKER_GRPC_PORT'', \<lambda>s. parse_unsigned 16 s \<noteq> None),
      (''WORKER_MAX_CONTEXTS'', \<lambda>s. parse_unsigned 16 s \<noteq> None),
      (''WORKER_SESSION_MODE'', \<lambda>s. session_mode_from_str s \<noteq> None),
      (''WORKER_MIN_CONTEXTS'', \<lambda>s. parse_unsigned 16 s \<noteq> None),
      (''WORKER_HEADLESS'', \<lambda>s. parse_bool s \<noteq> None),
      (''WORKER_CONTEXT_ISOLATION'', \<lambda>s. context_isolation_from_str s \<noteq> None),
      (''WORKER_MAX_IDLE_TIME_SECS'', \<lambda>s. parse_unsigned 64 s \<noteq> None),
      (''WORKER_DESTROY_SESSION_ON_BLOCK'', \<lambda>s. parse_bool s \<noteq> None),
      (''WORKER_BLOCK_QUARANTINE_SECS'', \<lambda>s. parse_unsigned 64 s \<noteq> None),
      (''WORKER_DISABLE_BACK_FORWARD_CACHE'', \<lambda>s. parse_bool s \<noteq> None),
      (''WORKER_CLOSE_TAB_AFTER_REQUEST'', \<lambda>s. parse_bool s \<noteq> None)]"

definition malformed :: "environment \<Rightarrow> string \<times> (string \<Rightarrow> bool) \<Rightarrow> bool" where
  "malformed env = (\<lambda>(key, accepts).
     (case env key of Env_Set raw \<Rightarrow> \<not> accepts (trim raw) | Env_Unset \<Rightarrow> False | Env_NotUnicode \<Rightarrow> True))"

lemma env_parsed_malformed:
  "env_parsed env key parse dflt =
     (if malformed env (key, \<lambda>s. parse s \<noteq> None) then Inl key
      else Inr (case env key of Env_Set raw \<Rightarrow> the (parse (trim raw)) | _ \<Rightarrow> dflt))"
  by (auto simp: env_parsed_def malformed_def split: env_value.splits option.splits)

lemma or_fail_if: "or_fail (if b then Inl key else Inr v) k = (if b then Inl key else k v)"
  by (simp add: or_fail_def)

lemma find_step: "find P (x # xs) = (if P x then Some x else find P xs)"
  by simp

text \<open>
  The worker's configuration is refused exactly when a typed variable is set to a value that does
  not parse, naming the first of them; otherwise it loads, and a session mode that was set is the mode
  of the scope.
\<close>

theorem worker_config_refuses_typos:
  "case find (malformed env) TYPED_VARS of
     Some (key, _) \<Rightarrow> load_config_from_env provider env = Inl key
   | None \<Rightarrow> \<exists>d. load_config_from_env provider env = Inr d \<and>
       (case env ''WORKER_SESSION_MODE'' of
          Env_Set raw \<Rightarrow> session_mode_from_str (trim raw) = Some (sc_session_mode (dp_scope d))
        | _ \<Rightarrow> sc_session_mode (dp_scope d) = Reusable)"
proof -
  let ?Q = "\<lambda>r. \<exists>d. r = Inr d \<and>
     (case env ''WORKER_SESSION_MODE'' of
        Env_Set raw \<Rightarrow> session_mode_from_str (trim raw) = Some (sc_session_mode (dp_scope d))
      | _ \<Rightarrow> sc_session_mode (dp_scope d) = Reusable)"
  have step: "case (if b then Some (key, f) else r) of
       Some (k, _) \<Rightarrow> (if b then Inl key else rest) = Inl k
     | None \<Rightarrow> ?Q (if b then Inl key else rest)"
    if "\<not> b \<Longrightarrow> case r of Some (k, _) \<Rightarrow> rest = Inl k | None \<Rightarrow> ?Q rest"
    for b key and f :: "string \<Rightarrow> bool" and r :: "(string \<times> (string \<Rightarrow> bool)) option" and rest :: "string + deployment"
    using that by simp
  show ?thesis
    unfolding load_config_from_env_def env_parsed_malformed or_fail_if TYPED_VARS_def find_step find.simps(1)
    by (intro step, cases "env ''WORKER_SESSION_MODE''") (simp_all add: malformed_def)
qed

section \<open>The defaults follow the mode\<close>

text \<open>
  With the idle time, the block handling and the quarantine left at their defaults, whatever mode
  is chosen, the configuration validates without a warning that one of them does nothing and without
  an error about lifetimes or the rotation strategy.
\<close>

theorem worker_defaults_follow_mode:
  assumes "load_config_from_env provider env = Inr d"
    and "env ''WORKER_MAX_IDLE_TIME_SECS'' = Env_Unset"
    and "env ''WORKER_DESTROY_SESSION_ON_BLOCK'' = Env_Unset"
    and "env ''WORKER_BLOCK_QUARANTINE_SECS'' = Env_Unset"
  shows "validate_scope (dp_scope d) \<notin> {Inl Err_LifetimeBelowIdle, Inl Err_DedicatedNeedsHybrid} \<and>
    Warn_QuarantineIgnored \<notin> set (validate_warnings (dp_scope d)) \<and>
    Warn_DestroyOnBlockIgnored \<notin> set (validate_warnings (dp_scope d)) \<and>
    Warn_StrategyIgnoresThresholds \<notin> set (validate_warnings (dp_scope d))"
proof -
  have unset: "env_parsed env key parse dflt = Inr dflt" if "env key = Env_Unset"
    for key and parse :: "string \<Rightarrow> 'x option" and dflt
    using that by (simp add: env_parsed_def)
  have scope: "sc_lifecycle (dp_scope d) =
      \<lparr>max_lifetime = 6 * 3600 * 1000, max_requests = 10000, max_cache_size_mb = 500,
       max_idle_time = (if sc_session_mode (dp_scope d) = Dedicated then DEFAULT_DEDICATED_MAX_IDLE_TIME_SECS
         else DEFAULT_MAX_IDLE_TIME_SECS) * 1000, rotation_strategy = Hybrid\<rparr>"
    "sc_destroy_session_on_block (dp_scope d) = (sc_session_mode (dp_scope d) = Dedicated)"
    "sc_block_quarantine (dp_scope d) =
       (if sc_session_mode (dp_scope d) = Reusable then DEFAULT_BLOCK_QUARANTINE_SECS else 0) * 1000"
    using assms by (auto simp: load_config_from_env_def or_fail_def unset split: sum.splits)
  show ?thesis
    by (auto simp: validate_scope_def validate_errors_def validate_warnings_def Let_def scope cfg_simps
        split: if_splits)
qed

theorem worker_defaults_follow_mode_witness:
  "\<exists>d. load_config_from_env no_proxy_provider
       (\<lambda>key. if key = ''WORKER_SESSION_MODE'' then Env_Set ''dedicated'' else Env_Unset) = Inr d \<and>
     sc_session_mode (dp_scope d) = Dedicated \<and> Warn_QuarantineIgnored \<notin> set (validate_warnings (dp_scope d))"
proof -
  let ?env = "\<lambda>key. if key = ''WORKER_SESSION_MODE'' then Env_Set ''dedicated'' else Env_Unset"
  have mode: "session_mode_from_str (trim ''dedicated'') = Some Dedicated" by code_simp
  obtain d where d: "load_config_from_env no_proxy_provider ?env = Inr d" "sc_session_mode (dp_scope d) = Dedicated"
    by (simp add: load_config_from_env_def env_parsed_def or_fail_def mode)
  then show ?thesis
    using worker_defaults_follow_mode [OF d(1)] by auto
qed

end
