(* ===== verification/Coordinator_Fleet.thy ===== *)
theory Coordinator_Fleet
  imports Coordinator_Props
begin

text \<open>
  The discovery task (the loop of \<open>start_discovery\<close>, \<open>coordinator/src/worker_discovery.rs\<close>), the calls to a
  worker it and the requests make, and what a request routed by its result can rely on.

  What the network answers is input: a bounded call is \<open>Elapsed\<close> when its timeout wins.  The two maps and
  the healthy set are behind locks of their own, so a write is one step.
\<close>

section \<open>Calls to a worker\<close>

definition GRPC_CLIENT_TIMEOUT :: millis where [cfg_simps]: "GRPC_CLIENT_TIMEOUT = 330000"

definition FRESH_STATS_TIMEOUT :: millis where [cfg_simps]: "FRESH_STATS_TIMEOUT = 2000"

definition WORKER_CONNECT_TIMEOUT :: millis where [cfg_simps]: "WORKER_CONNECT_TIMEOUT = 5000"

definition WORKER_KEEPALIVE_INTERVAL :: millis where [cfg_simps]: "WORKER_KEEPALIVE_INTERVAL = 10000"

definition WORKER_KEEPALIVE_TIMEOUT :: millis where [cfg_simps]: "WORKER_KEEPALIVE_TIMEOUT = 10000"

definition MAX_WORKER_RESPONSE_SIZE :: nat where [cfg_simps]:
  "MAX_WORKER_RESPONSE_SIZE = 70 * 1024 * 1024"

text \<open>The channel \<open>connect_worker\<close> asks for; the endpoint text may be malformed.\<close>

record channel_options =
  ch_endpoint :: string
  ch_connect_timeout :: millis
  ch_keep_alive_interval :: millis
  ch_keep_alive_timeout :: millis

definition connect_worker ::
  "(string \<Rightarrow> string option) \<Rightarrow> (channel_options \<Rightarrow> string + 'c) \<Rightarrow> string \<Rightarrow> string + 'c" where
  "connect_worker malformed dial endpoint =
     (case malformed endpoint of
        Some e \<Rightarrow> Inl e
      | None \<Rightarrow>
          dial \<lparr>ch_endpoint = endpoint, ch_connect_timeout = WORKER_CONNECT_TIMEOUT,
                ch_keep_alive_interval = WORKER_KEEPALIVE_INTERVAL,
                ch_keep_alive_timeout = WORKER_KEEPALIVE_TIMEOUT\<rparr>)"

text \<open>A call under \<open>tokio::time::timeout\<close>; the stats message has 32- and 64-bit fields.\<close>

datatype 'a awaited = Elapsed | Answered "string + 'a"

record stats_message =
  sm_scope_name :: string
  sm_pod_name :: string
  sm_pod_ip :: string
  sm_total_contexts :: "32 word"
  sm_available_slots :: "32 word"
  sm_active_requests :: "32 word"
  sm_total_requests :: "64 word"
  sm_total_contexts_created :: "64 word"
  sm_total_contexts_recycled :: "64 word"
  sm_success_rate :: rat

definition stats_of_message :: "stats_message \<Rightarrow> worker_stats" where
  "stats_of_message m =
     \<lparr>ws_scope_name = sm_scope_name m, ws_pod_name = sm_pod_name m, ws_pod_ip = sm_pod_ip m,
      ws_total_contexts = unat (sm_total_contexts m), ws_available_slots = unat (sm_available_slots m),
      ws_active_requests = unat (sm_active_requests m), ws_total_requests = unat (sm_total_requests m),
      ws_total_contexts_created = unat (sm_total_contexts_created m),
      ws_total_contexts_recycled = unat (sm_total_contexts_recycled m),
      ws_success_rate = sm_success_rate m\<rparr>"

text \<open>\<open>fetch_worker_stats\<close> of discovery: three seconds to connect, two to answer.\<close>

definition fetch_worker_stats ::
  "string \<Rightarrow> nat \<Rightarrow> unit awaited \<Rightarrow> stats_message awaited \<Rightarrow> string + worker_stats" where
  "fetch_worker_stats ip prt dialled answered =
     (let endpoint = ''http://'' @ ip @ '':'' @ show_nat prt
      in case dialled of
           Elapsed \<Rightarrow> Inl (''Connection timeout to '' @ endpoint)
         | Answered (Inl e) \<Rightarrow> Inl e
         | Answered (Inr _) \<Rightarrow>
             (case answered of
                Elapsed \<Rightarrow> Inl (''GetStats timeout for '' @ endpoint)
              | Answered (Inl e) \<Rightarrow> Inl e
              | Answered (Inr m) \<Rightarrow> Inr (stats_of_message m)))"

text \<open>\<open>fetch_fresh_worker_stats\<close> of a request about to be refused.\<close>

definition fetch_fresh_worker_stats :: "unit awaited \<Rightarrow> stats_message awaited \<Rightarrow> nat option" where
  "fetch_fresh_worker_stats dialled answered =
     (case dialled of
        Answered (Inr _) \<Rightarrow>
          (case answered of
             Answered (Inr m) \<Rightarrow> Some (unat (sm_available_slots m))
           | _ \<Rightarrow> None)
      | _ \<Rightarrow> None)"

section \<open>The view discovery publishes\<close>

text \<open>
  \<open>fl_round\<close> is the round whose presence is published and \<open>fl_half\<close> the round whose workers are published
  and whose presence is not yet: the two writes are two steps.
\<close>

record fleet =
  fl_workers :: worker_map
  fl_known :: presence_map
  fl_healthy :: "string set"
  fl_round :: "observation list"
  fl_half :: "observation list option"

definition fleet_new :: fleet where
  "fleet_new = \<lparr>fl_workers = hempty, fl_known = hempty, fl_healthy = {}, fl_round = [], fl_half = None\<rparr>"

datatype fleet_event =
    Fleet_ListFailed string
  | Fleet_WriteWorkers "observation list"
  | Fleet_WritePresence
  | Fleet_Health "string set"

text \<open>\<open>None\<close>: the discovery task, one loop, does not do this now.\<close>

primrec fleet_next :: "fleet_event \<Rightarrow> fleet \<Rightarrow> fleet option" where
  "fleet_next (Fleet_ListFailed e) f = (if fl_half f = None then Some f else None)"
| "fleet_next (Fleet_WriteWorkers obs) f =
     (if fl_half f = None
      then Some (f\<lparr>fl_workers := fst (discover_workers obs), fl_half := Some obs\<rparr>) else None)"
| "fleet_next Fleet_WritePresence f =
     map_option (\<lambda>obs. f\<lparr>fl_known := snd (discover_workers obs), fl_round := obs, fl_half := None\<rparr>) (fl_half f)"
| "fleet_next (Fleet_Health healthy) f = Some (f\<lparr>fl_healthy := healthy\<rparr>)"

inductive fleet_reachable :: "fleet \<Rightarrow> bool" where
  fleet_start: "fleet_reachable fleet_new"
| fleet_step: "fleet_reachable f \<Longrightarrow> fleet_next ev f = Some f' \<Longrightarrow> fleet_reachable f'"

text \<open>The round a request is routed by.\<close>

definition routed_round :: "fleet \<Rightarrow> observation list" where
  "routed_round f = (case fl_half f of Some obs \<Rightarrow> obs | None \<Rightarrow> fl_round f)"

definition fleet_inv :: "fleet \<Rightarrow> bool" where
  "fleet_inv f \<longleftrightarrow>
     fl_workers f = fst (discover_workers (routed_round f)) \<and> fl_known f = snd (discover_workers (fl_round f))"

lemma fleet_inv_new: "fleet_inv fleet_new"
  by (simp add: fleet_inv_def fleet_new_def routed_round_def discover_workers_def)

lemma fleet_inv_next: "fleet_inv f \<Longrightarrow> fleet_next ev f = Some f' \<Longrightarrow> fleet_inv f'"
  by (cases ev) (auto simp: fleet_inv_def routed_round_def split: if_splits option.split)

lemma fleet_inv_reachable: "fleet_reachable f \<Longrightarrow> fleet_inv f"
  by (induction rule: fleet_reachable.induct) (simp_all add: fleet_inv_new fleet_inv_next)

lemma presence_published:
  "hget (snd (discover_workers obs)) scope = None \<longleftrightarrow> (\<forall>ob \<in> set obs. pod_scope ob \<noteq> Some scope)"
proof -
  let ?r = "discover_workers obs"
  have "round_ok ?r"
    using round_ok_fold [of "([], [])" obs] by (simp add: discover_workers_def)
  then have "hget (snd ?r) scope = None \<longleftrightarrow> pods_total (presence_entry scope (snd ?r)) = 0"
    by (simp add: round_ok_def hget_None_iff)
  moreover have "pods_total (presence_entry scope (snd ?r)) =
      length (filter (\<lambda>ob. verdict_scope (judge_pod ob) = Some scope) obs)"
    using presence_total_fold [of scope "([], [])" obs] by (simp add: discover_workers_def presence_default_def)
  ultimately show ?thesis
    by (simp add: judge_pod_labelled pod_scope_def filter_empty_conv)
qed

lemma routable_published:
  assumes "hget (fst (discover_workers obs)) scope = Some ws" "w \<in> set ws"
  shows "\<exists>ob \<in> set obs. pod_scope ob = Some scope \<and> askable ob \<and> ob_stats ob \<noteq> None \<and> w = endpoint_seen scope ob"
proof -
  have "workers_of (fst (discover_workers obs)) scope = endpoints_in scope obs"
    using workers_of_fold [of "([], [])" obs scope] by (simp add: discover_workers_def workers_of_def)
  with assms show ?thesis
    by (auto simp: workers_of_def endpoints_in_def)
qed

lemma worker_port_text: "show_nat 50052 = ''50052''"
  by (simp add: show_nat.simps)

lemma route_new_target:
  assumes "route_new ce q = Route_To endpoint i"
  obtains ws w where "hget (ce_workers ce) (cq_scope_name q) = Some ws" "w \<in> set ws"
    "endpoint = http_endpoint w" "i = pod_name w"
    "pod_name w \<in> ce_healthy ce \<or> (\<forall>v \<in> set ws. pod_name v \<notin> ce_healthy ce)"
proof -
  from assms obtain ws where ws: "hget (ce_workers ce) (cq_scope_name q) = Some ws" "ws \<noteq> []"
    by (auto simp: route_new_def classify_missing_scope_def split: option.splits if_splits)
  then obtain s where s: "select_best_worker ws (ce_healthy ce) (tracker_free_slots (ce_in_flight ce)) (ce_rotation ce) = Some s"
    by (cases "select_best_worker ws (ce_healthy ce) (tracker_free_slots (ce_in_flight ce)) (ce_rotation ce)") simp_all
  with assms ws have "endpoint = http_endpoint (sw_worker s)" "i = pod_name (sw_worker s)"
    by (auto simp: route_new_def Let_def split: option.splits if_splits)
  with ws select_best_worker_Some [OF s] show thesis
    by (intro that [of ws "sw_worker s"]) auto
qed

lemma route_new_unknown:
  "(\<exists>code message. route_new ce q = Route_Reject Reject_ScopeNotFound code message) \<longleftrightarrow>
     hget (ce_workers ce) (cq_scope_name q) = None \<and> hget (ce_known_scopes ce) (cq_scope_name q) = None"
  by (auto simp: route_new_def classify_missing_scope_def Let_def split: option.splits)

text \<open>
  C16: A request without a session is routed by what one discovery round saw.  In every state the discovery
  task and the health monitor can reach, a routed request goes to the address, port 50052, and under the
  name of a pod that, in the round whose workers were written last, carried the scope's label, was in
  phase Running and answered \<open>GetStats\<close>, and that the monitor reported healthy unless no routable pod of the
  scope is.  And when both maps come from the same round, a request is refused with "scope not found" exactly
  when no pod at all carried its scope's label in that round, in whatever state.  (A continuation of a session
  goes to its own worker without looking at health or at the round's answers.)
\<close>

theorem routing_follows_last_round:
  assumes "fleet_reachable f"
    and "ce_workers ce = fl_workers f" "ce_known_scopes ce = fl_known f" "ce_healthy ce = fl_healthy f"
    and "cq_session_id q = []"
  shows "(\<forall>endpoint i scope sm'. route_request ce q sm = (Route_To endpoint i, scope, sm') \<longrightarrow>
      (\<exists>ob \<in> set (routed_round f). \<exists>ip st.
         pod_scope ob = Some (cq_scope_name q) \<and> pd_phase (ob_pod ob) = Some (Some ''Running'') \<and>
         pd_name (ob_pod ob) = Some i \<and> pd_pod_ip (ob_pod ob) = Some ip \<and> ob_stats ob = Some st \<and>
         endpoint = ''http://'' @ ip @ '':50052'') \<and>
      (i \<in> fl_healthy f \<or>
       (\<forall>v \<in> set (workers_of (fl_workers f) (cq_scope_name q)). pod_name v \<notin> fl_healthy f))) \<and>
    (fl_half f = None \<longrightarrow>
      ((\<exists>code message scope sm'. route_request ce q sm = (Route_Reject Reject_ScopeNotFound code message, scope, sm')) \<longleftrightarrow>
       (\<forall>ob \<in> set (fl_round f). pod_scope ob \<noteq> Some (cq_scope_name q))))"
proof (intro conjI allI impI)
  have route: "route_request ce q sm = (route_new ce q, cq_scope_name q, sm)"
    using assms(5) by (simp add: route_request_def)
  note inv = fleet_inv_reachable [OF assms(1), unfolded fleet_inv_def]
  show "(\<exists>code message scope sm'. route_request ce q sm = (Route_Reject Reject_ScopeNotFound code message, scope, sm')) \<longleftrightarrow>
      (\<forall>ob \<in> set (fl_round f). pod_scope ob \<noteq> Some (cq_scope_name q))" if "fl_half f = None"
  proof -
    have same: "fl_workers f = fst (discover_workers (fl_round f))"
      using inv that by (simp add: routed_round_def)
    have "hget (fl_workers f) (cq_scope_name q) = None"
      if "\<forall>ob \<in> set (fl_round f). pod_scope ob \<noteq> Some (cq_scope_name q)"
    proof (cases "hget (fl_workers f) (cq_scope_name q)")
      case (Some ws)
      have "round_ok (discover_workers (fl_round f))"
        using round_ok_fold [of "([], [])"] by (simp add: discover_workers_def)
      then have "cq_scope_name q \<in> hkeys (fl_workers f) \<longleftrightarrow> workers_of (fl_workers f) (cq_scope_name q) \<noteq> []"
        unfolding same by (simp add: round_ok_def)
      then have "ws \<noteq> []"
        using Some by (simp add: hkeys_iff workers_of_def)
      then obtain w where "w \<in> set ws" by (cases ws) auto
      then show ?thesis
        using routable_published [of "fl_round f" "cq_scope_name q" ws w] Some that unfolding same by auto
    qed
    then show ?thesis
      using inv by (auto simp: route route_new_unknown assms(2,3) presence_published)
  qed
  fix endpoint i scope sm'
  assume "route_request ce q sm = (Route_To endpoint i, scope, sm')"
  then have "route_new ce q = Route_To endpoint i"
    by (simp add: route)
  then obtain ws w where w: "hget (ce_workers ce) (cq_scope_name q) = Some ws" "w \<in> set ws"
    "endpoint = http_endpoint w" "i = pod_name w"
    "pod_name w \<in> ce_healthy ce \<or> (\<forall>v \<in> set ws. pod_name v \<notin> ce_healthy ce)"
    by (rule route_new_target)
  from w(1) have ws: "hget (fst (discover_workers (routed_round f))) (cq_scope_name q) = Some ws"
    using inv assms(2) by simp
  from routable_published [OF this w(2)] show "\<exists>ob \<in> set (routed_round f). \<exists>ip st.
         pod_scope ob = Some (cq_scope_name q) \<and> pd_phase (ob_pod ob) = Some (Some ''Running'') \<and>
         pd_name (ob_pod ob) = Some i \<and> pd_pod_ip (ob_pod ob) = Some ip \<and> ob_stats ob = Some st \<and>
         endpoint = ''http://'' @ ip @ '':50052''"
  proof (elim bexE conjE)
    fix ob
    assume ob: "ob \<in> set (routed_round f)" "pod_scope ob = Some (cq_scope_name q)" "askable ob" "ob_stats ob \<noteq> None"
      "w = endpoint_seen (cq_scope_name q) ob"
    then obtain name ip st where p: "pd_phase (ob_pod ob) = Some (Some ''Running'')" "pd_name (ob_pod ob) = Some name"
      "pd_pod_ip (ob_pod ob) = Some ip" "ob_stats ob = Some st"
      by (auto simp: askable_def)
    have "i = name" "endpoint = ''http://'' @ ip @ '':50052''"
      using p unfolding w(3,4) ob(5) by (simp_all add: endpoint_seen_def http_endpoint_def worker_port_text Let_def)
    then show ?thesis using ob(1,2) p by blast
  qed
  show "i \<in> fl_healthy f \<or>
       (\<forall>v \<in> set (workers_of (fl_workers f) (cq_scope_name q)). pod_name v \<notin> fl_healthy f)"
    using w by (auto simp: assms workers_of_def)
qed

text \<open>Between the two writes a scope whose first pods are in the round just written may still be unknown.\<close>

definition booting_pod :: observation where
  "booting_pod =
     \<lparr>ob_pod = \<lparr>pd_labels = Some [(''scope'', ''shop'')], pd_name = Some ''pod-1'', pd_phase = Some (Some ''Running''),
        pd_pod_ip = Some ''10.0.0.1'', pd_deletion_timestamp = None\<rparr>,
      ob_stats = None, ob_in_flight = tracker_new\<rparr>"

lemma judge_booting [simp]: "judge_pod booting_pod = Pod_Unreachable ''shop''"
  by (simp add: judge_pod_def booting_pod_def is_pod_running_def hget_def)

lemma half_written_round_denies_scope:
  "\<exists>f. fleet_reachable f \<and> fl_half f = Some [booting_pod] \<and> pod_scope booting_pod = Some ''shop'' \<and>
     hget (fl_workers f) ''shop'' = None \<and>
     fst (classify_missing_scope ''shop'' (hget (fl_known f) ''shop'')) = Reject_ScopeNotFound"
proof -
  let ?f = "fleet_new\<lparr>fl_workers := fst (discover_workers [booting_pod]), fl_half := Some [booting_pod]\<rparr>"
  have "fleet_reachable ?f"
    by (rule fleet_step [OF fleet_start, of "Fleet_WriteWorkers [booting_pod]"]) (simp add: fleet_new_def)
  then show ?thesis
    by (intro exI [of _ ?f])
      (simp add: fleet_new_def pod_scope_def booting_pod_def [THEN arg_cong, of ob_pod] hget_def
        classify_missing_scope_def discover_workers_def)
qed

text \<open>Once that pod answers, the next request goes to it.\<close>

definition serving_pod :: observation where
  "serving_pod = booting_pod\<lparr>ob_stats := Some (worker_stats_default\<lparr>ws_available_slots := 2\<rparr>)\<rparr>"

definition serving_fleet :: fleet where
  "serving_fleet = fleet_new\<lparr>fl_workers := fst (discover_workers [serving_pod]), fl_half := Some [serving_pod]\<rparr>"

lemma serving_fleet_workers:
  "fl_workers serving_fleet = [(''shop'', [\<lparr>pod_name = ''pod-1'', pod_ip = ''10.0.0.1'', ep_port = 50052,
     ep_scope_name = ''shop'', stats = worker_stats_default\<lparr>ws_available_slots := 2\<rparr>,
     in_flight_at_snapshot = 0, is_terminating = False\<rparr>])]"
  by (simp add: serving_fleet_def discover_workers_def judge_pod_def serving_pod_def booting_pod_def Let_def
      is_pod_running_def hget_def push_worker_def hput_def tracker_current_def tracker_new_def)

lemma routing_follows_last_round_witness:
  "\<exists>ob \<in> set (routed_round serving_fleet).
     pod_scope ob = Some ''shop'' \<and> pd_phase (ob_pod ob) = Some (Some ''Running'') \<and> pd_name (ob_pod ob) = Some ''pod-1''"
proof -
  let ?ce = "(sample_env (\<lambda>_. 0))\<lparr>ce_workers := fl_workers serving_fleet,
    ce_known_scopes := fl_known serving_fleet, ce_healthy := fl_healthy serving_fleet\<rparr>"
  let ?q = "sample_request ''shop'' ''''"
  have "fleet_reachable serving_fleet"
    by (rule fleet_step [OF fleet_start, of "Fleet_WriteWorkers [serving_pod]"])
      (simp add: fleet_new_def serving_fleet_def)
  moreover have "route_request ?ce ?q sample_sessions =
      (Route_To (''http://10.0.0.1:'' @ show_nat 50052) ''pod-1'', ''shop'', sample_sessions)"
    by (simp add: serving_fleet_workers routing_eval sample_env_def sample_request_def serving_fleet_def
        [THEN arg_cong, of fl_healthy] fleet_new_def worker_stats_default_def http_endpoint_def)
  moreover have "cq_session_id ?q = []" "cq_scope_name ?q = ''shop''" by (simp_all add: sample_request_def)
  ultimately show ?thesis
    using routing_follows_last_round [of serving_fleet ?ce ?q sample_sessions] by fastforce
qed

text \<open>A pod's stats are either complete or an error, and never waited for longer than the two timeouts.\<close>

lemma fetch_worker_stats_Inr:
  "fetch_worker_stats ip prt dialled answered = Inr s \<longleftrightarrow>
     (\<exists>u m. dialled = Answered (Inr u) \<and> answered = Answered (Inr m) \<and> s = stats_of_message m)"
  by (cases dialled; cases answered) (auto simp: fetch_worker_stats_def Let_def split: sum.splits)

lemma fresh_stats_agree:
  "fetch_fresh_worker_stats dialled answered =
     (case fetch_worker_stats ip prt dialled answered of
        Inr s \<Rightarrow> Some (ws_available_slots s) | Inl e \<Rightarrow> None)"
  by (cases dialled; cases answered)
    (auto simp: fetch_worker_stats_def fetch_fresh_worker_stats_def stats_of_message_def Let_def split: sum.splits)

end
