(* ===== verification/Health_Monitor.thy ===== *)
theory Health_Monitor
  imports Coordinator_Fleet Worker_Service Shutdown
begin

text \<open>
  The coordinator's health monitor (\<open>start_health_monitor\<close>, \<open>coordinator/src/service.rs\<close>) in time, and the
  worker's \<open>health_check\<close> behind it: how long a worker that has turned unhealthy can still be routed to.

  Time is in milliseconds; what a worker answers and how long that takes is a function of the moment it is
  asked.  The monitor is its publications over any number of rounds.
\<close>

section \<open>The health monitor\<close>

definition HEALTH_INTERVAL :: millis where [cfg_simps]: "HEALTH_INTERVAL = 1000"

datatype health_reply = Health_ConnectFailed string | Health_Failed string | Health_Answer bool string

text \<open>What a worker answers when it is asked at a moment, and how long that takes.\<close>

type_synonym health_env = "worker_endpoint \<Rightarrow> millis \<Rightarrow> health_reply \<times> millis"

definition answers_healthy :: "health_reply \<Rightarrow> bool" where
  "answers_healthy r \<longleftrightarrow> (case r of Health_Answer healthy message \<Rightarrow> healthy | _ \<Rightarrow> False)"

text \<open>One round walks the workers one after another; the set replaces the old one when the round is over.\<close>

fun health_round :: "health_env \<Rightarrow> worker_endpoint list \<Rightarrow> millis \<Rightarrow> string set \<Rightarrow> string set \<times> millis" where
  "health_round ask [] now healthy = (healthy, now)"
| "health_round ask (w # ws) now healthy =
     (case ask w now of
        (reply, took) \<Rightarrow>
          health_round ask ws (now + took)
            (if answers_healthy reply then insert (pod_name w) healthy else healthy))"

definition all_endpoints :: "worker_map \<Rightarrow> worker_endpoint list" where
  "all_endpoints m = concat (map snd m)"

record health_publication =
  hp_start :: millis
  hp_end :: millis
  hp_healthy :: "string set"

text \<open>
  \<open>view\<close> is the worker map at a moment.  A tick that is missed fires as soon as the loop is back, so a round
  starts at its tick or when the round before it ends.
\<close>

fun health_monitor ::
  "health_env \<Rightarrow> (millis \<Rightarrow> worker_map) \<Rightarrow> nat \<Rightarrow> millis \<Rightarrow> millis \<Rightarrow> health_publication list" where
  "health_monitor ask view 0 tick now = []"
| "health_monitor ask view (Suc n) tick now =
     (let start = max tick now;
          (healthy, fin) = health_round ask (all_endpoints (view start)) start {}
      in \<lparr>hp_start = start, hp_end = fin, hp_healthy = healthy\<rparr> #
         health_monitor ask view n (tick + HEALTH_INTERVAL) fin)"

text \<open>The set a request reads at a moment.\<close>

definition healthy_at :: "health_publication list \<Rightarrow> millis \<Rightarrow> string set" where
  "healthy_at pubs t =
     (case filter (\<lambda>p. hp_end p \<le> t) pubs of [] \<Rightarrow> {} | ps \<Rightarrow> hp_healthy (last ps))"

lemma health_round_answers:
  assumes "p \<in> fst (health_round ask ws now healthy)"
  shows "p \<in> healthy \<or> (\<exists>w t. pod_name w = p \<and> now \<le> t \<and> answers_healthy (fst (ask w t)))"
  using assms
proof (induction ws arbitrary: now healthy)
  case (Cons w ws)
  obtain reply took where a: "ask w now = (reply, took)" by (cases "ask w now")
  have "p \<in> (if answers_healthy reply then insert (pod_name w) healthy else healthy) \<or>
      (\<exists>w t. pod_name w = p \<and> now + took \<le> t \<and> answers_healthy (fst (ask w t)))"
    by (rule Cons.IH) (use Cons.prems a in simp)
  then show ?case
    using a by (metis (full_types) add_leE fst_conv insert_iff order_refl)
qed simp

lemma health_round_end:
  assumes "\<And>w t. snd (ask w t) \<le> d"
  shows "now \<le> snd (health_round ask ws now healthy) \<and> snd (health_round ask ws now healthy) \<le> now + length ws * d"
proof (induction ws arbitrary: now healthy)
  case (Cons w ws)
  obtain reply took where a: "ask w now = (reply, took)" by (cases "ask w now")
  then have "took \<le> d" using assms [of w now] by simp
  moreover note Cons.IH [of "now + took" "if answers_healthy reply then insert (pod_name w) healthy else healthy"]
  ultimately show ?case by (simp add: a)
qed simp

text \<open>
  A locale for the monitor's contract: a check takes at most \<open>d\<close>, a round asks at most \<open>k\<close> workers, and from
  \<open>gone\<close> on the pod never answers healthy.
\<close>

locale pod_gone =
  fixes ask :: health_env and view :: "millis \<Rightarrow> worker_map" and d k gone :: nat and pod :: string
  assumes check_bounded: "snd (ask w t) \<le> d"
    and few_workers: "length (all_endpoints (view t)) \<le> k"
    and silent: "pod_name w = pod \<Longrightarrow> gone \<le> t \<Longrightarrow> \<not> answers_healthy (fst (ask w t))"
begin

lemma round_bounds:
  "start \<le> snd (health_round ask (all_endpoints (view start)) start {})"
  "snd (health_round ask (all_endpoints (view start)) start {}) \<le> start + k * d"
proof -
  have "length (all_endpoints (view start)) * d \<le> k * d"
    by (intro mult_right_mono few_workers) simp
  then show "start \<le> snd (health_round ask (all_endpoints (view start)) start {})"
    "snd (health_round ask (all_endpoints (view start)) start {}) \<le> start + k * d"
    using health_round_end [of ask d start "all_endpoints (view start)" "{}"] check_bounded
    by (meson add_left_mono order_trans)+
qed

lemma monitor_excludes:
  assumes "p \<in> set (health_monitor ask view n tick now)" "gone \<le> hp_start p"
  shows "pod \<notin> hp_healthy p"
  using assms
proof (induction n arbitrary: tick now)
  case (Suc n)
  let ?start = "max tick now"
  have "pod \<in> fst (health_round ask (all_endpoints (view ?start)) ?start {}) \<Longrightarrow> gone \<le> ?start \<Longrightarrow> False"
    using health_round_answers [of pod ask _ ?start "{}"] silent by (meson empty_iff order_trans)
  then show ?case
    using Suc by (auto simp: Let_def case_prod_unfold)
qed simp

lemma monitor_Suc:
  "health_monitor ask view (Suc n) tick now =
     (let start = max tick now; r = health_round ask (all_endpoints (view start)) start {}
      in \<lparr>hp_start = start, hp_end = snd r, hp_healthy = fst r\<rparr> #
         health_monitor ask view n (tick + HEALTH_INTERVAL) (snd r))"
  by (simp add: Let_def case_prod_unfold)

lemma monitor_starts_later: "p \<in> set (health_monitor ask view n tick now) \<Longrightarrow> now \<le> hp_start p"
proof (induction n arbitrary: tick now)
  case (Suc n)
  let ?r = "health_round ask (all_endpoints (view (max tick now))) (max tick now) {}"
  have "now \<le> snd ?r"
    using round_bounds(1) [of "max tick now"] by linarith
  moreover have "p \<in> set (health_monitor ask view n (tick + HEALTH_INTERVAL) (snd ?r)) \<Longrightarrow> snd ?r \<le> hp_start p"
    by (rule Suc.IH)
  ultimately show ?case
    using Suc.prems unfolding monitor_Suc Let_def list.set by (elim insertE) auto
qed simp

lemma monitor_sorted: "sorted (map hp_start (health_monitor ask view n tick now))"
proof (induction n arbitrary: tick now)
  case (Suc n)
  let ?start = "max tick now"
  let ?r = "health_round ask (all_endpoints (view ?start)) ?start {}"
  have "?start \<le> hp_start p" if "p \<in> set (health_monitor ask view n (tick + HEALTH_INTERVAL) (snd ?r))" for p
    using monitor_starts_later [OF that] round_bounds(1) [of ?start] by (rule order_trans [rotated])
  with Suc.IH show ?case
    unfolding monitor_Suc Let_def by simp
qed simp

text \<open>A round that begins after the pod has gone is over in time.\<close>

lemma monitor_round_after:
  assumes "max tick now \<le> gone + max (k * d) HEALTH_INTERVAL" "gone \<le> tick + n * HEALTH_INTERVAL"
  shows "\<exists>p \<in> set (health_monitor ask view (Suc n) tick now).
    gone \<le> hp_start p \<and> hp_end p \<le> gone + max (k * d) HEALTH_INTERVAL + k * d"
  using assms
proof (induction n arbitrary: tick now)
  case 0
  then show ?case
    using round_bounds(2) [of "max tick now"] by (auto simp: Let_def case_prod_unfold)
next
  case (Suc n)
  let ?start = "max tick now"
  let ?r = "health_round ask (all_endpoints (view ?start)) ?start {}"
  show ?case
  proof (cases "gone \<le> ?start")
    case True
    then show ?thesis
      using round_bounds(2) [of ?start] Suc.prems(1) by (auto simp: Let_def case_prod_unfold)
  next
    case False
    then have "max (tick + HEALTH_INTERVAL) (snd ?r) \<le> gone + max (k * d) HEALTH_INTERVAL"
      using round_bounds(2) [of ?start] by auto
    moreover have "gone \<le> tick + HEALTH_INTERVAL + n * HEALTH_INTERVAL"
      using Suc.prems(2) by simp
    ultimately have "\<exists>p \<in> set (health_monitor ask view (Suc n) (tick + HEALTH_INTERVAL) (snd ?r)).
        gone \<le> hp_start p \<and> hp_end p \<le> gone + max (k * d) HEALTH_INTERVAL + k * d"
      by (rule Suc.IH)
    moreover have "set (health_monitor ask view (Suc n) (tick + HEALTH_INTERVAL) (snd ?r)) \<subseteq>
        set (health_monitor ask view (Suc (Suc n)) tick now)"
      unfolding monitor_Suc [of "Suc n"] Let_def by auto
    ultimately show ?thesis by blast
  qed
qed

lemma last_filter_ge:
  "sorted (map f xs) \<Longrightarrow> e \<in> set xs \<Longrightarrow> P e \<Longrightarrow> f e \<le> f (last (filter P xs))"
proof (induction xs)
  case (Cons x xs)
  show ?case
  proof (cases "\<exists>y \<in> set xs. P y")
    case True
    then have l: "last (filter P (x # xs)) = last (filter P xs)" "last (filter P xs) \<in> set xs"
      using last_in_set [of "filter P xs"] by (auto simp: filter_empty_conv)
    with Cons True show ?thesis by auto
  next
    case False
    with Cons.prems have "e = x" by auto
    with False Cons.prems show ?thesis by (simp add: filter_False)
  qed
qed simp

lemma out_of_routing:
  assumes "begun \<le> gone" "gone \<le> begun + n * HEALTH_INTERVAL"
    and "gone + max (k * d) HEALTH_INTERVAL + k * d \<le> t"
  shows "pod \<notin> healthy_at (health_monitor ask view (Suc n) begun begun) t"
proof -
  let ?pubs = "health_monitor ask view (Suc n) begun begun" and ?P = "\<lambda>p. hp_end p \<le> t"
  have "max begun begun \<le> gone + max (k * d) HEALTH_INTERVAL" using assms(1) by simp
  from monitor_round_after [OF this assms(2)] obtain p where
    p: "p \<in> set ?pubs" "gone \<le> hp_start p" "hp_end p \<le> gone + max (k * d) HEALTH_INTERVAL + k * d"
    by blast
  then have P: "?P p" using assms(3) by linarith
  from last_filter_ge [OF monitor_sorted p(1), of ?P, OF P] have "gone \<le> hp_start (last (filter ?P ?pubs))"
    using p(2) by linarith
  moreover have ne: "filter ?P ?pubs \<noteq> []" using p(1) P by (auto simp: filter_empty_conv)
  then have "last (filter ?P ?pubs) \<in> set ?pubs"
    using last_in_set by fastforce
  ultimately have "pod \<notin> hp_healthy (last (filter ?P ?pubs))"
    by (rule monitor_excludes [rotated])
  then show ?thesis
    using ne by (cases "filter ?P ?pubs") (simp_all only: healthy_at_def list.case not_False_eq_True simp_thms)
qed

end

section \<open>A worker that drains\<close>

text \<open>
  A worker behind the monitor answers with its own \<open>health_check\<close>; \<open>state\<close> is its state at a moment, and a
  pod that drains is not ready from then on (the first step of its shutdown).
\<close>

definition hive_health ::
  "(worker_endpoint \<Rightarrow> scope_config) \<Rightarrow> (worker_endpoint \<Rightarrow> millis \<Rightarrow> worker_state) \<Rightarrow>
   (worker_endpoint \<Rightarrow> millis \<Rightarrow> millis) \<Rightarrow> health_env" where
  "hive_health config state took w t =
     (case health_check (config w) (state w t) of (healthy, message) \<Rightarrow> (Health_Answer healthy message, took w t))"

definition drained_from ::
  "millis \<Rightarrow> string \<Rightarrow> (worker_endpoint \<Rightarrow> millis \<Rightarrow> worker_state) \<Rightarrow> worker_endpoint \<Rightarrow> millis \<Rightarrow> worker_state" where
  "drained_from gone pod state w t =
     (if pod_name w = pod \<and> gone \<le> t then (state w t)\<lparr>sv_ready := False\<rparr> else state w t)"

lemma hive_health_simps [simp]:
  "snd (hive_health config state took w t) = took w t"
  "answers_healthy (fst (hive_health config state took w t)) \<longleftrightarrow> sv_ready (state w t) \<and> \<not> sv_cancelled (state w t)"
  by (simp_all add: hive_health_def health_check_def answers_healthy_def)

text \<open>With the static endpoints of local mode and checks that take at most \<open>d\<close>.\<close>

interpretation local_drain: pod_gone
  "hive_health config (drained_from gone pod state) (\<lambda>w t. min d (took w t))"
  "\<lambda>t. fst (local_discovery_new env)" d "length (all_endpoints (fst (local_discovery_new env)))" gone pod
  for config state took env d gone pod
  by unfold_locales (simp_all add: drained_from_def)

text \<open>
  Answers that do not depend on the moment make a round the plain set of the healthy, whatever the order and
  the time it takes.
\<close>

lemma health_round_untimed:
  "fst (health_round (\<lambda>w t. (reply w, took w t)) ws now healthy) =
     healthy \<union> pod_name ` {w \<in> set ws. answers_healthy (reply w)}"
  by (induction ws arbitrary: now healthy) auto

lemma health_tick_refined:
  assumes "\<And>w. probe (http_endpoint w) = Some True \<longleftrightarrow> answers_healthy (reply w)"
  shows "fst (health_round (\<lambda>w t. (reply w, took w t)) (all_endpoints workers) now {}) = health_tick probe workers"
  by (auto simp: health_round_untimed health_tick_def all_endpoints_def assms)


definition sample_drain_state :: "worker_endpoint \<Rightarrow> millis \<Rightarrow> worker_state" where
  "sample_drain_state w t =
     \<lparr>sv_pool = (pool_start (sample_scope Reusable 1 2) [], 0), sv_active = 0, sv_total = 0, sv_failed = 0,
      sv_ready = (pod_name w \<noteq> ''a'' \<or> t < 1500), sv_cancelled = False\<rparr>"

definition sample_drain_config :: "worker_endpoint \<Rightarrow> scope_config" where
  "sample_drain_config w = sample_scope Reusable 1 2"

lemma sample_drain_round:
  "health_round (hive_health sample_drain_config sample_drain_state (\<lambda>w t. 100)) (all_endpoints sample_workers) now {} =
     (if now < 1500 then {''a'', ''b'', ''c''} else {''b'', ''c''}, now + 300)"
  by (auto simp: sample_workers_def all_endpoints_def hive_health_def health_check_def answers_healthy_def
      sample_drain_state_def sample_worker_def)


text \<open>
  One pod that does not answer is enough to break this: its connection attempt alone takes five seconds, so
  the round in which the draining worker last answered healthy outlives the pause.
\<close>

definition slow_health :: health_env where
  "slow_health w t =
     (if pod_name w = ''lost'' then (Health_ConnectFailed ''timeout'', WORKER_CONNECT_TIMEOUT)
      else (Health_Answer (t < 5500) [], 0))"

definition slow_view :: "millis \<Rightarrow> worker_map" where
  "slow_view t = [(''s'', [sample_worker ''lost'' 1 0, sample_worker ''leaving'' 1 0])]"

lemma slow_round:
  "health_round slow_health (all_endpoints (slow_view t)) now {} =
     (if now + 5000 < 5500 then {''leaving''} else {}, now + 5000)"
  by (simp add: slow_health_def slow_view_def all_endpoints_def sample_worker_def WORKER_CONNECT_TIMEOUT_def
      answers_healthy_def)

lemma lost_pod_outlasts_pause:
  "(\<forall>t \<ge> 5500. \<not> answers_healthy (fst (slow_health (sample_worker ''leaving'' 1 0) t))) \<and>
   ''leaving'' \<in> healthy_at (health_monitor slow_health slow_view 3 0 0) (5500 + MIN_UNROUTABLE_PAUSE)"
  by (simp add: numeral_3_eq_3 slow_round healthy_at_def HEALTH_INTERVAL_def MIN_UNROUTABLE_PAUSE_def Let_def)
    (simp add: slow_health_def answers_healthy_def sample_worker_def)

section \<open>The coordinator's shutdown\<close>

text \<open>
  \<open>shutdown_signal\<close> of \<open>coordinator/src/main.rs\<close>: everything is cancelled before anything is waited for; then
  the counter is read until it is zero.  \<open>readings\<close> are the values it would read.
\<close>

datatype coord_shutdown_action = Coord_Cancel_All | Coord_Stop_Serving

fun coordinator_shutdown :: "nat list \<Rightarrow> coord_shutdown_action list" where
  "coordinator_shutdown [] = [Coord_Cancel_All]"
| "coordinator_shutdown (active_count # readings) =
     Coord_Cancel_All #
     (if 0 < active_count
      then (if await_handlers readings = None then [] else [Coord_Stop_Serving])
      else [Coord_Stop_Serving])"

definition COORDINATOR_POLL_INTERVAL :: millis where "COORDINATOR_POLL_INTERVAL = 500"

lemma coordinator_stops_when_idle:
  "Coord_Stop_Serving \<in> set (coordinator_shutdown readings) \<longleftrightarrow> 0 \<in> set readings"
  using await_handlers_iff [of "tl readings"] by (cases readings) auto

end
