(* ===== verification/Response_Observer.thy ===== *)
theory Response_Observer
  imports Scrape_Props Middleware
begin

text \<open>
  The response observer of \<open>scrape_page_internal\<close> (\<open>worker/src/service.rs\<close>): one listener on the tab's
  CDP events that feeds the main document, the proxy failures, the blocked-load counter, the third-party
  loads and the page-load tracker.

  The transport calls the listener with one event at a time, so a run is a fold.  An event carries the
  parameters the listener reads; \<open>now\<close> is the clock at the event.  How Rust prints a resource type is the
  function \<open>debug\<close> (derived in the CDP library).  No lock is poisoned.
\<close>

section \<open>The listener\<close>

datatype header_json = Json_String string | Json_Other string

datatype blocked_reason = Reason_Inspector | Reason_Other string

datatype cdp_event =
    Ev_WillBeSent (ce_request: string) (ce_url: string) (ce_type: "cdp_type option") (ce_frame: "string option")
  | Ev_Finished string
  | Ev_Failed (cf_request: string) (cf_type: cdp_type) (cf_error: string) (cf_canceled: "bool option")
      (cf_reason: "blocked_reason option") (cf_cors: bool)
  | Ev_Lifecycle (cl_name: string) (cl_frame: string)
  | Ev_Response (cr_request: string) (cr_type: cdp_type) (cr_frame: "string option") (cr_status: nat)
      (cr_url: string) (cr_headers: "(string \<times> header_json) list option")
  | Ev_Other

text \<open>What the listener is created with.\<close>

record observer_setup =
  os_lib :: url_lib
  os_site :: string
  os_frame :: string
  os_types :: "blocked_type list"
  os_debug :: "cdp_type \<Rightarrow> string"

record observer =
  ob_docs :: observed_documents
  ob_proxy :: proxy_failures
  ob_blocked :: "64 word"
  ob_loads :: request_loads
  ob_counts :: "load_count list"
  ob_page :: page_load_tracker

definition requested_site :: "url_lib \<Rightarrow> string \<Rightarrow> string" where
  "requested_site lib url = (case host_of lib url of Some h \<Rightarrow> h | None \<Rightarrow> UNKNOWN_SITE)"

definition observer_new :: "url_lib \<Rightarrow> string \<Rightarrow> observer" where
  "observer_new lib url =
     \<lparr>ob_docs = observed_none, ob_proxy = proxy_failures_none, ob_blocked = 0, ob_loads = hempty,
      ob_counts = [], ob_page = tracker_for lib url\<rparr>"

primrec header_text :: "header_json \<Rightarrow> string" where
  "header_text (Json_String s) = s"
| "header_text (Json_Other t) = t"

definition response_document ::
  "nat \<Rightarrow> string \<Rightarrow> (string \<times> header_json) list option \<Rightarrow> main_document" where
  "response_document status url headers =
     \<lparr>md_status = status,
      md_headers = (case headers of Some hs \<Rightarrow> map (\<lambda>(k, v). (k, header_text v)) hs | None \<Rightarrow> []),
      md_url = url\<rparr>"

definition page_type :: "(cdp_type \<Rightarrow> string) \<Rightarrow> cdp_type \<Rightarrow> resource_type" where
  "page_type debug t =
     (case t of
        CT_Document \<Rightarrow> RT_Document
      | CT_Script \<Rightarrow> RT_Script
      | CT_Stylesheet \<Rightarrow> RT_Stylesheet
      | CT_Xhr \<Rightarrow> RT_Xhr
      | CT_Fetch \<Rightarrow> RT_Fetch
      | _ \<Rightarrow> RT_Other (debug t))"

text \<open>\<open>loads.lock()\<close> and a method on it; what the method counts goes to the metrics.\<close>

definition with_loads :: "observer_setup \<Rightarrow> load_event \<Rightarrow> observer \<Rightarrow> observer" where
  "with_loads s ev o' =
     (let (pending, counts) = loads_step (os_lib s) (os_site s) ev (ob_loads o')
      in o'\<lparr>ob_loads := pending, ob_counts := ob_counts o' @ counts\<rparr>)"

definition with_page :: "page_event \<Rightarrow> observer \<Rightarrow> observer" where
  "with_page ev o' = o'\<lparr>ob_page := page_step ev (ob_page o')\<rparr>"

definition with_docs :: "(observed_documents \<Rightarrow> observed_documents) \<Rightarrow> observer \<Rightarrow> observer" where
  "with_docs f o' = o'\<lparr>ob_docs := f (ob_docs o')\<rparr>"

definition blocked_by_list :: "blocked_reason option \<Rightarrow> bool" where
  "blocked_by_list reason \<longleftrightarrow> reason = Some Reason_Inspector"

definition blocked_type_of :: "observer_setup \<Rightarrow> cdp_type \<Rightarrow> blocked_reason option \<Rightarrow> blocked_type option" where
  "blocked_type_of s t reason =
     (if blocked_by_list reason then List.find (\<lambda>b. bt_type b = t) (os_types s) else None)"

definition on_will_be_sent ::
  "observer_setup \<Rightarrow> millis \<Rightarrow> string \<Rightarrow> string \<Rightarrow> cdp_type option \<Rightarrow> string option \<Rightarrow> observer \<Rightarrow> observer" where
  "on_will_be_sent s now i url t frame o' =
     with_page (Page_WillBeSent now i url (map_option (page_type (os_debug s)) t)
                  (t = Some CT_Document \<and> frame = Some (os_frame s)))
       (with_loads s (Load_WillBeSent i url (t = Some CT_Document)) o')"

definition on_finished :: "observer_setup \<Rightarrow> string \<Rightarrow> observer \<Rightarrow> observer" where
  "on_finished s i o' =
     with_page (Page_Finished i) (with_loads s (Load_Finished i) (with_docs (mark_document_loaded i) o'))"

definition on_failed ::
  "observer_setup \<Rightarrow> string \<Rightarrow> cdp_type \<Rightarrow> string \<Rightarrow> bool option \<Rightarrow> blocked_reason option \<Rightarrow> bool \<Rightarrow>
   observer \<Rightarrow> observer" where
  "on_failed s i t error_text canceled reason cors o0 =
     (let o1 = with_docs (mark_document_loaded i) o0;
          o2 = (if is_proxy_error error_text
                then o1\<lparr>ob_proxy := pf_record (failure_kind (os_debug s t) error_text) (ob_proxy o1)\<rparr> else o1);
          o3 = (if blocked_by_list reason then o2\<lparr>ob_blocked := ob_blocked o2 + 1\<rparr> else o2);
          o4 = (case blocked_type_of s t reason of
                  Some b \<Rightarrow> with_loads s (Load_BlockedType (bt_label b)) o3
                | None \<Rightarrow> o3);
          o5 = with_loads s (Load_Failed i (blocked_by_list reason)) o4
      in with_page
           (Page_Failed i error_text (case canceled of Some b \<Rightarrow> b | None \<Rightarrow> False)
              (reason = Some Reason_Inspector) cors) o5)"

definition on_lifecycle :: "observer_setup \<Rightarrow> string \<Rightarrow> string \<Rightarrow> observer \<Rightarrow> observer" where
  "on_lifecycle s name frame o' =
     (if name = ''load'' \<and> frame = os_frame s then with_page Page_LoadEvent o' else o')"

definition on_response ::
  "observer_setup \<Rightarrow> string \<Rightarrow> cdp_type \<Rightarrow> string option \<Rightarrow> nat \<Rightarrow> string \<Rightarrow>
   (string \<times> header_json) list option \<Rightarrow> observer \<Rightarrow> observer" where
  "on_response s i t frame status url headers o0 =
     (let o1 = with_page (Page_Response i status) o0
      in if t = CT_Document \<and> frame = Some (os_frame s)
         then with_docs (observe_response i (response_document status url headers)) o1 else o1)"

fun observer_step :: "observer_setup \<Rightarrow> millis \<times> cdp_event \<Rightarrow> observer \<Rightarrow> observer" where
  "observer_step s (now, Ev_WillBeSent i url t frame) o' = on_will_be_sent s now i url t frame o'"
| "observer_step s (now, Ev_Finished i) o' = on_finished s i o'"
| "observer_step s (now, Ev_Failed i t err canceled reason cors) o' = on_failed s i t err canceled reason cors o'"
| "observer_step s (now, Ev_Lifecycle name frame) o' = on_lifecycle s name frame o'"
| "observer_step s (now, Ev_Response i t frame status url headers) o' = on_response s i t frame status url headers o'"
| "observer_step s (now, Ev_Other) o' = o'"

section \<open>What each part of the observer sees\<close>

fun document_events :: "observer_setup \<Rightarrow> cdp_event \<Rightarrow> document_event list" where
  "document_events s (Ev_Finished i) = [Doc_Ended i]"
| "document_events s (Ev_Failed i t err canceled reason cors) = [Doc_Ended i]"
| "document_events s (Ev_Response i t frame status url headers) =
     (if t = CT_Document \<and> frame = Some (os_frame s)
      then [Doc_Response i (response_document status url headers)] else [])"
| "document_events s _ = []"

fun proxy_failure_kinds :: "observer_setup \<Rightarrow> cdp_event \<Rightarrow> string list" where
  "proxy_failure_kinds s (Ev_Failed i t err canceled reason cors) =
     (if is_proxy_error err then [failure_kind (os_debug s t) err] else [])"
| "proxy_failure_kinds s _ = []"

fun load_events :: "observer_setup \<Rightarrow> cdp_event \<Rightarrow> load_event list" where
  "load_events s (Ev_WillBeSent i url t frame) = [Load_WillBeSent i url (t = Some CT_Document)]"
| "load_events s (Ev_Finished i) = [Load_Finished i]"
| "load_events s (Ev_Failed i t err canceled reason cors) =
     (case blocked_type_of s t reason of Some b \<Rightarrow> [Load_BlockedType (bt_label b)] | None \<Rightarrow> []) @
     [Load_Failed i (blocked_by_list reason)]"
| "load_events s _ = []"

fun page_events :: "observer_setup \<Rightarrow> millis \<times> cdp_event \<Rightarrow> page_event list" where
  "page_events s (now, Ev_WillBeSent i url t frame) =
     [Page_WillBeSent now i url (map_option (page_type (os_debug s)) t)
        (t = Some CT_Document \<and> frame = Some (os_frame s))]"
| "page_events s (now, Ev_Finished i) = [Page_Finished i]"
| "page_events s (now, Ev_Failed i t err canceled reason cors) =
     [Page_Failed i err (canceled = Some True) (reason = Some Reason_Inspector) cors]"
| "page_events s (now, Ev_Lifecycle name frame) =
     (if name = ''load'' \<and> frame = os_frame s then [Page_LoadEvent] else [])"
| "page_events s (now, Ev_Response i t frame status url headers) = [Page_Response i status]"
| "page_events s (now, Ev_Other) = []"

fun blocked_by_us :: "cdp_event \<Rightarrow> bool" where
  "blocked_by_us (Ev_Failed i t err canceled reason cors) \<longleftrightarrow> blocked_by_list reason"
| "blocked_by_us _ \<longleftrightarrow> False"

lemma with_simps [simp]:
  "ob_docs (with_docs f o') = f (ob_docs o')" "ob_docs (with_page p o') = ob_docs o'"
  "ob_docs (with_loads s l o') = ob_docs o'"
  "ob_proxy (with_docs f o') = ob_proxy o'" "ob_proxy (with_page p o') = ob_proxy o'"
  "ob_proxy (with_loads s l o') = ob_proxy o'"
  "ob_blocked (with_docs f o') = ob_blocked o'" "ob_blocked (with_page p o') = ob_blocked o'"
  "ob_blocked (with_loads s l o') = ob_blocked o'"
  "ob_page (with_docs f o') = ob_page o'" "ob_page (with_page p o') = page_step p (ob_page o')"
  "ob_page (with_loads s l o') = ob_page o'"
  "ob_loads (with_docs f o') = ob_loads o'" "ob_loads (with_page p o') = ob_loads o'"
  "ob_counts (with_docs f o') = ob_counts o'" "ob_counts (with_page p o') = ob_counts o'"
  by (simp_all add: with_docs_def with_page_def with_loads_def case_prod_unfold Let_def)

lemma with_loads_run:
  "(ob_loads (with_loads s l o'), ob_counts (with_loads s l o')) =
     (fst (loads_step (os_lib s) (os_site s) l (ob_loads o')),
      ob_counts o' @ snd (loads_step (os_lib s) (os_site s) l (ob_loads o')))"
  by (simp add: with_loads_def case_prod_unfold Let_def)

lemmas with_loads_simps [simp] = with_loads_run [THEN arg_cong [where f = fst], simplified]
  with_loads_run [THEN arg_cong [where f = snd], simplified]

lemmas listener_defs = on_will_be_sent_def on_finished_def on_failed_def on_lifecycle_def on_response_def Let_def

lemma loads_run_append:
  "loads_run lib home (es @ es') p =
     (let (p', counts) = loads_run lib home es p; (p'', counts') = loads_run lib home es' p'
      in (p'', counts @ counts'))"
  by (induction es arbitrary: p) (simp_all add: case_prod_unfold Let_def)

text \<open>One event reaches each part as if that part were alone on the tab.\<close>

lemma observer_step_parts:
  "ob_docs (observer_step s e o') = fold observe (document_events s (snd e)) (ob_docs o')"
  "ob_proxy (observer_step s e o') = fold pf_record (proxy_failure_kinds s (snd e)) (ob_proxy o')"
  "ob_blocked (observer_step s e o') = ob_blocked o' + of_bool (blocked_by_us (snd e))"
  "ob_page (observer_step s e o') = fold page_step (page_events s e) (ob_page o')"
  by (cases e; cases "snd e"; auto simp: listener_defs split: option.split)+

lemma observer_step_loads:
  "(ob_loads (observer_step s e o'), ob_counts (observer_step s e o')) =
     (let (p, counts) = loads_run (os_lib s) (os_site s) (load_events s (snd e)) (ob_loads o')
      in (p, ob_counts o' @ counts))"
  by (cases e; cases "snd e"; auto simp: listener_defs case_prod_unfold split: option.split)

lemma observer_run_parts:
  "ob_docs (fold (observer_step s) es o') = fold observe (concat (map (document_events s \<circ> snd) es)) (ob_docs o')"
  "ob_proxy (fold (observer_step s) es o') =
     fold pf_record (concat (map (proxy_failure_kinds s \<circ> snd) es)) (ob_proxy o')"
  "ob_blocked (fold (observer_step s) es o') =
     ob_blocked o' + of_nat (length (filter (blocked_by_us \<circ> snd) es))"
  "ob_page (fold (observer_step s) es o') = fold page_step (concat (map (page_events s) es)) (ob_page o')"
  by (induction es arbitrary: o') (simp_all add: observer_step_parts)

lemma observer_run_loads:
  "(ob_loads (fold (observer_step s) es o'), ob_counts (fold (observer_step s) es o')) =
     (let (p, counts) = loads_run (os_lib s) (os_site s) (concat (map (load_events s \<circ> snd) es)) (ob_loads o')
      in (p, ob_counts o' @ counts))"
proof (induction es arbitrary: o')
  case (Cons e es)
  show ?case
    using Cons.IH [of "observer_step s e o'"] observer_step_loads [of s e o']
    by (simp add: loads_run_append case_prod_unfold Let_def)
qed simp

section \<open>Third-party loads\<close>

text \<open>The loads counted under a host, and the loads a site was asked for.\<close>

fun host_count :: "load_count \<Rightarrow> bool" where
  "host_count (Count_Request h) = True"
| "host_count (Count_Blocked h) = True"
| "host_count (Count_Type label) = False"

fun is_sent :: "load_event \<Rightarrow> bool" where
  "is_sent (Load_WillBeSent i url document) = True"
| "is_sent _ = False"

lemma length_hdel_present:
  assumes "hget m k = Some v"
  shows "length (hdel k m) < length m"
proof -
  from assms have "(k, v) \<in> set m" by (simp add: hget_SomeD)
  then show ?thesis
    unfolding hdel_def
  proof (induction m)
    case (Cons kv m)
    then show ?case
      using length_delete_le [of k m] by (cases kv) (auto simp: less_Suc_eq_le less_SucI)
  qed simp
qed

lemma loads_step_balance:
  "length (fst (loads_step lib home ev p)) + length (filter host_count (snd (loads_step lib home ev p)))
     \<le> length p + of_bool (is_sent ev)"
  using length_hdel_le [of _ p] length_hdel_present [of p]
  by (cases ev)
    (auto simp: loads_step_def count_sent_def length_hput Suc_le_eq split: option.split intro: le_SucI)

lemma loads_run_balance:
  "length (fst (loads_run lib home es p)) + length (filter host_count (snd (loads_run lib home es p)))
     \<le> length p + length (filter is_sent es)"
proof (induction es arbitrary: p)
  case (Cons ev es)
  let ?p = "fst (loads_step lib home ev p)"
  from Cons.IH [of ?p] loads_step_balance [of lib home ev p] show ?case
    by (cases "is_sent ev") (auto simp: case_prod_unfold Let_def)
qed simp

text \<open>A pending load was asked for by its host.\<close>

definition asked :: "url_lib \<Rightarrow> load_event list \<Rightarrow> pending_load \<Rightarrow> bool" where
  "asked lib es l \<longleftrightarrow>
     (\<exists>i url. Load_WillBeSent i url (pl_document l) \<in> set es \<and> host_of lib url = Some (pl_host l))"

definition count_ok :: "url_lib \<Rightarrow> string \<Rightarrow> load_event list \<Rightarrow> load_count \<Rightarrow> bool" where
  "count_ok lib home es c \<longleftrightarrow>
     (case c of
        Count_Request h \<Rightarrow> is_cross_site lib home h \<and> asked lib es \<lparr>pl_host = h, pl_document = False\<rparr>
      | Count_Blocked h \<Rightarrow> (\<exists>l. pl_host l = h \<and> asked lib es l) \<and> (\<exists>i. Load_Failed i True \<in> set es)
      | Count_Type label \<Rightarrow> Load_BlockedType label \<in> set es)"

lemma asked_mono: "asked lib es l \<Longrightarrow> set es \<subseteq> set es' \<Longrightarrow> asked lib es' l"
  unfolding asked_def by blast

lemma asked_eta [simp]: "asked lib es \<lparr>pl_host = pl_host l, pl_document = pl_document l\<rparr> = asked lib es l"
  by (simp add: asked_def)

lemma asked_doc: "asked lib es l \<Longrightarrow> pl_document l = d \<Longrightarrow> asked lib es \<lparr>pl_host = pl_host l, pl_document = d\<rparr>"
  by (simp add: asked_def)

lemma loads_step_ok:
  assumes "\<forall>i l. hget p i = Some l \<longrightarrow> asked lib es l" "ev \<in> set es"
  shows "(\<forall>i l. hget (fst (loads_step lib home ev p)) i = Some l \<longrightarrow> asked lib es l) \<and>
    (\<forall>c \<in> set (snd (loads_step lib home ev p)). count_ok lib home es c)"
proof (cases ev)
  case (Load_WillBeSent i url d)
  then show ?thesis
    using assms by (auto simp: loads_step_def asked_def split: option.split)
next
  case (Load_Finished i)
  then show ?thesis
    using assms(1)
    by (auto simp: loads_step_def count_sent_def count_ok_def asked_doc split: option.split)
next
  case (Load_Failed i b)
  then show ?thesis
    using assms
    by (auto simp: loads_step_def count_sent_def count_ok_def asked_doc split: option.split)
next
  case (Load_BlockedType label)
  then show ?thesis using assms by (simp add: loads_step_def count_ok_def)
qed

lemma loads_run_ok:
  assumes "\<forall>i l. hget p i = Some l \<longrightarrow> asked lib es l" "set evs \<subseteq> set es"
  shows "\<forall>c \<in> set (snd (loads_run lib home evs p)). count_ok lib home es c"
  using assms
proof (induction evs arbitrary: p)
  case (Cons ev evs)
  from loads_step_ok [OF Cons.prems(1), of ev home] Cons.prems(2)
  have "\<forall>i l. hget (fst (loads_step lib home ev p)) i = Some l \<longrightarrow> asked lib es l"
    "\<forall>c \<in> set (snd (loads_step lib home ev p)). count_ok lib home es c"
    by simp_all
  with Cons.IH [of "fst (loads_step lib home ev p)"] Cons.prems(2) show ?case
    by (auto simp: case_prod_unfold Let_def)
qed simp

section \<open>What an answer reports\<close>

fun main_document_of :: "observer_setup \<Rightarrow> cdp_event \<Rightarrow> main_document option" where
  "main_document_of s (Ev_Response i t frame status url headers) =
     (if t = CT_Document \<and> frame = Some (os_frame s) then Some (response_document status url headers) else None)"
| "main_document_of s _ = None"

definition main_documents :: "observer_setup \<Rightarrow> (millis \<times> cdp_event) list \<Rightarrow> main_document list" where
  "main_documents s evs = List.map_filter (main_document_of s \<circ> snd) evs"

lemma responses_documents:
  "map snd (responses (concat (map (document_events s \<circ> snd) evs))) = main_documents s evs"
proof (induction evs)
  case (Cons e evs)
  have "responses (as @ bs) = responses as @ responses bs" for as bs
    by (simp add: responses_def List.map_filter_def)
  with Cons show ?case
    by (cases "snd e") (auto simp: main_documents_def responses_def List.map_filter_def)
qed (simp add: main_documents_def responses_def)

lemma observed_latest:
  "od_latest (ob_docs (fold (observer_step s) evs (observer_new lib url))) =
     (if main_documents s evs = [] then None else Some (last (main_documents s evs)))"
proof -
  let ?es = "concat (map (document_events s \<circ> snd) evs)"
  have "od_latest (fold observe ?es observed_none) =
      (if responses ?es = [] then None else Some (snd (last (responses ?es))))"
    unfolding observe_exact by (cases "responses ?es") (simp_all add: observed_none_def)
  moreover have "responses ?es = [] \<longleftrightarrow> main_documents s evs = []"
    unfolding responses_documents [symmetric] by simp
  moreover have "responses ?es \<noteq> [] \<Longrightarrow> snd (last (responses ?es)) = last (main_documents s evs)"
    unfolding responses_documents [symmetric] by (simp add: last_map)
  ultimately show ?thesis
    by (simp add: observer_run_parts(1) observer_new_def)
qed

lemma finish_reports:
  assumes "finish_stage j wait s navigation waited content = (Inr r, es)"
  shows "wr_response_headers r = md_headers (final_document j) \<and>
    (md_status (final_document j) \<noteq> 0 \<longrightarrow> wr_status_code r = md_status (final_document j))"
  using assms
  by (auto simp: finish_stage_def Let_def andthen_def pass_def act_def status_stage_def case_prod_unfold
      split: sum.splits if_splits prod.splits)

lemma observed_seq:
  "od_seq (ob_docs (fold (observer_step s) evs (observer_new lib url))) = length (main_documents s evs)"
proof -
  let ?es = "concat (map (document_events s \<circ> snd) evs)"
  have "od_seq (fold observe ?es observed_none) = length (responses ?es)"
    unfolding observe_exact by (cases "responses ?es") (simp_all add: observed_none_def)
  also have "\<dots> = length (main_documents s evs)"
    by (simp flip: responses_documents)
  finally show ?thesis
    by (simp add: observer_run_parts(1) observer_new_def)
qed

lemma failure_kinds_length:
  "length (concat (map (proxy_failure_kinds s \<circ> snd) evs)) =
     length (filter (\<lambda>(now, ev). is_Ev_Failed ev \<and> is_proxy_error (cf_error ev)) evs)"
proof (induction evs)
  case (Cons e evs)
  then show ?case by (cases e; cases "snd e") auto
qed simp

lemma blocked_by_us_iff:
  "blocked_by_us ev \<longleftrightarrow> is_Ev_Failed ev \<and> cf_reason ev = Some Reason_Inspector"
  by (cases ev) (simp_all add: blocked_by_list_def)

lemma sent_length:
  "length (filter is_sent (concat (map (load_events s \<circ> snd) evs))) =
     length (filter (\<lambda>(now, ev). is_Ev_WillBeSent ev) evs)"
proof (induction evs)
  case (Cons e evs)
  then show ?case by (cases e; cases "snd e") (auto split: option.split)
qed simp

lemma load_events_sent:
  "Load_WillBeSent i u d \<in> set (load_events s ev) \<Longrightarrow>
     \<exists>t frame. ev = Ev_WillBeSent i u t frame \<and> d = (t = Some CT_Document)"
  by (cases ev) (auto split: option.splits)

lemma observer_new_simps [simp]:
  "ob_docs (observer_new lib url) = observed_none" "ob_proxy (observer_new lib url) = proxy_failures_none"
  "ob_blocked (observer_new lib url) = 0" "ob_loads (observer_new lib url) = hempty"
  "ob_counts (observer_new lib url) = []" "ob_page (observer_new lib url) = tracker_for lib url"
  by (simp_all add: observer_new_def)

lemma observer_counts:
  "ob_counts (fold (observer_step s) evs (observer_new lib url)) =
     snd (loads_run (os_lib s) (os_site s) (concat (map (load_events s \<circ> snd) evs)) hempty)"
  using observer_run_loads [of s evs "observer_new lib url", THEN arg_cong, of snd]
  by (simp add: case_prod_unfold Let_def)

lemma counted_host:
  assumes "Count_Request h \<in> set (ob_counts (fold (observer_step s) evs (observer_new lib url)))"
  shows "is_cross_site (os_lib s) (os_site s) h \<and>
    (\<exists>now i u t frame. (now, Ev_WillBeSent i u t frame) \<in> set evs \<and> t \<noteq> Some CT_Document \<and>
       host_of (os_lib s) u = Some h)"
proof -
  let ?les = "concat (map (load_events s \<circ> snd) evs)"
  have "count_ok (os_lib s) (os_site s) ?les (Count_Request h)"
    using loads_run_ok [of hempty "os_lib s" ?les ?les "os_site s"] assms by (simp add: observer_counts)
  then have cross: "is_cross_site (os_lib s) (os_site s) h"
    and "asked (os_lib s) ?les \<lparr>pl_host = h, pl_document = False\<rparr>"
    by (simp_all add: count_ok_def)
  then obtain i u e where "e \<in> set evs" "Load_WillBeSent i u False \<in> set (load_events s (snd e))"
    "host_of (os_lib s) u = Some h"
    by (auto simp: asked_def)
  moreover from this(2) obtain t frame where "snd e = Ev_WillBeSent i u t frame" "t \<noteq> Some CT_Document"
    using load_events_sent [of i u False s "snd e"] by auto
  ultimately show ?thesis
    using cross by (metis prod.collapse)
qed

lemma counted_once:
  "length (filter host_count (ob_counts (fold (observer_step s) evs (observer_new lib url)))) \<le>
     length (filter (\<lambda>(now, ev). is_Ev_WillBeSent ev) evs)"
  using loads_run_balance [of "os_lib s" "os_site s" "concat (map (load_events s \<circ> snd) evs)" hempty]
  by (simp add: observer_counts sent_length)

text \<open>
  C25: The one listener behaves as five observers that know nothing of each other.  After any events, in any
  order, the main document is the last top-level document response (and they are numbered by arrival), the
  proxy failures add up to the failed loads with a proxy error text, the blocked counter counts the loads
  Chrome reports as dropped by us (modulo two to the 64), and the page-load evidence is the tracker's own run.
  The hosts counted are at most the loads sent, so no load is counted twice; a request is counted only
  for a cross-site host that was really asked for by a load other than a document.
\<close>

theorem observer_reports_what_happened:
  fixes o' :: observer
  assumes "o' = fold (observer_step s) evs (observer_new (os_lib s) url)"
  shows "od_latest (ob_docs o') = (if main_documents s evs = [] then None else Some (last (main_documents s evs))) \<and>
    od_seq (ob_docs o') = length (main_documents s evs) \<and>
    pf_total (ob_proxy o') =
      length (filter (\<lambda>(now, ev). is_Ev_Failed ev \<and> is_proxy_error (cf_error ev)) evs) \<and>
    ob_blocked o' = of_nat (length (filter (\<lambda>(now, ev). is_Ev_Failed ev \<and> cf_reason ev = Some Reason_Inspector) evs)) \<and>
    ob_page o' = fold page_step (concat (map (page_events s) evs)) (tracker_for (os_lib s) url) \<and>
    length (filter host_count (ob_counts o')) \<le> length (filter (\<lambda>(now, ev). is_Ev_WillBeSent ev) evs) \<and>
    (\<forall>h. Count_Request h \<in> set (ob_counts o') \<longrightarrow>
      is_cross_site (os_lib s) (os_site s) h \<and>
      (\<exists>now i u t frame. (now, Ev_WillBeSent i u t frame) \<in> set evs \<and> t \<noteq> Some CT_Document \<and>
         host_of (os_lib s) u = Some h))"
proof (intro conjI allI impI)
  show "pf_total (ob_proxy o') = length (filter (\<lambda>(now, ev). is_Ev_Failed ev \<and> is_proxy_error (cf_error ev)) evs)"
    by (simp add: assms observer_run_parts(2) pf_total_run failure_kinds_length)
      (simp add: proxy_failures_none_def)
  show "ob_blocked o' =
      of_nat (length (filter (\<lambda>(now, ev). is_Ev_Failed ev \<and> cf_reason ev = Some Reason_Inspector) evs))"
    by (simp add: assms observer_run_parts(3) comp_def blocked_by_us_iff case_prod_unfold)
  show "ob_page o' = fold page_step (concat (map (page_events s) evs)) (tracker_for (os_lib s) url)"
    by (simp add: assms observer_run_parts(4))
qed (use counted_host in \<open>simp_all add: assms observed_latest observed_seq counted_once\<close>)

definition sample_setup :: observer_setup where
  "sample_setup =
     \<lparr>os_lib = sample_url_lib\<lparr>ul_domain := Some\<rparr>, os_site = ''shop'', os_frame = ''main'',
      os_types = blocked_types_new [''image''], os_debug = (\<lambda>_. ''Document'')\<rparr>"

definition sample_events :: "(millis \<times> cdp_event) list" where
  "sample_events =
     [(0, Ev_WillBeSent ''1'' ''shop'' (Some CT_Document) (Some ''main'')),
      (10, Ev_Response ''2'' CT_Document (Some ''frame'') 200 ''ad'' None),
      (20, Ev_Response ''1'' CT_Document (Some ''main'') 403 ''shop'' (Some [])),
      (30, Ev_Failed ''3'' CT_Image ''net::ERR_BLOCKED_BY_CLIENT'' None (Some Reason_Inspector) False),
      (40, Ev_Lifecycle ''load'' ''main'')]"

lemma sample_main_documents:
  "main_documents sample_setup sample_events = [\<lparr>md_status = 403, md_headers = [], md_url = ''shop''\<rparr>]"
  by (simp add: main_documents_def sample_events_def sample_setup_def List.map_filter_def response_document_def)

lemma observer_reports_what_happened_witness:
  "ob_blocked (fold (observer_step sample_setup) sample_events (observer_new (os_lib sample_setup) ''shop'')) = 1 \<and>
   od_seq (ob_docs (fold (observer_step sample_setup) sample_events (observer_new (os_lib sample_setup) ''shop''))) = 1"
  using observer_reports_what_happened [OF refl, of sample_setup sample_events "''shop''"]
  by (simp add: sample_main_documents del: fold_simps) (simp add: sample_events_def)

text \<open>
  C11: An answer that carries a page reports the page the browser showed last.  When the attempt reads the
  observer after any events, the headers of a successful answer (or of any answer with a status) are those
  of the last top-level document response, never those of a subframe or of a document (a challenge page, say) before
  it, and so is its status unless Chrome reported none; with no such response the headers are empty.
\<close>

theorem answer_reports_last_document:
  assumes "scrape_page_internal j claimed = (End_Response r, es)"
    and "wr_success r \<or> wr_status_code r \<noteq> 0"
    and "se_docs (sj_env j) = ob_docs (fold (observer_step s) evs (observer_new lib url))"
  shows "if main_documents s evs = [] then wr_response_headers r = []
    else wr_response_headers r = md_headers (last (main_documents s evs)) \<and>
      (md_status (last (main_documents s evs)) \<noteq> 0 \<longrightarrow>
        wr_status_code r = md_status (last (main_documents s evs)))"
proof -
  have doc: "final_document j = (if main_documents s evs = [] then no_document else last (main_documents s evs))"
    by (simp add: final_document_def assms(3) observed_latest)
  from assms(1) have "wr_response_headers r = md_headers (final_document j) \<and>
      (md_status (final_document j) \<noteq> 0 \<longrightarrow> wr_status_code r = md_status (final_document j))"
  proof (cases rule: scrape_page_internal_cases)
    case Busy
    with assms(2) show ?thesis
      by (auto simp: busy_stage_def Let_def fails_def stop_def failed_response_def)
  next
    case (Ran es')
    from stages_response_shape [OF Ran(2)] assms(2) obtain es2 wait st navigation waited where
      "finish_stage j wait st navigation waited (wr_content r) = (Inr r, es2)"
      by blast
    then show ?thesis by (rule finish_reports)
  qed
  then show ?thesis
    by (simp add: doc no_document_def split: if_splits)
qed

lemma answer_reports_last_document_witness:
  "fst (scrape_page_internal (sample_job Reusable) True) = End_Response (sample_answered []) \<and>
   wr_status_code (sample_answered []) = md_status (last (main_documents sample_setup sample_events))"
proof -
  have "se_docs (sj_env (sample_job Reusable)) =
      ob_docs (fold (observer_step sample_setup) sample_events (observer_new (os_lib sample_setup) ''shop''))"
    by (simp add: observer_run_parts(1))
      (simp add: sample_events_def sample_setup_def sample_job_defs response_document_def mark_document_loaded_def)
  from answer_reports_last_document [OF sample_attempt_ends [of Reusable] _ this] show ?thesis
    by (simp add: sample_attempt_ends sample_main_documents)
qed

end
