(* ===== verification/Diagnostics_Session.thy ===== *)
theory Diagnostics_Session
  imports Diagnostics Response_Observer
begin

text \<open>
  The life of a diagnostics capture in a request (\<open>worker/src/diagnostics.rs\<close>): it is started before the
  navigation (\<open>start_capture\<close>), fills its buffer from the browser's events (\<open>Diagnostics\<close>), takes its snapshots at
  the end of the wait, is told the outcome, and reports when it is dropped.

  What Chrome answers to the two domain calls, to the listener and to the in-page scripts is input; a report is
  its lines, with the texts that \<open>Page_Activity\<close> renders.
\<close>

section \<open>Starting\<close>

definition diagnostics_buffer_default :: "page_activity \<Rightarrow> diagnostics_buffer" where
  "diagnostics_buffer_default activity =
     \<lparr>db_js_errors = [], db_failed_requests = [], db_console_errors = [], db_console_messages = [],
      db_dropped = 0, db_request_urls = hempty, db_page_state = None, db_headless_markers = None,
      db_activity = activity\<rparr>"

record capture_env =
  cp_log :: "cdp_error + unit"
  cp_runtime :: "cdp_error + unit"
  cp_listener :: "string + unit"

text \<open>
  A call that stalled ends the attempt; one that Chrome refused is only logged.  The second component are the
  domains that were enabled or tried; a capture is a session and whether its listener is attached.
\<close>

definition stall_of :: "cdp_error + unit \<Rightarrow> cdp_error option" where
  "stall_of r = (case r of Inl e \<Rightarrow> if is_stalled e then Some e else None | Inr _ \<Rightarrow> None)"

definition start_capture ::
  "(string \<Rightarrow> string option) \<Rightarrow> diagnostics_config \<Rightarrow> capture_env \<Rightarrow> string \<Rightarrow>
   (cdp_error + (diagnostics_session \<times> bool) option) \<times> string list" where
  "start_capture page_host config env url =
     (if \<not> diagnostics_active_for page_host config url then (Inr None, [])
      else
        (case stall_of (cp_log env) of
           Some e \<Rightarrow> (Inl e, [''Log.enable''])
         | None \<Rightarrow>
             (let console = dc_capture_console config;
                  calls = ''Log.enable'' # (if console then [''Runtime.enable''] else [])
              in case (if console then stall_of (cp_runtime env) else None) of
                   Some e \<Rightarrow> (Inl e, calls)
                 | None \<Rightarrow>
                     (Inr (Some (\<lparr>dn_config = config, dn_succeeded = False, dn_error_code = None\<rparr>,
                                 \<not> isl (cp_listener env))), calls))))"

text \<open>How an argument of a console call is rendered.\<close>

record remote_object =
  ro_value :: "header_json option"
  ro_description :: "string option"
  ro_type :: string

definition render_remote_object :: "remote_object \<Rightarrow> string" where
  "render_remote_object ob =
     (case ro_value ob of
        Some v \<Rightarrow> header_text v
      | None \<Rightarrow> (case ro_description ob of Some d \<Rightarrow> d | None \<Rightarrow> ro_type ob))"

section \<open>Snapshots\<close>

definition PAGE_STATE_BUDGET :: millis where [cfg_simps]: "PAGE_STATE_BUDGET = 3000"

text \<open>A script's answer, its failure, the failure of its task, or no answer within the budget.\<close>

datatype evaluation =
    Eval_Value "header_json option"
  | Eval_Failed string
  | Eval_TaskFailed string
  | Eval_TimedOut

definition evaluate_json :: "evaluation \<Rightarrow> string option" where
  "evaluate_json e =
     (case e of Eval_Value (Some (Json_String s)) \<Rightarrow> Some s | _ \<Rightarrow> None)"

definition capture_snapshots :: "evaluation \<Rightarrow> evaluation \<Rightarrow> string option \<times> string option" where
  "capture_snapshots page_state markers = (evaluate_json page_state, evaluate_json markers)"

definition set_snapshots :: "string option \<times> string option \<Rightarrow> diagnostics_buffer \<Rightarrow> diagnostics_buffer" where
  "set_snapshots taken b = b\<lparr>db_page_state := fst taken, db_headless_markers := snd taken\<rparr>"

text \<open>The code as far as the wait decides it; \<open>None\<close> while it looks successful.\<close>

definition provisional_error_code :: "'e + wait_result \<Rightarrow> int option" where
  "provisional_error_code wait =
     (case wait of
        Inr Wait_Success \<Rightarrow> None
      | Inr Wait_SkipSelectorFound \<Rightarrow> Some (code_num EC_SkipSelectorFound)
      | Inr Wait_WaitSelectorNotFound \<Rightarrow> Some (code_num EC_SelectorNotFound)
      | Inl _ \<Rightarrow> Some (code_num EC_TimeoutBrowser))"

definition snapshot_stage ::
  "bool \<Rightarrow> 'e + wait_result \<Rightarrow> diagnostics_session \<Rightarrow> evaluation \<times> evaluation \<Rightarrow> diagnostics_buffer \<Rightarrow> diagnostics_buffer" where
  "snapshot_stage navigated wait d scripts b =
     (if navigated \<and> wants_snapshots (provisional_error_code wait) d
      then set_snapshots (capture_snapshots (fst scripts) (snd scripts)) b else b)"

section \<open>The report\<close>

datatype diag_line =
    Line_Summary bool string
  | Line_JsErrors "string list"
  | Line_FailedRequests "string list"
  | Line_ConsoleErrors "string list"
  | Line_Console "string list"
  | Line_PageState string
  | Line_HeadlessMarkers string
  | Line_Timeline string
  | Line_DataRequests nat nat nat "string list"
  | Line_PendingLoads nat nat "string list"

text \<open>The summary carries whether it is a warning.\<close>

definition list_line :: "(string list \<Rightarrow> diag_line) \<Rightarrow> string list \<Rightarrow> diag_line list" where
  "list_line line es = (if es = [] then [] else [line es])"

definition report_lines ::
  "renderer \<Rightarrow> millis \<Rightarrow> bool \<Rightarrow> diagnostics_buffer \<Rightarrow> string \<Rightarrow> diag_line list" where
  "report_lines rd now failed b summary =
     Line_Summary failed summary #
     list_line Line_JsErrors (db_js_errors b) @
     list_line Line_FailedRequests (db_failed_requests b) @
     list_line Line_ConsoleErrors (db_console_errors b) @
     list_line Line_Console (db_console_messages b) @
     (case db_page_state b of Some s \<Rightarrow> [Line_PageState s] | None \<Rightarrow> []) @
     (case db_headless_markers b of Some s \<Rightarrow> [Line_HeadlessMarkers s] | None \<Rightarrow> []) @
     [Line_Timeline (timeline_report rd (db_activity b))] @
     (case data_requests_report rd now (db_activity b) of
        Some (n, pending, untracked, es) \<Rightarrow> [Line_DataRequests n pending untracked es] | None \<Rightarrow> []) @
     (case pending_loads_report rd now (db_activity b) of
        Some (n, untracked, es) \<Rightarrow> [Line_PendingLoads n untracked es] | None \<Rightarrow> [])"

text \<open>\<open>Drop\<close> of a session, with the limiter after it.\<close>

definition session_report ::
  "renderer \<Rightarrow> diagnostics_session \<Rightarrow> diagnostics_buffer \<Rightarrow> millis \<Rightarrow> limiter_state \<Rightarrow> diag_line list \<times> limiter_state" where
  "session_report rd d b now s =
     (case session_drop d b now s of
        (None, s') \<Rightarrow> ([], s')
      | (Some summary, s') \<Rightarrow> (report_lines rd now (\<not> dn_succeeded d) b summary, s'))"

text \<open>
  A request from the start of its capture to the drop of the session: the events while it ran, whether it got
  to the end of the wait (with the page navigated and the wait's result) and to the end, where it is judged.
\<close>

record 'e capture_request =
  cr_env :: capture_env
  cr_url :: string
  cr_activity :: page_activity
  cr_events :: "diag_event list"
  cr_wait :: "(bool \<times> ('e + wait_result)) option"
  cr_scripts :: "evaluation \<times> evaluation"
  cr_judged :: "(bool \<times> error_code) option"
  cr_now :: millis

definition captured_buffer :: "diagnostics_session \<times> bool \<Rightarrow> 'e capture_request \<Rightarrow> diagnostics_buffer" where
  "captured_buffer capture q =
     (let c = dn_config (fst capture);
          b = diagnostics_buffer_default (cr_activity q);
          b = (if snd capture then fold (diag_step (dc_max_entries c) (dc_capture_console c)) (cr_events q) b else b)
      in case cr_wait q of
           Some (navigated, wait) \<Rightarrow> snapshot_stage navigated wait (fst capture) (cr_scripts q) b
         | None \<Rightarrow> b)"

definition judged_session :: "diagnostics_session \<Rightarrow> 'e capture_request \<Rightarrow> diagnostics_session" where
  "judged_session d q = (case cr_judged q of Some (success, code) \<Rightarrow> session_end success code d | None \<Rightarrow> d)"

definition diagnosed_request ::
  "(string \<Rightarrow> string option) \<Rightarrow> renderer \<Rightarrow> diagnostics_config \<Rightarrow> 'e capture_request \<Rightarrow> limiter_state \<Rightarrow>
   string list \<times> diag_line list \<times> limiter_state" where
  "diagnosed_request page_host rd config q s =
     (case start_capture page_host config (cr_env q) (cr_url q) of
        (Inr (Some capture), calls) \<Rightarrow>
          (calls, session_report rd (judged_session (fst capture) q) (captured_buffer capture q) (cr_now q) s)
      | (_, calls) \<Rightarrow> (calls, [], s))"

section \<open>What a request may cost\<close>

lemma collapse_length: "collapse text es = Some es' \<Longrightarrow> length es' = length es"
  by (induction es arbitrary: es') (auto split: if_splits)

lemma push_entry_length: "length (fst c) \<le> n \<Longrightarrow> length (fst (push_entry n raw c)) \<le> n"
  by (auto simp: push_entry_def Let_def split: option.split dest: collapse_length)

text \<open>The four lists of a buffer.\<close>

definition within_cap :: "nat \<Rightarrow> diagnostics_buffer \<Rightarrow> bool" where
  "within_cap n b \<longleftrightarrow>
     length (db_js_errors b) \<le> n \<and> length (db_failed_requests b) \<le> n \<and>
     length (db_console_errors b) \<le> n \<and> length (db_console_messages b) \<le> n"

definition no_console :: "diagnostics_buffer \<Rightarrow> bool" where
  "no_console b \<longleftrightarrow> db_console_errors b = [] \<and> db_console_messages b = []"

lemma within_cap_push: "within_cap n b \<Longrightarrow> within_cap n (buffer_push cat text n b)"
  by (cases cat) (simp_all add: within_cap_def buffer_push_def split_def Let_def push_entry_length)

lemma no_console_push:
  "no_console b \<Longrightarrow> cat = Cat_JsError \<or> cat = Cat_FailedRequest \<Longrightarrow> no_console (buffer_push cat text n b)"
  by (auto simp: no_console_def buffer_push_def split: prod.splits)

lemma activity_lists [simp]:
  "within_cap n (on_activity e b) = within_cap n b" "no_console (on_activity e b) = no_console b"
  "within_cap n (b\<lparr>db_request_urls := urls\<rparr>) = within_cap n b"
  "no_console (b\<lparr>db_request_urls := urls\<rparr>) = no_console b"
  "within_cap n (set_snapshots taken b) = within_cap n b" "no_console (set_snapshots taken b) = no_console b"
  by (simp_all add: within_cap_def no_console_def on_activity_def set_snapshots_def)

lemma within_cap_step: "within_cap n b \<Longrightarrow> within_cap n (diag_step n console e b)"
  by (cases e) (simp_all add: within_cap_push Let_def)

lemma no_console_step: "no_console b \<Longrightarrow> no_console (diag_step n False e b)"
  by (cases e) (simp_all add: no_console_push Let_def)

lemma within_cap_run: "within_cap n b \<Longrightarrow> within_cap n (fold (diag_step n console) es b)"
  by (induction es arbitrary: b) (simp_all add: within_cap_step)

lemma no_console_run: "no_console b \<Longrightarrow> no_console (fold (diag_step n False) es b)"
  by (induction es arbitrary: b) (simp_all add: no_console_step)

lemma snapshot_stage_lists [simp]:
  "within_cap n (snapshot_stage navigated wait d scripts b) = within_cap n b"
  "no_console (snapshot_stage navigated wait d scripts b) = no_console b"
  by (simp_all add: snapshot_stage_def)

lemma captured_within_cap: "within_cap (dc_max_entries (dn_config (fst capture))) (captured_buffer capture q)"
proof -
  have "within_cap n (diagnostics_buffer_default a)" for n a
    by (simp add: within_cap_def diagnostics_buffer_default_def)
  then show ?thesis
    by (auto simp: captured_buffer_def Let_def within_cap_run split: option.splits)
qed

lemma captured_no_console:
  "\<not> dc_capture_console (dn_config (fst capture)) \<Longrightarrow> no_console (captured_buffer capture q)"
proof -
  have "no_console (diagnostics_buffer_default a)" for a
    by (simp add: no_console_def diagnostics_buffer_default_def)
  then show "\<not> dc_capture_console (dn_config (fst capture)) \<Longrightarrow> ?thesis"
    by (auto simp: captured_buffer_def Let_def no_console_run split: option.splits)
qed

fun entries_of :: "diag_line \<Rightarrow> string list" where
  "entries_of (Line_JsErrors es) = es"
| "entries_of (Line_FailedRequests es) = es"
| "entries_of (Line_ConsoleErrors es) = es"
| "entries_of (Line_Console es) = es"
| "entries_of _ = []"

fun console_line :: "diag_line \<Rightarrow> bool" where
  "console_line (Line_ConsoleErrors es) \<longleftrightarrow> True"
| "console_line (Line_Console es) \<longleftrightarrow> True"
| "console_line _ \<longleftrightarrow> False"

lemma report_lines_length: "length (report_lines rd now failed b summary) \<le> 10"
  by (auto simp: report_lines_def list_line_def split: option.split)

lemma report_lines_entries:
  "within_cap n b \<Longrightarrow> l \<in> set (report_lines rd now failed b summary) \<Longrightarrow> length (entries_of l) \<le> n"
  by (auto simp: report_lines_def list_line_def within_cap_def split: option.splits if_splits)

lemma report_lines_console:
  "no_console b \<Longrightarrow> l \<in> set (report_lines rd now failed b summary) \<Longrightarrow> \<not> console_line l"
  by (auto simp: report_lines_def list_line_def no_console_def split: option.splits if_splits)

lemma start_capture_cases:
  assumes "start_capture page_host config env url = (r, calls)"
  obtains (Inactive) "\<not> diagnostics_active_for page_host config url" "r = Inr None" "calls = []"
  | (Stalled) e where "diagnostics_active_for page_host config url" "r = Inl e"
      "''Runtime.enable'' \<in> set calls \<Longrightarrow> dc_capture_console config"
  | (Started) attached where "diagnostics_active_for page_host config url"
      "r = Inr (Some (\<lparr>dn_config = config, dn_succeeded = False, dn_error_code = None\<rparr>, attached))"
      "''Runtime.enable'' \<in> set calls \<longleftrightarrow> dc_capture_console config"
proof -
  have runtime: "''Runtime.enable'' \<notin> set [''Log.enable'']"
    by simp
  note start = assms [unfolded start_capture_def Let_def]
  show thesis
  proof (cases "diagnostics_active_for page_host config url")
    case active: True
    show ?thesis
    proof (cases "stall_of (cp_log env)")
      case (Some e)
      then show ?thesis using start active runtime by (intro Stalled [of e]) simp_all
    next
      case log: None
      show ?thesis
      proof (cases "if dc_capture_console config then stall_of (cp_runtime env) else None")
        case (Some e)
        then show ?thesis using start active log by (intro Stalled [of e]) (simp_all split: if_splits)
      next
        case None
        then show ?thesis
          using start active log by (intro Started [of "\<not> isl (cp_listener env)"]) (auto split: if_splits)
      qed
    qed
  qed (use start in \<open>simp add: Inactive\<close>)
qed

lemma session_report_lines:
  assumes "session_report rd d b now s = (ls, s')" "ls \<noteq> []"
  shows "should_emit d \<and> (\<exists>summary. ls = report_lines rd now (\<not> dn_succeeded d) b summary)"
  using assms by (auto simp: session_report_def session_drop_def split: option.splits prod.splits if_splits)

lemma judged_config [simp]: "dn_config (judged_session d q) = dn_config d"
  by (simp add: judged_session_def session_end_def split: option.split prod.split)

text \<open>
  C0: Diagnostics cost a request what was asked for and no more.  Where they are off or not meant for the URL,
  Chrome is asked for nothing, nothing is logged and the limiter is left alone.  Chrome is asked for the
  \<open>Runtime\<close> domain, which pages can detect, exactly when console capture is configured and reached, and without it no
  console output is ever logged.  A request logs at most ten lines, none with more than \<open>max_entries\<close>
  entries, and any only when its mode and the code it ended with call for it.
\<close>

theorem diagnostics_within_configuration:
  assumes "diagnosed_request page_host rd config q s = (calls, ls, s')"
  shows "(\<not> diagnostics_active_for page_host config (cr_url q) \<longrightarrow> calls = [] \<and> ls = [] \<and> s' = s) \<and>
    (''Runtime.enable'' \<in> set calls \<longrightarrow> dc_capture_console config) \<and>
    (\<not> dc_capture_console config \<longrightarrow> (\<forall>l \<in> set ls. \<not> console_line l)) \<and>
    length ls \<le> 10 \<and> (\<forall>l \<in> set ls. length (entries_of l) \<le> dc_max_entries config) \<and>
    (ls \<noteq> [] \<longrightarrow> should_emit
       (judged_session \<lparr>dn_config = config, dn_succeeded = False, dn_error_code = None\<rparr> q))"
proof -
  obtain r calls' where start: "start_capture page_host config (cr_env q) (cr_url q) = (r, calls')"
    by (cases "start_capture page_host config (cr_env q) (cr_url q)")
  then show ?thesis
  proof (cases rule: start_capture_cases)
    case Inactive
    then show ?thesis using assms start by (simp add: diagnosed_request_def)
  next
    case (Stalled e)
    then show ?thesis using assms start by (simp add: diagnosed_request_def)
  next
    case (Started attached)
    let ?d = "\<lparr>dn_config = config, dn_succeeded = False, dn_error_code = None\<rparr>"
    let ?b = "captured_buffer (?d, attached) q"
    from Started assms start have calls: "calls = calls'" and
      report: "session_report rd (judged_session ?d q) ?b (cr_now q) s = (ls, s')"
      by (simp_all add: diagnosed_request_def)
    have cap: "within_cap (dc_max_entries config) ?b"
      using captured_within_cap [of "(?d, attached)" q] by simp
    have quiet: "\<not> dc_capture_console config \<Longrightarrow> no_console ?b"
      using captured_no_console [of "(?d, attached)" q] by simp
    show ?thesis
    proof (cases "ls = []")
      case True
      then show ?thesis using Started calls by simp
    next
      case False
      from session_report_lines [OF report this] show ?thesis
        using Started calls report_lines_length report_lines_entries [OF cap] report_lines_console [OF quiet]
        by auto
    qed
  qed
qed

definition sample_capture :: "(bool \<times> error_code) option \<Rightarrow> string capture_request" where
  "sample_capture judged =
     \<lparr>cr_env = \<lparr>cp_log = Inr (), cp_runtime = Inr (), cp_listener = Inr ()\<rparr>, cr_url = ''shop'',
      cr_activity = page_activity_new 0, cr_events = [Ev_Console True ''Error'' [''boom'']],
      cr_wait = Some (True, Inl ''timed out''), cr_scripts = (Eval_TimedOut, Eval_Value (Some (Json_String ''{}''))),
      cr_judged = judged, cr_now = 100\<rparr>"

definition quiet_config :: diagnostics_config where
  "quiet_config = diagnostics_default\<lparr>dc_enabled := True, dc_mode := Diag_OnError, dc_capture_console := False\<rparr>"

lemma diagnostics_within_configuration_witness:
  "\<exists>calls ls s'. diagnosed_request Some \<lparr>rd_secs = show_nat, rd_size = show_nat\<rparr> quiet_config
      (sample_capture (Some (False, EC_TimeoutBrowser))) (limiter_new 0) = (calls, ls, s') \<and>
     ls \<noteq> [] \<and> length ls \<le> 10 \<and> ''Runtime.enable'' \<notin> set calls"
proof -
  let ?q = "sample_capture (Some (False, EC_TimeoutBrowser))" and ?rd = "\<lparr>rd_secs = show_nat, rd_size = show_nat\<rparr>"
  obtain calls ls s' where r: "diagnosed_request Some ?rd quiet_config ?q (limiter_new 0) = (calls, ls, s')"
    by (cases "diagnosed_request Some ?rd quiet_config ?q (limiter_new 0)") auto
  moreover have "ls \<noteq> []"
    using r by (auto simp: diagnosed_request_def start_capture_def stall_of_def diagnostics_active_for_def quiet_config_def
        diagnostics_default_def sample_capture_def session_report_def session_drop_def should_emit_def
        judged_session_def session_end_def logs_error_code_def limiter_acquire_def limiter_new_def
        report_lines_def Let_def split: if_splits)
  ultimately show ?thesis
    using diagnostics_within_configuration [OF r] by (auto simp: quiet_config_def)
qed

end
