(* ===== verification/Cancel_Token.thy ===== *)
theory Cancel_Token
  imports Challenge Wait_Strategy
begin

text \<open>
  The crate \<open>tokio-cancellation-ext\<close> and what its check buys the waits: \<open>check_cancellation\<close> opens every
  iteration of every poll loop of \<open>wait_strategy.rs\<close> and \<open>challenge.rs\<close>; \<open>with_cancellation\<close> races a future
  against the token.  The token and \<open>select!\<close> are the runtime's: what a poll finds is a parameter, the
  order in which \<open>select!\<close> polls its two branches included (it is not \<open>biased\<close>, so random).
\<close>

section \<open>The crate\<close>

datatype cancellation_error = CancellationError

definition cancellation_error_text :: "cancellation_error \<Rightarrow> string" where
  "cancellation_error_text e = ''Operation was cancelled''"

definition check_cancellation :: "bool \<Rightarrow> cancellation_error + unit" where
  "check_cancellation is_cancelled = (if is_cancelled then Inl CancellationError else Inr ())"

text \<open>
  One poll of the race: which branch is polled first, whether the token is cancelled, and what the future answers
  when it is polled (\<open>None\<close> while pending).  A branch that is ready ends the race; the future is dropped
  unpolled when the token wins first.
\<close>

record ('e, 't) race_poll =
  rp_token_first :: bool
  rp_cancelled :: bool
  rp_future :: "('e + 't) option"

definition race_step ::
  "(cancellation_error \<Rightarrow> 'x) \<Rightarrow> ('e \<Rightarrow> 'x) \<Rightarrow> unit \<Rightarrow> ('e, 't) race_poll \<Rightarrow> (unit, 'x + 't) poll_step" where
  "race_step of_cancel of_error _ p =
     (let token = (if rp_cancelled p then Some (Inl (of_cancel CancellationError)) else None);
          answer = map_option (map_sum of_error id) (rp_future p)
      in case (if rp_token_first p then (token, answer) else (answer, token)) of
           (Some r, _) \<Rightarrow> Poll_Done r
         | (None, Some r) \<Rightarrow> Poll_Done r
         | (None, None) \<Rightarrow> Poll_Next ())"

definition with_cancellation ::
  "(cancellation_error \<Rightarrow> 'x) \<Rightarrow> ('e \<Rightarrow> 'x) \<Rightarrow> ('e, 't) race_poll list \<Rightarrow> ('x + 't) option" where
  "with_cancellation of_cancel of_error polls = poll_loop (race_step of_cancel of_error) () polls"

interpretation race: budgeted_poll "race_step of_cancel of_error" rp_cancelled for of_cancel of_error
  by unfold_locales (auto simp: race_step_def Let_def split: option.split)

lemma race_step_done:
  "race_step of_cancel of_error u p = Poll_Done r \<Longrightarrow>
   (rp_cancelled p \<and> r = Inl (of_cancel CancellationError)) \<or>
   (\<exists>a. rp_future p = Some a \<and> r = map_sum of_error id a)"
  by (auto simp: race_step_def Let_def split: if_splits option.splits)

text \<open>The race ends when the token is cancelled; what it returns is the token's error or the future's own answer.\<close>

lemma with_cancellation_returns:
  "p \<in> set polls \<Longrightarrow> rp_cancelled p \<Longrightarrow> \<exists>r. with_cancellation of_cancel of_error polls = Some r"
  using race.returns [of p polls of_cancel of_error "()"] by (simp add: with_cancellation_def)

lemma with_cancellation_answer:
  assumes "with_cancellation of_cancel of_error polls = Some r"
  shows "(r = Inl (of_cancel CancellationError) \<and> (\<exists>p \<in> set polls. rp_cancelled p)) \<or>
    (\<exists>p \<in> set polls. \<exists>a. rp_future p = Some a \<and> r = map_sum of_error id a)"
proof -
  obtain xs p ys s' where polls: "polls = xs @ p # ys" "race_step of_cancel of_error s' p = Poll_Done r"
    using assms unfolding with_cancellation_def by (blast elim: poll_loop_SomeE)
  from race_step_done [OF polls(2)] show ?thesis using polls(1) by auto
qed

section \<open>The waits\<close>

text \<open>Every loop starts an iteration with the check, and maps its error to \<open>WaitError::Cancelled\<close>.\<close>

definition checked :: "bool \<Rightarrow> ('s, wait_error + 'r) poll_step \<Rightarrow> ('s, wait_error + 'r) poll_step" where
  "checked is_cancelled rest =
     (case check_cancellation is_cancelled of Inl _ \<Rightarrow> Poll_Done (Inl Wait_Cancelled) | Inr _ \<Rightarrow> rest)"

lemma steps_checked:
  "timeout_step start budget w k seen ob = checked (po_cancelled ob) (timeout_step start budget w k seen ob)"
  "phase1_step start budget w k u ob = checked (po_cancelled ob) (phase1_step start budget w k u ob)"
  "phase2_step start budget ss st sel k u ob = checked (po_cancelled ob) (phase2_step start budget ss st sel k u ob)"
  "challenge_step detectors window first pb = checked (pb_cancelled pb) (challenge_step detectors window first pb)"
  "json_step window u pb = checked (pb_cancelled pb) (json_step window u pb)"
  by (simp_all add: checked_def check_cancellation_def timeout_step_def phase1_step_def phase2_step_def
      challenge_step_def json_step_def)

lemma step_cancelled:
  "po_cancelled ob \<Longrightarrow> timeout_step start budget w k seen ob = Poll_Done (Inl Wait_Cancelled)"
  "po_cancelled ob \<Longrightarrow> phase1_step start budget w k u ob = Poll_Done (Inl Wait_Cancelled)"
  "po_cancelled ob \<Longrightarrow> phase2_step start budget ss st sel k u ob = Poll_Done (Inl Wait_Cancelled)"
  "pb_cancelled pb \<Longrightarrow> challenge_step detectors window first pb = Poll_Done (Inl Wait_Cancelled)"
  "pb_cancelled pb \<Longrightarrow> json_step window u pb = Poll_Done (Inl Wait_Cancelled)"
  by (simp_all add: timeout_step_def phase1_step_def phase2_step_def challenge_step_def json_step_def)

text \<open>So cancellation spends the budget of each loop.\<close>

interpretation timeout_cancel: budgeted_poll "timeout_step start budget w k" po_cancelled for start budget w k
  by unfold_locales (simp add: step_cancelled)

interpretation phase1_cancel: budgeted_poll "phase1_step start budget w k" po_cancelled for start budget w k
  by unfold_locales (simp add: step_cancelled)

interpretation phase2_cancel: budgeted_poll "phase2_step start budget ss st sel k" po_cancelled
  for start budget ss st sel k
  by unfold_locales (simp add: step_cancelled)

interpretation challenge_cancel: budgeted_poll "challenge_step detectors window" pb_cancelled for detectors window
  by unfold_locales (simp add: step_cancelled)

interpretation json_cancel: budgeted_poll "json_step window" pb_cancelled for window
  by unfold_locales (simp add: step_cancelled)

text \<open>
  A shutdown ends every wait at its next poll.  Once a poll of a wait finds the token cancelled, the wait has
  returned by that poll, whatever its budget: the fixed timeout, the wait for a challenge and for a JSON body, and the
  network-idle strategy in each of its loops.  If it had not returned before, the answer is the cancellation,
  and readings after that poll are never made.
\<close>

theorem cancelled_waits_end:
  assumes "po_cancelled ob" "pb_cancelled pb"
    and "te_navigated tenv = Inr ()" "te_polls tenv = xs @ ob # ys"
    and "ie_phase1 env = ps @ ob # qs" "ob2 \<in> set (ie_phase2 env)" "po_cancelled ob2"
  shows "timeout_run spent timeout_ms w k tenv = timeout_run spent timeout_ms w k (tenv\<lparr>te_polls := xs @ [ob]\<rparr>) \<and>
    (timeout_run spent timeout_ms w k (tenv\<lparr>te_polls := xs\<rparr>) = None \<longrightarrow>
       timeout_run spent timeout_ms w k tenv = Some (Inl Wait_Cancelled)) \<and>
    network_idle_run spent timeout_ms w k env \<noteq> None \<and>
    (wait_out_challenge detectors window zs = None \<longrightarrow>
       wait_out_challenge detectors window (zs @ pb # vs) = Some (Inl Wait_Cancelled)) \<and>
    (wait_for_json_body window zs = None \<longrightarrow>
       wait_for_json_body window (zs @ pb # vs) = Some (Inl Wait_Cancelled))"
proof (intro conjI impI)
  let ?step = "timeout_step (started_ago spent (te_now tenv)) (effective_timeout timeout_ms) w k"
  show "timeout_run spent timeout_ms w k tenv = timeout_run spent timeout_ms w k (tenv\<lparr>te_polls := xs @ [ob]\<rparr>)"
    using timeout_cancel.returns_by_first [OF assms(4,1)] by (simp add: timeout_run_def assms(3))
  assume "timeout_run spent timeout_ms w k (tenv\<lparr>te_polls := xs\<rparr>) = None"
  then have "poll_loop ?step False xs = None" by (simp add: timeout_run_def assms(3))
  then show "timeout_run spent timeout_ms w k tenv = Some (Inl Wait_Cancelled)"
    using poll_state_None [of ?step False xs] assms(1)
    by (auto simp: timeout_run_def assms(3,4) poll_loop_append step_cancelled split: option.split)
next
  let ?start = "started_ago spent (ie_now env)" and ?b = "network_idle_total timeout_ms w"
  have "\<exists>r. poll_loop (phase1_step ?start ?b w k) () (ie_phase1 env) = Some r"
    by (rule phase1_cancel.returns [of ob]) (simp_all add: assms(1,5))
  moreover have "\<exists>r. poll_loop (phase2_step ?start ?b ss st sel k) () (ie_phase2 env) = Some r" for ss st sel
    by (rule phase2_cancel.returns [OF assms(6,7)])
  ultimately show "network_idle_run spent timeout_ms w k env \<noteq> None"
    by (auto simp: network_idle_run_def Let_def split: sum.split option.split poll_step.split)
next
  assume "wait_out_challenge detectors window zs = None"
  then show "wait_out_challenge detectors window (zs @ pb # vs) = Some (Inl Wait_Cancelled)"
    using poll_state_None [of "challenge_step detectors window" None zs] assms(2)
    by (auto simp: wait_out_challenge_def poll_loop_append step_cancelled split: option.split)
next
  assume "wait_for_json_body window zs = None"
  then show "wait_for_json_body window (zs @ pb # vs) = Some (Inl Wait_Cancelled)"
    using poll_state_None [of "json_step window" "()" zs] assms(2)
    by (auto simp: wait_for_json_body_def poll_loop_append step_cancelled split: option.split)
qed

definition cancelled_obs :: page_obs where
  "cancelled_obs = (sample_obs 500 [])\<lparr>po_cancelled := True\<rparr>"

lemma cancelled_waits_end_witness:
  "timeout_run 0 9000 None None
     \<lparr>te_navigated = Inr (), te_now = 0, te_polls = [sample_obs 0 [], cancelled_obs, sample_obs 9000 []]\<rparr> =
   Some (Inl Wait_Cancelled)"
proof -
  let ?t = "\<lparr>te_navigated = Inr (), te_now = 0, te_polls = [sample_obs 0 [], cancelled_obs, sample_obs 9000 []]\<rparr>"
  let ?i = "sample_idle\<lparr>ie_phase1 := [cancelled_obs], ie_phase2 := [cancelled_obs]\<rparr>"
  let ?p = "(sample_probe 0 (sample_snapshot 1 []))\<lparr>pb_cancelled := True\<rparr>"
  have running: "timeout_run 0 9000 None None (?t\<lparr>te_polls := [sample_obs 0 []]\<rparr>) = None"
    by (simp add: timeout_run_def timeout_step_def sample_obs_def check_selector_def effective_timeout_def
        started_ago_def cfg_simps)
  have "po_cancelled cancelled_obs" by (simp add: cancelled_obs_def)
  then have "timeout_run 0 9000 None None (?t\<lparr>te_polls := [sample_obs 0 []]\<rparr>) = None \<longrightarrow>
      timeout_run 0 9000 None None ?t = Some (Inl Wait_Cancelled)"
    using cancelled_waits_end [of cancelled_obs ?p ?t "[sample_obs 0 []]" "[sample_obs 9000 []]" ?i "[]" "[]"
        cancelled_obs 0 9000 None None "[]" 0 "[]" "[]", THEN conjunct2, THEN conjunct1] by simp
  with running show ?thesis by blast
qed

end
