(* ===== verification/Page_Probes.thy ===== *)
theory Page_Probes
  imports Wait_Strategy
begin

text \<open>
  How \<open>common/src/wait_strategy.rs\<close> reads a page: the selector check, the navigation status, and the script that
  waits for the document between the phases of the network-idle strategy.

  An evaluation in the page is answered by the tab (\<open>evaluation\<close>: an error, or an optional JSON value); parsing the
  JSON texts the scripts return is the library's, a parameter.  The script of phase 1.5 runs in the page: its
  promise is settled by the first of its three sources, so it is a poll loop over what they report.
\<close>

section \<open>Reading a value\<close>

datatype js_value = Js_String string | Js_Unsigned nat | Js_Other

type_synonym js_answer = "string + js_value option"

text \<open>\<open>as_u64\<close>, then \<open>as u32\<close>, which keeps the low 32 bits.\<close>

definition read_navigation_status :: "js_answer \<Rightarrow> nat option" where
  "read_navigation_status answer =
     (case answer of
        Inr (Some (Js_Unsigned n)) \<Rightarrow>
          (let status = n mod 2 ^ 32 in if 0 < status then Some status else None)
      | _ \<Rightarrow> None)"

record selector_check_result =
  sr_found :: bool
  sr_error :: "string option"

definition check_selector_exists ::
  "(string \<Rightarrow> string + selector_check_result) \<Rightarrow> (string \<Rightarrow> js_answer) \<Rightarrow> string \<Rightarrow> string + bool" where
  "check_selector_exists parse_check evaluate selector =
     (case evaluate selector of
        Inl e \<Rightarrow> Inl e
      | Inr (Some (Js_String json)) \<Rightarrow>
          (case parse_check json of
             Inl e \<Rightarrow> Inl (''Failed to parse selector check result: '' @ e)
           | Inr r \<Rightarrow> Inr (sr_found r))
      | Inr _ \<Rightarrow>
          Inl (''Failed to check selector '' @ [CHR 0x27] @ selector @ [CHR 0x27] @ '': unexpected response format''))"

text \<open>The script itself: a selector the page cannot parse is not found, with the page's error beside it.\<close>

definition selector_script :: "(string \<Rightarrow> string + bool) \<Rightarrow> string \<Rightarrow> selector_check_result" where
  "selector_script query selector =
     (case query selector of
        Inl e \<Rightarrow> \<lparr>sr_found = False, sr_error = Some e\<rparr>
      | Inr yes \<Rightarrow> \<lparr>sr_found = yes, sr_error = None\<rparr>)"

text \<open>
  The check over a page: when the tab answers with the script's JSON and the library reads back what the script
  wrote, the check finds a selector exactly when the page does, and a selector that is not valid CSS is never an
  error.
\<close>

lemma check_selector_exact:
  assumes "\<And>r. parse_check (to_json r) = Inr r"
    and "evaluate selector = Inr (Some (Js_String (to_json (selector_script query selector))))"
  shows "check_selector_exists parse_check evaluate selector = Inr (query selector = Inr True)"
  by (auto simp: check_selector_exists_def selector_script_def assms split: sum.split)

section \<open>Waiting for the document\<close>

datatype ready_state = Ready_AlreadyComplete | Ready_LoadComplete | Ready_SelectorFound | Ready_TimedOut

primrec ready_state_text :: "ready_state \<Rightarrow> string" where
  "ready_state_text Ready_AlreadyComplete = ''already-is_complete''"
| "ready_state_text Ready_LoadComplete = ''load-is_complete''"
| "ready_state_text Ready_SelectorFound = ''selector-found''"
| "ready_state_text Ready_TimedOut = ''timeout-interactive''"

text \<open>
  A source of the promise fires: the \<open>load\<close> event, a poll of the selector (every 100 ms, only when there is
  one) with what it found, or the timer.  \<open>rs_at\<close> is the time since the script started.
\<close>

datatype ready_source = Source_Load | Source_Poll bool | Source_Timer

record ready_fire =
  rs_at :: millis
  rs_source :: ready_source

definition ready_step :: "millis \<Rightarrow> bool \<Rightarrow> unit \<Rightarrow> ready_fire \<Rightarrow> (unit, ready_state \<times> millis) poll_step" where
  "ready_step max_ms polls _ f =
     (case rs_source f of
        Source_Load \<Rightarrow> Poll_Done (Ready_LoadComplete, rs_at f)
      | Source_Poll yes \<Rightarrow> if polls \<and> yes then Poll_Done (Ready_SelectorFound, rs_at f) else Poll_Next ()
      | Source_Timer \<Rightarrow> if max_ms \<le> rs_at f then Poll_Done (Ready_TimedOut, rs_at f) else Poll_Next ())"

definition document_ready ::
  "millis \<Rightarrow> string option \<Rightarrow> bool \<Rightarrow> bool \<Rightarrow> ready_fire list \<Rightarrow> (ready_state \<times> millis) option" where
  "document_ready max_ms selector is_complete found_at_start fires =
     (if is_complete then Some (Ready_AlreadyComplete, 0)
      else if selector \<noteq> None \<and> found_at_start then Some (Ready_SelectorFound, 0)
      else poll_loop (ready_step max_ms (selector \<noteq> None)) () fires)"

text \<open>The timer ends the wait, whatever the page does.\<close>

interpretation ready: budgeted_poll "ready_step max_ms polls" "\<lambda>f. rs_source f = Source_Timer \<and> max_ms \<le> rs_at f"
  for max_ms polls
  by unfold_locales (auto simp: ready_step_def)

lemma ready_step_done:
  "ready_step max_ms polls u f = Poll_Done (state, t) \<Longrightarrow>
   t = rs_at f \<and>
   (state = Ready_LoadComplete \<and> rs_source f = Source_Load \<or>
    state = Ready_SelectorFound \<and> polls \<and> rs_source f = Source_Poll True \<or>
    state = Ready_TimedOut \<and> rs_source f = Source_Timer \<and> max_ms \<le> rs_at f)"
  by (auto simp: ready_step_def split: ready_source.splits if_splits)

text \<open>
  The script's verdict is what happened in the page: it says the document was complete, that \<open>load\<close> fired or that
  the selector was found only if so (the last only when a selector was asked for), and that it timed
  out only after the whole time it was given.
\<close>

lemma document_ready_justified:
  assumes "document_ready max_ms selector is_complete found_at_start fires = Some (state, t)"
  shows "case state of
      Ready_AlreadyComplete \<Rightarrow> is_complete
    | Ready_LoadComplete \<Rightarrow> \<exists>f \<in> set fires. rs_source f = Source_Load \<and> rs_at f = t
    | Ready_SelectorFound \<Rightarrow> selector \<noteq> None \<and>
        (found_at_start \<or> (\<exists>f \<in> set fires. rs_source f = Source_Poll True \<and> rs_at f = t))
    | Ready_TimedOut \<Rightarrow> max_ms \<le> t"
proof (cases "is_complete \<or> (selector \<noteq> None \<and> found_at_start)")
  case True
  then show ?thesis using assms by (auto simp: document_ready_def split: if_splits)
next
  case False
  then have "poll_loop (ready_step max_ms (selector \<noteq> None)) () fires = Some (state, t)"
    using assms by (auto simp: document_ready_def split: if_splits)
  then obtain xs f ys where f: "fires = xs @ f # ys" "ready_step max_ms (selector \<noteq> None) () f = Poll_Done (state, t)"
    by (auto elim: poll_loop_SomeE)
  from ready_step_done [OF f(2)] show ?thesis
    using f(1) by (auto split: ready_state.split)
qed

lemma document_ready_returns:
  "\<exists>f \<in> set fires. rs_source f = Source_Timer \<and> max_ms \<le> rs_at f \<Longrightarrow>
   document_ready max_ms selector is_complete found_at_start fires \<noteq> None"
  using ready.returns [of _ fires max_ms "selector \<noteq> None" "()"] by (auto simp: document_ready_def)

section \<open>Phase 1.5\<close>

text \<open>
  What the strategy makes of the script's answer: it goes on in any case, and only a timeout makes it run the
  script that says which resources block the page.  The log line is named by its state.
\<close>

datatype ready_log =
    Log_Skipped
  | Log_State string nat
  | Log_UnknownState string
  | Log_BadJson string
  | Log_NoAnswer
  | Log_ScriptFailed string

definition ready_phase ::
  "millis \<Rightarrow> millis \<Rightarrow> (string \<Rightarrow> string + (string \<times> nat)) \<Rightarrow> (millis \<Rightarrow> js_answer) \<Rightarrow> ready_log \<times> bool" where
  "ready_phase budget elapsed parse_load run_script =
     (case max_ready_wait budget elapsed of
        None \<Rightarrow> (Log_Skipped, False)
      | Some wait \<Rightarrow>
          (case run_script wait of
             Inl e \<Rightarrow> (Log_ScriptFailed e, False)
           | Inr (Some (Js_String json)) \<Rightarrow>
               (case parse_load json of
                  Inl e \<Rightarrow> (Log_BadJson e, False)
                | Inr (state, t) \<Rightarrow>
                    if state \<in> ready_state_text ` set [Ready_AlreadyComplete, Ready_LoadComplete, Ready_SelectorFound, Ready_TimedOut]
                    then (Log_State state t, state = ready_state_text Ready_TimedOut)
                    else (Log_UnknownState state, False))
           | Inr _ \<Rightarrow> (Log_NoAnswer, False)))"

lemma ready_state_text_inject [simp]: "ready_state_text a = ready_state_text b \<longleftrightarrow> a = b"
  by (cases a; cases b) simp_all

text \<open>
  The time given to the script is within the budget and at least a tenth of a second, and a document the
  script settles by its own timer is diagnosed.
\<close>

lemma max_ready_wait_within:
  "max_ready_wait budget elapsed = Some wait \<Longrightarrow> 100 \<le> wait \<and> wait \<le> 30000 \<and> elapsed + wait \<le> budget"
  by (auto simp: max_ready_wait_def Let_def split: if_splits)

lemma ready_phase_diagnoses_timeouts:
  assumes "max_ready_wait budget elapsed = Some wait"
    and "document_ready wait selector is_complete found_at_start fires = Some (state, t)"
    and "run_script wait = Inr (Some (Js_String (to_json (ready_state_text state) t)))"
    and "\<And>s t. parse_load (to_json s t) = Inr (s, t)"
  shows "ready_phase budget elapsed parse_load run_script = (Log_State (ready_state_text state) t, state = Ready_TimedOut)"
  by (cases state) (simp_all add: ready_phase_def assms(1,3,4))

section \<open>The clock of the loops\<close>

text \<open>
  The pause of the network-idle loops: none when less than the poll interval is left.  The readings of the clock
  a loop makes when each iteration's own work takes \<open>c i\<close> milliseconds, up to the first that finds the budget
  spent.
\<close>

definition POLL_INTERVAL :: millis where [cfg_simps]: "POLL_INTERVAL = 500"

definition idle_pause :: "millis \<Rightarrow> millis \<Rightarrow> millis" where
  "idle_pause budget elapsed = (if budget - elapsed < POLL_INTERVAL then 0 else POLL_INTERVAL)"

definition timeout_pause :: "millis \<Rightarrow> millis \<Rightarrow> millis" where
  "timeout_pause budget elapsed = POLL_INTERVAL"

fun clock_readings ::
  "(millis \<Rightarrow> millis \<Rightarrow> millis) \<Rightarrow> (nat \<Rightarrow> millis) \<Rightarrow> millis \<Rightarrow> nat \<Rightarrow> nat \<Rightarrow> millis \<Rightarrow> millis list" where
  "clock_readings pause c budget 0 i elapsed = []"
| "clock_readings pause c budget (Suc n) i elapsed =
     (let t = elapsed + c i
      in t # (if budget \<le> t then [] else clock_readings pause c budget n (Suc i) (t + pause budget t)))"

lemma clock_reaches_budget:
  assumes "\<And>i. 0 < c i" "budget < elapsed + n" "0 < n"
  shows "\<exists>t \<in> set (clock_readings pause c budget n i elapsed). budget \<le> t"
  using assms(2,3)
proof (induction n arbitrary: i elapsed)
  case (Suc n)
  show ?case
  proof (cases "budget \<le> elapsed + c i")
    case False
    have "budget < elapsed + c i + pause budget (elapsed + c i) + n" "0 < n"
      using Suc.prems assms(1) [of i] False by linarith+
    from Suc.IH [OF this, of "Suc i"] show ?thesis
      by (simp add: Let_def)
  qed (simp add: Let_def)
qed simp

lemma clock_overshoot:
  assumes "\<And>i. c i \<le> d" "elapsed \<le> budget + slack"
    and "\<And>t. t < budget \<Longrightarrow> t + pause budget t \<le> budget + slack"
    and "t \<in> set (clock_readings pause c budget n i elapsed)"
  shows "t \<le> budget + slack + d"
  using assms(2,4)
proof (induction n arbitrary: i elapsed)
  case (Suc n)
  show ?case
  proof (cases "t = elapsed + c i")
    case True
    then show ?thesis using Suc.prems(1) assms(1) [of i] by linarith
  next
    case False
    with Suc.prems(2) have "elapsed + c i < budget"
      "t \<in> set (clock_readings pause c budget n (Suc i) (elapsed + c i + pause budget (elapsed + c i)))"
      by (auto simp: Let_def split: if_splits)
    with Suc.IH [OF assms(3)] show ?thesis by blast
  qed
qed simp

lemma idle_pause_within: "t < budget \<Longrightarrow> t + idle_pause budget t \<le> budget"
  by (auto simp: idle_pause_def)

text \<open>
  A loop whose iterations take some time makes a reading at or after its budget, after at most one iteration for
  every millisecond of it; that reading is late by no more than the iteration it was made in, and in the fixed-timeout
  strategy by a pause more.  So the readings that the termination of the waits asks for are always made.
\<close>

theorem polls_meet_their_budget:
  assumes "\<And>i. 0 < c i" "\<And>i. c i \<le> d" "budget < n"
  shows "(\<exists>t \<in> set (clock_readings idle_pause c budget n 0 0). budget \<le> t) \<and>
    (\<forall>t \<in> set (clock_readings idle_pause c budget n 0 0). t \<le> budget + d) \<and>
    (\<exists>t \<in> set (clock_readings timeout_pause c budget n 0 0). budget \<le> t) \<and>
    (\<forall>t \<in> set (clock_readings timeout_pause c budget n 0 0). t \<le> budget + POLL_INTERVAL + d)"
proof (intro conjI ballI)
  show "\<exists>t \<in> set (clock_readings idle_pause c budget n 0 0). budget \<le> t"
    "\<exists>t \<in> set (clock_readings timeout_pause c budget n 0 0). budget \<le> t"
    using clock_reaches_budget [of c budget 0 n] assms(1,3) by simp_all
next
  fix t
  assume "t \<in> set (clock_readings idle_pause c budget n 0 0)"
  then show "t \<le> budget + d"
    using clock_overshoot [of c d 0 budget 0 idle_pause t n 0] assms(2) idle_pause_within [of _ budget] by simp
next
  fix t
  assume "t \<in> set (clock_readings timeout_pause c budget n 0 0)"
  then show "t \<le> budget + POLL_INTERVAL + d"
    using clock_overshoot [of c d 0 budget POLL_INTERVAL timeout_pause t n 0] assms(2) by (simp add: timeout_pause_def)
qed

lemma polls_meet_their_budget_witness:
  "\<exists>t \<in> set (clock_readings idle_pause (\<lambda>i. 10) 1000 1001 0 0). 1000 \<le> t \<and> t \<le> 1000 + 10"
proof -
  have "(\<exists>t \<in> set (clock_readings idle_pause (\<lambda>i. 10) 1000 1001 0 0). 1000 \<le> t) \<and>
      (\<forall>t \<in> set (clock_readings idle_pause (\<lambda>i. 10) 1000 1001 0 0). t \<le> 1000 + 10)"
    by (rule polls_meet_their_budget [of "\<lambda>i. 10" 10 1000 1001, THEN conjunct1, THEN conjI,
          OF _ _ _ polls_meet_their_budget [of "\<lambda>i. 10" 10 1000 1001, THEN conjunct2, THEN conjunct1]]) simp_all
  then show ?thesis by blast
qed

text \<open>
  Without the pause the loop does not check one more time and exit, as its comment has it: it polls without a
  rest until the budget is spent, here 48 times in the last half second instead of once.
\<close>

lemma clock_readings_numeral:
  "clock_readings pause c budget (numeral k) i elapsed =
     (let t = elapsed + c i
      in t # (if budget \<le> t then [] else clock_readings pause c budget (pred_numeral k) (Suc i) (t + pause budget t)))"
  by (simp add: numeral_eq_Suc)

lemma last_half_second_spins:
  "length (filter (\<lambda>t. 500 < t \<and> t < 1000) (clock_readings idle_pause (\<lambda>i. 10) 1000 60 0 0)) = 48"
  by (simp add: clock_readings_numeral idle_pause_def POLL_INTERVAL_def Let_def)

text \<open>So the fixed-timeout strategy returns whatever its page does: its clock meets the budget.\<close>

lemma timeout_returns_by_the_clock:
  assumes "\<And>i. 0 < c i" "effective_timeout timeout_ms < n"
    and "map po_now (te_polls env) =
      map ((+) (started_ago spent (te_now env))) (clock_readings timeout_pause c (effective_timeout timeout_ms) n 0 0)"
  shows "timeout_run spent timeout_ms w k env \<noteq> None"
proof -
  obtain t where t: "t \<in> set (clock_readings timeout_pause c (effective_timeout timeout_ms) n 0 0)"
    "effective_timeout timeout_ms \<le> t"
    using clock_reaches_budget [of c "effective_timeout timeout_ms" 0 n timeout_pause 0] assms(1,2) by auto
  then have "started_ago spent (te_now env) + t \<in> set (map po_now (te_polls env))"
    by (simp add: assms(3))
  then obtain ob where "ob \<in> set (te_polls env)" "po_now ob = started_ago spent (te_now env) + t"
    by auto
  with t(2) have "effective_timeout timeout_ms \<le> po_now ob - started_ago spent (te_now env)" by simp
  with \<open>ob \<in> set (te_polls env)\<close> show ?thesis
    using fixed.returns by (fastforce simp: timeout_run_def split: sum.split)
qed

end
