(* ===== verification/Metrics_Registry.thy ===== *)
theory Metrics_Registry
  imports Worker_Metrics Response_Observer Coordinator_Metrics
begin

text \<open>
  What the two processes register with Prometheus (\<open>Metrics::new\<close>, \<open>ThirdPartyMetrics::register\<close>,
  \<open>CoordinatorMetrics::new\<close>) and the counter families of the third-party metrics, the iframe sampler
  included (\<open>worker/src/third_party.rs\<close>).

  The Prometheus crate is a library: adding a collector to a registry is the parameter \<open>add\<close>, whose
  documented behaviour (\<open>registry_law\<close>) is a hypothesis: it accepts a well-formed collector whose name is new.
  Encoding the exposition text and the HTTP server are the library's.
\<close>

section \<open>Descriptions\<close>

datatype metric_kind = Gauge_Vec | Counter_Vec | Histogram_Vec "rat list"

record metric_desc =
  mx_name :: string
  mx_kind :: metric_kind
  mx_labels :: "string list"

definition gauge_desc :: "string \<Rightarrow> string list \<Rightarrow> metric_desc" where
  "gauge_desc name labels = \<lparr>mx_name = name, mx_kind = Gauge_Vec, mx_labels = labels\<rparr>"

definition counter_desc :: "string \<Rightarrow> string list \<Rightarrow> metric_desc" where
  "counter_desc name labels = \<lparr>mx_name = name, mx_kind = Counter_Vec, mx_labels = labels\<rparr>"

definition histogram_desc :: "string \<Rightarrow> string list \<Rightarrow> rat list \<Rightarrow> metric_desc" where
  "histogram_desc name labels buckets =
     \<lparr>mx_name = name, mx_kind = Histogram_Vec buckets, mx_labels = labels\<rparr>"

definition WORKER_BUCKETS :: "rat list" where
  "WORKER_BUCKETS = [1/10, 1/4, 1/2, 1, 2, 3, 5, 8, 13, 21, 34, 60, 90, 120, 180, 320]"

definition COORDINATOR_BUCKETS :: "rat list" where
  "COORDINATOR_BUCKETS = [5/1000, 5/100, 1/4, 1, 2, 5, 8, 13, 21, 34, 60, 90, 120, 180, 320]"

definition pool_metrics :: "metric_desc list" where
  "pool_metrics =
     [gauge_desc ''browser_hive_worker_total_contexts'' [''scope''],
      gauge_desc ''browser_hive_worker_active_contexts'' [''scope''],
      gauge_desc ''browser_hive_worker_claimed_contexts'' [''scope''],
      gauge_desc ''browser_hive_worker_available_slots'' [''scope''],
      gauge_desc ''browser_hive_worker_total_slots'' [''scope'']]"

definition request_series :: "metric_desc list" where
  "request_series =
     [counter_desc ''browser_hive_worker_requests_total'' [''scope''],
      counter_desc ''browser_hive_worker_requests_failed'' [''scope''],
      histogram_desc ''browser_hive_worker_request_duration_seconds'' [''scope''] WORKER_BUCKETS]"

definition browser_metrics :: "metric_desc list" where
  "browser_metrics =
     [gauge_desc ''browser_hive_worker_browser_processes'' [''scope'', ''type''],
      gauge_desc ''browser_hive_worker_browser_process_pss_bytes'' [''scope'', ''type''],
      gauge_desc ''browser_hive_worker_browser_process_max_pss_bytes'' [''scope'', ''type''],
      gauge_desc ''browser_hive_worker_browser_targets'' [''scope'', ''type''],
      gauge_desc ''browser_hive_worker_browser_contexts'' [''scope''],
      gauge_desc ''browser_hive_worker_process_resident_memory_bytes'' [''scope''],
      gauge_desc ''browser_hive_worker_process_threads'' [''scope'']]"

text \<open>A capped counter's collector, and the five families of \<open>ThirdPartyMetrics\<close>.\<close>

definition capped_desc :: "string \<Rightarrow> string \<Rightarrow> metric_desc" where
  "capped_desc name host_label = counter_desc name [''scope'', ''page_site'', host_label]"

definition third_party_descs :: "metric_desc list" where
  "third_party_descs =
     [capped_desc ''browser_hive_worker_iframes_total'' ''iframe_host'',
      capped_desc ''browser_hive_worker_third_party_requests_total'' ''request_host'',
      capped_desc ''browser_hive_worker_third_party_requests_blocked_total'' ''request_host'',
      capped_desc ''browser_hive_worker_requests_blocked_by_type_total'' ''resource_type'',
      capped_desc ''browser_hive_worker_page_requests_total'' ''challenge'']"

definition worker_descs :: "metric_desc list" where
  "worker_descs = (pool_metrics @ request_series @ browser_metrics) @ third_party_descs"

definition coordinator_descs :: "metric_desc list" where
  "coordinator_descs =
     [counter_desc ''browser_hive_coordinator_requests_total'' [''scope''],
      counter_desc ''browser_hive_coordinator_requests_rejected_total'' [''scope'', ''reason''],
      counter_desc ''browser_hive_coordinator_requests_retried_total'' [''scope'', ''reason''],
      histogram_desc ''browser_hive_coordinator_request_duration_seconds'' [''scope''] COORDINATOR_BUCKETS,
      gauge_desc ''browser_hive_coordinator_scope_workers_total'' [''scope''],
      gauge_desc ''browser_hive_coordinator_scope_workers_healthy'' [''scope''],
      gauge_desc ''browser_hive_coordinator_scope_available_slots'' [''scope'']]"

section \<open>Registration\<close>

text \<open>One collector after another; the first refusal is the constructor's error.\<close>

fun register_all :: "(metric_desc \<Rightarrow> 'r \<Rightarrow> string + 'r) \<Rightarrow> metric_desc list \<Rightarrow> 'r \<Rightarrow> string + 'r" where
  "register_all add [] r = Inr r"
| "register_all add (d # ds) r = (case add d r of Inl e \<Rightarrow> Inl e | Inr r' \<Rightarrow> register_all add ds r')"

text \<open>
  \<open>ThirdPartyMetrics::register\<close>: five capped families with one cap; the last keeps its second label past the
  cap.  Their \<open>scope\<close> label is constant.
\<close>

record third_party_metrics =
  tp_iframes :: capped_counter
  tp_requests :: capped_counter
  tp_blocked :: capped_counter
  tp_blocked_by_type :: capped_counter
  tp_page_requests :: capped_counter

definition third_party_new :: "nat \<Rightarrow> third_party_metrics" where
  "third_party_new max_series =
     \<lparr>tp_iframes = capped_counter_new max_series False,
      tp_requests = capped_counter_new max_series False,
      tp_blocked = capped_counter_new max_series False,
      tp_blocked_by_type = capped_counter_new max_series False,
      tp_page_requests = capped_counter_new max_series True\<rparr>"

definition third_party_register ::
  "(metric_desc \<Rightarrow> 'r \<Rightarrow> string + 'r) \<Rightarrow> nat \<Rightarrow> 'r \<Rightarrow> string + ('r \<times> third_party_metrics)" where
  "third_party_register add max_series r =
     (case register_all add third_party_descs r of
        Inl e \<Rightarrow> Inl e
      | Inr r' \<Rightarrow> Inr (r', third_party_new max_series))"

text \<open>
  \<open>Metrics::new\<close>: the cap comes from the environment, and the pool and request series of the scope are
  touched, so that they are exposed at zero before the first request.
\<close>

definition initial_series :: "string \<Rightarrow> ((string \<times> string list) \<times> nat) list" where
  "initial_series scope = map (\<lambda>d. ((mx_name d, [scope]), 0)) (pool_metrics @ request_series)"

definition worker_metrics_new ::
  "(metric_desc \<Rightarrow> 'r \<Rightarrow> string + 'r) \<Rightarrow> 'r \<Rightarrow> string \<Rightarrow> string option \<Rightarrow>
   string + ('r \<times> third_party_metrics \<times> ((string \<times> string list) \<times> nat) list)" where
  "worker_metrics_new add registry0 scope env_cap =
     (case register_all add (pool_metrics @ request_series @ browser_metrics) registry0 of
        Inl e \<Rightarrow> Inl e
      | Inr r \<Rightarrow>
          (case third_party_register add (max_series_from_env env_cap) r of
             Inl e \<Rightarrow> Inl e
           | Inr (r', tp) \<Rightarrow> Inr (r', tp, initial_series scope)))"

definition coordinator_registry_new :: "(metric_desc \<Rightarrow> 'r \<Rightarrow> string + 'r) \<Rightarrow> 'r \<Rightarrow> string + 'r" where
  "coordinator_registry_new add registry0 = register_all add coordinator_descs registry0"

text \<open>What the library documents about names, labels and buckets.\<close>

definition name_char :: "char \<Rightarrow> bool" where
  "name_char c \<longleftrightarrow> (CHR ''a'' \<le> c \<and> c \<le> CHR ''z'') \<or> (CHR ''A'' \<le> c \<and> c \<le> CHR ''Z'') \<or> c = CHR ''_''"

definition name_ok :: "string \<Rightarrow> bool" where
  "name_ok s \<longleftrightarrow> s \<noteq> [] \<and> list_all name_char s"

fun strictly_increasing :: "rat list \<Rightarrow> bool" where
  "strictly_increasing (x # y # ys) \<longleftrightarrow> x < y \<and> strictly_increasing (y # ys)"
| "strictly_increasing _ \<longleftrightarrow> True"

definition desc_ok :: "metric_desc \<Rightarrow> bool" where
  "desc_ok d \<longleftrightarrow>
     name_ok (mx_name d) \<and> list_all name_ok (mx_labels d) \<and> distinct (mx_labels d) \<and>
     (case mx_kind d of Histogram_Vec buckets \<Rightarrow> strictly_increasing buckets | _ \<Rightarrow> True)"

definition registry_law ::
  "(metric_desc \<Rightarrow> 'r \<Rightarrow> string + 'r) \<Rightarrow> ('r \<Rightarrow> string set) \<Rightarrow> bool" where
  "registry_law add registered \<longleftrightarrow>
     (\<forall>d r. desc_ok d \<and> mx_name d \<notin> registered r \<longrightarrow>
        (\<exists>r'. add d r = Inr r' \<and> registered r' = insert (mx_name d) (registered r)))"

lemma register_all_ok:
  assumes "registry_law add registered" "list_all desc_ok ds" "distinct (map mx_name ds)"
    and "set (map mx_name ds) \<inter> registered r = {}"
  shows "\<exists>r'. register_all add ds r = Inr r' \<and> registered r' = registered r \<union> set (map mx_name ds)"
  using assms(2-4)
proof (induction ds arbitrary: r)
  case (Cons d ds)
  have "desc_ok d" "mx_name d \<notin> registered r"
    using Cons.prems by auto
  with assms(1) obtain r1 where
    r1: "add d r = Inr r1" "registered r1 = insert (mx_name d) (registered r)"
    unfolding registry_law_def by blast
  with Cons.prems have "set (map mx_name ds) \<inter> registered r1 = {}" by auto
  with Cons.IH [of r1] Cons.prems obtain r' where
    "register_all add ds r1 = Inr r'" "registered r' = registered r1 \<union> set (map mx_name ds)"
    by auto
  with r1 show ?case by auto
qed simp

lemmas desc_defs = pool_metrics_def request_series_def browser_metrics_def third_party_descs_def
  capped_desc_def gauge_desc_def counter_desc_def histogram_desc_def

lemma worker_descs_ok: "list_all desc_ok worker_descs" "distinct (map mx_name worker_descs)"
  by (simp_all add: worker_descs_def desc_defs desc_ok_def name_ok_def name_char_def less_eq_char_def WORKER_BUCKETS_def)

lemma coordinator_descs_ok: "list_all desc_ok coordinator_descs" "distinct (map mx_name coordinator_descs)"
  by (simp_all add: coordinator_descs_def desc_defs desc_ok_def name_ok_def name_char_def less_eq_char_def
      COORDINATOR_BUCKETS_def)

lemma register_all_append:
  "register_all add (ds @ ds') r =
     (case register_all add ds r of Inl e \<Rightarrow> Inl e | Inr r' \<Rightarrow> register_all add ds' r')"
  by (induction ds arbitrary: r) (auto split: sum.splits)

lemma worker_metrics_new_eq:
  "worker_metrics_new add r scope env_cap =
     (case register_all add worker_descs r of
        Inl e \<Rightarrow> Inl e
      | Inr r' \<Rightarrow> Inr (r', third_party_new (max_series_from_env env_cap), initial_series scope))"
  by (auto simp: worker_metrics_new_def third_party_register_def worker_descs_def register_all_append split: sum.splits)

text \<open>A registry as the documentation describes it: the names it holds.\<close>

definition names_add :: "metric_desc \<Rightarrow> string list \<Rightarrow> string + string list" where
  "names_add d names =
     (if desc_ok d \<and> mx_name d \<notin> set names then Inr (mx_name d # names) else Inl ''Duplicate metrics collector registration attempted'')"

lemma names_add_law: "registry_law names_add set"
  by (simp add: registry_law_def names_add_def)

text \<open>
  No process stops over its own metrics.  On a registry that accepts a well-formed collector with a new
  name, starting from an empty one, the worker's and the coordinator's constructors both succeed, and the registry then
  holds exactly the names they expose: fifteen of the worker's own and the five third-party families, and
  seven of the coordinator's.
\<close>

theorem metrics_registration_succeeds:
  assumes "registry_law add registered" "registered r0 = {}"
  shows "(\<exists>r. worker_metrics_new add r0 scope env_cap = Inr (r, third_party_new (max_series_from_env env_cap), initial_series scope) \<and>
      registered r = set (map mx_name worker_descs) \<and> card (registered r) = 20) \<and>
    (\<exists>r. coordinator_registry_new add r0 = Inr r \<and>
      registered r = set (map mx_name coordinator_descs) \<and> card (registered r) = 7)"
proof (intro conjI)
  obtain r where "register_all add worker_descs r0 = Inr r" "registered r = set (map mx_name worker_descs)"
    using register_all_ok [OF assms(1) worker_descs_ok, of r0] assms(2) by auto
  moreover have "length worker_descs = 20"
    by (simp add: worker_descs_def desc_defs)
  ultimately show "\<exists>r. worker_metrics_new add r0 scope env_cap = Inr (r, third_party_new (max_series_from_env env_cap), initial_series scope) \<and>
      registered r = set (map mx_name worker_descs) \<and> card (registered r) = 20"
    using distinct_card [OF worker_descs_ok(2)] by (simp add: worker_metrics_new_eq)
next
  obtain r where "register_all add coordinator_descs r0 = Inr r" "registered r = set (map mx_name coordinator_descs)"
    using register_all_ok [OF assms(1) coordinator_descs_ok, of r0] assms(2) by auto
  moreover have "length coordinator_descs = 7"
    by (simp add: coordinator_descs_def desc_defs)
  ultimately show "\<exists>r. coordinator_registry_new add r0 = Inr r \<and>
      registered r = set (map mx_name coordinator_descs) \<and> card (registered r) = 7"
    using distinct_card [OF coordinator_descs_ok(2)] by (simp add: coordinator_registry_new_def)
qed

lemma metrics_registration_succeeds_witness:
  "\<exists>r. worker_metrics_new names_add [] ''s'' (Some ''50'') =
     Inr (r, third_party_new (max_series_from_env (Some ''50'')), initial_series ''s'') \<and>
     card (set r) = 20"
  using metrics_registration_succeeds [OF names_add_law, of "[]" "''s''" "Some ''50''"] by auto

section \<open>Closed label sets\<close>

text \<open>
  The reasons of the coordinator's counters and the outcomes of a challenge are closed sets; the lists the code
  registers at start are the whole type.
\<close>

instantiation reject_reason :: enum
begin

definition enum_reject_reason :: "reject_reason list" where
  "enum_reject_reason = ALL_REJECT_REASONS"

definition enum_all_reject_reason :: "(reject_reason \<Rightarrow> bool) \<Rightarrow> bool" where
  "enum_all_reject_reason P \<longleftrightarrow> list_all P ALL_REJECT_REASONS"

definition enum_ex_reject_reason :: "(reject_reason \<Rightarrow> bool) \<Rightarrow> bool" where
  "enum_ex_reject_reason P \<longleftrightarrow> list_ex P ALL_REJECT_REASONS"

instance
proof
  have all: "r \<in> set ALL_REJECT_REASONS" for r
    by (cases r) (simp_all add: ALL_REJECT_REASONS_def)
  then show UNIV: "(UNIV :: reject_reason set) = set enum_class.enum"
    by (auto simp: enum_reject_reason_def)
  show "distinct (enum_class.enum :: reject_reason list)"
    by (simp add: enum_reject_reason_def ALL_REJECT_REASONS_def)
  show "enum_class.enum_all P \<longleftrightarrow> Ball UNIV P" "enum_class.enum_ex P \<longleftrightarrow> Bex UNIV P" for P :: "reject_reason \<Rightarrow> bool"
    using all by (auto simp: enum_all_reject_reason_def enum_ex_reject_reason_def list_all_iff list_ex_iff)
qed

end

instantiation retry_reason :: enum
begin

definition enum_retry_reason :: "retry_reason list" where
  "enum_retry_reason = ALL_RETRY_REASONS"

definition enum_all_retry_reason :: "(retry_reason \<Rightarrow> bool) \<Rightarrow> bool" where
  "enum_all_retry_reason P \<longleftrightarrow> list_all P ALL_RETRY_REASONS"

definition enum_ex_retry_reason :: "(retry_reason \<Rightarrow> bool) \<Rightarrow> bool" where
  "enum_ex_retry_reason P \<longleftrightarrow> list_ex P ALL_RETRY_REASONS"

instance
proof
  have all: "r \<in> set ALL_RETRY_REASONS" for r
    by (cases r) (simp_all add: ALL_RETRY_REASONS_def)
  then show UNIV: "(UNIV :: retry_reason set) = set enum_class.enum"
    by (auto simp: enum_retry_reason_def)
  show "distinct (enum_class.enum :: retry_reason list)"
    by (simp add: enum_retry_reason_def ALL_RETRY_REASONS_def)
  show "enum_class.enum_all P \<longleftrightarrow> Ball UNIV P" "enum_class.enum_ex P \<longleftrightarrow> Bex UNIV P" for P :: "retry_reason \<Rightarrow> bool"
    using all by (auto simp: enum_all_retry_reason_def enum_ex_retry_reason_def list_all_iff list_ex_iff)
qed

end

lemma with_labels_keys:
  "hkeys (foldl (\<lambda>m r. with_label (f r) m) m rs) = hkeys m \<union> f ` set rs"
  by (induction rs arbitrary: m) (auto simp: with_label_def hget_None_iff)

text \<open>A registered scope exposes a series for every reason there is.\<close>

lemma registered_scope_has_every_series:
  "(scope, reject_as_str r) \<in> hkeys (cm_requests_rejected_total (register_scope scope cm))"
  "(scope, retry_as_str y) \<in> hkeys (cm_requests_retried_total (register_scope scope cm))"
  using UNIV_enum [where 'a = reject_reason] UNIV_enum [where 'a = retry_reason]
  by (auto simp: register_scope_def with_labels_keys enum_reject_reason_def enum_retry_reason_def)

section \<open>Counting\<close>

text \<open>
  What the worker reports to the families: a load of a request (\<open>RequestLoads\<close>), a scrape request with its
  challenge outcome (\<open>page_request\<close>), an iframe of a sample.
\<close>

datatype third_party_event =
    TP_Load string load_count
  | TP_Page string challenge_outcome
  | TP_Iframe string string

definition count_load :: "string \<Rightarrow> load_count \<Rightarrow> third_party_metrics \<Rightarrow> third_party_metrics" where
  "count_load home l m =
     (case l of
        Count_Request h \<Rightarrow> m\<lparr>tp_requests := cc_inc (home, h) (tp_requests m)\<rparr>
      | Count_Blocked h \<Rightarrow> m\<lparr>tp_blocked := cc_inc (home, h) (tp_blocked m)\<rparr>
      | Count_Type label \<Rightarrow> m\<lparr>tp_blocked_by_type := cc_inc (home, label) (tp_blocked_by_type m)\<rparr>)"

definition page_request :: "string \<Rightarrow> challenge_outcome \<Rightarrow> third_party_metrics \<Rightarrow> third_party_metrics" where
  "page_request home out m = m\<lparr>tp_page_requests := cc_inc (home, challenge_as_str out) (tp_page_requests m)\<rparr>"

definition count_iframe :: "string \<times> string \<Rightarrow> third_party_metrics \<Rightarrow> third_party_metrics" where
  "count_iframe key m = m\<lparr>tp_iframes := cc_inc key (tp_iframes m)\<rparr>"

fun third_party_step :: "third_party_event \<Rightarrow> third_party_metrics \<Rightarrow> third_party_metrics" where
  "third_party_step (TP_Load home l) m = count_load home l m"
| "third_party_step (TP_Page home out) m = page_request home out m"
| "third_party_step (TP_Iframe home h) m = count_iframe (home, h) m"

text \<open>The label pairs each family is asked to count.\<close>

fun iframe_key :: "third_party_event \<Rightarrow> (string \<times> string) option" where
  "iframe_key (TP_Iframe home h) = Some (home, h)"
| "iframe_key _ = None"

fun request_key :: "third_party_event \<Rightarrow> (string \<times> string) option" where
  "request_key (TP_Load home (Count_Request h)) = Some (home, h)"
| "request_key _ = None"

fun blocked_key :: "third_party_event \<Rightarrow> (string \<times> string) option" where
  "blocked_key (TP_Load home (Count_Blocked h)) = Some (home, h)"
| "blocked_key _ = None"

fun type_key :: "third_party_event \<Rightarrow> (string \<times> string) option" where
  "type_key (TP_Load home (Count_Type label)) = Some (home, label)"
| "type_key _ = None"

fun page_key :: "third_party_event \<Rightarrow> (string \<times> string) option" where
  "page_key (TP_Page home out) = Some (home, challenge_as_str out)"
| "page_key _ = None"

lemma count_load_families:
  "tp_iframes (count_load home l m) = tp_iframes m" "tp_page_requests (count_load home l m) = tp_page_requests m"
  "tp_requests (count_load home l m) =
     (case request_key (TP_Load home l) of Some k \<Rightarrow> cc_inc k (tp_requests m) | None \<Rightarrow> tp_requests m)"
  "tp_blocked (count_load home l m) =
     (case blocked_key (TP_Load home l) of Some k \<Rightarrow> cc_inc k (tp_blocked m) | None \<Rightarrow> tp_blocked m)"
  "tp_blocked_by_type (count_load home l m) =
     (case type_key (TP_Load home l) of Some k \<Rightarrow> cc_inc k (tp_blocked_by_type m) | None \<Rightarrow> tp_blocked_by_type m)"
  by (cases l; simp add: count_load_def)+

lemma third_party_step_families:
  "tp_iframes (third_party_step e m) = (case iframe_key e of Some k \<Rightarrow> cc_inc k (tp_iframes m) | None \<Rightarrow> tp_iframes m)"
  "tp_requests (third_party_step e m) = (case request_key e of Some k \<Rightarrow> cc_inc k (tp_requests m) | None \<Rightarrow> tp_requests m)"
  "tp_blocked (third_party_step e m) = (case blocked_key e of Some k \<Rightarrow> cc_inc k (tp_blocked m) | None \<Rightarrow> tp_blocked m)"
  "tp_blocked_by_type (third_party_step e m) =
     (case type_key e of Some k \<Rightarrow> cc_inc k (tp_blocked_by_type m) | None \<Rightarrow> tp_blocked_by_type m)"
  "tp_page_requests (third_party_step e m) =
     (case page_key e of Some k \<Rightarrow> cc_inc k (tp_page_requests m) | None \<Rightarrow> tp_page_requests m)"
  using count_load_families
  by (cases e; simp add: page_request_def count_iframe_def)+

lemma fold_projection:
  assumes "\<And>e m. family (third_party_step e m) = (case key e of Some k \<Rightarrow> cc_inc k (family m) | None \<Rightarrow> family m)"
  shows "family (fold third_party_step es m) = fold cc_inc (List.map_filter key es) (family m)"
  by (induction es arbitrary: m) (simp_all add: assms List.map_filter_simps split: option.splits)

lemmas third_party_run_families =
  fold_projection [of tp_iframes, OF third_party_step_families(1)]
  fold_projection [of tp_requests, OF third_party_step_families(2)]
  fold_projection [of tp_blocked, OF third_party_step_families(3)]
  fold_projection [of tp_blocked_by_type, OF third_party_step_families(4)]
  fold_projection [of tp_page_requests, OF third_party_step_families(5)]

definition third_party_series :: "third_party_metrics \<Rightarrow> nat" where
  "third_party_series m =
     length (cc_series (tp_iframes m)) + length (cc_series (tp_requests m)) + length (cc_series (tp_blocked m)) +
     length (cc_series (tp_blocked_by_type m)) + length (cc_series (tp_page_requests m))"

lemma page_outcome:
  "key \<in> set (List.map_filter page_key es) \<Longrightarrow>
   snd key \<in> challenge_as_str ` set [Challenge_None, Challenge_Passed, Challenge_Failed, Challenge_Skipped]"
proof -
  assume "key \<in> set (List.map_filter page_key es)"
  then obtain e where "page_key e = Some key"
    by (auto simp: List.map_filter_def)
  then obtain home out where "key = (home, challenge_as_str out)"
    by (auto elim: page_key.elims)
  then show ?thesis by (cases out) simp_all
qed

lemma overflow_pages: "card (overflow_labels True (List.map_filter page_key es)) \<le> 4"
proof -
  let ?all = "[Challenge_None, Challenge_Passed, Challenge_Failed, Challenge_Skipped]"
  have "overflow_labels True (List.map_filter page_key es) \<subseteq> set (map (\<lambda>out. (OVERFLOW, challenge_as_str out)) ?all)"
    using page_outcome [of _ es] unfolding overflow_labels_def by fastforce
  then have "card (overflow_labels True (List.map_filter page_key es)) \<le>
      card (set (map (\<lambda>out. (OVERFLOW, challenge_as_str out)) ?all))"
    by (intro card_mono finite_set)
  also have "\<dots> \<le> length (map (\<lambda>out. (OVERFLOW, challenge_as_str out)) ?all)"
    by (rule card_length)
  finally show ?thesis by simp
qed

lemma capped_family_length:
  "length (cc_series (fold cc_inc keys (capped_counter_new cap False))) \<le> Suc cap"
  using capped_series_length [of keys cap False] by (simp add: overflow_labels_def)

text \<open>
  C36: The series a worker process can create are bounded whatever the scraped pages load.  With a cap \<open>n\<close>, any
  sequence of loads, scrape requests and sampled iframes leaves at most \<open>n\<close> named series and one overflow
  series in each of four families, and \<open>n\<close> plus one per challenge outcome in the fifth: \<open>5 n + 8\<close> in all.
  Nothing is lost: the values of the request family add up to the third-party requests reported.
\<close>

theorem third_party_series_bounded:
  "third_party_series (fold third_party_step es (third_party_new n)) \<le> 5 * n + 8 \<and>
   series_sum (cc_series (tp_requests (fold third_party_step es (third_party_new n)))) =
     length (List.map_filter request_key es)"
    (is "third_party_series ?m \<le> _ \<and> _")
proof
  have "length (cc_series (tp_page_requests ?m)) \<le> n + 4"
    using capped_series_length [of "List.map_filter page_key es" n True] overflow_pages [of es]
    by (simp add: third_party_run_families third_party_new_def)
  moreover have "length (cc_series (tp_iframes ?m)) \<le> Suc n" "length (cc_series (tp_requests ?m)) \<le> Suc n"
    "length (cc_series (tp_blocked ?m)) \<le> Suc n" "length (cc_series (tp_blocked_by_type ?m)) \<le> Suc n"
    using capped_family_length by (simp_all add: third_party_run_families third_party_new_def)
  ultimately show "third_party_series ?m \<le> 5 * n + 8"
    by (simp add: third_party_series_def)
  show "series_sum (cc_series (tp_requests ?m)) = length (List.map_filter request_key es)"
    by (simp add: third_party_run_families series_sum_run)
      (simp add: third_party_new_def capped_counter_new_def series_sum_def)
qed

text \<open>The documented worst case is four caps per process; the fifth family passes it.\<close>

lemma fifth_family_passes_documented_bound:
  "third_party_series (fold third_party_step
     [TP_Iframe ''a'' ''x'', TP_Load ''a'' (Count_Request ''x''), TP_Load ''a'' (Count_Blocked ''x''),
      TP_Load ''a'' (Count_Type ''font''), TP_Page ''a'' Challenge_None] (third_party_new 1)) = 5"
  by code_simp

section \<open>The iframe sampler\<close>

definition SAMPLE_INTERVAL :: millis where [cfg_simps]: "SAMPLE_INTERVAL = 1000"

definition SAMPLE_CALL_TIMEOUT :: millis where [cfg_simps]: "SAMPLE_CALL_TIMEOUT = 2000"

text \<open>The endpoint the sampler's connection was made to, and the frames of its last successful sample.\<close>

record iframe_sampler =
  sa_client :: "string option"
  sa_seen :: "(string \<times> string) set"

definition sampler_default :: iframe_sampler where
  "sampler_default = \<lparr>sa_client = None, sa_seen = {}\<rparr>"

text \<open>
  \<open>IframeSampler::sample\<close>: the connection is taken out first, so one that cannot be replaced is gone; a
  connection that answered with an error stays.
\<close>

definition sampler_sample ::
  "url_lib \<Rightarrow> string \<Rightarrow> (string, string) hmap \<Rightarrow> string + unit \<Rightarrow> string + target_info list \<Rightarrow>
   iframe_sampler \<times> third_party_metrics \<Rightarrow> (string + unit) \<times> iframe_sampler \<times> third_party_metrics" where
  "sampler_sample lib ws_url sites dialled targets s =
     (case s of (sa, m) \<Rightarrow>
        (case (if sa_client sa = Some ws_url then Inr () else dialled) of
           Inl e \<Rightarrow> (Inl e, sa\<lparr>sa_client := None\<rparr>, m)
         | Inr _ \<Rightarrow>
             (let sa = sa\<lparr>sa_client := Some ws_url\<rparr> in
              case targets of
                Inl e \<Rightarrow> (Inl e, sa, m)
              | Inr ts \<Rightarrow>
                  (let (found, seen) = new_iframes lib sites (sa_seen sa) ts
                   in (Inr (), sa\<lparr>sa_seen := seen\<rparr>, fold count_iframe found m)))))"

text \<open>
  One round of \<open>run_iframe_sampler\<close>: the pool gives the endpoint and the site of every context, then the
  sample runs on a blocking thread.  A task that is lost (it panicked) takes the sampler with it.
\<close>

datatype sample_task = Sample_Ran "string + unit" "string + target_info list" | Sample_Lost

definition sampler_round ::
  "url_lib \<Rightarrow> string \<times> browser_pool \<times> sample_task \<Rightarrow>
   iframe_sampler \<times> third_party_metrics \<Rightarrow> iframe_sampler \<times> third_party_metrics" where
  "sampler_round lib tick s =
     (case tick of (ws_url, pool, task) \<Rightarrow>
        (case task of
           Sample_Ran dialled targets \<Rightarrow> snd (sampler_sample lib ws_url (sites_by_cdp_context pool) dialled targets s)
         | Sample_Lost \<Rightarrow> (sampler_default, snd s)))"

text \<open>The frames of a target list, by target and host.\<close>

definition frame_key :: "url_lib \<Rightarrow> target_info \<Rightarrow> (string \<times> string) option" where
  "frame_key lib t =
     (if ti_type t = ''iframe'' then map_option (Pair (ti_id t)) (host_of lib (ti_url t)) else None)"

definition frames_of :: "url_lib \<Rightarrow> target_info list \<Rightarrow> (string \<times> string) set" where
  "frames_of lib ts = set (List.map_filter (frame_key lib) ts)"

lemma frames_of_Cons:
  "frames_of lib (t # ts) = (case frame_key lib t of Some k \<Rightarrow> insert k (frames_of lib ts) | None \<Rightarrow> frames_of lib ts)"
  by (simp add: frames_of_def List.map_filter_simps split: option.split)

lemma new_iframes_seen: "snd (new_iframes lib sites seen ts) = frames_of lib ts"
proof (induction ts)
  case Nil
  then show ?case by (simp add: frames_of_def List.map_filter_simps)
next
  case (Cons t ts)
  then show ?case
    by (cases "host_of lib (ti_url t)")
      (simp_all add: frames_of_Cons frame_key_def Let_def split_def)
qed

definition new_frame :: "url_lib \<Rightarrow> (string \<times> string) set \<Rightarrow> target_info \<Rightarrow> bool" where
  "new_frame lib seen t \<longleftrightarrow> (case frame_key lib t of Some k \<Rightarrow> k \<notin> seen | None \<Rightarrow> False)"

lemma new_iframes_length:
  "length (fst (new_iframes lib sites seen ts)) \<le> length (filter (new_frame lib seen) ts)"
proof (induction ts)
  case (Cons t ts)
  have "length (fst (new_iframes lib sites seen (t # ts))) \<le>
      length (fst (new_iframes lib sites seen ts)) + (if new_frame lib seen t then 1 else 0)"
    by (auto simp: new_frame_def frame_key_def Let_def split: prod.splits option.splits)
  with Cons.IH show ?case by auto
qed simp

lemma frames_of_member: "t \<in> set ts \<Longrightarrow> frame_key lib t = Some k \<Longrightarrow> k \<in> frames_of lib ts"
  by (force simp: frames_of_def List.map_filter_def)

lemma new_iframes_known:
  assumes "frames_of lib ts \<subseteq> seen"
  shows "fst (new_iframes lib sites seen ts) = []"
proof -
  have "\<not> new_frame lib seen t" if "t \<in> set ts" for t
    using frames_of_member [OF that, of lib] assms by (auto simp: new_frame_def split: option.splits)
  then show ?thesis
    using new_iframes_length [of lib sites seen ts] by (simp add: filter_False)
qed

text \<open>A round that shows the same frames, or shows none because it failed.\<close>

fun shows_only :: "url_lib \<Rightarrow> (string \<times> string) set \<Rightarrow> sample_task \<Rightarrow> bool" where
  "shows_only lib frames (Sample_Ran dialled (Inr ts)) \<longleftrightarrow> frames_of lib ts = frames"
| "shows_only lib frames (Sample_Ran dialled (Inl e)) \<longleftrightarrow> True"
| "shows_only lib frames Sample_Lost \<longleftrightarrow> False"

lemma sampler_sample_known:
  assumes "frames_of lib ts = sa_seen (fst s)"
  shows "sa_seen (fst (snd (sampler_sample lib ws sites dialled (Inr ts) s))) = sa_seen (fst s)"
    and "snd (snd (sampler_sample lib ws sites dialled (Inr ts) s)) = snd s"
  using new_iframes_known [of lib ts "sa_seen (fst s)" sites] new_iframes_seen [of lib sites "sa_seen (fst s)" ts] assms
  by (auto simp: sampler_sample_def Let_def split: prod.splits sum.splits)

lemma sampler_sample_failed:
  "sa_seen (fst (snd (sampler_sample lib ws sites dialled (Inl e) s))) = sa_seen (fst s)"
  "snd (snd (sampler_sample lib ws sites dialled (Inl e) s)) = snd s"
  by (auto simp: sampler_sample_def Let_def split: prod.splits sum.splits)

lemma sampler_round_known:
  assumes "shows_only lib (sa_seen (fst s)) task"
  shows "sa_seen (fst (sampler_round lib (ws, pool, task) s)) = sa_seen (fst s) \<and>
    snd (sampler_round lib (ws, pool, task) s) = snd s"
proof (cases task)
  case (Sample_Ran dialled targets)
  then show ?thesis
    using assms by (cases targets) (simp_all add: sampler_round_def sampler_sample_known sampler_sample_failed)
next
  case Sample_Lost
  then show ?thesis using assms by simp
qed

lemma sampler_run_known:
  assumes "\<forall>(ws, pool, task) \<in> set ticks. shows_only lib (sa_seen (fst s)) task"
  shows "snd (fold (sampler_round lib) ticks s) = snd s \<and> sa_seen (fst (fold (sampler_round lib) ticks s)) = sa_seen (fst s)"
  using assms
proof (induction ticks arbitrary: s)
  case (Cons tick ticks)
  obtain ws pool task where tick: "tick = (ws, pool, task)" by (cases tick)
  have "sa_seen (fst (sampler_round lib tick s)) = sa_seen (fst s)" "snd (sampler_round lib tick s) = snd s"
    using Cons.prems sampler_round_known [of lib s task ws pool] by (auto simp: tick)
  then show ?case
    using Cons.IH [of "sampler_round lib tick s"] Cons.prems by simp
qed simp

lemma sampler_sample_ok:
  assumes "sampler_sample lib ws sites dialled (Inr ts) s = (Inr u, s')"
  shows "sa_seen (fst s') = frames_of lib ts"
    and "snd s' = fold count_iframe (fst (new_iframes lib sites (sa_seen (fst s)) ts)) (snd s)"
  using assms new_iframes_seen [of lib sites "sa_seen (fst s)" ts]
  by (auto simp: sampler_sample_def Let_def split: prod.splits sum.splits)

text \<open>
  A frame is counted when it appears, not once per sample.  After a sample that listed the targets \<open>ts\<close>, any
  number of further rounds that list the same frames or fail (no connection, no answer) leave every counter as
  that one sample left it; and the sample itself counted at most its frames that the previous one had not shown.
\<close>

theorem iframes_counted_on_arrival:
  assumes "sampler_sample lib ws sites dialled (Inr ts) (sa, m) = (Inr u, s')"
    and "\<forall>(ws, pool, task) \<in> set ticks. shows_only lib (frames_of lib ts) task"
  shows "snd (fold (sampler_round lib) ticks s') = snd s' \<and>
    (\<exists>found. snd s' = fold count_iframe found m \<and>
       length found \<le> length (filter (new_frame lib (sa_seen sa)) ts))"
  using sampler_sample_ok [OF assms(1)] sampler_run_known [of ticks lib s'] assms(2)
    new_iframes_length [of lib sites "sa_seen sa" ts] by auto

definition sample_frame :: target_info where
  "sample_frame = \<lparr>ti_id = ''f'', ti_type = ''iframe'', ti_url = ''shop'', ti_context = None\<rparr>"

lemma sample_first:
  "sampler_sample sample_url_lib ''ws'' hempty (Inr ()) (Inr [sample_frame]) (sampler_default, third_party_new 9) =
     (Inr (), \<lparr>sa_client = Some ''ws'', sa_seen = {(''f'', ''shop'')}\<rparr>,
      count_iframe (''unknown'', ''shop'') (third_party_new 9))"
  by (simp add: sampler_sample_def sampler_default_def sample_frame_def sample_url_lib_def host_of_def to_lower_def
      ascii_lower_def UNKNOWN_SITE_def Let_def)

lemma iframes_counted_on_arrival_witness:
  "snd (fold (sampler_round sample_url_lib)
     [(''ws'', p, Sample_Ran (Inr ()) (Inl ''timed out'')), (''ws'', p, Sample_Ran (Inl ''refused'') (Inl ''closed''))]
     (\<lparr>sa_client = Some ''ws'', sa_seen = {(''f'', ''shop'')}\<rparr>,
      count_iframe (''unknown'', ''shop'') (third_party_new 9))) =
   count_iframe (''unknown'', ''shop'') (third_party_new 9)"
  using iframes_counted_on_arrival [OF sample_first,
      of "[(''ws'', p, Sample_Ran (Inr ()) (Inl ''timed out'')), (''ws'', p, Sample_Ran (Inl ''refused'') (Inl ''closed''))]"]
  by (simp del: fold_simps)

section \<open>Answering a scrape of the metrics\<close>

text \<open>
  \<open>within_budget\<close> over a blocking collector: its value, its panic, or the budget.  \<open>metrics_handler\<close> refreshes the
  gauges and encodes the registry; the encoder is the library's, its answer the parameter.
\<close>

definition BROWSER_SNAPSHOT_BUDGET :: millis where [cfg_simps]: "BROWSER_SNAPSHOT_BUDGET = 3000"

datatype 'a collector = Collected millis 'a | Collector_Panicked millis | Collector_Stuck

definition within_budget :: "'a collector \<Rightarrow> 'a option" where
  "within_budget c =
     (case c of
        Collected t v \<Rightarrow> if t < BROWSER_SNAPSHOT_BUDGET then Some v else None
      | Collector_Panicked t \<Rightarrow> None
      | Collector_Stuck \<Rightarrow> None)"

definition metrics_handler ::
  "string \<Rightarrow> browser_pool \<Rightarrow> process_snapshot collector \<Rightarrow> (string + target_snapshot) collector \<Rightarrow>
   (pool_gauges \<Rightarrow> worker_gauges \<Rightarrow> string + string) \<Rightarrow> worker_gauges \<Rightarrow>
   (nat \<times> string) \<times> pool_gauges \<times> worker_gauges" where
  "metrics_handler scope pool processes targets encode g =
     (let pg = refresh_pool_gauges pool;
          wg = refresh_browser_gauges scope (within_budget processes) (within_budget targets) g
      in ((case encode pg wg of Inr body \<Rightarrow> (200, body) | Inl e \<Rightarrow> (500, [])), pg, wg))"

lemma wedged_browser_leaves_target_gauges_absent:
  "targets = Collector_Stuck \<Longrightarrow>
   metrics_handler scope pool processes targets encode g = (answer, pg, wg) \<Longrightarrow>
   wg_browser_targets wg = hempty \<and> wg_browser_contexts wg = hempty \<and> pg = refresh_pool_gauges pool"
  by (auto simp: metrics_handler_def within_budget_def refresh_browser_gauges_def refresh_worker_gauges_def
      refresh_target_gauges_def Let_def split: option.splits)

end
