(* ===== verification/Startup.thy ===== *)
theory Startup
  imports Health_Monitor Worker_Metrics Middleware Worker_Main
begin

text \<open>
  Starting the processes: \<open>BrowserPool::new\<close> and its \<open>Drop\<close> (\<open>worker/src/browser_pool.rs\<close>), \<open>run_worker\<close>
  (\<open>worker/src/lib.rs\<close>) and \<open>run_coordinator\<close> (\<open>coordinator/src/main.rs\<close>), in the order of their steps.

  What the operating system, Chrome and the servers answer is input; what the code makes them do is a trace.
  The gRPC and metrics servers are libraries: they end when they answer that they ended.
\<close>

section \<open>Killing a browser\<close>

definition ESRCH :: nat where "ESRCH = 3"

datatype io_error = Invalid_Input | Os_Error nat

text \<open>\<open>kill\<close> is the kernel's answer to \<open>SIGKILL\<close>: \<open>None\<close>, or the error number.\<close>

definition kill_process :: "(nat \<Rightarrow> nat option) \<Rightarrow> nat \<Rightarrow> (io_error + unit) \<times> nat list" where
  "kill_process kill pid =
     (if 2 ^ 31 \<le> pid then (Inl Invalid_Input, [])
      else (case kill pid of
              None \<Rightarrow> (Inr (), [pid])
            | Some errno \<Rightarrow> (if errno = ESRCH then (Inr (), [pid]) else (Inl (Os_Error errno), [pid]))))"

text \<open>The subtree first, as \<open>/proc\<close> shows it, then the process itself; the count is of the failures below it.\<close>

definition kill_browser_process_tree ::
  "proc_fs \<Rightarrow> (nat \<Rightarrow> nat option) \<Rightarrow> nat \<Rightarrow> nat \<times> (io_error + unit) \<times> nat list" where
  "kill_browser_process_tree fs kill pid =
     (let below = map (kill_process kill) (process_descendants fs pid);
          (own, signalled) = kill_process kill pid
      in (length (filter (isl \<circ> fst) below), own, concat (map snd below) @ signalled))"

section \<open>Starting a pool\<close>

datatype binary_check =
    Binary_Missing
  | Binary_NoMetadata string
  | Binary_NotExecutable "32 word"
  | Binary_Verified "32 word"

text \<open>\<open>verify_browser_binary\<close> only logs; \<open>0o111\<close> are the executable bits.\<close>

definition verify_browser_binary :: "bool \<Rightarrow> string + 32 word \<Rightarrow> binary_check" where
  "verify_browser_binary exists stat_mode =
     (if \<not> exists then Binary_Missing
      else (case stat_mode of
              Inl e \<Rightarrow> Binary_NoMetadata e
            | Inr mode \<Rightarrow>
                if and mode 73 \<noteq> 0 then Binary_Verified mode else Binary_NotExecutable mode))"

datatype start_effect =
    Sx_LaunchBegins
  | Sx_LaunchFailed
  | Sx_Launched "nat option"
  | Sx_CdpClient
  | Sx_Disposer bool
  | Sx_Context browser_context
  | Sx_MonitorStarted
  | Sx_Signal nat
  | Sx_BrowserDropped "nat option"

text \<open>
  What the start finds: the crate's default arguments and the scope's middlewares, the answers of Chrome and
  the two CDP connections, the contexts \<open>create_new_context\<close> builds one after another, and the processes
  when the pool is dropped again.  The launched pid may be unknown to the crate.
\<close>

record start_env =
  st_defaults :: "string list"
  st_middlewares :: "(bool \<Rightarrow> string list \<Rightarrow> string list) list"
  st_path :: "string option"
  st_options_error :: "string option"
  st_launch :: "launch_options \<Rightarrow> string + nat option"
  st_client :: "string + unit"
  st_disposer :: "string + unit"
  st_context :: "nat \<Rightarrow> string + browser_context"
  st_proc :: proc_fs
  st_kill :: "nat \<Rightarrow> nat option"

definition start_error_text :: "start_error \<Rightarrow> string" where
  "start_error_text e =
     (case e of
        Start_SharedPerContextHost \<Rightarrow> ''requires WORKER_CONTEXT_ISOLATION=isolated''
      | Start_HostWithoutConfigs \<Rightarrow> ''supports_per_context_proxy() = false''
      | Start_ProviderConfig text \<Rightarrow> text
      | Start_NoProxy \<Rightarrow> ''produced no proxy server'')"

definition scope_launch_options :: "start_env \<Rightarrow> scope_config \<Rightarrow> string option \<Rightarrow> launch_options" where
  "scope_launch_options env config server =
     launch_with (st_defaults env) (st_middlewares env) (sc_headless config)
       (sc_disable_back_forward_cache config) server (st_path env)"

text \<open>The loop of \<open>populate_initial_contexts\<close>: the first failure ends it.\<close>

fun create_initial :: "(nat \<Rightarrow> string + browser_context) \<Rightarrow> nat \<Rightarrow> nat \<Rightarrow> (string + unit) \<times> browser_context list" where
  "create_initial create i 0 = (Inr (), [])"
| "create_initial create i (Suc n) =
     (case create i of
        Inl e \<Rightarrow> (Inl e, [])
      | Inr c \<Rightarrow> (case create_initial create (Suc i) n of (r, cs) \<Rightarrow> (r, c # cs)))"

text \<open>
  \<open>Drop\<close>: of a pool, its subtree is killed and then headless_chrome's own \<open>Drop\<close> runs; of a browser that
  is in no pool yet, only the latter, which knows the launched process alone.
\<close>

definition drop_pool :: "start_env \<Rightarrow> nat option \<Rightarrow> start_effect list" where
  "drop_pool env launched =
     (case launched of
        Some pid \<Rightarrow> map Sx_Signal (snd (snd (kill_browser_process_tree (st_proc env) (st_kill env) pid)))
      | None \<Rightarrow> []) @ [Sx_BrowserDropped launched]"

definition fill_pool :: "start_env \<Rightarrow> scope_config \<Rightarrow> nat option \<Rightarrow> (string + browser_pool) \<times> start_effect list" where
  "fill_pool env config launched =
     (if 0 < sc_min_contexts config \<and> sc_session_mode config = Reusable
      then (case create_initial (st_context env) 0 (sc_min_contexts config) of
              (Inr _, cs) \<Rightarrow> (Inr (pool_start config cs), map Sx_Context cs @ [Sx_MonitorStarted])
            | (Inl e, cs) \<Rightarrow> (Inl e, map Sx_Context cs @ drop_pool env launched))
      else (Inr (pool_start config []), [Sx_MonitorStarted]))"

definition connect_and_fill ::
  "start_env \<Rightarrow> scope_config \<Rightarrow> nat option \<Rightarrow> (string + browser_pool) \<times> start_effect list" where
  "connect_and_fill env config launched =
     (case (if pp_assigns_proxy_host_per_context (sc_proxy_provider config) then st_client env else Inr ()) of
        Inl e \<Rightarrow> (Inl e, [Sx_BrowserDropped launched])
      | Inr _ \<Rightarrow>
          (case fill_pool env config launched of
             (r, es) \<Rightarrow>
               (r, (if pp_assigns_proxy_host_per_context (sc_proxy_provider config) then [Sx_CdpClient] else []) @
                   [Sx_Disposer (\<not> isl (st_disposer env))] @ es)))"

definition browser_pool_new :: "start_env \<Rightarrow> scope_config \<Rightarrow> (string + browser_pool) \<times> start_effect list" where
  "browser_pool_new env config =
     (case pool_start_check config of
        Inl e \<Rightarrow> (Inl (start_error_text e), [])
      | Inr server \<Rightarrow>
          (case st_options_error env of
             Some e \<Rightarrow> (Inl (''Failed to build launch options: '' @ e), [])
           | None \<Rightarrow>
               (case st_launch env (scope_launch_options env config server) of
                  Inl e \<Rightarrow> (Inl e, [Sx_LaunchBegins, Sx_LaunchFailed])
                | Inr launched \<Rightarrow>
                    (case connect_and_fill env config launched of
                       (r, es) \<Rightarrow> (r, Sx_LaunchBegins # Sx_Launched launched # es)))))"

section \<open>The other operations around a browser\<close>

text \<open>
  \<open>warn_if_assigned_host_does_not_route\<close>: whether it warns, and the flag afterwards (it warns once).
\<close>

definition warn_if_assigned_host_does_not_route ::
  "slot_factory \<Rightarrow> string option \<Rightarrow> string option \<Rightarrow> bool \<Rightarrow> bool \<times> bool" where
  "warn_if_assigned_host_does_not_route f context_host launch_host warned =
     (if sf_cdp_client f then (False, warned)
      else (case context_host of
              None \<Rightarrow> (False, warned)
            | Some assigned \<Rightarrow>
                if Some assigned = launch_host then (False, warned)
                else (\<not> warned, True)))"

text \<open>\<open>create_tab\<close>: a tab nobody waits for any more is closed.\<close>

definition create_tab :: "chrome \<Rightarrow> string option \<Rightarrow> (cdp_error + nat) \<times> cdp_effect list" where
  "create_tab ch cdp =
     (let (opened, es) = new_tab ch cdp;
          (result, orphans) = call_outcome (ch_late ch) ''Target.createTarget'' (map_sum Cdp_Answered id opened)
      in (result, es @ concat (map (\<lambda>t. release_context_now ch (Some t) None) orphans)))"

definition TAB_LOCK_TIMEOUT :: millis where [cfg_simps]: "TAB_LOCK_TIMEOUT = 5000"

definition LIFECYCLE_INTERVAL :: millis where [cfg_simps]: "LIFECYCLE_INTERVAL = 60000"

text \<open>\<open>start_lifecycle_monitor\<close> on the slot of the running one: what is aborted, and the slot afterwards.\<close>

definition start_lifecycle_monitor :: "nat \<Rightarrow> nat option \<Rightarrow> nat option \<times> nat option" where
  "start_lifecycle_monitor handle slot = (slot, Some handle)"

section \<open>The worker process\<close>

definition METRICS_PORT :: nat where [cfg_simps]: "METRICS_PORT = 9090"

definition MIN_RUNTIME_WORKER_THREADS :: nat where [cfg_simps]: "MIN_RUNTIME_WORKER_THREADS = 2"

text \<open>\<open>log_runtime_threads\<close>: whether it warns; outside a runtime it says nothing.\<close>

definition log_runtime_threads :: "nat option \<Rightarrow> bool option" where
  "log_runtime_threads workers = map_option (\<lambda>n. n < MIN_RUNTIME_WORKER_THREADS) workers"

definition worker_service_new ::
  "start_env \<Rightarrow> scope_config \<Rightarrow> (string + worker_state) \<times> start_effect list" where
  "worker_service_new env config =
     (case browser_pool_new env config of
        (r, es) \<Rightarrow>
          (map_sum id (\<lambda>p. \<lparr>sv_pool = (p, 0), sv_active = 0, sv_total = 0, sv_failed = 0, sv_ready = True,
                           sv_cancelled = False\<rparr>) r, es))"

datatype run_effect =
    Rx_Warned config_warning
  | Rx_Pool start_effect
  | Rx_SamplerStarted
  | Rx_MetricsServer nat
  | Rx_Listening

datatype server_end = Server_Ended "string + unit" | Metrics_Ended

datatype worker_exit =
    Exit_Config config_error
  | Exit_Failed string
  | Exit_Panicked
  | Exit_Ok nat

record worker_run_env =
  ru_metrics :: "string + unit"
  ru_start :: start_env
  ru_address_ok :: bool
  ru_end :: server_end
  ru_remaining :: nat

text \<open>
  The address is parsed after the pool is up and panics when it is not one.  The two servers race: the one
  that ends first ends the process, and \<open>ru_remaining\<close> requests are then still running.
\<close>

definition serve_worker :: "worker_run_env \<Rightarrow> worker_exit \<times> run_effect list" where
  "serve_worker env =
     (if \<not> ru_address_ok env then (Exit_Panicked, [Rx_SamplerStarted, Rx_MetricsServer METRICS_PORT])
      else
        (case ru_end env of
           Server_Ended (Inl e) \<Rightarrow> Exit_Failed e
         | Server_Ended (Inr _) \<Rightarrow> Exit_Ok (ru_remaining env)
         | Metrics_Ended \<Rightarrow> Exit_Ok (ru_remaining env),
         [Rx_SamplerStarted, Rx_MetricsServer METRICS_PORT, Rx_Listening]))"

definition run_worker :: "worker_run_env \<Rightarrow> scope_config \<Rightarrow> worker_exit \<times> run_effect list" where
  "run_worker env config =
     (case validate_scope config of
        Inl e \<Rightarrow> (Exit_Config e, [])
      | Inr warnings \<Rightarrow>
          (case ru_metrics env of
             Inl e \<Rightarrow> (Exit_Failed e, map Rx_Warned warnings)
           | Inr _ \<Rightarrow>
               (case worker_service_new (ru_start env) config of
                  (Inl e, es) \<Rightarrow> (Exit_Failed e, map Rx_Warned warnings @ map Rx_Pool es)
                | (Inr s, es) \<Rightarrow>
                    (case serve_worker env of
                       (exit, rest) \<Rightarrow> (exit, map Rx_Warned warnings @ map Rx_Pool es @ rest)))))"

section \<open>What a start guarantees\<close>

lemma drop_pool_never_launches [simp]:
  "Sx_Launched l \<notin> set (drop_pool env launched)" "Sx_MonitorStarted \<notin> set (drop_pool env launched)"
  "Sx_BrowserDropped launched \<in> set (drop_pool env launched)"
  by (auto simp: drop_pool_def split: option.splits)

lemma fill_pool_effects [simp]: "Sx_Launched l \<notin> set (snd (fill_pool env config launched))"
  by (auto simp: fill_pool_def split: sum.splits prod.splits)

lemma connect_and_fill_effects [simp]: "Sx_Launched l \<notin> set (snd (connect_and_fill env config launched))"
  using fill_pool_effects [of l env config launched]
  by (auto simp: connect_and_fill_def simp del: fill_pool_effects split: sum.splits prod.splits if_splits)

lemma browser_pool_new_launched:
  assumes "browser_pool_new env config = (r, es)" "Sx_Launched l \<in> set es"
  obtains server rest where "pool_start_check config = Inr server"
    "st_launch env (scope_launch_options env config server) = Inr l"
    "connect_and_fill env config l = (r, rest)" "es = Sx_LaunchBegins # Sx_Launched l # rest"
proof -
  from assms obtain server l' where *: "pool_start_check config = Inr server"
    "st_launch env (scope_launch_options env config server) = Inr l'"
    "es = Sx_LaunchBegins # Sx_Launched l' # snd (connect_and_fill env config l')"
    "r = fst (connect_and_fill env config l')"
    by (auto simp: browser_pool_new_def split: sum.splits option.splits prod.splits)
  moreover from this(3) assms(2) have "l' = l" by simp
  ultimately show thesis
    by (intro that [of server "snd (connect_and_fill env config l)"]) simp_all
qed

text \<open>A process whose \<open>pid_t\<close> fits is signalled, whatever the kernel answers.\<close>

lemma kill_process_signals: "set (snd (kill_process kill pid)) = (if 2 ^ 31 \<le> pid then {} else {pid})"
  by (auto simp: kill_process_def split: option.split)

lemma kill_tree_signals:
  "set (snd (snd (kill_browser_process_tree fs kill pid))) =
     {p \<in> insert pid (set (process_descendants fs pid)). p < 2 ^ 31}"
  by (auto simp: kill_browser_process_tree_def Let_def case_prod_unfold kill_process_signals not_le split: if_splits)

lemma process_descendants_all:
  assumes "process_parents fs = Some parents"
  shows "insert pid (set (process_descendants fs pid)) = ((set parents)\<inverse>)\<^sup>* `` {pid}"
  using process_descendants_exact [of pid parents] assms by (auto simp: process_descendants_def)

lemma create_initial_length: "create_initial create i n = (Inr u, cs) \<Longrightarrow> length cs = n"
  by (induction n arbitrary: i u cs) (auto split: sum.splits prod.splits)

text \<open>
  C29: A worker launches a browser only when its configuration passed every check, with the proxy the check
  found (none only for a provider that asks for a direct connection), and listens only when its pool is
  complete: every pre-created context built, the monitor started, and the service ready with no request.
  Any failure before that ends the process without listening.
\<close>

theorem worker_starts_guarded:
  assumes "run_worker env config = (exit, es)"
  shows "(Rx_Pool (Sx_Launched l) \<in> set es \<longrightarrow>
      (\<exists>ws server. validate_scope config = Inr ws \<and> pool_start_check config = Inr server \<and>
         st_launch (ru_start env) (scope_launch_options (ru_start env) config server) = Inr l \<and>
         lo_proxy_server (scope_launch_options (ru_start env) config server) = server \<and>
         (server = None \<longrightarrow> pp_allows_direct_connection (sc_proxy_provider config)))) \<and>
    (Rx_Listening \<in> set es \<longrightarrow>
      Rx_Pool Sx_MonitorStarted \<in> set es \<and>
      (\<exists>cs s. fst (worker_service_new (ru_start env) config) = Inr s \<and> sv_pool s = (pool_start config cs, 0) \<and>
         sv_ready s \<and> sv_active s = 0 \<and>
         length cs = (if sc_session_mode config = Reusable then sc_min_contexts config else 0))) \<and>
    (Rx_Listening \<notin> set es \<longrightarrow> (\<forall>n. exit \<noteq> Exit_Ok n))"
proof -
  let ?start = "ru_start env"
  have launched: "\<exists>server. pool_start_check config = Inr server \<and>
      st_launch ?start (scope_launch_options ?start config server) = Inr l \<and>
      lo_proxy_server (scope_launch_options ?start config server) = server \<and>
      (server = None \<longrightarrow> pp_allows_direct_connection (sc_proxy_provider config))"
    if "Sx_Launched l \<in> set (snd (browser_pool_new ?start config))"
  proof -
    obtain r ees where "browser_pool_new ?start config = (r, ees)" by fastforce
    with that obtain server where "pool_start_check config = Inr server"
      "st_launch ?start (scope_launch_options ?start config server) = Inr l"
      by (auto elim: browser_pool_new_launched)
    then show ?thesis
      using pool_start_check_InrD(3) [of config server]
      by (auto simp: scope_launch_options_def launch_with_def Let_def)
  qed
  have ready: "Sx_MonitorStarted \<in> set ees \<and>
      (\<exists>cs. p = pool_start config cs \<and>
         length cs = (if sc_session_mode config = Reusable then sc_min_contexts config else 0))"
    if "browser_pool_new ?start config = (Inr p, ees)" for p ees
    using that create_initial_length [of "st_context ?start" 0 "sc_min_contexts config"]
    by (auto simp: browser_pool_new_def connect_and_fill_def fill_pool_def intro: exI [of _ "[]"]
        split: sum.splits option.splits prod.splits if_splits)
  obtain r ees where new: "browser_pool_new ?start config = (r, ees)" by fastforce
  then have service: "worker_service_new ?start config =
      (map_sum id (\<lambda>p. \<lparr>sv_pool = (p, 0), sv_active = 0, sv_total = 0, sv_failed = 0, sv_ready = True,
         sv_cancelled = False\<rparr>) r, ees)"
    by (simp add: worker_service_new_def)
  show ?thesis
  proof (cases "\<exists>ws u. validate_scope config = Inr ws \<and> ru_metrics env = Inr u")
    case False
    then show ?thesis
      using assms by (auto simp: run_worker_def split: sum.splits)
  next
    case True
    then obtain ws u where ok: "validate_scope config = Inr ws" "ru_metrics env = Inr u" by blast
    show ?thesis
    proof (cases r)
      case (Inl e)
      then have "es = map Rx_Warned ws @ map Rx_Pool ees" "exit = Exit_Failed e"
        using assms by (simp_all add: run_worker_def ok service)
      then show ?thesis
        using launched new ok by auto
    next
      case (Inr p)
      then have "es = map Rx_Warned ws @ map Rx_Pool ees @ snd (serve_worker env)" "exit = fst (serve_worker env)"
        using assms by (simp_all add: run_worker_def ok service split: prod.splits)
      moreover have "Rx_Pool x \<notin> set (snd (serve_worker env))" for x
        by (simp add: serve_worker_def)
      moreover have "Rx_Listening \<notin> set (snd (serve_worker env)) \<longrightarrow> fst (serve_worker env) = Exit_Panicked"
        by (simp add: serve_worker_def)
      ultimately show ?thesis
        using launched new ok ready [of p ees] service Inr by auto
    qed
  qed
qed

text \<open>
  C28: A pool that fails to start leaves no browser behind, with one exception.  When the failure comes after
  the launch, headless_chrome's own \<open>Drop\<close> runs, and the launched process and every process below it that
  \<open>/proc\<close> still shows has been signalled before that; the exception is a failed connection of the first CDP
  client, which a scope with per-context hosts makes before the pool exists.
\<close>

theorem failed_start_leaves_no_browser:
  assumes "browser_pool_new env config = (Inl e, es)" and "Sx_Launched (Some pid) \<in> set es"
    and "process_parents (st_proc env) = Some parents"
    and "pp_assigns_proxy_host_per_context (sc_proxy_provider config) \<Longrightarrow> \<not> isl (st_client env)"
  shows "\<exists>before. es = before @ [Sx_BrowserDropped (Some pid)] \<and> Sx_MonitorStarted \<notin> set es \<and>
    (\<forall>p \<in> ((set parents)\<inverse>)\<^sup>* `` {pid}. p < 2 ^ 31 \<longrightarrow> Sx_Signal p \<in> set before)"
proof -
  from assms(1,2) obtain rest where rest: "connect_and_fill env config (Some pid) = (Inl e, rest)"
    "es = Sx_LaunchBegins # Sx_Launched (Some pid) # rest"
    by (rule browser_pool_new_launched)
  then obtain start cs where cs: "rest = start @ map Sx_Context cs @ drop_pool env (Some pid)"
    "Sx_MonitorStarted \<notin> set start"
    using assms(4) unfolding connect_and_fill_def fill_pool_def
    by (fastforce split: sum.splits prod.splits if_splits)
  let ?signals = "map Sx_Signal (snd (snd (kill_browser_process_tree (st_proc env) (st_kill env) pid)))"
  have "\<forall>p \<in> ((set parents)\<inverse>)\<^sup>* `` {pid}. p < 2 ^ 31 \<longrightarrow> Sx_Signal p \<in> set ?signals"
    using kill_tree_signals [of "st_proc env" "st_kill env" pid] process_descendants_all [OF assms(3), of pid] by auto
  moreover have "es = (Sx_LaunchBegins # Sx_Launched (Some pid) # start @ map Sx_Context cs @ ?signals) @
      [Sx_BrowserDropped (Some pid)]"
    by (simp add: rest cs drop_pool_def)
  moreover have "Sx_MonitorStarted \<notin> set es"
    using cs(2) by (auto simp: rest cs(1))
  ultimately show ?thesis by (intro exI conjI) auto
qed

section \<open>Examples\<close>

text \<open>A wrapper script that runs the browser, which the crate knows by the wrapper's pid.\<close>

definition wrapper_fs :: proc_fs where
  "wrapper_fs =
     \<lparr>pf_pids = Some [100, 101], pf_stat = (\<lambda>p. if p = 100 then Some ''100 (sh) S 1 '' else Some ''101 (brave) S 100 ''),
      pf_cmdline = (\<lambda>_. None), pf_rollup = (\<lambda>_. None), pf_self_status = None\<rparr>"

lemma wrapper_parents: "process_parents wrapper_fs = Some [(100, 1), (101, 100)]"
  by (simp add: process_parents_def wrapper_fs_def map_filter_simps parse_ppid_def parse_state_and_ppid_def
      after_last_def split_spaces_def split_where.simps parse_unsigned_def is_space_def is_digit_def)

definition sample_start :: "string + unit \<Rightarrow> nat \<Rightarrow> start_env" where
  "sample_start client built =
     \<lparr>st_defaults = [], st_middlewares = [default_apply_args], st_path = None, st_options_error = None,
      st_launch = (\<lambda>_. Inr (Some 100)), st_client = client, st_disposer = Inr (),
      st_context = (\<lambda>i. if i < built then Inr (sample_context (show_nat i) 0) else Inl ''no tab''),
      st_proc = wrapper_fs, st_kill = (\<lambda>_. None)\<rparr>"

lemma sample_start_simps [simp]:
  "st_options_error (sample_start client built) = None"
  "st_launch (sample_start client built) opts = Inr (Some 100)"
  "st_client (sample_start client built) = client" "st_disposer (sample_start client built) = Inr ()"
  "st_context (sample_start client built) i =
     (if i < built then Inr (sample_context (show_nat i) 0) else Inl ''no tab'')"
  "st_proc (sample_start client built) = wrapper_fs"
  by (simp_all add: sample_start_def)

lemma sample_scope_starts [simp]: "pool_start_check (sample_scope mode m n) = Inr None"
  by (simp add: pool_start_check_def sample_scope_def no_proxy_provider_def provider_defaults_def normalize_server_def
      build_proxy_server_def Let_def)

lemma start_scope_valid: "m \<le> n \<Longrightarrow> 0 < n \<Longrightarrow> \<exists>ws. validate_scope (sample_scope Reusable m n) = Inr ws"
  by (simp add: validate_scope_def validate_errors_def sample_scope_def lifecycle_default_def cfg_simps Let_def)

lemma sample_scope_sel [simp]:
  "sc_min_contexts (sample_scope mode m n) = m" "sc_session_mode (sample_scope mode m n) = mode"
  by (simp_all add: sample_scope_def)

lemma sample_provider [simp]: "\<not> pp_assigns_proxy_host_per_context (sc_proxy_provider (sample_scope mode m n))"
  by (simp add: sample_scope_def no_proxy_provider_def provider_defaults_def)

lemma failed_start_leaves_no_browser_witness:
  "\<exists>e es. browser_pool_new (sample_start (Inr ()) 1) (sample_scope Reusable 2 2) = (Inl e, es) \<and>
     Sx_Signal 100 \<in> set es \<and> Sx_Signal 101 \<in> set es"
proof -
  let ?env = "sample_start (Inr ()) 1" and ?config = "sample_scope Reusable 2 2"
  obtain es where es: "browser_pool_new ?env ?config = (Inl ''no tab'', es)" "Sx_Launched (Some 100) \<in> set es"
    by (simp add: browser_pool_new_def connect_and_fill_def fill_pool_def numeral_2_eq_2)
  have "process_parents (st_proc ?env) = Some [(100, 1), (101, 100)]"
    by (simp add: wrapper_parents)
  from failed_start_leaves_no_browser [OF es this] obtain before where
    b: "es = before @ [Sx_BrowserDropped (Some 100)]"
    "\<forall>p \<in> ((set [(100, 1), (101, 100)])\<inverse>)\<^sup>* `` {100 :: nat}. p < 2 ^ 31 \<longrightarrow> Sx_Signal p \<in> set before"
    by auto
  have "(100 :: nat, 101) \<in> ((set [(100, 1), (101, 100)])\<inverse>)\<^sup>*"
    by (rule r_into_rtrancl) simp
  with b(2) have "Sx_Signal 100 \<in> set before" "Sx_Signal 101 \<in> set before"
    by (force, force)
  with es(1) b(1) show ?thesis by auto
qed

text \<open>The exception: the wrapper is killed by headless_chrome's \<open>Drop\<close>, the browser below it is not.\<close>

lemma failed_client_strands_browser:
  "\<exists>es. browser_pool_new (sample_start (Inl ''refused'') 0) (sample_rotating ''http://own:2'') = (Inl ''refused'', es) \<and>
     es = [Sx_LaunchBegins, Sx_Launched (Some 100), Sx_BrowserDropped (Some 100)] \<and>
     101 \<in> set (process_descendants (st_proc (sample_start (Inl ''refused'') 0)) 100)"
proof -
  have "pool_start_check (sample_rotating ''http://own:2'') = Inr (Some ''http://launch:1'')"
    by (simp add: slots_eval provider_defaults_def trim_def is_space_def)
  moreover have "pp_assigns_proxy_host_per_context (sc_proxy_provider (sample_rotating ''http://own:2''))"
    by (simp add: sample_rotating_def)
  moreover have "(100 :: nat, 101) \<in> ((set [(100, 1), (101, 100)])\<inverse>)\<^sup>*"
    by (rule r_into_rtrancl) simp
  then have "101 \<in> set (process_descendants wrapper_fs 100)"
    using process_descendants_exact [of 100 "[(100, 1), (101, 100)]"]
    by (simp add: process_descendants_def wrapper_parents Image_singleton)
  ultimately show ?thesis
    by (simp add: browser_pool_new_def connect_and_fill_def)
qed

definition sample_run :: "server_end \<Rightarrow> nat \<Rightarrow> worker_run_env" where
  "sample_run end_of remaining =
     \<lparr>ru_metrics = Inr (), ru_start = sample_start (Inr ()) 1, ru_address_ok = True, ru_end = end_of,
      ru_remaining = remaining\<rparr>"

lemma sample_runs:
  "\<exists>es. run_worker (sample_run end_of remaining) (sample_scope Reusable 1 2) =
     (case end_of of Server_Ended (Inl e) \<Rightarrow> Exit_Failed e | _ \<Rightarrow> Exit_Ok remaining, es) \<and> Rx_Listening \<in> set es"
proof -
  obtain ws where ws: "validate_scope (sample_scope Reusable 1 2) = Inr ws"
    using start_scope_valid [of 1 2] by auto
  have "browser_pool_new (sample_start (Inr ()) 1) (sample_scope Reusable 1 2) =
      (Inr (pool_start (sample_scope Reusable 1 2) [sample_context (show_nat 0) 0]),
       [Sx_LaunchBegins, Sx_Launched (Some 100), Sx_Disposer True, Sx_Context (sample_context (show_nat 0) 0),
        Sx_MonitorStarted])"
    by (simp add: browser_pool_new_def connect_and_fill_def fill_pool_def)
  then show ?thesis
    by (simp add: run_worker_def ws [simplified] sample_run_def worker_service_new_def serve_worker_def split: server_end.split sum.split)
qed

lemma worker_starts_guarded_witness:
  "\<exists>es. run_worker (sample_run (Server_Ended (Inr ())) 0) (sample_scope Reusable 1 2) = (Exit_Ok 0, es) \<and>
     Rx_Pool Sx_MonitorStarted \<in> set es"
  using sample_runs [of "Server_Ended (Inr ())" 0] worker_starts_guarded by fastforce

text \<open>
  A metrics server that fails (its port is taken, say) ends its task, and with it the worker: the process
  exits with requests running, without a drain and without an error.
\<close>

lemma metrics_failure_stops_worker:
  "\<exists>es. run_worker (sample_run Metrics_Ended 3) (sample_scope Reusable 1 2) = (Exit_Ok 3, es) \<and> Rx_Listening \<in> set es"
  using sample_runs [of Metrics_Ended 3] by simp

section \<open>The coordinator process\<close>

datatype discovery_kind = Discovery_Local | Discovery_Kubernetes

datatype coord_start_effect =
    Cx_Warned string
  | Cx_Discovery discovery_kind
  | Cx_HealthMonitor
  | Cx_MetricsServer nat
  | Cx_MetricsFailed string
  | Cx_Listening nat

record coord_start_env =
  cs_mode :: "string option"
  cs_local :: "string + unit"
  cs_kubernetes :: "string + unit"
  cs_metrics :: "string + unit"
  cs_metrics_server :: "string + unit"
  cs_server :: "string + unit"
  cs_remaining :: nat

text \<open>\<open>CoordinatorService::new\<close>: discovery starts before the metrics are registered.\<close>

definition coordinator_service_new ::
  "coord_start_env \<Rightarrow> coordinator_config \<Rightarrow> (string + unit) \<times> coord_start_effect list" where
  "coordinator_service_new env config =
     (let kind = (if cs_mode env = Some ''local'' then Discovery_Local else Discovery_Kubernetes)
      in case (case kind of Discovery_Local \<Rightarrow> cs_local env | Discovery_Kubernetes \<Rightarrow> cs_kubernetes env) of
           Inl e \<Rightarrow> (Inl e, [])
         | Inr _ \<Rightarrow>
             (case (if cc_enable_metrics config then cs_metrics env else Inr ()) of
                Inl e \<Rightarrow> (Inl e, [Cx_Discovery kind])
              | Inr _ \<Rightarrow> (Inr (), [Cx_Discovery kind, Cx_HealthMonitor])))"

text \<open>\<open>run_coordinator\<close>: a metrics server that fails is only warned about.\<close>

definition run_coordinator ::
  "coord_start_env \<Rightarrow> coordinator_config \<times> string list \<Rightarrow> worker_exit \<times> coord_start_effect list" where
  "run_coordinator env = (\<lambda>(config, warnings).
     (case coordinator_service_new env config of
        (Inl e, es) \<Rightarrow> (Exit_Failed e, map Cx_Warned warnings @ es)
      | (Inr _, es) \<Rightarrow>
          (case cs_server env of Inl e \<Rightarrow> Exit_Failed e | Inr _ \<Rightarrow> Exit_Ok (cs_remaining env),
           map Cx_Warned warnings @ es @
           (if cc_enable_metrics config
            then Cx_MetricsServer (cc_metrics_port config) #
              (case cs_metrics_server env of Inl e \<Rightarrow> [Cx_MetricsFailed e] | Inr _ \<Rightarrow> [])
            else []) @
           [Cx_Listening (cc_grpc_port config)])))"

lemma coordinator_survives_metrics_server:
  "fst (run_coordinator (env\<lparr>cs_metrics_server := Inl e\<rparr>) (config, warnings)) =
     fst (run_coordinator (env\<lparr>cs_metrics_server := Inr ()\<rparr>) (config, warnings))"
  by (simp add: run_coordinator_def coordinator_service_new_def Let_def split: sum.split)

lemma coordinator_listens_only_when_built:
  "Cx_Listening p \<in> set (snd (run_coordinator env (config, warnings))) \<longleftrightarrow>
     p = cc_grpc_port config \<and> fst (coordinator_service_new env config) = Inr ()"
  by (auto simp: run_coordinator_def coordinator_service_new_def Let_def split: sum.splits prod.splits if_splits
      discovery_kind.splits)

end
