(* ===== verification/Server_Close.thy ===== *)
theory Server_Close
  imports Health_Monitor
begin

text \<open>
  Closing a server while handlers run: \<open>ActiveRequestGuard\<close> of both services, the checks a handler makes first,
  and the task behind \<open>serve_with_shutdown\<close> (\<open>shutdown_signal\<close> in \<open>worker/src/shutdown.rs\<close> and in
  \<open>coordinator/src/main.rs\<close>), as concurrent steps on shared flags and one atomic counter.

  Every atomic access is one step and steps interleave freely (the accesses are sequentially consistent).  A
  handler may arrive or be dropped at any moment, after the server has closed too.  There are fewer than \<open>2^64\<close>
  handlers at a time, since each of them occupies memory.
\<close>

section \<open>State\<close>

definition active_guard_new :: "64 word \<Rightarrow> 64 word" where
  "active_guard_new n = n + 1"

definition active_guard_drop :: "64 word \<Rightarrow> 64 word" where
  "active_guard_drop n = n - 1"

text \<open>
  Where a handler stands: its guard exists; it saw the token not cancelled and has yet to look at the ready
  flag (worker only); it serves its request; it answers \<open>TERMINATING\<close>.
\<close>

datatype handler_phase = H_Entered | H_Not_Cancelled | H_Serving | H_Refused

record 'c server_state =
  sr_ready :: bool
  sr_cancelled :: bool
  sr_active :: "64 word"
  sr_handlers :: "(nat, handler_phase) hmap"
  sr_now :: millis
  sr_closer :: 'c

datatype handler_event = Handler_Enter nat | Handler_Look nat | Handler_Leave nat | Clock_Ticks millis

fun handler_step ::
  "('c server_state \<Rightarrow> handler_phase \<Rightarrow> handler_phase option) \<Rightarrow> handler_event \<Rightarrow> 'c server_state \<Rightarrow>
   'c server_state option" where
  "handler_step look (Handler_Enter i) s =
     (if hget (sr_handlers s) i \<noteq> None \<or> 2 ^ 64 \<le> Suc (length (sr_handlers s)) then None
      else Some (s\<lparr>sr_active := active_guard_new (sr_active s), sr_handlers := hput i H_Entered (sr_handlers s)\<rparr>))"
| "handler_step look (Handler_Look i) s =
     (case hget (sr_handlers s) i of
        None \<Rightarrow> None
      | Some p \<Rightarrow> map_option (\<lambda>p'. s\<lparr>sr_handlers := hput i p' (sr_handlers s)\<rparr>) (look s p))"
| "handler_step look (Handler_Leave i) s =
     (if hget (sr_handlers s) i = None then None
      else Some (s\<lparr>sr_active := active_guard_drop (sr_active s), sr_handlers := hdel i (sr_handlers s)\<rparr>))"
| "handler_step look (Clock_Ticks d) s = Some (s\<lparr>sr_now := sr_now s + d\<rparr>)"

section \<open>The worker\<close>

text \<open>The first check of \<open>scrape_page\<close>: the token, then the ready flag.\<close>

fun worker_look :: "'c server_state \<Rightarrow> handler_phase \<Rightarrow> handler_phase option" where
  "worker_look s H_Entered = Some (if sr_cancelled s then H_Refused else H_Not_Cancelled)"
| "worker_look s H_Not_Cancelled = Some (if sr_ready s then H_Serving else H_Refused)"
| "worker_look s H_Serving = None"
| "worker_look s H_Refused = None"

datatype worker_closer =
    Not_Signalled
  | Marked_Unready
  | Draining millis
  | Drain_Over drain_outcome
  | Awaiting_Handlers drain_outcome
  | Server_Closes drain_outcome

datatype worker_closer_event =
    Signal_Received
  | Drain_Starts
  | Drain_Polls millis "nat option"
  | Token_Cancelled
  | Counter_Polled

text \<open>
  A drain iteration reads the clock, then the counter; the two may be apart.  The last event is an iteration of
  the wait after the cancellation.
\<close>

fun worker_closer_step ::
  "millis \<Rightarrow> worker_closer_event \<Rightarrow> worker_closer server_state \<Rightarrow> worker_closer server_state option" where
  "worker_closer_step timeout Signal_Received s =
     (case sr_closer s of
        Not_Signalled \<Rightarrow> Some (s\<lparr>sr_ready := False, sr_closer := Marked_Unready\<rparr>)
      | _ \<Rightarrow> None)"
| "worker_closer_step timeout Drain_Starts s =
     (case sr_closer s of Marked_Unready \<Rightarrow> Some (s\<lparr>sr_closer := Draining (sr_now s)\<rparr>) | _ \<Rightarrow> None)"
| "worker_closer_step timeout (Drain_Polls t interrupt) s =
     (case sr_closer s of
        Draining start \<Rightarrow>
          if start \<le> t \<and> t \<le> sr_now s then
            (case drain_step start MIN_UNROUTABLE_PAUSE timeout ()
                    \<lparr>do_now = t, do_active = unat (sr_active s), do_interrupt = interrupt\<rparr> of
               Poll_Next u \<Rightarrow> Some s
             | Poll_Done out \<Rightarrow> Some (s\<lparr>sr_closer := Drain_Over out\<rparr>))
          else None
      | _ \<Rightarrow> None)"
| "worker_closer_step timeout Token_Cancelled s =
     (case sr_closer s of
        Drain_Over out \<Rightarrow> Some (s\<lparr>sr_cancelled := True, sr_closer := Awaiting_Handlers out\<rparr>)
      | _ \<Rightarrow> None)"
| "worker_closer_step timeout Counter_Polled s =
     (case sr_closer s of
        Awaiting_Handlers out \<Rightarrow>
          Some (if 0 < sr_active s then s else s\<lparr>sr_closer := Server_Closes out\<rparr>)
      | _ \<Rightarrow> None)"

definition worker_server_step ::
  "millis \<Rightarrow> handler_event + worker_closer_event \<Rightarrow> worker_closer server_state \<Rightarrow> worker_closer server_state option" where
  "worker_server_step timeout ev s =
     (case ev of Inl h \<Rightarrow> handler_step worker_look h s | Inr c \<Rightarrow> worker_closer_step timeout c s)"

definition worker_server_new :: "worker_closer server_state" where
  "worker_server_new =
     \<lparr>sr_ready = True, sr_cancelled = False, sr_active = 0, sr_handlers = [], sr_now = 0, sr_closer = Not_Signalled\<rparr>"

fun server_closed :: "worker_closer \<Rightarrow> bool" where
  "server_closed (Server_Closes out) = True"
| "server_closed _ = False"

fun drained :: "worker_closer \<Rightarrow> bool" where
  "drained (Drain_Over out) = (out = Drained)"
| "drained (Awaiting_Handlers out) = (out = Drained)"
| "drained (Server_Closes out) = (out = Drained)"
| "drained _ = False"

section \<open>The coordinator\<close>

fun coordinator_look :: "'c server_state \<Rightarrow> handler_phase \<Rightarrow> handler_phase option" where
  "coordinator_look s H_Entered = Some (if sr_cancelled s then H_Refused else H_Serving)"
| "coordinator_look s H_Not_Cancelled = None"
| "coordinator_look s H_Serving = None"
| "coordinator_look s H_Refused = None"

datatype coordinator_closer = Coord_Not_Signalled | Coord_Awaiting | Coord_Closes

datatype coordinator_closer_event = Coord_Signal | Coord_Counter_Polled

text \<open>The load before the loop and the loads in it are the same event: each ends the wait when it reads zero.\<close>

fun coordinator_closer_step ::
  "coordinator_closer_event \<Rightarrow> coordinator_closer server_state \<Rightarrow> coordinator_closer server_state option" where
  "coordinator_closer_step Coord_Signal s =
     (if sr_closer s = Coord_Not_Signalled then Some (s\<lparr>sr_cancelled := True, sr_closer := Coord_Awaiting\<rparr>)
      else None)"
| "coordinator_closer_step Coord_Counter_Polled s =
     (if sr_closer s = Coord_Awaiting then Some (if sr_active s = 0 then s\<lparr>sr_closer := Coord_Closes\<rparr> else s)
      else None)"

definition coordinator_server_step ::
  "handler_event + coordinator_closer_event \<Rightarrow> coordinator_closer server_state \<Rightarrow>
   coordinator_closer server_state option" where
  "coordinator_server_step ev s =
     (case ev of Inl h \<Rightarrow> handler_step coordinator_look h s | Inr c \<Rightarrow> coordinator_closer_step c s)"

definition coordinator_server_new :: "coordinator_closer server_state" where
  "coordinator_server_new =
     \<lparr>sr_ready = True, sr_cancelled = False, sr_active = 0, sr_handlers = [], sr_now = 0,
      sr_closer = Coord_Not_Signalled\<rparr>"

section \<open>Runs\<close>

fun server_run :: "('e \<Rightarrow> 's \<Rightarrow> 's option) \<Rightarrow> 'e list \<Rightarrow> 's \<Rightarrow> 's option" where
  "server_run step [] s = Some s"
| "server_run step (ev # evs) s = (case step ev s of None \<Rightarrow> None | Some s' \<Rightarrow> server_run step evs s')"

lemma server_run_invariant:
  assumes "server_run step evs s = Some s'" "I s" "\<And>ev s s'. step ev s = Some s' \<Longrightarrow> I s \<Longrightarrow> I s'"
  shows "I s'"
  using assms(1,2) by (induction evs arbitrary: s) (auto split: option.splits dest: assms(3))

text \<open>The counter is the number of live handlers, modulo the machine's word and so exactly.\<close>

definition counter_ok :: "64 word \<Rightarrow> (nat, handler_phase) hmap \<Rightarrow> bool" where
  "counter_ok n hs \<longleftrightarrow> hmap_ok hs \<and> length hs < 2 ^ 64 \<and> n = of_nat (length hs)"

lemma counter_ok_unat: "counter_ok n hs \<Longrightarrow> unat n = length hs"
  by (simp add: counter_ok_def unat_of_nat)

lemma counter_ok_zero: "counter_ok 0 hs \<Longrightarrow> hs = []"
  using counter_ok_unat [of 0 hs] by simp

lemma counter_ok_drop:
  assumes "counter_ok n hs" "i \<in> hkeys hs"
  shows "counter_ok (active_guard_drop n) (hdel i hs)"
proof -
  have "of_nat (length hs - 1) = (of_nat (length hs) :: 64 word) - 1"
    using assms(2) by (cases hs) (simp_all add: hkeys_def)
  moreover have "length hs - 1 < 2 ^ 64"
    using assms(1) unfolding counter_ok_def by linarith
  ultimately show ?thesis
    using assms by (simp add: counter_ok_def active_guard_drop_def length_hdel)
qed

lemma handler_step_counter:
  assumes "handler_step look ev s = Some s'" "counter_ok (sr_active s) (sr_handlers s)"
  shows "counter_ok (sr_active s') (sr_handlers s')"
proof (cases ev)
  case (Handler_Enter i)
  with assms show ?thesis
    by (auto simp: counter_ok_def active_guard_new_def length_hput hkeys_iff split: if_splits)
next
  case (Handler_Look i)
  with assms show ?thesis
    by (auto simp: counter_ok_def length_hput hkeys_iff split: option.splits)
next
  case (Handler_Leave i)
  with assms show ?thesis
    by (auto simp: hkeys_iff counter_ok_drop split: if_splits)
qed (use assms in auto)

text \<open>A handler never goes back: what it is after a step, it was before, or it looked, or it has just arrived.\<close>

lemma handler_step_phase:
  assumes "handler_step look ev s = Some s'" "hget (sr_handlers s') i = Some p"
  shows "p = H_Entered \<or> hget (sr_handlers s) i = Some p \<or>
    (\<exists>q. hget (sr_handlers s) i = Some q \<and> look s q = Some p)"
  using assms by (cases ev) (auto split: if_splits option.splits)

lemma handler_step_flags:
  assumes "handler_step look ev s = Some s'"
  shows "sr_ready s' = sr_ready s" "sr_cancelled s' = sr_cancelled s" "sr_closer s' = sr_closer s"
  using assms by (cases ev; auto split: if_splits option.splits)+

section \<open>The contract\<close>

text \<open>
  A server with a gate: once \<open>shut\<close> holds it holds for good and no handler becomes \<open>risky\<close> any more, and the
  closer only says \<open>closed\<close> after reading zero from the counter of live guards with the gate shut.
\<close>

locale closing_server =
  fixes step :: "'e \<Rightarrow> 'c server_state \<Rightarrow> 'c server_state option"
    and sane :: "'c server_state \<Rightarrow> bool"
    and shut :: "'c server_state \<Rightarrow> bool"
    and closed :: "'c \<Rightarrow> bool"
    and risky :: "handler_phase set"
  assumes counted: "step ev s = Some s' \<Longrightarrow> counter_ok (sr_active s) (sr_handlers s) \<Longrightarrow>
      counter_ok (sr_active s') (sr_handlers s')"
    and sane_stays: "step ev s = Some s' \<Longrightarrow> sane s \<Longrightarrow> sane s'"
    and shut_stays: "step ev s = Some s' \<Longrightarrow> shut s \<Longrightarrow> shut s'"
    and gate: "step ev s = Some s' \<Longrightarrow> shut s \<Longrightarrow> hget (sr_handlers s') i = Some p \<Longrightarrow> p \<in> risky \<Longrightarrow>
      \<exists>q \<in> risky. hget (sr_handlers s) i = Some q"
    and closes: "step ev s = Some s' \<Longrightarrow> sane s \<Longrightarrow> closed (sr_closer s') \<Longrightarrow> \<not> closed (sr_closer s) \<Longrightarrow>
      shut s \<and> sr_active s = 0 \<and> sr_handlers s' = sr_handlers s"
begin

definition safe :: "'c server_state \<Rightarrow> bool" where
  "safe s \<longleftrightarrow> sane s \<and> counter_ok (sr_active s) (sr_handlers s) \<and>
     (closed (sr_closer s) \<longrightarrow> shut s \<and> (\<forall>i p. hget (sr_handlers s) i = Some p \<longrightarrow> p \<notin> risky))"

lemma safe_step:
  assumes "step ev s = Some s'" "safe s"
  shows "safe s'"
proof (cases "closed (sr_closer s)")
  case True
  with assms(2) have "shut s" "\<And>i p. hget (sr_handlers s) i = Some p \<Longrightarrow> p \<notin> risky"
    by (auto simp: safe_def)
  moreover have "p \<notin> risky" if "hget (sr_handlers s') i = Some p" for i p
    using gate [OF assms(1) \<open>shut s\<close> that] calculation(2) by blast
  ultimately show ?thesis
    using assms(2) sane_stays [OF assms(1)] counted [OF assms(1)] shut_stays [OF assms(1)]
    by (simp add: safe_def)
next
  case False
  have ok: "sane s" "counter_ok (sr_active s) (sr_handlers s)"
    using assms(2) by (simp_all add: safe_def)
  have "shut s' \<and> sr_handlers s' = []" if "closed (sr_closer s')"
    using closes [OF assms(1) ok(1) that False] ok(2) counter_ok_zero [of "sr_handlers s"] shut_stays [OF assms(1)]
    by simp
  then show ?thesis
    using sane_stays [OF assms(1) ok(1)] counted [OF assms(1) ok(2)] by (auto simp: safe_def)
qed

lemma closed_without_risk:
  assumes "server_run step evs s = Some s'" "safe s" "closed (sr_closer s')" "hget (sr_handlers s') i = Some p"
  shows "p \<notin> risky"
proof -
  have "safe s'"
    by (rule server_run_invariant [where I = safe, OF assms(1) assms(2)]) (rule safe_step)
  then show ?thesis
    using assms(3,4) by (simp add: safe_def)
qed

end

section \<open>Both servers\<close>

lemma counter_ok_new [simp]: "counter_ok 0 []"
  by (simp add: counter_ok_def)

text \<open>What the closers do to the flags and the handlers.\<close>

lemma worker_closer_handlers:
  assumes "worker_closer_step timeout ev s = Some s'"
  shows "sr_handlers s' = sr_handlers s" "sr_active s' = sr_active s"
    "sr_cancelled s \<Longrightarrow> sr_cancelled s'" "\<not> sr_ready s \<Longrightarrow> \<not> sr_ready s'"
  using assms
  by (cases ev; auto split: worker_closer.splits if_splits poll_step.splits)+

lemma coordinator_closer_handlers:
  assumes "coordinator_closer_step ev s = Some s'"
  shows "sr_handlers s' = sr_handlers s" "sr_active s' = sr_active s"
    "sr_cancelled s \<Longrightarrow> sr_cancelled s'"
  using assms by (cases ev; auto split: if_splits)+

lemma drain_step_Drained:
  "drain_step start min_pause timeout u ob = Poll_Done Drained \<Longrightarrow> do_active ob = 0"
  by (auto simp: drain_step_def Let_def split: if_splits option.splits)

text \<open>The flags agree with how far the closer is.\<close>

definition flags_ok :: "worker_closer server_state \<Rightarrow> bool" where
  "flags_ok s \<longleftrightarrow>
     (sr_ready s \<longleftrightarrow> sr_closer s = Not_Signalled) \<and>
     (sr_cancelled s \<longleftrightarrow> (\<exists>out. sr_closer s = Awaiting_Handlers out \<or> sr_closer s = Server_Closes out))"

lemma flags_ok_step:
  assumes "worker_server_step timeout ev s = Some s'" "flags_ok s"
  shows "flags_ok s'"
proof (cases ev)
  case (Inl h)
  with assms handler_step_flags [of worker_look h s s'] show ?thesis
    by (simp add: worker_server_step_def flags_ok_def)
next
  case (Inr c)
  with assms show ?thesis
    by (cases c) (auto simp: worker_server_step_def flags_ok_def
        split: worker_closer.splits if_splits poll_step.splits)
qed

text \<open>
  What the three interpretations below share: a step of a handler goes through the gate, a step of the closer
  leaves the handlers alone.
\<close>

lemma worker_gate:
  assumes "worker_server_step timeout ev s = Some s'" "hget (sr_handlers s') i = Some p"
  shows "sr_cancelled s \<Longrightarrow> p \<in> {H_Not_Cancelled, H_Serving} \<Longrightarrow>
      \<exists>q \<in> {H_Not_Cancelled, H_Serving}. hget (sr_handlers s) i = Some q"
    "\<not> sr_ready s \<Longrightarrow> p \<in> {H_Serving} \<Longrightarrow> \<exists>q \<in> {H_Serving}. hget (sr_handlers s) i = Some q"
proof -
  have "p = H_Entered \<or> hget (sr_handlers s) i = Some p \<or>
      (\<exists>q. hget (sr_handlers s) i = Some q \<and> worker_look s q = Some p)"
    using assms handler_step_phase [of worker_look _ s s' i p] worker_closer_handlers(1) [of timeout _ s s']
    by (cases ev) (auto simp: worker_server_step_def)
  moreover have "worker_look s q = Some p \<Longrightarrow> sr_cancelled s \<Longrightarrow> p \<in> {H_Not_Cancelled, H_Serving} \<Longrightarrow>
      q = H_Not_Cancelled" "worker_look s q = Some p \<Longrightarrow> \<not> sr_ready s \<Longrightarrow> p \<noteq> H_Serving" for q
    by (cases q; simp split: if_splits)+
  ultimately show "sr_cancelled s \<Longrightarrow> p \<in> {H_Not_Cancelled, H_Serving} \<Longrightarrow>
      \<exists>q \<in> {H_Not_Cancelled, H_Serving}. hget (sr_handlers s) i = Some q"
    "\<not> sr_ready s \<Longrightarrow> p \<in> {H_Serving} \<Longrightarrow> \<exists>q \<in> {H_Serving}. hget (sr_handlers s) i = Some q"
    by blast+
qed

lemma worker_step_counter:
  "worker_server_step timeout ev s = Some s' \<Longrightarrow> counter_ok (sr_active s) (sr_handlers s) \<Longrightarrow>
   counter_ok (sr_active s') (sr_handlers s')"
  using handler_step_counter [of worker_look _ s s'] worker_closer_handlers(1,2) [of timeout _ s s']
  by (cases ev) (simp_all add: worker_server_step_def)

lemma worker_step_shut:
  assumes "worker_server_step timeout ev s = Some s'"
  shows "sr_cancelled s \<Longrightarrow> sr_cancelled s'" "\<not> sr_ready s \<Longrightarrow> \<not> sr_ready s'"
  using assms handler_step_flags(1,2) [of worker_look _ s s'] worker_closer_handlers(3,4) [of timeout _ s s']
  by (cases ev; simp add: worker_server_step_def)+

lemma worker_step_closes:
  assumes "worker_server_step timeout ev s = Some s'" "flags_ok s"
  shows "server_closed (sr_closer s') \<Longrightarrow> \<not> server_closed (sr_closer s) \<Longrightarrow>
      sr_cancelled s \<and> sr_active s = 0 \<and> sr_handlers s' = sr_handlers s"
    "drained (sr_closer s') \<Longrightarrow> \<not> drained (sr_closer s) \<Longrightarrow>
      \<not> sr_ready s \<and> sr_active s = 0 \<and> sr_handlers s' = sr_handlers s"
proof -
  note defs = worker_server_step_def flags_ok_def
  have "(server_closed (sr_closer s') \<longrightarrow> \<not> server_closed (sr_closer s) \<longrightarrow>
      sr_cancelled s \<and> sr_active s = 0 \<and> sr_handlers s' = sr_handlers s) \<and>
    (drained (sr_closer s') \<longrightarrow> \<not> drained (sr_closer s) \<longrightarrow>
      \<not> sr_ready s \<and> sr_active s = 0 \<and> sr_handlers s' = sr_handlers s)"
  proof (cases ev)
    case (Inl h)
    with assms handler_step_flags(3) [of worker_look h s s'] show ?thesis
      by (simp add: worker_server_step_def)
  next
    case (Inr c)
    with assms show ?thesis
      by (cases c) (auto simp: defs word_greater_zero_iff unat_eq_0 dest!: drain_step_Drained
          split: worker_closer.splits if_splits poll_step.splits)
  qed
  then show "server_closed (sr_closer s') \<Longrightarrow> \<not> server_closed (sr_closer s) \<Longrightarrow>
      sr_cancelled s \<and> sr_active s = 0 \<and> sr_handlers s' = sr_handlers s"
    "drained (sr_closer s') \<Longrightarrow> \<not> drained (sr_closer s) \<Longrightarrow>
      \<not> sr_ready s \<and> sr_active s = 0 \<and> sr_handlers s' = sr_handlers s"
    by blast+
qed

interpretation worker_close:
  closing_server "worker_server_step timeout" flags_ok sr_cancelled server_closed "{H_Not_Cancelled, H_Serving}"
  for timeout
  by unfold_locales
    (rule worker_step_counter flags_ok_step worker_step_shut(1) worker_gate(1) worker_step_closes(1); assumption)+

interpretation worker_drain:
  closing_server "worker_server_step timeout" flags_ok "\<lambda>s. \<not> sr_ready s" drained "{H_Serving}"
  for timeout
  by unfold_locales
    (rule worker_step_counter flags_ok_step worker_step_shut(2) worker_gate(2) worker_step_closes(2); assumption)+

lemma coordinator_gate:
  assumes "coordinator_server_step ev s = Some s'" "hget (sr_handlers s') i = Some p" "sr_cancelled s"
    "p \<in> {H_Serving}"
  shows "\<exists>q \<in> {H_Serving}. hget (sr_handlers s) i = Some q"
proof -
  have "coordinator_look s q \<noteq> Some H_Serving" for q
    using assms(3) by (cases q) simp_all
  then show ?thesis
    using assms handler_step_phase [of coordinator_look _ s s' i p] coordinator_closer_handlers(1) [of _ s s']
    by (cases ev) (auto simp: coordinator_server_step_def)
qed

text \<open>The coordinator's only flag is its token.\<close>

definition token_ok :: "coordinator_closer server_state \<Rightarrow> bool" where
  "token_ok s \<longleftrightarrow> (sr_cancelled s \<longleftrightarrow> sr_closer s \<noteq> Coord_Not_Signalled)"

interpretation coordinator_close:
  closing_server coordinator_server_step token_ok sr_cancelled "\<lambda>c. c = Coord_Closes" "{H_Serving}"
proof unfold_locales
  fix ev and s s' :: "coordinator_closer server_state"
  assume step: "coordinator_server_step ev s = Some s'"
  note handler = handler_step_counter [of coordinator_look _ s s'] handler_step_flags [of coordinator_look _ s s']
  show "counter_ok (sr_active s) (sr_handlers s) \<Longrightarrow> counter_ok (sr_active s') (sr_handlers s')"
    using step handler coordinator_closer_handlers [of _ s s'] by (cases ev) (simp_all add: coordinator_server_step_def)
  show "token_ok s \<Longrightarrow> token_ok s'" and "sr_cancelled s \<Longrightarrow> sr_cancelled s'"
    and "token_ok s \<Longrightarrow> sr_closer s' = Coord_Closes \<Longrightarrow> sr_closer s \<noteq> Coord_Closes \<Longrightarrow>
      sr_cancelled s \<and> sr_active s = 0 \<and> sr_handlers s' = sr_handlers s"
  proof -
    have "(token_ok s \<longrightarrow> token_ok s') \<and> (sr_cancelled s \<longrightarrow> sr_cancelled s') \<and>
        (token_ok s \<longrightarrow> sr_closer s' = Coord_Closes \<longrightarrow> sr_closer s \<noteq> Coord_Closes \<longrightarrow>
          sr_cancelled s \<and> sr_active s = 0 \<and> sr_handlers s' = sr_handlers s)"
    proof (cases ev)
      case (Inl h)
      with step handler show ?thesis by (simp add: coordinator_server_step_def token_ok_def)
    next
      case (Inr c)
      with step show ?thesis
        by (cases c) (auto simp: coordinator_server_step_def token_ok_def split: if_splits)
    qed
    then show "token_ok s \<Longrightarrow> token_ok s'" and "sr_cancelled s \<Longrightarrow> sr_cancelled s'"
      and "token_ok s \<Longrightarrow> sr_closer s' = Coord_Closes \<Longrightarrow> sr_closer s \<noteq> Coord_Closes \<Longrightarrow>
        sr_cancelled s \<and> sr_active s = 0 \<and> sr_handlers s' = sr_handlers s"
      by blast+
  qed
  show "\<exists>q \<in> {H_Serving}. hget (sr_handlers s) i = Some q"
    if "sr_cancelled s" "hget (sr_handlers s') i = Some p" "p \<in> {H_Serving}" for i p
    by (rule coordinator_gate [OF step that(2,1,3)])
qed

section \<open>The steps refine the function of readings\<close>

text \<open>The drain of a run is the function \<open>drain\<close> on the readings its polls made.\<close>

fun drain_result :: "worker_closer \<Rightarrow> drain_outcome option" where
  "drain_result (Drain_Over out) = Some out"
| "drain_result (Awaiting_Handlers out) = Some out"
| "drain_result (Server_Closes out) = Some out"
| "drain_result _ = None"

lemma drain_result_stays:
  assumes "worker_server_step timeout ev s = Some s'" "drain_result (sr_closer s) = Some out"
  shows "drain_result (sr_closer s') = Some out"
proof (cases ev)
  case (Inl h)
  with assms handler_step_flags(3) [of worker_look h s s'] show ?thesis by (simp add: worker_server_step_def)
next
  case (Inr c)
  with assms show ?thesis
    by (cases c; cases "sr_closer s") (auto simp: worker_server_step_def split: if_splits)
qed

text \<open>The readings of the drain's polls in a run.\<close>

fun drain_readings ::
  "millis \<Rightarrow> (handler_event + worker_closer_event) list \<Rightarrow> worker_closer server_state \<Rightarrow> drain_obs list" where
  "drain_readings timeout [] s = []"
| "drain_readings timeout (ev # evs) s =
     (case worker_server_step timeout ev s of
        None \<Rightarrow> []
      | Some s' \<Rightarrow>
          (case ev of
             Inr (Drain_Polls t i) \<Rightarrow> [\<lparr>do_now = t, do_active = unat (sr_active s), do_interrupt = i\<rparr>]
           | _ \<Rightarrow> []) @ drain_readings timeout evs s')"

lemma draining_step:
  assumes "worker_server_step timeout ev s = Some s'" "sr_closer s = Draining start"
  obtains (Other) "sr_closer s' = Draining start" "drain_readings timeout (ev # evs) s = drain_readings timeout evs s'"
  | (Next) u ob where "sr_closer s' = Draining start" "drain_step start MIN_UNROUTABLE_PAUSE timeout () ob = Poll_Next u"
      "drain_readings timeout (ev # evs) s = ob # drain_readings timeout evs s'"
  | (Done) out ob where "sr_closer s' = Drain_Over out" "drain_step start MIN_UNROUTABLE_PAUSE timeout () ob = Poll_Done out"
      "drain_readings timeout (ev # evs) s = ob # drain_readings timeout evs s'"
proof (cases ev)
  case (Inl h)
  with assms handler_step_flags(3) [of worker_look h s s'] show ?thesis
    by (intro Other) (simp_all add: worker_server_step_def)
next
  case (Inr c)
  then have step: "worker_closer_step timeout c s = Some s'"
    using assms(1) by (simp add: worker_server_step_def)
  show ?thesis
  proof (cases c)
    case (Drain_Polls t i)
    let ?ob = "\<lparr>do_now = t, do_active = unat (sr_active s), do_interrupt = i\<rparr>"
    have readings: "drain_readings timeout (ev # evs) s = ?ob # drain_readings timeout evs s'"
      using assms(1) Inr Drain_Polls by simp
    show ?thesis
    proof (cases "drain_step start MIN_UNROUTABLE_PAUSE timeout () ?ob")
      case (Poll_Next u)
      with step assms(2) Drain_Polls have "sr_closer s' = Draining start" by (simp split: if_splits)
      then show ?thesis by (rule Next [OF _ Poll_Next readings])
    next
      case (Poll_Done out)
      with step assms(2) Drain_Polls have "sr_closer s' = Drain_Over out" by (auto split: if_splits)
      then show ?thesis by (rule Done [OF _ Poll_Done readings])
    qed
  qed (use step assms(2) in simp_all)
qed

theorem drain_of_run:
  assumes "server_run (worker_server_step timeout) evs s = Some s'" "sr_closer s = Draining start"
  shows "drain_result (sr_closer s') = drain start MIN_UNROUTABLE_PAUSE timeout (drain_readings timeout evs s)"
  using assms
proof (induction evs arbitrary: s)
  case Nil
  then show ?case by (simp add: drain_def)
next
  case (Cons ev evs)
  then obtain t where t: "worker_server_step timeout ev s = Some t" "server_run (worker_server_step timeout) evs t = Some s'"
    by (auto split: option.splits)
  from t(1) Cons.prems(2) show ?case
  proof (cases rule: draining_step [where evs = evs])
    case Other
    then show ?thesis using Cons.IH [OF t(2)] by simp
  next
    case (Next u ob)
    then show ?thesis using Cons.IH [OF t(2)] by (simp add: drain_def)
  next
    case (Done out ob)
    then have "drain_result (sr_closer t) = Some out" by simp
    then have "drain_result (sr_closer s') = Some out"
      by (rule server_run_invariant [where I = "\<lambda>s. drain_result (sr_closer s) = Some out", OF t(2)])
        (rule drain_result_stays)
    then show ?thesis using Done(2,3) by (simp add: drain_def)
  qed
qed

lemma worker_run_counter:
  assumes "server_run (worker_server_step timeout) evs worker_server_new = Some s"
  shows "counter_ok (sr_active s) (sr_handlers s)"
  using server_run_invariant [where I = "\<lambda>s. counter_ok (sr_active s) (sr_handlers s)", OF assms]
    worker_step_counter [of timeout] by (simp add: worker_server_new_def)

section \<open>Closing never gets stuck\<close>

lemma server_run_append:
  "server_run step (xs @ ys) s = (case server_run step xs s of None \<Rightarrow> None | Some t \<Rightarrow> server_run step ys t)"
  by (induction xs arbitrary: s) (auto split: option.splits)

text \<open>The handlers can all end, and nothing else changes.\<close>

lemma handlers_can_end:
  assumes "hmap_ok (sr_handlers s)" "counter_ok (sr_active s) (sr_handlers s)"
  shows "\<exists>s'. server_run (worker_server_step timeout) (map (\<lambda>h. Inl (Handler_Leave (fst h))) (sr_handlers s)) s = Some s' \<and>
    sr_handlers s' = [] \<and> sr_active s' = 0 \<and> sr_now s' = sr_now s \<and> sr_closer s' = sr_closer s"
  using assms
proof (induction "sr_handlers s" arbitrary: s)
  case Nil
  then show ?case by (simp add: counter_ok_def)
next
  case (Cons h hs)
  let ?t = "s\<lparr>sr_active := active_guard_drop (sr_active s), sr_handlers := hdel (fst h) (sr_handlers s)\<rparr>"
  have head: "fst h \<in> hkeys (sr_handlers s)" "hdel (fst h) (sr_handlers s) = hs"
    using Cons.hyps(2) [symmetric] Cons.prems(1) by (auto simp: hkeys_def hdel_def hmap_ok_def delete_idem)
  have step: "worker_server_step timeout (Inl (Handler_Leave (fst h))) s = Some ?t"
    using head(1) by (simp add: worker_server_step_def hkeys_iff)
  have "hs = sr_handlers ?t" using head by simp
  moreover have "hmap_ok (sr_handlers ?t)" using Cons.prems(1) by simp
  moreover have "counter_ok (sr_active ?t) (sr_handlers ?t)"
    using counter_ok_drop [OF Cons.prems(2) head(1)] by simp
  ultimately have "\<exists>s'. server_run (worker_server_step timeout) (map (\<lambda>h. Inl (Handler_Leave (fst h))) (sr_handlers ?t)) ?t =
      Some s' \<and> sr_handlers s' = [] \<and> sr_active s' = 0 \<and> sr_now s' = sr_now ?t \<and> sr_closer s' = sr_closer ?t"
    by (rule Cons.hyps(1))
  moreover have "sr_handlers s = h # hs" using Cons.hyps(2) by simp
  ultimately show ?case
    using step head(2) by (simp del: handler_step.simps)
qed

text \<open>From the end of the drain on, the handlers' ends are all the closing waits for.\<close>

lemma closes_when_handlers_end:
  assumes "drain_result (sr_closer s) = Some out" "sr_handlers s = []" "sr_active s = 0"
  shows "\<exists>evs s'. server_run (worker_server_step timeout) evs s = Some s' \<and> sr_closer s' = Server_Closes out"
proof (cases "sr_closer s")
  case (Drain_Over o')
  with assms show ?thesis
    by (intro exI [of _ "[Inr Token_Cancelled, Inr Counter_Polled]"]) (simp add: worker_server_step_def)
next
  case (Awaiting_Handlers o')
  with assms show ?thesis
    by (intro exI [of _ "[Inr Counter_Polled]"]) (simp add: worker_server_step_def)
next
  case (Server_Closes o')
  with assms show ?thesis
    by (intro exI [of _ "[]"]) simp
qed (use assms(1) in simp_all)

lemma drain_can_end:
  assumes "sr_closer s = Draining start"
  shows "\<exists>evs s' out. server_run (worker_server_step timeout) evs s = Some s' \<and> sr_closer s' = Drain_Over out \<and>
    sr_handlers s' = sr_handlers s \<and> sr_active s' = sr_active s"
proof -
  let ?d = "start + timeout"
  let ?ob = "\<lparr>do_now = sr_now s + ?d, do_active = unat (sr_active s), do_interrupt = None\<rparr>"
  have "\<exists>out. drain_step start MIN_UNROUTABLE_PAUSE timeout () ?ob = Poll_Done out"
    by (simp add: drain_step_def Let_def)
  then obtain out where out: "drain_step start MIN_UNROUTABLE_PAUSE timeout () ?ob = Poll_Done out" ..
  show ?thesis
    by (intro exI [of _ "[Inl (Clock_Ticks ?d), Inr (Drain_Polls (sr_now s + ?d) None)]"] exI [of _ out]
        exI [of _ "s\<lparr>sr_now := sr_now s + ?d, sr_closer := Drain_Over out\<rparr>"])
      (simp add: worker_server_step_def assms out)
qed

theorem closing_can_always_finish:
  assumes "server_run (worker_server_step timeout) evs worker_server_new = Some s"
  shows "\<exists>evs' s' out. server_run (worker_server_step timeout) evs' s = Some s' \<and> sr_closer s' = Server_Closes out"
proof -
  let ?run = "server_run (worker_server_step timeout)"
  have ok: "counter_ok (sr_active s) (sr_handlers s)"
    by (rule worker_run_counter [OF assms])
  then obtain e1 s1 where s1: "?run e1 s = Some s1" "sr_handlers s1 = []" "sr_active s1 = 0" "sr_closer s1 = sr_closer s"
    using handlers_can_end [of s timeout] by (auto simp: counter_ok_def)
  have "\<exists>e2 s2. ?run e2 s1 = Some s2 \<and> sr_handlers s2 = [] \<and> sr_active s2 = 0 \<and>
      ((\<exists>start. sr_closer s2 = Draining start) \<or> (\<exists>out. drain_result (sr_closer s2) = Some out))"
  proof (cases "sr_closer s1")
    case Not_Signalled
    with s1 show ?thesis
      by (intro exI [of _ "[Inr Signal_Received, Inr Drain_Starts]"]) (simp add: worker_server_step_def)
  next
    case Marked_Unready
    with s1 show ?thesis
      by (intro exI [of _ "[Inr Drain_Starts]"]) (simp add: worker_server_step_def)
  qed (use s1 in \<open>auto intro!: exI [of _ "[]"]\<close>)
  then obtain e2 s2 where s2: "?run e2 s1 = Some s2" "sr_handlers s2 = []" "sr_active s2 = 0"
    and at: "(\<exists>start. sr_closer s2 = Draining start) \<or> (\<exists>out. drain_result (sr_closer s2) = Some out)"
    by blast
  obtain e3 s3 out where s3: "?run e3 s2 = Some s3" "sr_handlers s3 = []" "sr_active s3 = 0"
    "drain_result (sr_closer s3) = Some out"
    using at
  proof (elim disjE exE)
    fix start assume "sr_closer s2 = Draining start"
    then show thesis using drain_can_end [of s2 start timeout] s2(2,3) that by fastforce
  next
    fix out assume "drain_result (sr_closer s2) = Some out"
    then show thesis using s2(2,3) that [of "[]" s2] by simp
  qed
  obtain e4 s4 where "?run e4 s3 = Some s4" "sr_closer s4 = Server_Closes out"
    using closes_when_handlers_end [OF s3(4,2,3), of timeout] by blast
  then have "?run (e1 @ e2 @ e3 @ e4) s = Some s4"
    using s1(1) s2(1) s3(1) by (simp add: server_run_append)
  with \<open>sr_closer s4 = Server_Closes out\<close> show ?thesis by blast
qed

section \<open>Properties\<close>

lemma worker_safe_new:
  "worker_close.safe worker_server_new" "worker_drain.safe worker_server_new"
  by (simp_all add: worker_close.safe_def worker_drain.safe_def worker_server_new_def flags_ok_def)

lemma coordinator_safe_new: "coordinator_close.safe coordinator_server_new"
  by (simp add: coordinator_close.safe_def coordinator_server_new_def token_ok_def)

text \<open>The looks of \<open>worker_look\<close> are the first check of the handler, whose answer is the refusal.\<close>

lemma worker_look_is_first_check:
  assumes "sr_cancelled s = sv_cancelled st" "sr_ready s = sv_ready st"
  shows "(case worker_look s H_Entered of Some H_Not_Cancelled \<Rightarrow> worker_look s H_Not_Cancelled | p \<Rightarrow> p) =
      Some H_Refused \<longleftrightarrow> sv_cancelled st \<or> \<not> sv_ready st"
    and "sv_cancelled st \<or> \<not> sv_ready st \<Longrightarrow> snd (handle_scrape env config q st) = (st, [])"
  using assms by (simp_all add: handle_scrape_def)

text \<open>
  C37: Closing the worker cuts nobody off.  However handlers arrive, look at the flags and end while the worker is
  shut down, when the gRPC server is told to close no handler is serving a request or can still begin to: any
  that arrives later answers TERMINATING.  And when the drain ended because nothing was in flight, the
  cancellation that follows it hits no request.  The order in the handler (guard first, checks after) and in the
  shutdown (flag first, counter after) is what makes this so.
\<close>

theorem closing_cuts_nobody_off:
  assumes "server_run (worker_server_step timeout) evs worker_server_new = Some s"
  shows "unat (sr_active s) = length (sr_handlers s) \<and>
    (server_closed (sr_closer s) \<longrightarrow> snd ` set (sr_handlers s) \<subseteq> {H_Entered, H_Refused}) \<and>
    (drained (sr_closer s) \<longrightarrow> H_Serving \<notin> snd ` set (sr_handlers s))"
proof -
  have ok: "counter_ok (sr_active s) (sr_handlers s)"
    by (rule worker_run_counter [OF assms])
  then have live: "(i, p) \<in> set (sr_handlers s) \<Longrightarrow> hget (sr_handlers s) i = Some p" for i p
    by (simp add: counter_ok_def hget_Some_iff)
  have "p \<in> {H_Entered, H_Refused}" if "server_closed (sr_closer s)" "(i, p) \<in> set (sr_handlers s)" for i p
    using worker_close.closed_without_risk [OF assms worker_safe_new(1) that(1) live [OF that(2)]]
    by (cases p) simp_all
  moreover have "p \<noteq> H_Serving" if "drained (sr_closer s)" "(i, p) \<in> set (sr_handlers s)" for i p
    using worker_drain.closed_without_risk [OF assms worker_safe_new(2) that(1) live [OF that(2)]] by simp
  ultimately show ?thesis
    using counter_ok_unat [OF ok] by fastforce
qed

definition sample_shutdown :: "(handler_event + worker_closer_event) list" where
  "sample_shutdown =
     [Inl (Handler_Enter 0), Inl (Handler_Look 0), Inl (Handler_Look 0), Inr Signal_Received, Inl (Handler_Enter 1),
      Inl (Handler_Look 1), Inl (Handler_Look 1), Inr Drain_Starts, Inl (Handler_Leave 1), Inl (Handler_Leave 0),
      Inr (Drain_Polls 0 None), Inr Token_Cancelled, Inr Counter_Polled, Inl (Handler_Enter 2), Inl (Handler_Look 2)]"

lemma closing_cuts_nobody_off_witness:
  "\<exists>s. server_run (worker_server_step 0) sample_shutdown worker_server_new = Some s \<and>
     sr_closer s = Server_Closes Drained \<and> sr_handlers s = [(2, H_Refused)] \<and> unat (sr_active s) = 1"
proof -
  have "\<exists>s. server_run (worker_server_step 0) sample_shutdown worker_server_new = Some s \<and>
      sr_closer s = Server_Closes Drained \<and> sr_handlers s = [(2, H_Refused)]"
    by (simp add: sample_shutdown_def worker_server_new_def worker_server_step_def hget_def hput_def hdel_def
        active_guard_new_def active_guard_drop_def drain_step_def)
  then obtain s where s: "server_run (worker_server_step 0) sample_shutdown worker_server_new = Some s"
      "sr_closer s = Server_Closes Drained" "sr_handlers s = [(2, H_Refused)]"
    by blast
  with closing_cuts_nobody_off [OF s(1)] show ?thesis
    by (intro exI [of _ s]) simp
qed

text \<open>The coordinator, whose token alone is the gate, closes as safely.\<close>

theorem coordinator_closing_cuts_nobody_off:
  assumes "server_run coordinator_server_step evs coordinator_server_new = Some s" "sr_closer s = Coord_Closes"
  shows "hget (sr_handlers s) i \<noteq> Some H_Serving"
  using coordinator_close.closed_without_risk [OF assms(1) coordinator_safe_new assms(2)] by blast

lemma coordinator_closing_cuts_nobody_off_witness:
  "\<exists>s. server_run coordinator_server_step
       [Inl (Handler_Enter 0), Inl (Handler_Look 0), Inr Coord_Signal, Inl (Handler_Leave 0), Inr Coord_Counter_Polled]
       coordinator_server_new = Some s \<and> sr_closer s = Coord_Closes \<and> hget (sr_handlers s) 0 \<noteq> Some H_Serving"
proof -
  have "\<exists>s. server_run coordinator_server_step
       [Inl (Handler_Enter 0), Inl (Handler_Look 0), Inr Coord_Signal, Inl (Handler_Leave 0), Inr Coord_Counter_Polled]
       coordinator_server_new = Some s \<and> sr_closer s = Coord_Closes"
    by (simp add: coordinator_server_new_def coordinator_server_step_def hget_def hput_def hdel_def
        active_guard_new_def active_guard_drop_def)
  then show ?thesis
    using coordinator_closing_cuts_nobody_off by blast
qed

end
