(* ===== verification/Request_Guards.thy ===== *)
theory Request_Guards
  imports In_Flight
begin

text \<open>
  Two guards a request of \<open>worker/src/service.rs\<close> holds: \<open>EventListenerGuard\<close>, which takes a CDP listener off
  the tab again (the response observer and the diagnostics capture each have one), and \<open>RequestTimer\<close>, which
  observes the duration of the request on every way out.

  A closure to run is the handle of the listener it removes.  A tab's listeners are the vector the removal works
  on, in memory only, so it cannot fail.
\<close>

section \<open>Listeners\<close>

record event_listener_guard =
  lg_remove :: "nat option"

definition listener_guard_new :: "nat \<Rightarrow> event_listener_guard" where
  "listener_guard_new listener = \<lparr>lg_remove = Some listener\<rparr>"

text \<open>Dropping takes the closure out, so that it can run at most once.\<close>

definition listener_guard_drop :: "event_listener_guard \<Rightarrow> nat list \<Rightarrow> event_listener_guard \<times> nat list" where
  "listener_guard_drop g listeners =
     (case lg_remove g of
        Some listener \<Rightarrow> (g\<lparr>lg_remove := None\<rparr>, removeAll listener listeners)
      | None \<Rightarrow> (g, listeners))"

text \<open>What \<open>add_event_listener\<close> answers: the handle of the new listener, or an error, which is only logged.\<close>

definition attach_listener :: "string + nat \<Rightarrow> nat list \<Rightarrow> event_listener_guard option \<times> nat list" where
  "attach_listener answer listeners =
     (case answer of
        Inr listener \<Rightarrow> (Some (listener_guard_new listener), listeners @ [listener])
      | Inl e \<Rightarrow> (None, listeners))"

definition drop_listener :: "event_listener_guard option \<Rightarrow> nat list \<Rightarrow> nat list" where
  "drop_listener g listeners = (case g of Some g \<Rightarrow> snd (listener_guard_drop g listeners) | None \<Rightarrow> listeners)"

lemma listener_guard_drop_twice:
  "listener_guard_drop (fst (listener_guard_drop g listeners)) listeners' =
     (fst (listener_guard_drop g listeners), listeners')"
  by (simp add: listener_guard_drop_def split: option.splits)

text \<open>
  A request attaches its listeners in some order and drops their guards in any other: the tab it leaves for the
  next request has the listeners it had, whichever attachments failed.
\<close>

fun attach_all :: "(string + nat) list \<Rightarrow> nat list \<Rightarrow> event_listener_guard option list \<times> nat list" where
  "attach_all [] listeners = ([], listeners)"
| "attach_all (a # as) listeners =
     (let (g, listeners) = attach_listener a listeners; (gs, listeners) = attach_all as listeners
      in (g # gs, listeners))"

definition drop_all :: "event_listener_guard option list \<Rightarrow> nat list \<Rightarrow> nat list" where
  "drop_all gs listeners = fold drop_listener gs listeners"

definition attached :: "(string + nat) list \<Rightarrow> nat list" where
  "attached as = concat (map (case_sum (\<lambda>e. []) (\<lambda>l. [l])) as)"

definition guarded_by :: "event_listener_guard option \<Rightarrow> nat set" where
  "guarded_by g = (case g of Some g \<Rightarrow> set_option (lg_remove g) | None \<Rightarrow> {})"

lemma drop_listener_filter: "drop_listener g listeners = filter (\<lambda>l. l \<notin> guarded_by g) listeners"
  by (auto simp: drop_listener_def listener_guard_drop_def guarded_by_def removeAll_filter_not_eq
      intro!: filter_cong split: option.splits)

lemma drop_all_filter: "drop_all gs listeners = filter (\<lambda>l. \<forall>g \<in> set gs. l \<notin> guarded_by g) listeners"
  by (induction gs arbitrary: listeners)
    (auto simp: drop_all_def drop_listener_filter intro!: filter_cong)

lemma attached_simps [simp]:
  "attached [] = []" "attached (Inl e # as) = attached as" "attached (Inr l # as) = l # attached as"
  by (simp_all add: attached_def)

lemma attach_all_simps [simp]:
  "snd (attach_all (Inl e # as) listeners) = snd (attach_all as listeners)"
  "fst (attach_all (Inl e # as) listeners) = None # fst (attach_all as listeners)"
  "snd (attach_all (Inr l # as) listeners) = snd (attach_all as (listeners @ [l]))"
  "fst (attach_all (Inr l # as) listeners) = Some (listener_guard_new l) # fst (attach_all as (listeners @ [l]))"
  by (simp_all add: attach_listener_def Let_def case_prod_unfold)

lemma guarded_by_simps [simp]: "guarded_by None = {}" "guarded_by (Some (listener_guard_new l)) = {l}"
  by (simp_all add: guarded_by_def listener_guard_new_def)

lemma attach_all_listeners:
  "snd (attach_all as listeners) = listeners @ attached as"
  "(\<Union>g \<in> set (fst (attach_all as listeners)). guarded_by g) = set (attached as)"
proof -
  have "snd (attach_all as listeners) = listeners @ attached as \<and>
      (\<Union>g \<in> set (fst (attach_all as listeners)). guarded_by g) = set (attached as)"
  proof (induction as arbitrary: listeners)
    case (Cons a as)
    then show ?case by (cases a) (simp_all del: attach_all.simps)
  qed simp
  then show "snd (attach_all as listeners) = listeners @ attached as"
    "(\<Union>g \<in> set (fst (attach_all as listeners)). guarded_by g) = set (attached as)"
    by simp_all
qed

theorem listeners_do_not_accumulate:
  assumes "attach_all as listeners = (gs, listeners')" "set (attached as) \<inter> set listeners = {}"
    and "set gs' = set gs"
  shows "drop_all gs' listeners' = listeners"
proof -
  have l: "listeners' = listeners @ attached as" "(\<Union>g \<in> set gs. guarded_by g) = set (attached as)"
    using attach_all_listeners [of as listeners] assms(1) by simp_all
  have "(\<forall>g \<in> set gs'. l \<notin> guarded_by g) \<longleftrightarrow> l \<notin> set (attached as)" for l
    using l(2) assms(3) by blast
  then show ?thesis
    using assms(2) by (auto simp: drop_all_filter l(1) filter_id_conv filter_empty_conv)
qed

lemma listeners_do_not_accumulate_witness:
  "drop_all [Some (listener_guard_new 7), None, Some (listener_guard_new 5)] [1, 5, 7] = [1]"
proof -
  have "attach_all [Inr 5, Inl ''closed'', Inr 7] [1] =
      ([Some (listener_guard_new 5), None, Some (listener_guard_new 7)], [1, 5, 7])"
    by (simp add: attach_listener_def)
  from listeners_do_not_accumulate [OF this, of "[Some (listener_guard_new 7), None, Some (listener_guard_new 5)]"]
  show ?thesis by auto
qed

section \<open>Durations\<close>

record request_timer =
  rt_start :: millis
  rt_observed :: "rat list"

text \<open>The timer's histogram is the scope's: what it has observed so far, in seconds.\<close>

definition request_timer_new :: "millis \<Rightarrow> rat list \<Rightarrow> request_timer" where
  "request_timer_new now observed = \<lparr>rt_start = now, rt_observed = observed\<rparr>"

definition request_timer_drop :: "millis \<Rightarrow> request_timer \<Rightarrow> rat list" where
  "request_timer_drop now t = rt_observed t @ [of_nat (now - rt_start t) / 1000]"

lemma request_observed_once:
  "request_timer_drop (start + d) (request_timer_new start observed) = observed @ [of_nat d / 1000]"
  by (simp add: request_timer_drop_def request_timer_new_def)

end
