(* ===== verification/Logging.thy ===== *)
theory Logging
  imports Worker_Main
begin

text \<open>
  \<open>common/src/logging.rs\<close>: the subscriber every binary installs before anything else.  The parser of filter
  directives is the library's (\<open>parse\<close>, which may refuse, and \<open>lossy\<close>, which may not); the global default is
  state, set once in the life of a process.  Rendering an event is the library's.
\<close>

record 'f log_subscriber =
  lg_filter :: 'f
  lg_json :: bool
  lg_flatten_event :: bool
  lg_current_span :: bool
  lg_span_list :: bool

datatype log_error = Default_Already_Set

definition PRETTY_FORMATS :: "string list" where
  "PRETTY_FORMATS = [''pretty'', ''text'', ''plain'', ''human'']"

definition use_pretty_format :: "environment \<Rightarrow> bool" where
  "use_pretty_format env =
     (case env ''LOG_FORMAT'' of Env_Set v \<Rightarrow> to_lower (trim v) \<in> set PRETTY_FORMATS | _ \<Rightarrow> False)"

definition log_filter :: "(string \<Rightarrow> 'f option) \<Rightarrow> (string \<Rightarrow> 'f) \<Rightarrow> environment \<Rightarrow> 'f" where
  "log_filter parse lossy env =
     (case env ''RUST_LOG'' of
        Env_Set v \<Rightarrow> (case parse v of Some f \<Rightarrow> f | None \<Rightarrow> lossy ''info'')
      | _ \<Rightarrow> lossy ''info'')"

definition init_logging ::
  "(string \<Rightarrow> 'f option) \<Rightarrow> (string \<Rightarrow> 'f) \<Rightarrow> environment \<Rightarrow> 'f log_subscriber option \<Rightarrow>
   (log_error + unit) \<times> 'f log_subscriber option" where
  "init_logging parse lossy env installed =
     (let filter_used = log_filter parse lossy env;
          subscriber =
            (if use_pretty_format env
             then \<lparr>lg_filter = filter_used, lg_json = False, lg_flatten_event = False, lg_current_span = False,
                   lg_span_list = False\<rparr>
             else \<lparr>lg_filter = filter_used, lg_json = True, lg_flatten_event = True, lg_current_span = True,
                   lg_span_list = False\<rparr>)
      in case installed of
           None \<Rightarrow> (Inr (), Some subscriber)
         | Some other \<Rightarrow> (Inl Default_Already_Set, Some other))"

text \<open>
  Logs are JSON with the request's span unless a human-readable format is asked for by name, in any case and with
  any blanks around it; a filter that does not parse never stops a process; and a process that already logs goes
  on as it did.
\<close>

lemma init_logging_default:
  assumes "init_logging parse lossy env None = (r, Some s)"
  shows "r = Inr ()"
    and "lg_json s \<longleftrightarrow> (\<forall>v. env ''LOG_FORMAT'' = Env_Set v \<longrightarrow> to_lower (trim v) \<notin> set PRETTY_FORMATS)"
    and "lg_json s \<Longrightarrow> lg_flatten_event s \<and> lg_current_span s \<and> \<not> lg_span_list s"
    and "lg_filter s = lossy ''info'' \<or> (\<exists>v. env ''RUST_LOG'' = Env_Set v \<and> parse v = Some (lg_filter s))"
  using assms
  by (auto simp: init_logging_def Let_def use_pretty_format_def log_filter_def split: option.splits if_splits env_value.splits)

lemma init_logging_once:
  "init_logging parse lossy env (Some s) = (Inl Default_Already_Set, Some s)"
  by (simp add: init_logging_def)

lemma pretty_format_examples:
  "use_pretty_format ((\<lambda>_. Env_Unset)(''LOG_FORMAT'' := Env_Set '' Pretty ''))"
  "\<not> use_pretty_format ((\<lambda>_. Env_Unset)(''LOG_FORMAT'' := Env_Set ''json''))"
  "\<not> use_pretty_format (\<lambda>_. Env_Unset)"
  by code_simp+

end
