(* ===== verification/Tab_Init.thy ===== *)
theory Tab_Init
  imports Middleware
begin

text \<open>
  The tab-init middlewares of a pool at work: \<open>SlotFactory::new_tab\<close> applies each of them to every tab, in order
  (\<open>worker/src/browser_pool.rs\<close>), and the middlewares keep what they learn
  (\<open>common/src/browser_middleware.rs\<close>).  A middleware that fails is only logged.  Scopes may add middlewares of
  their own, which are not modelled.
\<close>

datatype tab_middleware =
    Default_Tab_Init bool "string option"
  | Blocked_Urls "string list"
  | Blocked_Resource_Types "blocked_type list"

definition default_tab_init_new :: "bool \<Rightarrow> tab_middleware" where
  "default_tab_init_new headless = Default_Tab_Init headless None"

fun middleware_name :: "tab_middleware \<Rightarrow> string" where
  "middleware_name (Default_Tab_Init headless cached) = ''default_user_agent_override''"
| "middleware_name (Blocked_Urls patterns) = ''blocked_urls''"
| "middleware_name (Blocked_Resource_Types types) = ''blocked_resource_types''"

fun blocked_resource_types :: "tab_middleware \<Rightarrow> blocked_type list" where
  "blocked_resource_types (Blocked_Resource_Types types) = types"
| "blocked_resource_types _ = []"

text \<open>\<open>clone_box\<close>: the clone starts with the user agent the original had cached, and caches for itself.\<close>

fun clone_box :: "tab_middleware \<Rightarrow> tab_middleware" where
  "clone_box (Default_Tab_Init headless cached) = Default_Tab_Init headless cached"
| "clone_box (Blocked_Urls patterns) = Blocked_Urls patterns"
| "clone_box (Blocked_Resource_Types types) = Blocked_Resource_Types types"

text \<open>What a tab answers to the calls of the middlewares.\<close>

record tab_answers =
  ta_user_agent :: ua_answer
  ta_override :: "string + unit"
  ta_network_enabled :: "string + unit"
  ta_urls_installed :: "string + unit"
  ta_interception :: "string + unit"

fun middleware_apply :: "tab_answers \<Rightarrow> tab_middleware \<Rightarrow> tab_call list \<times> tab_middleware \<times> (string + unit)" where
  "middleware_apply ans (Default_Tab_Init headless cached) =
     (case default_tab_init headless cached (ta_user_agent ans) (ta_override ans) of
        (calls, cached', r) \<Rightarrow> (calls, Default_Tab_Init headless cached', r))"
| "middleware_apply ans (Blocked_Urls patterns) =
     (case blocked_urls_init patterns (ta_network_enabled ans) (ta_urls_installed ans) of
        (calls, r) \<Rightarrow> (calls, Blocked_Urls patterns, r))"
| "middleware_apply ans (Blocked_Resource_Types types) =
     (case blocked_types_init types (ta_interception ans) of
        (calls, r) \<Rightarrow> (calls, Blocked_Resource_Types types, r))"

text \<open>One new tab: the calls made, the middlewares afterwards, and what is logged.\<close>

fun init_tab ::
  "tab_answers \<Rightarrow> tab_middleware list \<Rightarrow> tab_call list \<times> tab_middleware list \<times> (string \<times> string) list" where
  "init_tab ans [] = ([], [], [])"
| "init_tab ans (m # ms) =
     (case middleware_apply ans m of
        (calls, m', r) \<Rightarrow>
          (case init_tab ans ms of
             (calls', ms', warnings) \<Rightarrow>
               (calls @ calls', m' # ms',
                (case r of Inl e \<Rightarrow> [(middleware_name m, e)] | Inr _ \<Rightarrow> []) @ warnings)))"

text \<open>The tabs of a pool, one after another: what each was asked.\<close>

fun init_tabs :: "tab_middleware list \<Rightarrow> tab_answers list \<Rightarrow> tab_call list list" where
  "init_tabs ms [] = []"
| "init_tabs ms (ans # answers) = (case init_tab ans ms of (calls, ms', _) \<Rightarrow> calls # init_tabs ms' answers)"

text \<open>The middlewares of the worker binary (\<open>worker/src/main.rs\<close>).\<close>

definition worker_tab_middlewares :: "bool \<Rightarrow> string option \<Rightarrow> tab_middleware list" where
  "worker_tab_middlewares headless var =
     [default_tab_init_new headless, Blocked_Resource_Types (blocked_types_from_env var)]"

section \<open>What every tab gets\<close>

fun knows_user_agent :: "ua_answer \<Rightarrow> string option" where
  "knows_user_agent (UA_String original) = Some (replace_sub ''HeadlessChrome'' ''Chrome'' original)"
| "knows_user_agent _ = None"

lemma clone_box_id [simp]: "clone_box m = m"
  by (cases m) simp_all

lemma init_tab_calls:
  "fst (init_tab ans ms) = concat (map (\<lambda>m. fst (middleware_apply ans m)) ms)"
  "fst (snd (init_tab ans ms)) = map (\<lambda>m. fst (snd (middleware_apply ans m))) ms"
  by (induction ms) (simp_all add: case_prod_unfold)

lemma apply_keeps_types:
  "blocked_resource_types (fst (snd (middleware_apply ans m))) = blocked_resource_types m"
  by (cases m) (simp_all add: case_prod_unfold)

lemma apply_installs_interception:
  "blocked_resource_types m \<noteq> [] \<Longrightarrow> TC_EnableRequestInterception \<in> set (fst (middleware_apply ans m))"
  by (cases m) (simp_all add: blocked_types_init_def)

text \<open>
  A blocked type is intercepted on every tab the pool ever opens, whatever the other middlewares make of it.
\<close>

theorem every_tab_intercepts:
  assumes "m \<in> set ms" "blocked_resource_types m \<noteq> []" "calls \<in> set (init_tabs ms answers)"
  shows "TC_EnableRequestInterception \<in> set calls"
  using assms
proof (induction answers arbitrary: ms m)
  case (Cons ans answers)
  let ?ms = "fst (snd (init_tab ans ms))"
  have "init_tabs ms (ans # answers) = fst (init_tab ans ms) # init_tabs ?ms answers"
    by (simp add: case_prod_unfold)
  then consider "calls = fst (init_tab ans ms)" | "calls \<in> set (init_tabs ?ms answers)"
    using Cons.prems(3) by auto
  then show ?case
  proof cases
    case 1
    then show ?thesis
      using Cons.prems(1) apply_installs_interception [OF Cons.prems(2), of ans] by (auto simp: init_tab_calls)
  next
    case 2
    show ?thesis
      by (rule Cons.IH [OF _ _ 2, of "fst (snd (middleware_apply ans m))"])
        (use Cons.prems(1,2) in \<open>auto simp: init_tab_calls apply_keeps_types\<close>)
  qed
qed simp

text \<open>
  The user agent is asked for until a tab answers it; from then on every tab is given that one, corrected, without
  being asked, so all the contexts of a pool claim the same browser.
\<close>

lemma user_agent_cached:
  "calls \<in> set (init_tabs [Default_Tab_Init True (Some ua)] answers) \<Longrightarrow> calls = [TC_SetUserAgentOverride ua]"
  by (induction answers) (auto simp: default_tab_init_def)

theorem user_agent_asked_until_known:
  "init_tabs [default_tab_init_new True] answers =
     (let silent = takeWhile (\<lambda>ans. knows_user_agent (ta_user_agent ans) = None) answers
      in replicate (length silent) [TC_EvaluateUserAgent] @
         (case drop (length silent) answers of
            [] \<Rightarrow> []
          | ans # rest \<Rightarrow>
              (let ua = the (knows_user_agent (ta_user_agent ans))
               in [TC_EvaluateUserAgent, TC_SetUserAgentOverride ua] #
                  replicate (length rest) [TC_SetUserAgentOverride ua])))"
  unfolding default_tab_init_new_def
proof (induction answers)
  case (Cons ans answers)
  have len: "length (init_tabs ms as) = length as" for ms as
    by (induction as arbitrary: ms) (simp_all add: case_prod_unfold)
  have cached: "init_tabs [Default_Tab_Init True (Some ua)] answers = replicate (length answers) [TC_SetUserAgentOverride ua]"
    for ua
    by (rule replicate_eqI) (simp_all add: len user_agent_cached)
  show ?case
    by (cases "ta_user_agent ans") (simp_all add: default_tab_init_def Let_def cached Cons.IH)
qed simp

lemma headful_tabs_untouched: "init_tabs [default_tab_init_new False] answers = replicate (length answers) []"
  by (induction answers) (simp_all add: default_tab_init_new_def default_tab_init_def)

end
