(* ===== verification/Rolling_Restart.thy ===== *)
theory Rolling_Restart
  imports Hive_System
begin

text \<open>
  Pods that shut down while the coordinator still routes to them: what a request pays for meeting some.  A pod
  that is shutting down refuses before it does anything, one whose server is closed refuses the connection,
  and the coordinator turns to another pod; the client hears of it only when the retries are used up.
\<close>

section \<open>Workers that refuse\<close>

definition shutting_down_at :: "(string \<Rightarrow> hive_worker) \<Rightarrow> nat \<Rightarrow> string \<Rightarrow> bool" where
  "shutting_down_at hive n endpoint \<longleftrightarrow>
     sv_cancelled (hw_state (hive endpoint) n) \<or> \<not> sv_ready (hw_state (hive endpoint) n)"

lemma worker_refuses:
  assumes "shutting_down_at hive n endpoint"
  obtains r where "worker_run hive n endpoint q = (End_Response r, hw_state (hive endpoint) n, [])"
    "wr_error_code r = code_num EC_Terminating"
proof -
  let ?s = "hw_state (hive endpoint) n"
  have "sv_cancelled ?s \<or> \<not> sv_ready ?s"
    using assms by (simp add: shutting_down_at_def)
  then show thesis
    by (intro that) (auto simp: worker_run_def worker_scrape_page_def handle_scrape_def refusal_def failed_response_def)
qed

text \<open>A worker never answers with the coordinator's own code.\<close>

lemma acquire_for_code: "acquire_for env acq config q s = (Inl r, s') \<Longrightarrow> wr_error_code r \<noteq> code_num EC_WorkerUnreachable"
  by (auto simp: acquire_for_def acquire_context_with_recovery_def refusal_def failed_response_def Let_def
      split: sum.splits option.splits prod.splits if_splits)

lemma bind_context_code: "bind_context env config q s = (Inl r, s') \<Longrightarrow> wr_error_code r \<noteq> code_num EC_WorkerUnreachable"
  by (auto simp: bind_context_def refusal_def failed_response_def Let_def dest: acquire_for_code
      split: option.splits prod.splits bool.splits if_splits)

lemma run_attempt_not_unreachable:
  assumes "run_attempt env scrape_env config q c claimed s = (End_Response r, s')"
  shows "wr_error_code r \<noteq> code_num EC_WorkerUnreachable"
proof -
  obtain j es where "scrape_page_internal j claimed = (End_Response r, es)"
    using assms by (auto simp: run_attempt_def Let_def split: prod.splits)
  from attempt_address_ok [OF this] show ?thesis
    by (auto simp: address_ok_def response_ok_def)
qed

lemma worker_code:
  assumes "worker_run hive n endpoint q = (End_Response r, s', tried)"
  shows "wr_error_code r \<noteq> code_num EC_WorkerUnreachable"
proof -
  note run = assms [unfolded worker_run_def]
  from run show ?thesis
  proof (cases rule: handle_scrape_cases)
    case Away
    then show ?thesis
      using run
      by (auto simp: worker_scrape_page_def handle_scrape_def refusal_def failed_response_def Let_def
          attempts_on_def dest: bind_context_code split: if_splits sum.splits prod.splits)
  next
    case (Refused r')
    then show ?thesis using bind_context_code by blast
  next
    case (Tried c p)
    from Tried(2) show ?thesis
      by (cases rule: attempts_on_cases) (auto dest: run_attempt_not_unreachable acquire_for_code)
  qed
qed

section \<open>Each attempt of the loop\<close>

text \<open>
  After attempt \<open>n\<close> there is time for another, and a healthy pod of the scope with a free slot that the
  request has not tried.
\<close>

definition retry_possible :: "coord_env \<Rightarrow> coord_request \<Rightarrow> string set \<Rightarrow> nat \<Rightarrow> bool" where
  "retry_possible ce q tried n \<longleftrightarrow>
     (let ae = ce_attempts ce n
      in MIN_RETRY_TIME_REMAINING \<le> request_deadline ce q - ae_now_after ae \<and>
         (\<exists>ws. hget (ae_workers ae) (cq_scope_name q) = Some ws \<and>
            (\<exists>w \<in> set ws. pod_name w \<in> ae_healthy ae \<and> pod_name w \<notin> tried \<and>
               0 < tracker_free_slots (ae_in_flight ae) w)))"

lemma served_by_env [simp]:
  "request_deadline (served_by panic hive ch ce) q = request_deadline ce q"
  "ae_now_after (ce_attempts (served_by panic hive ch ce) n) = ae_now_after (ce_attempts ce n)"
  "ae_workers (ce_attempts (served_by panic hive ch ce) n) = ae_workers (ce_attempts ce n)"
  "ae_healthy (ce_attempts (served_by panic hive ch ce) n) = ae_healthy (ce_attempts ce n)"
  "ae_in_flight (ce_attempts (served_by panic hive ch ce) n) = ae_in_flight (ce_attempts ce n)"
  "ae_rotation (ce_attempts (served_by panic hive ch ce) n) = ae_rotation (ce_attempts ce n)"
  "ce_cancelled (served_by panic hive ch ce) = ce_cancelled ce"
  by (simp_all add: served_by_def request_deadline_def)

lemma retry_possible_served [simp]:
  "retry_possible (served_by panic hive ch ce) q tried n = retry_possible ce q tried n"
  by (simp add: retry_possible_def Let_def)

text \<open>A retryable answer is retried, unless its attempts are used up or no retry is possible.\<close>

lemma next_worker_None:
  assumes "next_worker ce q (ce_attempts ce n) tried n outcome = None" "retry_plan_of q outcome = Some plan"
    and "n < rp_max_attempts plan"
  shows "\<not> retry_possible ce q tried n"
proof
  let ?ae = "ce_attempts ce n"
  assume "retry_possible ce q tried n"
  then obtain ws wk where time: "MIN_RETRY_TIME_REMAINING \<le> request_deadline ce q - ae_now_after ?ae"
    and ws: "hget (ae_workers ?ae) (cq_scope_name q) = Some ws"
    and wk: "wk \<in> set ws" "pod_name wk \<in> ae_healthy ?ae" "pod_name wk \<notin> tried"
      "0 < tracker_free_slots (ae_in_flight ?ae) wk"
    by (auto simp: retry_possible_def Let_def)
  let ?cs = "filter (\<lambda>v. pod_name v \<in> ae_healthy ?ae \<and> pod_name v \<notin> tried) ws"
  have in_cs: "wk \<in> set ?cs" using wk by simp
  then have "?cs \<noteq> []"
    by (rule length_greater_0_conv [THEN iffD1, OF length_pos_if_in_set])
  then have "pick_most_free ?cs (tracker_free_slots (ae_in_flight ?ae)) (ae_rotation ?ae) \<noteq> None"
    unfolding pick_most_free_None .
  then obtain best free where best:
    "pick_most_free ?cs (tracker_free_slots (ae_in_flight ?ae)) (ae_rotation ?ae) = Some (best, free)"
    by (elim not_None_eq [THEN iffD1, elim_format] exE) (rule prod.exhaust, simp)
  have "0 < free"
    by (rule order_less_le_trans [OF wk(4) pick_most_free_Some(3) [OF best in_cs]])
  then show False
    using assms time ws best by (auto simp: next_worker_def Let_def)
qed

text \<open>Only the last attempt of the loop is not followed by another.\<close>

lemma retry_loop_chain:
  fixes ce q ray_id scope
  defines "as \<equiv> \<lambda>ex n w ep. attempts (snd (retry_loop ce q ray_id scope ex n w ep))"
  shows "m < length (as ex n w ep) \<Longrightarrow>
    loop_next ce q ray_id (ex \<union> fst ` set (take m (as ex n w ep))) (n + m)
      (fst (as ex n w ep ! m)) (snd (as ex n w ep ! m)) = None \<longleftrightarrow> Suc m = length (as ex n w ep)"
proof (induction ex n w ep arbitrary: m rule: retry_loop_rule [where ce = ce and q = q and ray_id = ray_id])
  case (stop ex n w ep)
  then show ?case by (simp add: as_def retry_loop_stop)
next
  case (again ex n w ep w' ep' reason)
  have as: "as ex n w ep = (w, ep) # as (insert w ex) (n + 1) w' ep'"
    using again(1) by (simp add: as_def retry_loop_again)
  have ne: "as (insert w ex) (n + 1) w' ep' \<noteq> []"
    using retry_loop_result [of ce q ray_id scope "insert w ex" "n + 1" w' ep'] by (auto simp: as_def)
  show ?case
  proof (cases m)
    case 0
    then show ?thesis using again(1) ne by (simp add: as)
  next
    case (Suc k)
    then show ?thesis using again.IH [of k] again.prems by (simp add: as)
  qed
qed

lemma loop_sent:
  assumes "m < length (attempts (snd (retry_loop (served_by panic hive ch ce) q ray_id scope ex n w ep)))"
    and "at_m = attempts (snd (retry_loop (served_by panic hive ch ce) q ray_id scope ex n w ep)) ! m"
    and "ch (Suc (n + m)) (snd at_m) = Delivered"
  shows "(Suc (n + m), snd at_m, forwarded_request (served_by panic hive ch ce) q ray_id
      (ae_now_send (ce_attempts (served_by panic hive ch ce) (Suc (n + m))))) \<in>
    set (sent_at n (snd (retry_loop (served_by panic hive ch ce) q ray_id scope ex n w ep)))"
  using assms
proof (induction ex n w ep arbitrary: m
    rule: retry_loop_rule [where ce = "served_by panic hive ch ce" and q = q and ray_id = ray_id])
  case (stop ex n w ep)
  then show ?case by (simp add: retry_loop_stop sent_at_append served_sent)
next
  case (again ex n w ep w' ep' reason)
  show ?case
  proof (cases m)
    case 0
    then show ?thesis
      using again.hyps again.prems by (simp add: retry_loop_again sent_at_append served_sent)
  next
    case (Suc k)
    then show ?thesis
      using again.IH [of k] again.hyps again.prems by (simp add: retry_loop_again sent_at_append)
  qed
qed

section \<open>What a request pays\<close>

text \<open>The last worker's own word that it is shutting down, and an attempt that brought no word at all.\<close>

definition said_terminating ::
  "(string \<Rightarrow> hive_worker) \<Rightarrow> channel \<Rightarrow> (nat \<times> string \<times> worker_request) list \<Rightarrow> nat \<Rightarrow> string \<Rightarrow> bool" where
  "said_terminating hive ch sent n endpoint \<longleftrightarrow>
     ch n endpoint = Delivered \<and>
     (\<exists>wq r s' tried. (n, endpoint, wq) \<in> set sent \<and>
        worker_run hive n endpoint wq = (End_Response r, s', tried) \<and>
        wr_error_code r = code_num EC_Terminating)"

definition no_answer ::
  "(string \<Rightarrow> hive_worker) \<Rightarrow> channel \<Rightarrow> (nat \<times> string \<times> worker_request) list \<Rightarrow> nat \<Rightarrow> string \<Rightarrow> bool" where
  "no_answer hive ch sent n endpoint \<longleftrightarrow>
     ch n endpoint \<noteq> Delivered \<or>
     (\<exists>wq s' tried. (n, endpoint, wq) \<in> set sent \<and> worker_run hive n endpoint wq = (End_Panic, s', tried))"

lemma served_word:
  assumes m: "m < length (attempts (snd (retry_loop (served_by panic hive ch ce) q ray_id scope {} 0 w ep)))"
    and at_m: "at_m = attempts (snd (retry_loop (served_by panic hive ch ce) q ray_id scope {} 0 w ep)) ! m"
  defines "reply \<equiv> loop_reply (served_by panic hive ch ce) q ray_id (Suc m) (snd at_m)"
    and "sent \<equiv> sent_at 0 (snd (retry_loop (served_by panic hive ch ce) q ray_id scope {} 0 w ep))"
  shows "reply = Reply r \<Longrightarrow> wr_error_code r = code_num EC_Terminating \<Longrightarrow>
      said_terminating hive ch sent (Suc m) (snd at_m)"
    "reply = Reply r \<Longrightarrow> wr_error_code r \<noteq> code_num EC_WorkerUnreachable"
    "(\<exists>e. reply = Connect_Failed e) \<or> (\<exists>e. reply = Rpc_Failed e) \<Longrightarrow>
      no_answer hive ch sent (Suc m) (snd at_m)"
proof -
  let ?q = "forwarded_request (served_by panic hive ch ce) q ray_id
    (ae_now_send (ce_attempts (served_by panic hive ch ce) (Suc m)))"
  have reply: "reply = deliver (ch (Suc m) (snd at_m)) (grpc_reply panic (fst (worker_run hive (Suc m) (snd at_m) ?q)))"
    unfolding reply_def by (rule served_reply)
  obtain a s' tried where run: "worker_run hive (Suc m) (snd at_m) ?q = (a, s', tried)"
    by (metis prod_cases3)
  have sent: "ch (Suc m) (snd at_m) = Delivered \<Longrightarrow> (Suc m, snd at_m, ?q) \<in> set sent"
    using loop_sent [OF m at_m] unfolding sent_def by simp
  show "reply = Reply r \<Longrightarrow> wr_error_code r = code_num EC_Terminating \<Longrightarrow>
      said_terminating hive ch sent (Suc m) (snd at_m)"
    using reply run sent unfolding said_terminating_def
    by (cases "ch (Suc m) (snd at_m)"; cases a) auto
  show "reply = Reply r \<Longrightarrow> wr_error_code r \<noteq> code_num EC_WorkerUnreachable"
    using reply run worker_code [of hive "Suc m" "snd at_m" ?q]
    by (cases "ch (Suc m) (snd at_m)"; cases a) auto
  show "(\<exists>e. reply = Connect_Failed e) \<or> (\<exists>e. reply = Rpc_Failed e) \<Longrightarrow>
      no_answer hive ch sent (Suc m) (snd at_m)"
    using reply run sent unfolding no_answer_def
    by (cases "ch (Suc m) (snd at_m)"; cases a) auto
qed

text \<open>An attempt after the second one follows a second pod that said it is shutting down.\<close>

lemma third_attempt:
  assumes "loop_next ce q ray_id ex 1 w ep = Some x"
  shows "\<exists>r. loop_reply ce q ray_id 2 ep = Reply r \<and> wr_error_code r = code_num EC_Terminating"
proof -
  obtain w' ep' reason where x: "x = (w', ep', reason)" by (cases x)
  from assms [unfolded x] obtain reply where r: "loop_reply ce q ray_id 2 ep = reply"
    "next_worker ce q (ce_attempts ce 2) (insert w ex) 2 (outcome_of w reply) = Some (w', ep', reason)"
    by (rule loop_next_next_worker) (simp add: numeral_2_eq_2)
  from r(2) obtain plan where "retry_plan_of q (outcome_of w reply) = Some plan" "2 < rp_max_attempts plan"
    by (rule next_worker_Some)
  then show ?thesis
    using r(1)
    by (cases reply)
      (auto simp: retry_plan_of_def outcome_of_def classify_retry_def classify_unreachable_retry_def cfg_simps
        split: if_splits)
qed

lemma fst_last_insert: "as \<noteq> [] \<Longrightarrow> insert (fst (last as)) (fst ` set (take (length as - 1) as)) = fst ` set as"
  by (subst (4) append_butlast_last_id [symmetric]) (simp_all add: butlast_conv_take)

lemma dispatch_pays:
  fixes panic hive ch ce q ray_id scope ep w sm es
  assumes d: "dispatch (served_by panic hive ch ce) q ray_id scope ep w sm = (Inr resp, sm', es, reason)"
  defines "tried \<equiv> attempts es" and "sent \<equiv> sent_at 0 es"
  shows "cr_error_code resp = code_num EC_Terminating \<Longrightarrow>
      tried \<noteq> [] \<and> said_terminating hive ch sent (length tried) (snd (last tried)) \<and>
      (length tried = 3 \<and> said_terminating hive ch sent 2 (snd (tried ! 1)) \<or>
       \<not> retry_possible ce q (fst ` set tried) (length tried))" (is "?terminating \<Longrightarrow> _")
    and "cr_error_code resp = code_num EC_WorkerUnreachable \<Longrightarrow>
      tried \<noteq> [] \<and> no_answer hive ch sent (length tried) (snd (last tried)) \<and>
      (cq_session_id q \<noteq> [] \<or> 2 \<le> length tried \<or>
       \<not> retry_possible ce q (fst ` set tried) (length tried))" (is "?unreachable \<Longrightarrow> _")
proof -
  let ?ce = "served_by panic hive ch ce"
  let ?loop = "retry_loop ?ce q ray_id scope {} 0 w ep"
  from d obtain n w' ep' where l: "last (attempts es) = (w', ep')" "attempts es \<noteq> []"
    "n = length (attempts es)" "es = snd ?loop"
    and c: "case loop_reply ?ce q ray_id n ep' of
       Rpc_InvalidArgument e \<Rightarrow> (Inr resp :: string + coord_response) = Inl e \<and> reason = None
     | Reply r \<Rightarrow>
         (let fin = finish_answered ?ce q ray_id w' ep' (fst (map_capacity q r)) (session_run (ce_other_sessions ?ce) sm)
          in (Inr resp :: string + coord_response) = Inr (fst fin) \<and> sm' = snd fin \<and> reason = snd (map_capacity q r))
     | reply \<Rightarrow> reason = Some Reject_WorkerUnreachable \<and>
         (\<exists>m. (Inr resp :: string + coord_response) = Inr ((reject_response ?ce ray_id (code_num EC_WorkerUnreachable) m)
                        \<lparr>cr_worker_id := w'\<rparr>))"
    by (rule dispatch_answer)
  have tried: "tried = attempts (snd ?loop)" and sent: "sent = sent_at 0 (snd ?loop)"
    using l(4) by (simp_all add: tried_def sent_def)
  have ne: "tried \<noteq> []" and k: "n = length tried" "last tried = (w', ep')"
    using l by (simp_all add: tried_def)
  define m where "m = length tried - 1"
  have m: "m < length tried" "Suc m = length tried" "tried ! m = (w', ep')"
    using ne k(2) last_conv_nth [OF ne] by (simp_all add: m_def)
  have all: "insert w' (fst ` set (take m tried)) = fst ` set tried"
    using fst_last_insert [OF ne] by (simp add: k(2) m_def)
  note chain = retry_loop_chain [where ce = ?ce and q = q and ray_id = ray_id and scope = scope and ex = "{}"
      and n = 0 and w = w and ep = ep, folded tried, simplified]
  note word = served_word [where panic = panic and hive = hive and ch = ch and ce = ce and q = q and ray_id = ray_id
      and scope = scope and w = w and ep = ep, folded tried sent]
  have stop: "loop_next ?ce q ray_id (fst ` set (take m tried)) m w' ep' = None"
    using chain [OF m(1)] m(2,3) by simp
  have goes_on: "\<not> retry_possible ce q (fst ` set tried) (length tried)"
    if "loop_reply ?ce q ray_id n ep' = reply" "\<nexists>e. reply = Rpc_InvalidArgument e"
      "retry_plan_of q (outcome_of w' reply) = Some plan" "n < rp_max_attempts plan" for reply plan
  proof -
    have "next_worker ?ce q (ce_attempts ?ce n) (fst ` set tried) n (outcome_of w' reply) = None"
      using stop that(1,2) unfolding all [symmetric] by (cases reply) (simp_all add: loop_next_def m(2) k(1))
    from next_worker_None [OF this that(3,4)] show ?thesis by (simp add: k(1))
  qed
  have few: "length tried \<le> 3"
    using retry_loop_attempts [of w "{}" ?ce q ray_id scope 0 ep] by (simp add: tried)
  show "tried \<noteq> [] \<and> said_terminating hive ch sent (length tried) (snd (last tried)) \<and>
      (length tried = 3 \<and> said_terminating hive ch sent 2 (snd (tried ! 1)) \<or>
       \<not> retry_possible ce q (fst ` set tried) (length tried))" if down: ?terminating
  proof -
    obtain r where r: "loop_reply ?ce q ray_id n ep' = Reply r" "wr_error_code r = code_num EC_Terminating"
      using c down
      by (cases "loop_reply ?ce q ray_id n ep'") (auto simp: reject_response_def map_capacity_def Let_def split: if_splits)
    have said: "said_terminating hive ch sent (length tried) (snd (last tried))"
      using word(1) [OF m(1) refl] r m k by simp
    have "length tried = 3 \<and> said_terminating hive ch sent 2 (snd (tried ! 1))"
      if "retry_possible ce q (fst ` set tried) (length tried)"
    proof -
      have "\<not> n < 3"
        using goes_on [OF r(1)] that r(2) by (auto simp: retry_plan_of_def outcome_of_def classify_retry_def cfg_simps)
      then have three: "length tried = 3" using few k(1) by simp
      then have "loop_next ?ce q ray_id (fst ` set (take 1 tried)) 1 (fst (tried ! 1)) (snd (tried ! 1)) \<noteq> None"
        using chain [of 1] by simp
      then show ?thesis
        using third_attempt word(1) [OF _ refl, of 1] three by (fastforce simp: numeral_2_eq_2)
    qed
    then show ?thesis using ne said by blast
  qed
  show "tried \<noteq> [] \<and> no_answer hive ch sent (length tried) (snd (last tried)) \<and>
      (cq_session_id q \<noteq> [] \<or> 2 \<le> length tried \<or> \<not> retry_possible ce q (fst ` set tried) (length tried))"
    if unreachable: ?unreachable
  proof -
    have r: "(\<exists>e. loop_reply ?ce q ray_id n ep' = Connect_Failed e) \<or> (\<exists>e. loop_reply ?ce q ray_id n ep' = Rpc_Failed e)"
    proof (cases "loop_reply ?ce q ray_id n ep'")
      case (Reply r)
      then have "wr_error_code r \<noteq> code_num EC_WorkerUnreachable"
        using word(2) [OF m(1) refl] m k by simp
      then show ?thesis
        using c unreachable Reply by (auto simp: map_capacity_def Let_def split: if_splits)
    qed (use c in simp_all)
    have none: "no_answer hive ch sent (length tried) (snd (last tried))"
      using word(3) [OF m(1) refl] r m k by simp
    obtain reply where reply: "loop_reply ?ce q ray_id n ep' = reply" "\<nexists>e. reply = Rpc_InvalidArgument e"
      "\<exists>text. outcome_of w' reply = Unreachable text"
      using r by (cases "loop_reply ?ce q ray_id n ep'") (auto simp: outcome_of_def)
    have "\<not> retry_possible ce q (fst ` set tried) (length tried)" if "cq_session_id q = []" "\<not> 2 \<le> length tried"
      using goes_on [OF reply(1,2)] reply(3) that k(1)
      by (auto simp: retry_plan_of_def classify_unreachable_retry_def cfg_simps)
    then show ?thesis using ne none by blast
  qed
qed


text \<open>
  A scope of two pods, both restarting: the server of \<open>a\<close> is closed already, \<open>b\<close> still refuses.
\<close>

definition restart_workers :: worker_map where
  "restart_workers = [(''s'', [sample_worker ''a'' 2 0, (sample_worker ''b'' 1 0)\<lparr>pod_ip := ''10.0.0.2''\<rparr>])]"

definition restart_env :: coord_env where
  "restart_env = (sample_env (\<lambda>_. 0))
     \<lparr>ce_workers := restart_workers, ce_attempts := \<lambda>n. (sample_attempt (\<lambda>_. 0) n)\<lparr>ae_workers := restart_workers\<rparr>\<rparr>"

definition restart_hive :: "string \<Rightarrow> hive_worker" where
  "restart_hive endpoint =
     \<lparr>hw_config = blocking_worker AlwaysNew, hw_env = (\<lambda>_. sample_service),
      hw_state = (\<lambda>_. sample_state\<lparr>sv_ready := False\<rparr>)\<rparr>"

definition restart_channel :: channel where
  "restart_channel n endpoint = (if endpoint = ''http://10.0.0.1:50052'' then Refused ''closed'' else Delivered)"

lemma restart_run:
  "fst (worker_run restart_hive n endpoint wq) =
     End_Response (refusal (sv_acquire sample_service) wq EC_Terminating
       ''Worker is shutting down, please retry with another instance'')"
  by (simp add: worker_run_def restart_hive_def worker_scrape_page_def handle_scrape_def)

lemma restart_eval:
  "\<exists>resp sm effects.
     scrape_page (served_by [] restart_hive restart_channel restart_env) (sample_request ''s'' '''') sample_sessions =
       (Inr resp, sm, effects) \<and> cr_error_code resp = code_num EC_Terminating \<and>
     attempts effects = [(''a'', ''http://10.0.0.1:50052''), (''b'', ''http://10.0.0.2:50052'')]"
  by (simp add: scrape_page_def dispatch_def map_capacity_def case_prod_unfold served_by_def restart_run
      restart_env_def restart_workers_def restart_channel_def http_endpoint_def show_nat.simps
      Coordinator_Props.sample_defs Coordinator_Props.routing_eval loop_eval)


end
