(* ===== verification/Spec2Isabelle.thy ===== *)
theory Spec2Isabelle
  imports Session_Store In_Flight Wait_Params Worker_Routing Coordinator_Props Pool_Props Challenge Browser_Slots Third_Party Worker_Service
    Hive_System Diagnostics Shutdown Browser_Cdp Worker_Metrics Worker_Main Coordinator_Fleet Health_Monitor
    Response_Observer Diagnostics_Session Cancel_Token Page_Probes Metrics_Registry Startup
    Server_Close Request_Guards Logging Tab_Init Rolling_Restart
begin

text \<open>
  Browser Hive: a coordinator that routes page-scraping requests to worker pods, and workers that run
  them in pooled browser contexts.  The theories below model the Rust crates \<open>common\<close>, \<open>coordinator\<close>,
  \<open>worker\<close> and \<open>proto\<close>; definitions carry the names of the code.

  \<^bold>\<open>How the parts interact.\<close>  A client calls the coordinator's \<open>scrape_page\<close>.  Without a session the
  request goes to the worker with the most free slots in its scope, as discovery last saw them, corrected
  by the requests in flight; with one it goes to the session's worker.  An answer that the worker could
  not take the request is retried elsewhere, a bounded number of times.  The worker binds a context
  of its pool (or builds one in Chrome), navigates a tab, waits for the page by a strategy, judges the
  outcome, and gives everything back; the context id it answers with becomes the client's session.
  Beside the requests run the lifecycle monitor of the pool, the iframe sampler, discovery, the health
  monitor and the metrics servers; a worker that is told to stop drains and reports itself unhealthy.

  \<^bold>\<open>Prelude.\<close>  \<open>Hive_Prelude\<close> holds hash maps as association lists (the list order is the unspecified
  iteration order), strings, number parsing, and the \<open>named_theorems\<close>.  \<open>Polling\<close> (locale
  \<open>budgeted_poll\<close>) is the contract of every polling loop, \<open>Capped\<close> (locale \<open>capped_store\<close>) of every store
  bounded by a cap.

  \<^bold>\<open>Coordinator.\<close>
  \<^item> \<open>Hive_Types\<close>: \<open>common/types.rs\<close>, the error codes, the per-context quarantine.
  \<^item> \<open>Session_Store\<close>: \<open>common/session.rs\<close>; locale \<open>session_table\<close>, refinement to a map view.
  \<^item> \<open>In_Flight\<close>: \<open>coordinator/in_flight.rs\<close>; locale \<open>guarded_counter\<close>, the correction of snapshots.
  \<^item> \<open>Wait_Params\<close>: \<open>proto/wait.rs\<close>.  \<open>Worker_Routing\<close>: choice of a worker and the retry policy.
  \<^item> \<open>Discovery\<close>: \<open>worker_discovery.rs\<close> and \<open>local_worker_discovery.rs\<close>.  \<open>Coordinator_Metrics\<close>:
    \<open>metrics.rs\<close>.
  \<^item> \<open>Coordinator\<close> and \<open>Coordinator_Props\<close>: the handler of \<open>service.rs\<close>, its retry loop (termination by
    the number of attempts left, at most three), and what it guarantees on every path.
  \<^item> \<open>Coordinator_Fleet\<close>: what discovery and the health monitor publish, as a step relation in which the two
    maps are written one after the other; routing follows the last round in every reachable state.
  \<^item> \<open>Health_Monitor\<close>: the monitor's rounds with the time they take (locale \<open>pod_gone\<close>), interpreted on
    workers that drain: a draining worker leaves routing before its server closes when a round takes
    at most half of the pause.  The coordinator's own shutdown.

  \<^bold>\<open>Configuration and proxies.\<close>  \<open>Config\<close> (\<open>common/config.rs\<close>), \<open>Proxy\<close> (\<open>proxy.rs\<close>,
  \<open>request_context.rs\<close>, \<open>providers.rs\<close>), \<open>Worker_Main\<close> (\<open>worker/main.rs\<close>).

  \<^bold>\<open>The pool.\<close>  \<open>Browser_Pool\<close> has one definition per critical section of \<open>browser_pool.rs\<close>;
  \<open>Pool_Steps\<close> interleaves them freely with the flag operations outside the lock and proves the invariant
  by rule induction; \<open>Pool_Props\<close> states what a request may rely on.  \<open>Browser_Slots\<close> is what a slot owns
  inside Chrome, what of it a release that fails leaves behind, and the proxy its tab leaves through, \<open>Cdp_Call\<close> the bounded call (\<open>cdp_call.rs\<close>) as a step relation, \<open>Browser_Cdp\<close> the
  browser-level client (\<open>browser_cdp.rs\<close>), \<open>Middleware\<close> the launch switches and tab middlewares
  (\<open>launch_args.rs\<close>, \<open>browser_middleware.rs\<close>), \<open>Browser_Process\<close> the process tree and the zombie reaper
  (\<open>browser_resources.rs\<close>, \<open>child_reaper.rs\<close>; the walk terminates because a process is visited once).

  \<^bold>\<open>A request on the worker.\<close>  \<open>Wait_Strategy\<close> and \<open>Challenge\<close> are the two waits of \<open>common\<close>, as functions
  of the readings they make; \<open>Page_Load\<close> the load tracker and its verdict; \<open>Request_Outcome\<close> how the end
  of a request is judged; \<open>Worker_Scrape\<close> the attempt (\<open>scrape_page_internal\<close>) as stages that pass on or
  end it, with the effects in order; \<open>Scrape_Props\<close> its contract; \<open>Worker_Service\<close> the handler around it,
  with acquisition, recovery from a dead browser, the single retry and the counters.  \<open>Response_Observer\<close> is
  the listener of an attempt: each part of its state (documents, proxy failures, blocked loads, third-party
  loads, page tracker) is the run of that part's own step over the events meant for it, and the attempt's answer
  reports the last document it saw.  \<open>Page_Probes\<close> reads a page for the strategies, runs the in-page wait
  and the clock of the loops: with iterations that take time, a reading at the budget is made after at most one
  iteration per millisecond, which discharges the hypothesis of the termination of the waits.
  \<open>Cancel_Token\<close> is the crate \<open>tokio-cancellation-ext\<close>: a cancelled token ends every wait at its next poll.

  \<^bold>\<open>Observation and shutdown.\<close>  \<open>Third_Party\<close>, \<open>Page_Activity\<close>, \<open>Diagnostics\<close>, \<open>Worker_Metrics\<close> and
  \<open>Shutdown\<close> are the files of those names.  \<open>Diagnostics_Session\<close> is the life of a capture in a request and
  its report; \<open>Metrics_Registry\<close> what both processes register, the five third-party families with the bound on
  their series, the iframe sampler, and the answer to a scrape of the metrics (\<open>metrics.rs\<close>, \<open>third_party.rs\<close>).

  \<^bold>\<open>Start-up.\<close>  \<open>Startup\<close>: \<open>BrowserPool::new\<close> and its drop, \<open>WorkerService::new\<close>, \<open>run_worker\<close>
  (\<open>lib.rs\<close>), \<open>CoordinatorService::new\<close> and \<open>run_coordinator\<close>: what was checked before a browser is
  launched, what stands before a process listens, and what is left when a start fails.

  \<^bold>\<open>Guards and closing.\<close>  \<open>Server_Close\<close> runs the handlers of a server beside the task that closes it, each
  atomic access a step; the locale \<open>closing_server\<close> (a gate that stays shut, a counter of live guards) is
  interpreted on the worker's close, on its drain and on the coordinator's close; the drain of a run is the
  function \<open>drain\<close> of its readings, and from every reachable state the server can finish closing.  \<open>Request_Guards\<close> has the
  listener guard and the request timer, \<open>Tab_Init\<close> the tab-init middlewares over all the tabs of a pool,
  \<open>Logging\<close> the subscriber every binary installs (\<open>logging.rs\<close>).

  \<^bold>\<open>Together.\<close>  \<open>Hive_System\<close> answers every attempt of the coordinator by a worker, over a channel that may
  refuse the connection or break the call at any point, also after the worker loaded the page; the properties
  of the whole are below, and in \<open>Rolling_Restart\<close> what a request pays for meeting workers that shut down.

  \<^bold>\<open>Conventions.\<close>  Strings are byte strings.  Times are milliseconds.  \<open>usize\<close> and \<open>u64\<close> counters are
  naturals where they cannot wrap, words where the code relies on wrapping (the rotation counter) or wraps by
  mistake (the success rate).  What another task, Chrome, the kernel or a clock answers is an input, never
  constrained beyond what is stated: a select is the input that names its winner, a polling loop is a
  function of its readings (a list, or \<open>None\<close> when they run out, and then a lemma says that the readings
  up to the deadline suffice), a lock-free flag may have been lost to another task.  Effects on Chrome and on
  shared state are traces in program order.  Errors are values of a sum, their texts kept where the code
  inspects or returns them.  Code of libraries (URL parsing, the public suffix list, humantime, the
  rendering of floats) is a parameter.

  \<^bold>\<open>Not modelled.\<close>  Log lines and tracing spans; inside the libraries: the
  Prometheus registry and its text encoder (parameters, with the documented behaviour of registration as a named
  hypothesis), the HTTP and gRPC servers, the Kubernetes client, the CDP wire format below a message; the
  scripts that render the page's state for a diagnostics report; the unused probe of the proxy's exit address
  in \<open>service.rs\<close>.  The exit of a process after its servers ended is its last value.  Success rates are
  rationals instead of \<open>f64\<close>.
\<close>

section \<open>The coordinator and its workers\<close>

text \<open>
  C2: A page succeeds once, unless its success is never heard of.  Whatever the coordinator's retries and
  the workers' own retries do, over all workers a request reaches and whatever the channel loses, the page
  loads that succeed are, in order, those made in attempts whose call broke afterwards (a lost connection, a
  deadline, an answer over the size limit) and then exactly the one the client is told of, with its content;
  so with no call broken there is none, or one and the client has it.  There is at most one in any case,
  except that a request without a session whose first call broke may load the page a second time: then
  there are at most two.
\<close>

theorem page_successes_accounted:
  "let (answer, _, effects) = scrape_page (served_by panic hive ch ce) q sm;
       sent = sent_at 0 effects;
       told = (case answer of Inr resp \<Rightarrow> if cr_success resp then [cr_content resp] else [] | Inl _ \<Rightarrow> [])
   in success_contents (page_loads hive ch sent) = success_contents (lost_loads hive ch sent) @ told \<and>
      length (success_contents (page_loads hive ch sent)) \<le>
        (if cq_session_id q = [] \<and> list_ex (\<lambda>(w, ep). is_Broken (ch 1 ep)) (take 1 (attempts effects)) then 2 else 1)"
proof (cases "ce_cancelled ce")
  case True
  then show ?thesis by (simp add: scrape_page_cancelled reject_response_def page_loads_def lost_loads_def)
next
  case False
  let ?ce = "served_by panic hive ch ce"
  have up: "\<not> ce_cancelled ?ce"
    using False by simp
  obtain r scope sm' where r: "route_request ?ce q sm = (r, scope, sm')"
    by (metis prod_cases3)
  show ?thesis
  proof (cases r)
    case (Route_Reject reason code message)
    then show ?thesis
      using scrape_page_rejected [OF up r [unfolded Route_Reject]]
      by (simp add: reject_response_def page_loads_def lost_loads_def)
  next
    case (Route_To ep w)
    obtain answer sm'' effects reason
      where d: "dispatch ?ce q (ray_id_of ?ce q) scope ep w sm' = (answer, sm'', effects, reason)"
      by (metis prod_cases4)
    obtain res es where loop: "retry_loop ?ce q (ray_id_of ?ce q) scope {} 0 w ep = (res, es)"
      by (metis surj_pair)
    have es: "effects = es"
      using dispatch_effects [of ?ce q "ray_id_of ?ce q" scope ep w sm'] d loop by simp
    have told: "contents_of_result res =
        (case answer of Inr resp \<Rightarrow> if cr_success resp then [cr_content resp] else [] | Inl _ \<Rightarrow> [])"
      using d loop by (auto simp: dispatch_def reject_response_def map_capacity_def Let_def case_prod_unfold
          split: loop_result.splits attempt_outcome.splits)
    have "hd (attempts es) = (w, ep)" "attempts es \<noteq> []"
      using retry_loop_result [of ?ce q "ray_id_of ?ce q" scope "{}" 0 w ep] loop by auto
    then have first: "take 1 (attempts es) = [(w, ep)]"
      by (cases "attempts es") simp_all
    have loads: "success_contents (page_loads hive ch (sent_at 0 es)) =
        success_contents (lost_loads hive ch (sent_at 0 es)) @ contents_of_result res"
      "length (success_contents (page_loads hive ch (sent_at 0 es))) \<le>
        (if cq_session_id q = [] \<and> is_Broken (ch 1 ep) then 2 else 1)"
      using retry_loop_loads [where hive = hive and ch = ch and panic = panic and ce = ce and q = q and
          ray_id = "ray_id_of ?ce q" and scope = scope and ex = "{}" and n = 0 and w = w and ep = ep]
      unfolding loop fst_conv snd_conv by (blast, meson)
    let ?tail = "[Eff_Metrics \<lparr>rm_scope = scope, rm_reject_reason = reason\<rparr>, Eff_Active_Leave]"
    have "sent_at 0 (Eff_Active_Enter # es @ ?tail) = sent_at 0 es"
      "attempts (Eff_Active_Enter # es @ ?tail) = attempts es"
      by (simp_all add: sent_at_append)
    then show ?thesis
      unfolding scrape_page_routed [OF up r [unfolded Route_To] d] es Let_def prod.case
      by (simp only: first loads(1) [unfolded told]) (use loads(2) loads(1) [unfolded told] in simp)
  qed
qed

text \<open>
  C7: A session stays on its context.  When the workers serve dedicated sessions, on every worker a
  continuation reaches, at every attempt of the coordinator and whatever the channel loses, the worker
  loads no page, or its first load is on the very context the session id names, and not before the load
  itself wins that context's busy flag.  The only other context a continuation may ever use is the one of
  the worker's own second try, after its browsers were replaced under the first: that one Chrome built for
  this very request, claimed before it entered the pool.  It is never handed a context of another client.
\<close>

theorem session_pages_stay_on_their_context:
  assumes "session_id_from_string (cq_session_id q) = Some sid" "sid_context_id sid \<noteq> []"
    and "\<And>endpoint. serves_dedicated (hive endpoint)"
  shows "\<forall>(n, endpoint, wq) \<in> set (sent_at 0 (snd (snd (scrape_page (served_by panic hive ch ce) q sm)))).
    case snd (snd (worker_run hive n endpoint wq)) of
      [] \<Rightarrow> True
    | (c, claimed, a) # again \<Rightarrow> bc_id c = sid_context_id sid \<and> \<not> claimed \<and>
        list_all (\<lambda>(c', claimed', a'). claimed' \<and> built_for (sv_acquire_again (hw_env (hive endpoint) n)) c') again"
proof -
  let ?ce = "served_by panic hive ch ce"
  have "cq_session_id q \<noteq> []"
    using assms(1) by (auto simp: session_id_from_string_def)
  then have "wq_context_id (forwarded_request ?ce q ray_id now) = sid_context_id sid" for ray_id now
    using assms(1) by (simp add: forwarded_request_def Let_def)
  then have "list_all (\<lambda>(_, r). wq_context_id r = sid_context_id sid)
      (sent_requests (snd (retry_loop ?ce q ray_id scope {} 0 w ep)))" for ray_id scope w ep
    using retry_loop_sent_context [of ?ce q ray_id scope "{}" 0 w ep] by simp
  then have sent: "list_all (\<lambda>(_, r). wq_context_id r = sid_context_id sid)
      (sent_requests (snd (snd (scrape_page ?ce q sm))))"
    by (cases rule: scrape_page_trace [of ?ce q sm]) simp_all
  show ?thesis
  proof (clarify)
    fix n endpoint wq
    assume "(n, endpoint, wq) \<in> set (sent_at 0 (snd (snd (scrape_page ?ce q sm))))"
    then have "(endpoint, wq) \<in> set (sent_requests (snd (snd (scrape_page ?ce q sm))))"
      using sent_requests_sent_at by blast
    then have wq: "wq_context_id wq = sid_context_id sid"
      using sent by (auto simp: list_all_iff)
    obtain a s' tried where run: "worker_run hive n endpoint wq = (a, s', tried)"
      by (metis prod_cases3)
    show "case snd (snd (worker_run hive n endpoint wq)) of
        [] \<Rightarrow> True
      | (c, claimed, a) # again \<Rightarrow> bc_id c = sid_context_id sid \<and> \<not> claimed \<and>
          list_all (\<lambda>(c', claimed', a'). claimed' \<and> built_for (sv_acquire_again (hw_env (hive endpoint) n)) c') again"
    proof (cases tried)
      case (Cons t again)
      obtain c claimed a1 where "t = (c, claimed, a1)" by (metis prod_cases3)
      then show ?thesis
        using dedicated_attempts [where hive = hive and endpoint = endpoint and q = wq and n = n, OF assms(3)]
          run assms(2) wq Cons by simp
    qed (simp add: run)
  qed
qed

subsection \<open>A continuation at a concrete worker\<close>

definition sample_session_state :: worker_state where
  "sample_session_state = sample_state
     \<lparr>sv_pool := ((pool_start (wc_scope (blocking_worker Dedicated)) [])\<lparr>bp_contexts := [sample_context ''ctx'' 0]\<rparr>, 0)\<rparr>"

definition sample_hive :: "string \<Rightarrow> hive_worker" where
  "sample_hive endpoint =
     \<lparr>hw_config = blocking_worker Dedicated, hw_env = (\<lambda>_. sample_service), hw_state = (\<lambda>_. sample_session_state)\<rparr>"

lemma sample_session_tries:
  assumes "wq_context_id q = ''ctx''" "wq_url q \<noteq> []"
  shows "snd (snd (worker_run sample_hive n endpoint q)) \<noteq> []"
proof -
  obtain d where domain: "extract_domain (se_lib (sv_scrape sample_service)) (wq_url q) = Inr d"
    using assms(2) by (simp add: sample_service_def sample_scrape_env_def extract_domain_def sample_url_lib_def)
  obtain c where b: "bind_context sample_service (blocking_worker Dedicated) q (sv_pool sample_session_state) =
      (Inr c, sv_pool sample_session_state)"
    by (simp add: bind_context_def continues_session_def returns_session_id_def blocking_worker_def assms
        sample_session_state_def end_session_if_used_up_def is_used_up_def is_used_up_at_def sample_service_def
        sample_acquire_def find_context_by_id_def pool_eval)
  obtain a p tried where t: "attempts_on sample_service (blocking_worker Dedicated) q c
      (\<not> continues_session (blocking_worker Dedicated) q) (sv_pool sample_session_state) = (a, p, tried)"
    by (metis prod_cases3)
  have "tried \<noteq> []"
    using t by (cases rule: attempts_on_cases) simp_all
  then show ?thesis
    using domain b t
    by (simp add: worker_run_def sample_hive_def worker_scrape_page_def handle_scrape_def Let_def)
      (simp add: sample_session_state_def sample_state_def)
qed

lemma sample_hive_dedicated: "serves_dedicated (sample_hive endpoint)"
  by (simp add: serves_dedicated_def sample_hive_def blocking_worker_def sample_scope_def sample_session_state_def
      sample_state_def sample_service_def pool_start_def populate_initial_contexts_def Let_def)

lemma session_pages_stay_on_their_context_witness:
  "\<exists>(n, endpoint, wq) \<in> set (sent_at 0 (snd (snd (scrape_page (served_by [] sample_hive (\<lambda>_ _. Delivered)
      (sample_env (\<lambda>_. 0))) (sample_request ''s'' ''b:ctx'') sample_sessions)))).
     \<exists>c claimed a again. snd (snd (worker_run sample_hive n endpoint wq)) = (c, claimed, a) # again \<and> bc_id c = ''ctx''"
proof -
  let ?ce = "served_by [] sample_hive (\<lambda>_ _. Delivered) (sample_env (\<lambda>_. 0))"
  let ?q = "sample_request ''s'' ''b:ctx''"
  let ?es = "snd (snd (scrape_page ?ce ?q sample_sessions))"
  have sid: "session_id_from_string (cq_session_id ?q) = Some \<lparr>sid_worker_id = ''b'', sid_context_id = ''ctx''\<rparr>"
    by (simp add: sample_request_def session_id_from_string_def)
  have "\<exists>n ep now. (n, ep, forwarded_request ?ce ?q (ray_id_of ?ce ?q) now) \<in> set (sent_at 0 ?es)"
  proof (cases rule: scrape_page_trace [of ?ce ?q sample_sessions])
    case (quiet rm)
    have q: "cq_session_id ?q = ''b:ctx''" and up: "\<not> ce_cancelled ?ce"
      by (simp_all add: sample_request_def served_by_def sample_env_def)
    have b: "''b'' \<in> pod_name ` set (workers_of (ce_workers ?ce) ''s'')"
      by (simp add: served_by_def sample_env_def sample_workers_def workers_of_def hget_def sample_worker_def)
    have "attempts ?es \<noteq> []"
      using session_path [of ?q ?ce sample_sessions] b up
      by (simp add: q sample_sessions_lookup case_prod_unfold Let_def)
    then show ?thesis by (simp add: quiet)
  next
    case (routed scope ep w sm' rm)
    obtain es where "snd (retry_loop ?ce ?q (ray_id_of ?ce ?q) scope {} 0 w ep) =
        loop_start ?ce ?q (ray_id_of ?ce ?q) 0 w ep @ es"
      by (cases "loop_next ?ce ?q (ray_id_of ?ce ?q) {} 0 w ep")
        (auto simp: retry_loop_stop retry_loop_again)
    then show ?thesis
      by (auto simp: routed(3) sent_at_append served_sent)
  qed
  then obtain n ep wq where sent: "(n, ep, wq) \<in> set (sent_at 0 ?es)" and "wq_context_id wq = ''ctx''" "wq_url wq \<noteq> []"
    using sid by (fastforce simp: forwarded_request_def Let_def sample_request_def)
  then obtain c claimed a again where tries:
    "snd (snd (worker_run sample_hive n ep wq)) = (c, claimed, a) # again"
    using sample_session_tries by (metis neq_Nil_conv prod_cases3)
  have "bc_id c = ''ctx''"
    using session_pages_stay_on_their_context [where panic = "[]" and ce = "sample_env (\<lambda>_. 0)" and
        sm = sample_sessions and hive = sample_hive and ch = "\<lambda>_ _. Delivered", OF sid _ sample_hive_dedicated]
      sent tries by fastforce
  then show ?thesis using sent tries by blast
qed

end
